(* ===== verification/Prelude.thy ===== *)
theory Prelude
  imports Main "HOL-Library.Word" "HOL-Library.Multiset"
begin

text \<open>
  Shared vocabulary of the development: the C integer types of the LP64 platforms the
  extension runs on, the faults a C function can end in, the result monad that threads
  them, the decimal conversions of the printf family, and the list facts the components
  share.
\<close>

section \<open>C integer types\<close>

text \<open>
  \<^verbatim>\<open>zend_long\<close>, \<^verbatim>\<open>size_t\<close>, \<^verbatim>\<open>uint64_t\<close> and \<^verbatim>\<open>time_t\<close>/\<^verbatim>\<open>long\<close> are 64 bits wide,
  \<^verbatim>\<open>uint32_t\<close> and \<^verbatim>\<open>int\<close> 32 bits. Signedness is in the operation: a signed comparison
  is \<open><s\<close> or \<open>\<le>s\<close> (two's complement), a comparison of a signed with an unsigned
  operand of the same width is unsigned, as the usual arithmetic conversions make it.
\<close>

type_synonym zend_long = "64 word"
type_synonym size_t = "64 word"
type_synonym uint64_t = "64 word"
type_synonym uint32_t = "32 word"
type_synonym c_int = "32 word"

section \<open>Faults and results\<close>

text \<open>
  What ends a call other than returning: a null pointer read, a read outside an array,
  an access to a freed object, reading a member of a union that is not the one stored, a loop that never ends (reported by a loop whose fuel is
  used up), \<^verbatim>\<open>zend_error_noreturn(E_ERROR, ...)\<close> and \<^verbatim>\<open>abort()\<close>.
\<close>

datatype c_fault =
    Null_Deref
  | Out_Of_Bounds
  | Use_After_Free
  | Type_Confusion
  | Diverges
  | Fatal_Error string
  | Abort string

type_synonym 'a res = "c_fault + 'a"

text \<open>The faults that are memory errors, as opposed to a request or process ended on purpose.\<close>

fun memory_fault :: "c_fault \<Rightarrow> bool" where
  "memory_fault Null_Deref = True"
| "memory_fault Out_Of_Bounds = True"
| "memory_fault Use_After_Free = True"
| "memory_fault Type_Confusion = True"
| "memory_fault _ = False"

definition rbind :: "'a res \<Rightarrow> ('a \<Rightarrow> 'b res) \<Rightarrow> 'b res" where
  "rbind m f = (case m of Inl e \<Rightarrow> Inl e | Inr x \<Rightarrow> f x)"

lemma rbind_simps [simp]:
  "rbind (Inl e) f = Inl e"
  "rbind (Inr x) f = f x"
  by (simp_all add: rbind_def)

lemma rbind_cong [fundef_cong]:
  "m = m' \<Longrightarrow> (\<And>x. m' = Inr x \<Longrightarrow> f x = f' x) \<Longrightarrow> rbind m f = rbind m' f'"
  by (cases m') auto

lemma rbind_Inr_iff: "rbind m f = Inr y \<longleftrightarrow> (\<exists>x. m = Inr x \<and> f x = Inr y)"
  by (cases m) auto

lemma rbind_Inr_D:
  assumes "rbind m f = Inr y"
  obtains x where "m = Inr x" and "f x = Inr y"
  using assms by (auto simp: rbind_Inr_iff)

fun mapR :: "('a \<Rightarrow> 'b res) \<Rightarrow> 'a list \<Rightarrow> 'b list res" where
  "mapR f [] = Inr []"
| "mapR f (x # xs) = rbind (f x) (\<lambda>y. rbind (mapR f xs) (\<lambda>ys. Inr (y # ys)))"

fun foldR :: "('s \<Rightarrow> 'a \<Rightarrow> 's res) \<Rightarrow> 's \<Rightarrow> 'a list \<Rightarrow> 's res" where
  "foldR f s [] = Inr s"
| "foldR f s (x # xs) = rbind (f s x) (\<lambda>s'. foldR f s' xs)"

lemma mapR_Inr:
  "(\<And>x. x \<in> set xs \<Longrightarrow> f x = Inr (g x)) \<Longrightarrow> mapR f xs = Inr (map g xs)"
  by (induction xs) auto

lemma foldR_Inr:
  "(\<And>s x. x \<in> set xs \<Longrightarrow> f s x = Inr (g s x)) \<Longrightarrow> foldR f s xs = Inr (foldl g s xs)"
  by (induction xs arbitrary: s) auto

lemma foldR_append: "foldR f s (xs @ ys) = rbind (foldR f s xs) (\<lambda>s'. foldR f s' ys)"
proof (induction xs arbitrary: s)
  case (Cons x xs)
  then show ?case by (cases "f s x") auto
qed simp

text \<open>Reading through a pointer that may be null.\<close>

definition deref :: "'a option \<Rightarrow> 'a res" where
  "deref p = (case p of None \<Rightarrow> Inl Null_Deref | Some x \<Rightarrow> Inr x)"

lemma deref_simps [simp]: "deref None = Inl Null_Deref" "deref (Some x) = Inr x"
  by (simp_all add: deref_def)

section \<open>Decimal conversion (\<open>%d\<close> and \<open>%ld\<close>)\<close>

definition digit_char :: "nat \<Rightarrow> char" where
  "digit_char d = ''0123456789'' ! d"

definition char_digit :: "char \<Rightarrow> nat" where
  "char_digit c = of_char c - 48"

fun dec_nat :: "nat \<Rightarrow> string" where
  "dec_nat n = (if n < 10 then [digit_char n]
                else dec_nat (n div 10) @ [digit_char (n mod 10)])"

declare dec_nat.simps [simp del]

definition dec_int :: "int \<Rightarrow> string" where
  "dec_int i = (if i < 0 then CHR ''-'' # dec_nat (nat (- i)) else dec_nat (nat i))"

text \<open>The signed conversions the source uses, on a 32-bit and a 64-bit argument.\<close>

definition printf_d :: "uint32_t \<Rightarrow> string" where
  "printf_d w = dec_int (sint w)"

definition printf_ld :: "zend_long \<Rightarrow> string" where
  "printf_ld w = dec_int (sint w)"

text \<open>A reader for them, for the round trips.\<close>

definition read_nat :: "string \<Rightarrow> nat" where
  "read_nat s = foldl (\<lambda>n c. 10 * n + char_digit c) 0 s"

definition read_int :: "string \<Rightarrow> int" where
  "read_int s = (case s of [] \<Rightarrow> 0
     | c # cs \<Rightarrow> if c = CHR ''-'' then - int (read_nat cs) else int (read_nat s))"

lemma digit_char_code: "d < 10 \<Longrightarrow> of_char (digit_char d) = 48 + d"
proof -
  assume "d < 10"
  then have "d \<in> {0, 1, 2, 3, 4, 5, 6, 7, 8, 9}" by auto
  then show ?thesis by (auto simp: digit_char_def)
qed

lemma char_digit_digit_char [simp]: "d < 10 \<Longrightarrow> char_digit (digit_char d) = d"
  by (simp add: char_digit_def digit_char_code)

lemma read_nat_dec_nat [simp]: "read_nat (dec_nat n) = n"
proof (induction n rule: dec_nat.induct)
  case (1 n)
  show ?case
  proof (cases "n < 10")
    case True
    then show ?thesis by (simp add: dec_nat.simps [of n] read_nat_def)
  next
    case False
    with "1" have "read_nat (dec_nat (n div 10)) = n div 10" by simp
    with False show ?thesis by (simp add: dec_nat.simps [of n] read_nat_def)
  qed
qed

definition digit_chars :: "char set" where
  "digit_chars = digit_char ` {..<10}"

lemma dec_nat_chars: "set (dec_nat n) \<subseteq> digit_chars"
proof (induction n rule: dec_nat.induct)
  case (1 n)
  then show ?case by (auto simp: dec_nat.simps [of n] digit_chars_def)
qed

lemma digit_chars_range: "c \<in> digit_chars \<Longrightarrow> 48 \<le> (of_char c :: nat) \<and> of_char c < (58 :: nat)"
  by (auto simp: digit_chars_def digit_char_code)

lemma dec_nat_nonempty [simp]: "dec_nat n \<noteq> []"
  by (subst dec_nat.simps) simp

lemma dec_int_chars: "set (dec_int i) \<subseteq> insert (CHR ''-'') digit_chars"
  using dec_nat_chars by (auto simp: dec_int_def)

lemma dec_int_nonempty [simp]: "dec_int i \<noteq> []"
  by (simp add: dec_int_def)

lemma dec_int_code_range: "c \<in> set (dec_int i) \<Longrightarrow> 45 \<le> (of_char c :: nat) \<and> of_char c < (58 :: nat)"
  using dec_int_chars [of i] digit_chars_range [of c] by fastforce

lemma dec_int_no_separator:
  assumes "c \<in> set (dec_int i)"
  shows "c \<noteq> CHR 0x00" "c \<noteq> CHR '' ''" "c \<noteq> CHR 0x0A"
  using dec_int_code_range [OF assms] by auto

lemma read_int_dec_int [simp]: "read_int (dec_int i) = i"
proof (cases "i < 0")
  case True
  then show ?thesis by (simp add: dec_int_def read_int_def)
next
  case False
  obtain c cs where s: "dec_nat (nat i) = c # cs" by (cases "dec_nat (nat i)") auto
  with dec_nat_chars [of "nat i"] have "c \<in> digit_chars" by auto
  then have "c \<noteq> CHR ''-''" using digit_chars_range by fastforce
  moreover have "read_nat (c # cs) = nat i" using s read_nat_dec_nat [of "nat i"] by simp
  ultimately show ?thesis using False s by (simp add: dec_int_def read_int_def)
qed

lemma dec_int_inject [simp]: "dec_int i = dec_int j \<longleftrightarrow> i = j"
  by (metis read_int_dec_int)

lemma printf_d_inject [simp]: "printf_d v = printf_d w \<longleftrightarrow> v = w"
  by (auto simp: printf_d_def intro: signed_word_eqI)

lemma printf_ld_inject [simp]: "printf_ld v = printf_ld w \<longleftrightarrow> v = w"
  by (auto simp: printf_ld_def intro: signed_word_eqI)

lemma printf_d_nonul [simp]: "CHR 0x00 \<notin> set (printf_d w)"
  by (auto simp: printf_d_def dest: dec_int_no_separator)

section \<open>Words as numbers\<close>

named_theorems word_nat \<open>reading back a word built from a number in range\<close>

lemma unat_of_nat64 [word_nat]: "n < 2 ^ 64 \<Longrightarrow> unat (of_nat n :: 64 word) = n"
  by (simp add: unat_of_nat)

lemma unat_of_nat32 [word_nat]: "n < 2 ^ 32 \<Longrightarrow> unat (of_nat n :: 32 word) = n"
  by (simp add: unat_of_nat)

lemma sint_of_nat64 [word_nat]: "n < 2 ^ 63 \<Longrightarrow> sint (of_nat n :: 64 word) = int n"
  by (simp add: signed_of_nat signed_take_bit_int_eq_self)

lemma ucast_of_nat_64_32 [word_nat]:
  "n < 2 ^ 32 \<Longrightarrow> (ucast (of_nat n :: 64 word) :: 32 word) = of_nat n"
  by (simp add: unsigned_of_nat take_bit_nat_eq_self)

lemma ucast_of_nat_32_64 [word_nat]:
  "n < 2 ^ 32 \<Longrightarrow> (ucast (of_nat n :: 32 word) :: 64 word) = of_nat n"
  by (simp add: unsigned_of_nat take_bit_nat_eq_self)

lemma unat_ucast_32_64 [simp]: "unat (ucast (w :: 32 word) :: 64 word) = unat w"
  using unsigned_less [of w, where ?'a = nat]
  by (simp add: unsigned_ucast_eq take_bit_nat_eq_self)

lemma sint_ucast_32_64 [simp]: "sint (ucast (w :: 32 word) :: 64 word) = int (unat w)"
proof -
  have "sint (of_nat (unat w) :: 64 word) = int (unat w)"
    using unsigned_less [of w, where ?'a = nat] by (intro sint_of_nat64) simp
  then show ?thesis by simp
qed

lemma nat_sint_unat: "0 \<le> sint w \<Longrightarrow> nat (sint w) = unat w" for w :: "'a :: len word"
proof -
  assume "0 \<le> sint w"
  moreover have "sint w < 2 ^ LENGTH('a)"
    using sint_less [of w] power_increasing [of "LENGTH('a) - Suc 0" "LENGTH('a)" "2 :: int"]
    by linarith
  ultimately have "uint w = sint w" by (simp add: uint_sint take_bit_int_eq_self)
  then show ?thesis by (metis nat_uint_eq)
qed

lemma unat32_less [simp]: "unat (w :: 32 word) < 2 ^ 32"
  using unsigned_less [of w, where ?'a = nat] by simp

lemma unat64_less [simp]: "unat (w :: 64 word) < 2 ^ 64"
  using unsigned_less [of w, where ?'a = nat] by simp

text \<open>Signed sums and differences that stay in range.\<close>

lemma sint64_eq:
  "sint (a + b) = sint a + sint b" if "- (2 ^ 63) \<le> sint a + sint b" "sint a + sint b < 2 ^ 63" for a b :: "64 word"
  using that by (simp add: sint_word_ariths signed_take_bit_int_eq_self)

lemma sint64_diff_eq:
  "sint (a - b) = sint a - sint b" if "- (2 ^ 63) \<le> sint a - sint b" "sint a - sint b < 2 ^ 63" for a b :: "64 word"
  using that by (simp add: sint_word_ariths signed_take_bit_int_eq_self)

section \<open>Lists\<close>

lemma append_sep_last_inject:
  assumes "x \<notin> set bs" and "x \<notin> set bs'"
  shows "as @ x # bs = as' @ x # bs' \<longleftrightarrow> as = as' \<and> bs = bs'"
  using assms by (auto simp: append_eq_append_conv2 append_eq_Cons_conv Cons_eq_append_conv)

lemma append_sep_first_inject:
  assumes "x \<notin> set as" and "x \<notin> set as'"
  shows "as @ x # bs = as' @ x # bs' \<longleftrightarrow> as = as' \<and> bs = bs'"
  using assms by (auto simp: append_eq_append_conv2 append_eq_Cons_conv Cons_eq_append_conv)

end
