(* ===== verification/Zend_Hash.thy ===== *)
theory Zend_Hash
  imports Prelude
begin

text \<open>
  PHP's array type (the engine's \<^verbatim>\<open>HashTable\<close>) by its documented value: the key/value pairs
  in insertion order, with at most one pair per key. \<open>zh_add\<close> is \<^verbatim>\<open>zend_hash_add\<close> (no effect
  on a present key), \<open>zh_set\<close> a write through the value pointer a lookup returned. The
  locale \<open>hash_table\<close> is the contract the log's code relies on; \<open>counter_table\<close> proves once
  what the idiom \<^verbatim>\<open>ht[key] += term\<close> computes over a whole sequence of increments.
\<close>

section \<open>Values\<close>

datatype zkey = KStr string | KIdx uint64_t

datatype zval = ZNull | ZLong zend_long | ZStr string | ZArr "(zkey \<times> zval) list"

text \<open>A packed array, as built by \<^verbatim>\<open>zend_hash_next_index_insert\<close>.\<close>

definition zlist :: "zval list \<Rightarrow> (zkey \<times> zval) list" where
  "zlist vs = zip (map (\<lambda>i. KIdx (of_nat i)) [0..<length vs]) vs"

lemma zlist_nth [simp]: "i < length vs \<Longrightarrow> zlist vs ! i = (KIdx (of_nat i), vs ! i)"
  by (simp add: zlist_def)

lemma length_zlist [simp]: "length (zlist vs) = length vs"
  by (simp add: zlist_def)

section \<open>Tables\<close>

type_synonym ('k, 'v) ztable = "('k \<times> 'v) list"

definition zh_find :: "('k, 'v) ztable \<Rightarrow> 'k \<Rightarrow> 'v option" where
  "zh_find t k = map_of t k"

definition zh_add :: "('k, 'v) ztable \<Rightarrow> 'k \<Rightarrow> 'v \<Rightarrow> ('k, 'v) ztable" where
  "zh_add t k v = (if zh_find t k = None then t @ [(k, v)] else t)"

definition zh_set :: "('k, 'v) ztable \<Rightarrow> 'k \<Rightarrow> 'v \<Rightarrow> ('k, 'v) ztable" where
  "zh_set t k v = map (\<lambda>(k', v'). (k', if k' = k then v else v')) t"

definition zh_keys :: "('k, 'v) ztable \<Rightarrow> 'k list" where
  "zh_keys t = map fst t"

definition zh_ok :: "('k, 'v) ztable \<Rightarrow> bool" where
  "zh_ok t \<longleftrightarrow> distinct (zh_keys t)"

definition add_key :: "'k list \<Rightarrow> 'k \<Rightarrow> 'k list" where
  "add_key ks k = (if k \<in> set ks then ks else ks @ [k])"

lemma set_add_key [simp]: "set (add_key ks k) = insert k (set ks)"
  by (auto simp: add_key_def)

lemma distinct_add_key [simp]: "distinct (add_key ks k) \<longleftrightarrow> distinct ks"
  by (auto simp: add_key_def)

lemma set_foldl_add_key: "set (foldl add_key ks xs) = set ks \<union> set xs"
  by (induction xs arbitrary: ks) auto

lemma foldl_add_key_remdups: "foldl add_key [] xs = rev (remdups (rev xs))"
proof (induction xs rule: rev_induct)
  case (snoc x xs)
  then show ?case using set_foldl_add_key [of "[]" xs] by (simp add: add_key_def)
qed simp

lemma length_foldl_add_key: "length (foldl add_key ks xs) \<le> length ks + length xs"
proof (induction xs arbitrary: ks)
  case (Cons x xs)
  have "length (add_key ks x) \<le> Suc (length ks)" by (simp add: add_key_def)
  with Cons.IH [of "add_key ks x"] show ?case by simp
qed simp

lemma distinct_foldl_add_key: "distinct (foldl add_key ks xs) \<longleftrightarrow> distinct ks"
  by (induction xs arbitrary: ks) auto

section \<open>The contract of a table\<close>

locale hash_table =
  fixes empty :: "'t"
    and find :: "'t \<Rightarrow> 'k \<Rightarrow> 'v option"
    and add :: "'t \<Rightarrow> 'k \<Rightarrow> 'v \<Rightarrow> 't"
    and put :: "'t \<Rightarrow> 'k \<Rightarrow> 'v \<Rightarrow> 't"
    and keys :: "'t \<Rightarrow> 'k list"
    and ok :: "'t \<Rightarrow> bool"
  assumes keys_empty: "keys empty = []"
    and ok_empty: "ok empty"
    and find_None_iff: "find t k = None \<longleftrightarrow> k \<notin> set (keys t)"
    and find_add: "find (add t k v) k' = (if k' = k \<and> find t k = None then Some v else find t k')"
    and find_put: "find (put t k v) k' = (if k' = k \<and> find t k \<noteq> None then Some v else find t k')"
    and keys_add: "keys (add t k v) = add_key (keys t) k"
    and keys_put: "keys (put t k v) = keys t"
    and ok_add: "ok t \<Longrightarrow> ok (add t k v)"
    and ok_put: "ok t \<Longrightarrow> ok (put t k v)"
begin

lemma find_empty: "find empty k = None"
  by (simp add: find_None_iff keys_empty)

lemma keys_add_absent: "find t k = None \<Longrightarrow> keys (add t k v) = keys t @ [k]"
  by (simp add: keys_add add_key_def find_None_iff)

lemma add_present_find: "find t k = Some w \<Longrightarrow> find (add t k v) k' = find t k'"
  by (auto simp: find_add)

end

text \<open>
  A table of counters: \<open>incr\<close> is the idiom \<^verbatim>\<open>if (!find(k)) add(k, 0); *find(k) += n\<close>.
\<close>

locale counter_table = hash_table empty find add put keys ok
  for empty :: "'t"
    and find :: "'t \<Rightarrow> 'k \<Rightarrow> ('v :: comm_monoid_add) option"
    and add :: "'t \<Rightarrow> 'k \<Rightarrow> 'v \<Rightarrow> 't"
    and put :: "'t \<Rightarrow> 'k \<Rightarrow> 'v \<Rightarrow> 't"
    and keys :: "'t \<Rightarrow> 'k list"
    and ok :: "'t \<Rightarrow> bool" +
  fixes incr :: "'t \<Rightarrow> 'k \<Rightarrow> 'v \<Rightarrow> 't"
  assumes incr_eq: "incr t k n =
    (let t' = (if find t k = None then add t k 0 else t) in put t' k (the (find t' k) + n))"
begin

definition count :: "'t \<Rightarrow> 'k \<Rightarrow> 'v" where
  "count t k = (case find t k of None \<Rightarrow> 0 | Some c \<Rightarrow> c)"

lemma count_empty: "count empty k = 0"
  by (simp add: count_def find_empty)

lemma find_incr:
  "find (incr t k n) k' = (if k' = k then Some (count t k + n) else find t k')"
  by (cases "find t k") (auto simp: incr_eq find_add find_put count_def Let_def)

lemma keys_incr: "keys (incr t k n) = add_key (keys t) k"
  by (cases "find t k = None")
    (auto simp: incr_eq keys_put keys_add Let_def add_key_def find_None_iff)

lemma ok_incr: "ok t \<Longrightarrow> ok (incr t k n)"
  by (auto simp: incr_eq ok_add ok_put Let_def)

lemma count_incr: "count (incr t k n) k' = (if k' = k then count t k + n else count t k')"
  by (simp add: count_def find_incr)

lemma keys_fold_incr:
  "keys (foldl (\<lambda>t x. incr t (f x) (g x)) t xs) = foldl add_key (keys t) (map f xs)"
  by (induction xs arbitrary: t) (simp_all add: keys_incr)

lemma ok_fold_incr: "ok t \<Longrightarrow> ok (foldl (\<lambda>t x. incr t (f x) (g x)) t xs)"
  by (induction xs arbitrary: t) (simp_all add: ok_incr)

lemma count_fold_incr:
  "count (foldl (\<lambda>t x. incr t (f x) (g x)) t xs) k =
     count t k + (\<Sum>x \<leftarrow> filter (\<lambda>x. f x = k) xs. g x)"
  by (induction xs arbitrary: t) (auto simp: count_incr add_ac)

lemma find_eq_count: "k \<in> set (keys t) \<Longrightarrow> find t k = Some (count t k)"
  using find_None_iff [of t k] by (auto simp: count_def split: option.splits)

end

section \<open>The model's table satisfies it\<close>

lemma zh_find_add: "zh_find (zh_add t k v) k' = (if k' = k \<and> zh_find t k = None then Some v else zh_find t k')"
  by (auto simp: zh_add_def zh_find_def map_add_def split: option.splits)

lemma zh_find_set: "zh_find (zh_set t k v) k' = (if k' = k \<and> zh_find t k \<noteq> None then Some v else zh_find t k')"
  unfolding zh_find_def zh_set_def by (induction t) auto

lemma zh_find_None_iff: "zh_find t k = None \<longleftrightarrow> k \<notin> set (zh_keys t)"
  by (auto simp: zh_find_def zh_keys_def map_of_eq_None_iff)

lemma zh_keys_set [simp]: "zh_keys (zh_set t k v) = zh_keys t"
  by (auto simp: zh_keys_def zh_set_def)

lemma zh_keys_add: "zh_keys (zh_add t k v) = add_key (zh_keys t) k"
  by (simp add: zh_add_def add_key_def zh_find_None_iff) (simp add: zh_keys_def)

interpretation zh: hash_table "[]" zh_find zh_add zh_set zh_keys zh_ok
  by unfold_locales
    (simp_all add: zh_find_add zh_find_set zh_find_None_iff zh_ok_def zh_keys_add,
     simp_all add: zh_keys_def)

definition zh_incr :: "('k, 'v :: comm_monoid_add) ztable \<Rightarrow> 'k \<Rightarrow> 'v \<Rightarrow> ('k, 'v) ztable" where
  "zh_incr t k n =
     (let t' = (if zh_find t k = None then zh_add t k 0 else t)
      in zh_set t' k (the (zh_find t' k) + n))"

interpretation zc: counter_table "[]" zh_find zh_add zh_set zh_keys zh_ok zh_incr
  by unfold_locales (simp add: zh_incr_def)

text \<open>A table is determined by its keys in order and the value each has.\<close>

lemma zh_table_eq: "zh_ok t \<Longrightarrow> t = map (\<lambda>k. (k, the (zh_find t k))) (zh_keys t)"
proof (induction t)
  case (Cons p t)
  then have IH: "t = map (\<lambda>k. (k, the (zh_find t k))) (zh_keys t)" and p: "fst p \<notin> set (zh_keys t)"
    by (auto simp: zh_ok_def zh_keys_def)
  have "map (\<lambda>k. (k, the (zh_find (p # t) k))) (zh_keys t) =
      map (\<lambda>k. (k, the (zh_find t k))) (zh_keys t)"
    using p by (intro map_cong refl) (auto simp: zh_find_def)
  with IH show ?case by (cases p) (auto simp: zh_keys_def zh_find_def)
qed (simp add: zh_keys_def)

lemma zh_in_find: "zh_ok t \<Longrightarrow> (k, v) \<in> set t \<Longrightarrow> zh_find t k = Some v"
  by (simp add: zh_ok_def zh_keys_def zh_find_def)

text \<open>The counts of a table of increments sum to the increments.\<close>

lemma sum_zh_set:
  fixes n :: "'v :: comm_monoid_add"
  assumes "zh_ok t" and "zh_find t k = Some c"
  shows "(\<Sum>(k', v) \<leftarrow> zh_set t k (c + n). v) = (\<Sum>(k', v) \<leftarrow> t. v) + n"
  using assms
proof (induction t)
  case (Cons p t)
  obtain k' v where p: "p = (k', v)" by (cases p)
  show ?case
  proof (cases "k' = k")
    case True
    with Cons.prems p have "k \<notin> fst ` set t" and "v = c"
      by (auto simp: zh_ok_def zh_keys_def zh_find_def)
    then have "zh_set t k (c + n) = t"
      by (force simp: zh_set_def intro!: map_idI)
    with True p \<open>v = c\<close> show ?thesis by (simp add: zh_set_def add_ac)
  next
    case False
    with Cons p show ?thesis by (auto simp: zh_set_def zh_ok_def zh_keys_def zh_find_def add_ac)
  qed
qed (simp add: zh_find_def)

lemma sum_zh_incr:
  fixes n :: "'v :: comm_monoid_add"
  assumes "zh_ok t"
  shows "(\<Sum>(k', v) \<leftarrow> zh_incr t k n. v) = (\<Sum>(k', v) \<leftarrow> t. v) + n"
proof (cases "zh_find t k")
  case None
  have "zh_ok (zh_add t k 0)" and "zh_find (zh_add t k 0) k = Some 0"
    using assms None by (simp_all add: zh.ok_add zh_find_add)
  from sum_zh_set [OF this, of n] None show ?thesis
    by (simp add: zh_incr_def zh_find_add) (simp add: zh_add_def)
next
  case (Some c)
  with sum_zh_set [OF assms Some, of n] show ?thesis by (simp add: zh_incr_def)
qed

lemma sum_fold_zh_incr:
  fixes g :: "'a \<Rightarrow> 'v :: comm_monoid_add"
  shows "zh_ok t \<Longrightarrow> (\<Sum>(k, v) \<leftarrow> foldl (\<lambda>t x. zh_incr t (f x) (g x)) t xs. v) =
     (\<Sum>(k, v) \<leftarrow> t. v) + (\<Sum>x \<leftarrow> xs. g x)"
  by (induction xs arbitrary: t) (simp_all add: zc.ok_incr sum_zh_incr add_ac)

section \<open>Grouping\<close>

text \<open>
  The specification of a table of increments: one pair per key, in the order of first
  occurrence, with the sum of its terms.
\<close>

definition group_by :: "('a \<Rightarrow> 'k) \<Rightarrow> ('a \<Rightarrow> 'v :: comm_monoid_add) \<Rightarrow> 'a list \<Rightarrow> ('k, 'v) ztable" where
  "group_by f g xs =
     map (\<lambda>k. (k, \<Sum>x \<leftarrow> filter (\<lambda>x. f x = k) xs. g x)) (foldl add_key [] (map f xs))"

lemma zh_fold_incr_eq: "foldl (\<lambda>t x. zh_incr t (f x) (g x)) [] xs = group_by f g xs"
    (is "?t = _")
proof -
  have ok: "zh_ok ?t" by (rule zc.ok_fold_incr [OF zh.ok_empty])
  have keys: "zh_keys ?t = foldl add_key [] (map f xs)"
    by (simp add: zc.keys_fold_incr zh.keys_empty)
  have val: "the (zh_find ?t k) = (\<Sum>x \<leftarrow> filter (\<lambda>x. f x = k) xs. g x)" if "k \<in> set (zh_keys ?t)" for k
    using zc.find_eq_count [OF that] by (simp add: zc.count_fold_incr zc.count_empty)
  have "?t = map (\<lambda>k. (k, the (zh_find ?t k))) (zh_keys ?t)"
    by (rule zh_table_eq [OF ok])
  also have "\<dots> = map (\<lambda>k. (k, \<Sum>x \<leftarrow> filter (\<lambda>x. f x = k) xs. g x)) (zh_keys ?t)"
    by (rule map_cong [OF refl]) (simp add: val)
  finally show ?thesis by (simp only: keys group_by_def)
qed

lemma keys_group_by: "zh_keys (group_by f g xs) = foldl add_key [] (map f xs)"
  by (simp add: group_by_def zh_keys_def comp_def)

lemma set_keys_group_by: "fst ` set (group_by f g xs) = f ` set xs"
  by (force simp: group_by_def set_foldl_add_key)

lemma zh_ok_group_by: "zh_ok (group_by f g xs)"
  by (simp add: zh_ok_def keys_group_by distinct_foldl_add_key)

lemma sum_group_by: "(\<Sum>(k, v) \<leftarrow> group_by f g xs. v) = (\<Sum>x \<leftarrow> xs. g x)"
  using sum_fold_zh_incr [OF zh.ok_empty, of f g xs] by (simp add: zh_fold_incr_eq)

lemma foldl_add_key_image:
  "foldl add_key [] (map h (foldl add_key [] xs)) = foldl add_key [] (map h xs)"
proof (induction xs rule: rev_induct)
  case (snoc x xs)
  have "add_key (foldl add_key [] xs) x = (if x \<in> set xs then foldl add_key [] xs else foldl add_key [] xs @ [x])"
    by (simp add: add_key_def [of "foldl add_key [] xs" x] set_foldl_add_key)
  moreover have "add_key (foldl add_key [] (map h xs)) (h x) = foldl add_key [] (map h xs)" if "x \<in> set xs"
    using that by (simp add: add_key_def [of "foldl add_key [] (map h xs)" "h x"] set_foldl_add_key)
  ultimately show ?case using snoc by simp
qed simp

lemma sum_filter_union:
  fixes g :: "'a \<Rightarrow> 'v :: comm_monoid_add"
  assumes "\<And>x. \<not> (P x \<and> Q x)"
  shows "(\<Sum>x \<leftarrow> filter P xs. g x) + (\<Sum>x \<leftarrow> filter Q xs. g x) = (\<Sum>x \<leftarrow> filter (\<lambda>x. P x \<or> Q x) xs. g x)"
  using assms by (induction xs) (auto simp: add_ac)

lemma sum_groups:
  fixes g :: "'a \<Rightarrow> 'v :: comm_monoid_add"
  shows "distinct ks \<Longrightarrow> (\<Sum>k \<leftarrow> ks. \<Sum>x \<leftarrow> filter (\<lambda>x. f x = k) xs. g x) =
     (\<Sum>x \<leftarrow> filter (\<lambda>x. f x \<in> set ks) xs. g x)"
proof (induction ks)
  case (Cons k ks)
  then have "\<And>x. \<not> (f x = k \<and> f x \<in> set ks)" by auto
  from sum_filter_union [OF this, where g = g and xs = xs] Cons show ?case by simp
qed simp

text \<open>Grouping by one key and then by a function of it is grouping once.\<close>

lemma group_by_group_by:
  "group_by (\<lambda>kv. h (fst kv)) snd (group_by f g xs) = group_by (\<lambda>x. h (f x)) g xs"
proof -
  let ?ks = "foldl add_key [] (map f xs)"
  have "(\<Sum>kv \<leftarrow> filter (\<lambda>kv. h (fst kv) = l) (group_by f g xs). snd kv) =
      (\<Sum>x \<leftarrow> filter (\<lambda>x. h (f x) = l) xs. g x)" for l
  proof -
    have "filter (\<lambda>kv. h (fst kv) = l) (group_by f g xs) =
        map (\<lambda>k. (k, \<Sum>x \<leftarrow> filter (\<lambda>x. f x = k) xs. g x)) (filter (\<lambda>k. h k = l) ?ks)"
      by (simp add: group_by_def filter_map comp_def)
    moreover have "distinct (filter (\<lambda>k. h k = l) ?ks)"
      by (simp add: distinct_foldl_add_key)
    moreover have "filter (\<lambda>x. f x \<in> set (filter (\<lambda>k. h k = l) ?ks)) xs = filter (\<lambda>x. h (f x) = l) xs"
      by (rule filter_cong) (auto simp: set_foldl_add_key)
    ultimately show ?thesis by (simp add: comp_def sum_groups)
  qed
  moreover have "map (\<lambda>kv. h (fst kv)) (group_by f g xs) = map h ?ks"
    by (simp add: group_by_def comp_def)
  ultimately show ?thesis
    using foldl_add_key_image [of h "map f xs"] by (simp add: group_by_def [of "\<lambda>kv. h (fst kv)"]
        group_by_def [of "\<lambda>x. h (f x)"] comp_def)
qed

end
