(* ===== verification/Excimer_Log.thy ===== *)
theory Excimer_Log
  imports Zend_Hash
begin

text \<open>
  The sample log of \<^verbatim>\<open>excimer_log.c\<close>/\<^verbatim>\<open>excimer_log.h\<close>: the frame table with its reverse
  hashtable, recording a call stack (\<^verbatim>\<open>excimer_log_find_or_add_frame\<close>), appending an entry
  (\<^verbatim>\<open>excimer_log_add\<close>) and the accessors. The engine's stack of \<^verbatim>\<open>zend_execute_data\<close> records,
  linked by \<^verbatim>\<open>prev_execute_data\<close>, is a list with the innermost call first. String reference
  counts are not modelled.
\<close>

section \<open>The engine's call stack\<close>

datatype zend_function_type = ZEND_INTERNAL_FUNCTION | ZEND_USER_FUNCTION | ZEND_EVAL_CODE

definition ZEND_USER_CODE :: "zend_function_type \<Rightarrow> bool" where
  "ZEND_USER_CODE t \<longleftrightarrow> t \<noteq> ZEND_INTERNAL_FUNCTION"

text \<open>
  \<open>scope_name\<close> is \<^verbatim>\<open>common.scope->name\<close> (none without a scope), \<open>acc_closure\<close> the flag
  \<^verbatim>\<open>fn_flags & ZEND_ACC_CLOSURE\<close>.
\<close>

record zend_function =
  func_type :: zend_function_type
  op_filename :: string
  scope_name :: "string option"
  func_name :: "string option"
  acc_closure :: bool
  line_start :: uint32_t

record zend_execute_data =
  func :: "zend_function option"
  opline_lineno :: uint32_t

type_synonym call_stack = "zend_execute_data list"

section \<open>Data\<close>

record excimer_log_frame =
  filename :: "string option"
  lineno :: uint32_t
  closure_line :: uint32_t
  class_name :: "string option"
  function_name :: "string option"
  prev_index :: uint32_t

record excimer_log_entry =
  frame_index :: uint32_t
  entry_event_count :: zend_long
  timestamp :: uint64_t

record excimer_log =
  entries :: "excimer_log_entry list"
  entries_size :: size_t
  frames :: "excimer_log_frame list"
  frames_size :: size_t
  reverse_frames :: "(string, zend_long) ztable"
  max_depth :: zend_long
  epoch :: uint64_t
  period :: uint64_t
  log_event_count :: zend_long

definition excimer_log_truncated_name :: string where
  "excimer_log_truncated_name = ''excimer_truncated''"

definition excimer_log_fake_filename :: string where
  "excimer_log_fake_filename = ''excimer fake file''"

text \<open>The all-zero frame that \<^verbatim>\<open>ecalloc\<close> puts at index 0.\<close>

definition null_frame :: excimer_log_frame where
  "null_frame = \<lparr>filename = None, lineno = 0, closure_line = 0, class_name = None,
     function_name = None, prev_index = 0\<rparr>"

section \<open>Operations\<close>

text \<open>\<^verbatim>\<open>max_depth\<close> and \<^verbatim>\<open>period\<close> keep the value of the memory the log is placed in.\<close>

definition excimer_log_init :: "excimer_log \<Rightarrow> excimer_log" where
  "excimer_log_init log = log\<lparr>entries_size := 0, entries := [], frames := [null_frame],
     frames_size := 1, reverse_frames := [], epoch := 0, log_event_count := 0\<rparr>"

definition excimer_log_set_max_depth :: "excimer_log \<Rightarrow> zend_long \<Rightarrow> excimer_log" where
  "excimer_log_set_max_depth log depth = log\<lparr>max_depth := depth\<rparr>"

definition excimer_log_copy_options :: "excimer_log \<Rightarrow> excimer_log \<Rightarrow> excimer_log" where
  "excimer_log_copy_options dest src =
     dest\<lparr>max_depth := max_depth src, epoch := epoch src, period := period src\<rparr>"

text \<open>\<^verbatim>\<open>excimer_safe_uint32\<close> of \<^verbatim>\<open>php_excimer.h\<close>.\<close>

definition excimer_safe_uint32 :: "zend_long \<Rightarrow> uint32_t res" where
  "excimer_safe_uint32 i =
     (if i <s 0 \<or> 0xFFFFFFFF <s i then Inl (Fatal_Error ''Integer out of range'')
      else Inr (ucast i))"

text \<open>
  \<^verbatim>\<open>safe_erealloc(ptr, nmemb, size, 0)\<close> ends the request when \<^verbatim>\<open>nmemb * size\<close> does not fit
  a \<^verbatim>\<open>size_t\<close>. On LP64 a frame takes 40 bytes and an entry 24.
\<close>

definition safe_erealloc :: "'a list \<Rightarrow> size_t \<Rightarrow> nat \<Rightarrow> 'a list res" where
  "safe_erealloc xs nmemb sz =
     (if unat nmemb * sz < 2 ^ 64 then Inr xs
      else Inl (Fatal_Error ''Possible integer overflow in memory allocation''))"

definition sizeof_frame :: nat where "sizeof_frame = 40"

definition sizeof_entry :: nat where "sizeof_entry = 24"

text \<open>Growing the frame array by one element and storing a frame in it.\<close>

definition log_push_frame :: "excimer_log \<Rightarrow> excimer_log_frame \<Rightarrow> excimer_log res" where
  "log_push_frame log frame =
     rbind (safe_erealloc (frames log) (frames_size log + 1) sizeof_frame)
       (\<lambda>fs. Inr (log\<lparr>frames := fs @ [frame], frames_size := frames_size log + 1\<rparr>))"

definition truncation_frame :: excimer_log_frame where
  "truncation_frame = \<lparr>filename = Some excimer_log_fake_filename, lineno = 1, closure_line = 0,
     class_name = None, function_name = Some excimer_log_truncated_name, prev_index = 0\<rparr>"

definition excimer_log_get_truncation_marker :: "excimer_log \<Rightarrow> (uint32_t \<times> excimer_log) res" where
  "excimer_log_get_truncation_marker log =
     (case zh_find (reverse_frames log) excimer_log_truncated_name of
        Some z \<Rightarrow> rbind (excimer_safe_uint32 z) (\<lambda>i. Inr (i, log))
      | None \<Rightarrow>
          let z_new_index = frames_size log;
              log1 = log\<lparr>reverse_frames :=
                zh_add (reverse_frames log) excimer_log_truncated_name z_new_index\<rparr>
          in rbind (log_push_frame log1 truncation_frame)
               (\<lambda>log2. rbind (excimer_safe_uint32 z_new_index) (\<lambda>i. Inr (i, log2))))"

text \<open>The frame record of a user function, and its key in the reverse hashtable.\<close>

definition make_frame :: "zend_function \<Rightarrow> uint32_t \<Rightarrow> uint32_t \<Rightarrow> excimer_log_frame" where
  "make_frame fn line prev =
     \<lparr>filename = Some (op_filename fn), lineno = line,
      closure_line = (if acc_closure fn then line_start fn else 0),
      class_name = scope_name fn, function_name = func_name fn, prev_index = prev\<rparr>"

definition frame_key :: "string \<Rightarrow> uint32_t \<Rightarrow> uint32_t \<Rightarrow> string" where
  "frame_key file line prev = file @ CHR 0x00 # printf_d line @ CHR 0x00 # printf_d prev"

definition find_or_add_user_frame ::
  "excimer_log \<Rightarrow> zend_function \<Rightarrow> uint32_t \<Rightarrow> uint32_t \<Rightarrow> (uint32_t \<times> excimer_log) res" where
  "find_or_add_user_frame log fn line prev =
     (let str_key = frame_key (op_filename fn) line prev in
      case zh_find (reverse_frames log) str_key of
        Some z \<Rightarrow> rbind (excimer_safe_uint32 z) (\<lambda>i. Inr (i, log))
      | None \<Rightarrow>
          let z_new_index = frames_size log;
              log1 = log\<lparr>reverse_frames := zh_add (reverse_frames log) str_key z_new_index\<rparr>
          in rbind (log_push_frame log1 (make_frame fn line prev))
               (\<lambda>log2. rbind (excimer_safe_uint32 z_new_index) (\<lambda>i. Inr (i, log2))))"

text \<open>
  The recursion over the stack. An empty list is the null \<^verbatim>\<open>execute_data\<close>, an empty tail
  the null \<^verbatim>\<open>prev_execute_data\<close>.
\<close>

fun excimer_log_find_or_add_frame ::
  "excimer_log \<Rightarrow> call_stack \<Rightarrow> zend_long \<Rightarrow> (uint32_t \<times> excimer_log) res" where
  "excimer_log_find_or_add_frame log [] depth = Inr (0, log)"
| "excimer_log_find_or_add_frame log (execute_data # prev) depth =
     rbind
       (if prev = [] then Inr (0, log)
        else if max_depth log \<noteq> 0 \<and> max_depth log \<le>s depth
        then excimer_log_get_truncation_marker log
        else excimer_log_find_or_add_frame log prev (depth + 1))
       (\<lambda>(prev_idx, log').
          case func execute_data of
            None \<Rightarrow> Inr (prev_idx, log')
          | Some fn \<Rightarrow>
              if \<not> ZEND_USER_CODE (func_type fn) then Inr (prev_idx, log')
              else find_or_add_user_frame log' fn (opline_lineno execute_data) prev_idx)"

definition excimer_log_add ::
  "excimer_log \<Rightarrow> call_stack \<Rightarrow> zend_long \<Rightarrow> uint64_t \<Rightarrow> excimer_log res" where
  "excimer_log_add log execute_data event_count time =
     rbind (excimer_log_find_or_add_frame log execute_data 0)
       (\<lambda>(frame_idx, log1).
          rbind (safe_erealloc (entries log1) (entries_size log1 + 1) sizeof_entry)
            (\<lambda>es. Inr (log1\<lparr>
               entries := es @ [\<lparr>frame_index = frame_idx, entry_event_count = event_count,
                                 timestamp = time\<rparr>],
               entries_size := entries_size log1 + 1,
               log_event_count := log_event_count log1 + event_count\<rparr>)))"

definition excimer_log_get_size :: "excimer_log \<Rightarrow> zend_long" where
  "excimer_log_get_size log = entries_size log"

text \<open>A null result is \<open>None\<close>; the second comparison is unsigned.\<close>

definition excimer_log_get_entry :: "excimer_log \<Rightarrow> zend_long \<Rightarrow> excimer_log_entry option" where
  "excimer_log_get_entry log i =
     (if 0 \<le>s i \<and> i < entries_size log then Some (entries log ! unat i) else None)"

definition excimer_log_get_frame :: "excimer_log \<Rightarrow> zend_long \<Rightarrow> excimer_log_frame option" where
  "excimer_log_get_frame log i =
     (if 0 <s i \<and> i < frames_size log then Some (frames log ! unat i) else None)"

section \<open>Traces\<close>

text \<open>
  The reference reading of a frame index: the indices met by following \<^verbatim>\<open>prev_index\<close>, as
  long as they are in range and decrease, and the frames at them, innermost first.
\<close>

function trace_idx :: "excimer_log_frame list \<Rightarrow> nat \<Rightarrow> nat list" where
  "trace_idx fs i =
     (if 0 < i \<and> i < length fs \<and> unat (prev_index (fs ! i)) < i
      then i # trace_idx fs (unat (prev_index (fs ! i))) else [])"
  by pat_completeness auto
termination
  by (relation "measure snd") auto

declare trace_idx.simps [simp del]

definition log_trace :: "excimer_log \<Rightarrow> uint32_t \<Rightarrow> excimer_log_frame list" where
  "log_trace log i = map ((!) (frames log)) (trace_idx (frames log) (unat i))"

lemma trace_idx_0 [simp]: "trace_idx fs 0 = []"
  by (simp add: trace_idx.simps)

lemma trace_idx_append: "i < length fs \<Longrightarrow> trace_idx (fs @ gs) i = trace_idx fs i"
proof (induction fs i rule: trace_idx.induct)
  case (1 fs i)
  let ?p = "unat (prev_index (fs ! i))"
  show ?case
  proof (cases "0 < i \<and> ?p < i")
    case True
    with "1.prems" have "?p < length fs" by simp
    with True "1" have "trace_idx (fs @ gs) ?p = trace_idx fs ?p" by simp
    with True "1.prems" show ?thesis
      by (simp add: trace_idx.simps [of "fs @ gs" i] trace_idx.simps [of fs i] nth_append)
  next
    case False
    with "1.prems" show ?thesis
      by (auto simp: trace_idx.simps [of "fs @ gs" i] trace_idx.simps [of fs i] nth_append)
  qed
qed

lemma trace_idx_range: "j \<in> set (trace_idx fs i) \<Longrightarrow> 0 < j \<and> j < length fs \<and> j \<le> i"
proof (induction fs i rule: trace_idx.induct)
  case (1 fs i)
  then show ?case
    by (auto simp: trace_idx.simps [of fs i] split: if_splits dest: "1.IH")
qed

lemma length_trace_idx: "length (trace_idx fs i) \<le> i"
proof (induction fs i rule: trace_idx.induct)
  case (1 fs i)
  show ?case
  proof (cases "0 < i \<and> i < length fs \<and> unat (prev_index (fs ! i)) < i")
    case True
    with "1.IH" show ?thesis by (simp add: trace_idx.simps [of fs i])
  next
    case False
    then show ?thesis by (auto simp: trace_idx.simps [of fs i])
  qed
qed

section \<open>The frame table's invariant\<close>

definition stored_under :: "string \<Rightarrow> excimer_log_frame \<Rightarrow> bool" where
  "stored_under k f \<longleftrightarrow> k = excimer_log_truncated_name \<and> f = truncation_frame \<or>
     (\<exists>file. filename f = Some file \<and> k = frame_key file (lineno f) (prev_index f))"

text \<open>
  Frame 0 is the null frame; every other frame is the value of exactly one key of the
  reverse hashtable, in the order of insertion, and points to a smaller index.
\<close>

definition frames_wf :: "excimer_log \<Rightarrow> bool" where
  "frames_wf log \<longleftrightarrow>
     frames log \<noteq> [] \<and> frames log ! 0 = null_frame \<and>
     length (frames log) \<le> 2 ^ 32 \<and>
     frames_size log = of_nat (length (frames log)) \<and>
     zh_ok (reverse_frames log) \<and>
     map snd (reverse_frames log) = map of_nat [1..<length (frames log)] \<and>
     list_all2 (\<lambda>kv f. stored_under (fst kv) f) (reverse_frames log) (tl (frames log)) \<and>
     (\<forall>i. 0 < i \<and> i < length (frames log) \<longrightarrow> unat (prev_index (frames log ! i)) < i)"

definition entries_wf :: "excimer_log \<Rightarrow> bool" where
  "entries_wf log \<longleftrightarrow>
     length (entries log) * sizeof_entry < 2 ^ 64 \<and>
     entries_size log = of_nat (length (entries log)) \<and>
     (\<forall>e \<in> set (entries log). unat (frame_index e) < length (frames log)) \<and>
     log_event_count log = (\<Sum>e \<leftarrow> entries log. entry_event_count e)"

definition log_wf :: "excimer_log \<Rightarrow> bool" where
  "log_wf log \<longleftrightarrow> frames_wf log \<and> entries_wf log"

lemma frames_wf_init: "frames_wf (excimer_log_init log)"
  by (auto simp: frames_wf_def excimer_log_init_def zh.ok_empty)

lemma frames_wf_prev: "frames_wf log \<Longrightarrow> 0 < i \<Longrightarrow> i < length (frames log) \<Longrightarrow>
    unat (prev_index (frames log ! i)) < i"
  by (simp add: frames_wf_def)

lemma log_trace_0 [simp]: "log_trace log 0 = []"
  by (simp add: log_trace_def)

lemma log_trace_unfold:
  assumes "frames_wf log" and "0 < unat i" and "unat i < length (frames log)"
  shows "log_trace log i =
     frames log ! unat i # log_trace log (prev_index (frames log ! unat i))"
  using assms frames_wf_prev [OF assms]
  by (simp add: log_trace_def trace_idx.simps [of "frames log" "unat i"])

lemma truncated_name_no_nul: "CHR 0x00 \<notin> set excimer_log_truncated_name"
  by (simp add: excimer_log_truncated_name_def)

lemma frame_key_not_truncated [simp]: "frame_key file line prev \<noteq> excimer_log_truncated_name"
proof -
  have "CHR 0x00 \<in> set (frame_key file line prev)" by (simp add: frame_key_def)
  with truncated_name_no_nul show ?thesis by metis
qed

lemma frame_key_inject [simp]:
  "frame_key file line prev = frame_key file' line' prev' \<longleftrightarrow>
     file = file' \<and> line = line' \<and> prev = prev'"
proof
  assume "frame_key file line prev = frame_key file' line' prev'"
  then have "(file @ CHR 0x00 # printf_d line) @ CHR 0x00 # printf_d prev =
      (file' @ CHR 0x00 # printf_d line') @ CHR 0x00 # printf_d prev'"
    by (simp add: frame_key_def)
  then have "file @ CHR 0x00 # printf_d line = file' @ CHR 0x00 # printf_d line'" and "prev = prev'"
    by (simp_all only: append_sep_last_inject [OF printf_d_nonul printf_d_nonul] printf_d_inject)
  then show "file = file' \<and> line = line' \<and> prev = prev'"
    by (simp add: append_sep_last_inject)
qed simp

lemma stored_under_key:
  "stored_under (frame_key file line prev) f \<longleftrightarrow>
     filename f = Some file \<and> lineno f = line \<and> prev_index f = prev"
  by (auto simp: stored_under_def)

lemma stored_under_truncated:
  "stored_under excimer_log_truncated_name f \<longleftrightarrow> f = truncation_frame"
  by (auto simp: stored_under_def dest: sym)

lemma make_frame_stored:
  "stored_under (frame_key (op_filename fn) line prev) (make_frame fn line prev)"
  by (simp add: stored_under_key make_frame_def)

lemma prev_index_make_frame [simp]: "prev_index (make_frame fn line prev) = prev"
  by (simp add: make_frame_def)

lemma stored_under_filename: "stored_under k f \<Longrightarrow> filename f \<noteq> None"
  by (auto simp: stored_under_def truncation_frame_def)

lemma frames_wf_filename:
  assumes "frames_wf log" and "0 < i" and "i < length (frames log)"
  shows "filename (frames log ! i) \<noteq> None"
proof -
  have "list_all2 (\<lambda>kv f. stored_under (fst kv) f) (reverse_frames log) (tl (frames log))"
    and "i - 1 < length (tl (frames log))" and "tl (frames log) ! (i - 1) = frames log ! i"
    using assms by (auto simp: frames_wf_def nth_tl)
  then show ?thesis
    by (metis list_all2_nthD2 stored_under_filename)
qed

section \<open>Interning a frame\<close>

text \<open>
  What the truncation marker and a user frame have in common: look the key up, otherwise
  append the frame under it.
\<close>

definition intern_frame ::
  "excimer_log \<Rightarrow> string \<Rightarrow> excimer_log_frame \<Rightarrow> (uint32_t \<times> excimer_log) res" where
  "intern_frame log k f =
     (case zh_find (reverse_frames log) k of
        Some z \<Rightarrow> rbind (excimer_safe_uint32 z) (\<lambda>i. Inr (i, log))
      | None \<Rightarrow>
          rbind (log_push_frame (log\<lparr>reverse_frames := zh_add (reverse_frames log) k (frames_size log)\<rparr>) f)
            (\<lambda>log2. rbind (excimer_safe_uint32 (frames_size log)) (\<lambda>i. Inr (i, log2))))"

lemma get_truncation_marker_eq:
  "excimer_log_get_truncation_marker log =
     intern_frame log excimer_log_truncated_name truncation_frame"
  by (auto simp: excimer_log_get_truncation_marker_def intern_frame_def Let_def split: option.split)

lemma find_or_add_user_frame_eq:
  "find_or_add_user_frame log fn line prev =
     intern_frame log (frame_key (op_filename fn) line prev) (make_frame fn line prev)"
  by (auto simp: find_or_add_user_frame_def intern_frame_def Let_def split: option.split)

text \<open>How recording a stack may change a log: frames and keys are only appended.\<close>

definition log_extends :: "excimer_log \<Rightarrow> excimer_log \<Rightarrow> bool" where
  "log_extends log log' \<longleftrightarrow>
     (\<exists>gs. frames log' = frames log @ gs) \<and> (\<exists>rs. reverse_frames log' = reverse_frames log @ rs) \<and>
     entries log' = entries log \<and> entries_size log' = entries_size log \<and>
     max_depth log' = max_depth log \<and> epoch log' = epoch log \<and> period log' = period log \<and>
     log_event_count log' = log_event_count log"

lemma log_extends_refl [simp]: "log_extends log log"
  by (simp add: log_extends_def)

lemma log_extends_trans: "log_extends a b \<Longrightarrow> log_extends b c \<Longrightarrow> log_extends a c"
  by (auto simp: log_extends_def)

lemma log_extends_length: "log_extends a b \<Longrightarrow> length (frames a) \<le> length (frames b)"
  by (auto simp: log_extends_def)

lemma log_extends_trace:
  assumes "log_extends a b" and "unat i < length (frames a)"
  shows "log_trace b i = log_trace a i"
proof -
  obtain gs where gs: "frames b = frames a @ gs" using assms(1) by (auto simp: log_extends_def)
  have "\<And>j. j \<in> set (trace_idx (frames a) (unat i)) \<Longrightarrow> j < length (frames a)"
    using trace_idx_range by blast
  with assms(2) gs show ?thesis
    by (auto simp: log_trace_def trace_idx_append nth_append)
qed

lemma safe_uint32_of_nat:
  "n < 2 ^ 32 \<Longrightarrow> excimer_safe_uint32 (of_nat n) = Inr (of_nat n)"
  by (simp add: excimer_safe_uint32_def word_sless_alt word_nat)

lemma safe_uint32_of_nat_big:
  "2 ^ 32 \<le> n \<Longrightarrow> n < 2 ^ 63 \<Longrightarrow>
     excimer_safe_uint32 (of_nat n) = Inl (Fatal_Error ''Integer out of range'')"
  by (simp add: excimer_safe_uint32_def word_sless_alt word_nat)

lemma safe_uint32_limit:
  "excimer_safe_uint32 0x100000000 = Inl (Fatal_Error ''Integer out of range'')"
  by (simp add: excimer_safe_uint32_def word_sless_alt)

lemma frames_wf_find:
  assumes wf: "frames_wf log" and find: "zh_find (reverse_frames log) k = Some z"
  obtains j where "z = of_nat j" and "0 < j" and "j < length (frames log)"
    and "stored_under k (frames log ! j)"
proof -
  let ?rev = "reverse_frames log" and ?fs = "frames log"
  from find have "(k, z) \<in> set ?rev" by (auto simp: zh_find_def dest: map_of_SomeD)
  then obtain m where m: "m < length ?rev" "?rev ! m = (k, z)" by (auto simp: in_set_conv_nth)
  have snd: "map snd ?rev = map of_nat [1..<length ?fs]"
    and st: "list_all2 (\<lambda>kv f. stored_under (fst kv) f) ?rev (tl ?fs)"
    using wf by (simp_all add: frames_wf_def)
  from st have len: "length ?rev = length (tl ?fs)" by (rule list_all2_lengthD)
  have "map snd ?rev ! m = map of_nat [1..<length ?fs] ! m" by (simp only: snd)
  with m len have z: "z = of_nat (Suc m)" by simp
  have "stored_under k (?fs ! Suc m)"
    using list_all2_nthD [OF st m(1)] m len by (simp add: nth_tl)
  with that [of "Suc m"] z m len show thesis by simp
qed

lemma frames_wf_push:
  assumes wf: "frames_wf log" and new: "zh_find (reverse_frames log) k = None"
    and st: "stored_under k f" and prev: "unat (prev_index f) < length (frames log)"
    and len: "length (frames log) < 2 ^ 32"
  shows "frames_wf (log\<lparr>reverse_frames := zh_add (reverse_frames log) k (frames_size log),
     frames := frames log @ [f], frames_size := frames_size log + 1\<rparr>)"
proof -
  have rev: "zh_add (reverse_frames log) k z = reverse_frames log @ [(k, z)]" for z
    using new by (simp add: zh_add_def)
  have "zh_ok (zh_add (reverse_frames log) k (frames_size log))"
    using wf by (simp add: frames_wf_def zh.ok_add)
  moreover have "[1..<Suc (length (frames log))] = [1..<length (frames log)] @ [length (frames log)]"
    using wf by (simp add: frames_wf_def Suc_le_eq)
  ultimately show ?thesis
    using wf st prev len unfolding frames_wf_def
    by (auto simp: rev nth_append less_Suc_eq list_all2_appendI add.commute)
qed

lemma intern_frame_eq:
  assumes wf: "frames_wf log"
  shows "intern_frame log k f =
     (case zh_find (reverse_frames log) k of
        Some z \<Rightarrow> Inr (ucast z, log)
      | None \<Rightarrow>
          if length (frames log) < 2 ^ 32
          then Inr (of_nat (length (frames log)),
                 log\<lparr>reverse_frames := zh_add (reverse_frames log) k (frames_size log),
                   frames := frames log @ [f], frames_size := frames_size log + 1\<rparr>)
          else Inl (Fatal_Error ''Integer out of range''))"
proof (cases "zh_find (reverse_frames log) k")
  case None
  let ?n = "length (frames log)"
  have n: "?n \<le> 2 ^ 32" and sz: "frames_size log = of_nat ?n"
    using wf by (simp_all add: frames_wf_def)
  have "unat (of_nat ?n + 1 :: 64 word) = Suc ?n"
    using n unat_of_nat64 [of "Suc ?n"] by (simp add: add.commute)
  with n None sz show ?thesis
    by (simp add: intern_frame_def log_push_frame_def safe_erealloc_def sizeof_frame_def
        safe_uint32_of_nat safe_uint32_limit)
next
  case (Some z)
  obtain j where "z = of_nat j" "j < length (frames log)"
    using frames_wf_find [OF wf Some] by blast
  with wf have "excimer_safe_uint32 z = Inr (ucast z)"
    by (simp add: safe_uint32_of_nat word_nat frames_wf_def)
  with Some show ?thesis by (simp add: intern_frame_def)
qed

lemma intern_frame_ok:
  assumes wf: "frames_wf log" and st: "stored_under k f"
    and prev: "unat (prev_index f) < length (frames log)"
    and res: "intern_frame log k f = Inr (i, log')"
  shows "frames_wf log'" and "log_extends log log'"
    and "0 < unat i" and "unat i < length (frames log')"
    and "stored_under k (frames log' ! unat i)"
    and "zh_find (reverse_frames log') k = Some (ucast i)"
    and "set (frames log') \<subseteq> insert f (set (frames log))"
proof -
  have "frames_wf log' \<and> log_extends log log' \<and> 0 < unat i \<and> unat i < length (frames log') \<and>
      stored_under k (frames log' ! unat i) \<and> zh_find (reverse_frames log') k = Some (ucast i) \<and>
      set (frames log') \<subseteq> insert f (set (frames log))"
  proof (cases "zh_find (reverse_frames log) k")
    case None
    let ?n = "length (frames log)"
    have n: "?n < 2 ^ 32" and i: "i = of_nat ?n"
      and log': "log' = log\<lparr>reverse_frames := zh_add (reverse_frames log) k (frames_size log),
         frames := frames log @ [f], frames_size := frames_size log + 1\<rparr>"
      using res None by (simp_all add: intern_frame_eq [OF wf] split: if_splits)
    have "frames_wf log'" unfolding log' by (rule frames_wf_push [OF wf None st prev n])
    moreover have "unat i = ?n" using n i by (simp add: word_nat)
    moreover have "0 < ?n" and "frames_size log = of_nat ?n"
      using wf by (simp_all add: frames_wf_def)
    moreover have "(ucast i :: 64 word) = of_nat ?n"
      using n i by (simp add: word_nat)
    ultimately show ?thesis
      using None st by (auto simp: log' log_extends_def nth_append zh_find_add) (simp add: zh_add_def)
  next
    case (Some z)
    with wf res have "i = ucast z" "log' = log" by (simp_all add: intern_frame_eq)
    moreover obtain j where j: "z = of_nat j" "0 < j" "j < length (frames log)"
        "stored_under k (frames log ! j)"
      using frames_wf_find [OF wf Some] by blast
    moreover have "j < 2 ^ 32" using wf j by (simp add: frames_wf_def)
    ultimately show ?thesis using wf Some by (auto simp: word_nat)
  qed
  then show "frames_wf log'" and "log_extends log log'"
    and "0 < unat i" and "unat i < length (frames log')"
    and "stored_under k (frames log' ! unat i)"
    and "zh_find (reverse_frames log') k = Some (ucast i)"
    and "set (frames log') \<subseteq> insert f (set (frames log))"
    by auto
qed

section \<open>What a recorded stack is\<close>

definition frame_loc :: "excimer_log_frame \<Rightarrow> string option \<times> uint32_t" where
  "frame_loc f = (filename f, lineno f)"

definition marker_loc :: "string option \<times> uint32_t" where
  "marker_loc = frame_loc truncation_frame"

text \<open>The location a stack element contributes: none for internal functions.\<close>

definition user_loc :: "zend_execute_data \<Rightarrow> (string option \<times> uint32_t) list" where
  "user_loc ed = (case func ed of
     None \<Rightarrow> []
   | Some fn \<Rightarrow> if ZEND_USER_CODE (func_type fn) then [(Some (op_filename fn), opline_lineno ed)]
                else [])"

text \<open>
  The specification of a recording: with a depth limit \<open>n > 0\<close> the innermost \<open>n + 1\<close>
  elements of the stack are visited (one for a negative limit, all of them for limit 0);
  when elements remain, the truncation marker is the outermost frame.
\<close>

definition visited :: "zend_long \<Rightarrow> call_stack \<Rightarrow> call_stack" where
  "visited m stk = (if m = 0 then stk else take (nat (sint m) + 1) stk)"

definition captured :: "zend_long \<Rightarrow> call_stack \<Rightarrow> (string option \<times> uint32_t) list" where
  "captured m stk = concat (map user_loc (visited m stk)) @
     (if length (visited m stk) < length stk then [marker_loc] else [])"

text \<open>The same specification in the shape of the recursion.\<close>

fun capture :: "zend_long \<Rightarrow> call_stack \<Rightarrow> zend_long \<Rightarrow> (string option \<times> uint32_t) list" where
  "capture m [] d = []"
| "capture m (ed # prev) d = user_loc ed @
     (if prev = [] then [] else if m \<noteq> 0 \<and> m \<le>s d then [marker_loc]
      else capture m prev (d + 1))"

lemma sint_Suc_word: "sint d < sint m \<Longrightarrow> sint (d + 1) = sint d + 1" for d m :: "64 word"
proof -
  assume "sint d < sint m"
  moreover have "sint m < 2 ^ 63" and "- (2 ^ 63) \<le> sint d"
    using sint_lt [of m] sint_ge [of d] by simp_all
  ultimately show ?thesis
    by (simp add: sint_word_ariths signed_take_bit_int_eq_self)
qed

lemma capture_unlimited: "capture 0 stk d = concat (map user_loc stk)"
  by (induction stk arbitrary: d) auto

lemma capture_limited:
  assumes "m \<noteq> 0" and "0 \<le> sint d" and "sint d \<le> max 0 (sint m)"
  shows "capture m stk d =
     concat (map user_loc (take (nat (sint m - sint d) + 1) stk)) @
     (if nat (sint m - sint d) + 1 < length stk then [marker_loc] else [])"
  using assms
proof (induction stk arbitrary: d)
  case (Cons ed prev)
  show ?case
  proof (cases "sint m \<le> sint d")
    case True
    then show ?thesis using Cons.prems by (auto simp: word_sle_eq neq_Nil_conv)
  next
    case False
    then have d1: "sint (d + 1) = sint d + 1" using sint_Suc_word [of d m] by simp
    have k: "nat (sint m - sint d) = Suc (nat (sint m - sint (d + 1)))"
      using False Cons.prems(2) by (simp add: d1)
    have IH: "capture m prev (d + 1) =
        concat (map user_loc (take (nat (sint m - sint (d + 1)) + 1) prev)) @
        (if nat (sint m - sint (d + 1)) + 1 < length prev then [marker_loc] else [])"
      using False Cons.prems by (intro Cons.IH) (auto simp: d1)
    show ?thesis using False IH k by (auto simp: word_sle_eq)
  qed
qed simp

lemma capture_captured: "capture m stk 0 = captured m stk"
proof (cases "m = 0")
  case True
  then show ?thesis by (simp add: capture_unlimited captured_def visited_def)
next
  case False
  have "nat (sint m - 0) = nat (sint m)" by simp
  with capture_limited [of m 0 stk] False show ?thesis
    by (auto simp: captured_def visited_def)
qed

section \<open>Recording is correct\<close>

text \<open>A frame without its link: file, line, class, function and closure line.\<close>

definition frame_view :: "excimer_log_frame \<Rightarrow> excimer_log_frame" where
  "frame_view f = f\<lparr>prev_index := 0\<rparr>"

definition user_view :: "zend_execute_data \<Rightarrow> excimer_log_frame list" where
  "user_view ed = (case func ed of
     None \<Rightarrow> []
   | Some fn \<Rightarrow> if ZEND_USER_CODE (func_type fn) then [make_frame fn (opline_lineno ed) 0] else [])"

definition stack_views :: "call_stack \<Rightarrow> excimer_log_frame set" where
  "stack_views stk = (\<Union>ed \<in> set stk. set (user_view ed))"

lemma frame_view_simps [simp]:
  "frame_view truncation_frame = truncation_frame"
  "frame_view (make_frame fn line prev) = make_frame fn line 0"
  "frame_loc (frame_view f) = frame_loc f"
  by (simp_all add: frame_view_def truncation_frame_def make_frame_def frame_loc_def)

lemma marker_ok:
  assumes wf: "frames_wf log" and res: "excimer_log_get_truncation_marker log = Inr (i, log')"
  shows "frames_wf log'" and "log_extends log log'" and "unat i < length (frames log')"
    and "log_trace log' i = [truncation_frame]"
    and "frame_view ` set (frames log') \<subseteq> insert truncation_frame (frame_view ` set (frames log))"
proof -
  note res' = res [unfolded get_truncation_marker_eq]
  have st: "stored_under excimer_log_truncated_name truncation_frame"
    by (simp add: stored_under_truncated)
  have prev: "unat (prev_index truncation_frame) < length (frames log)"
    using wf by (simp add: truncation_frame_def frames_wf_def)
  note ok = intern_frame_ok [OF wf st prev res']
  from ok(1,2,4) show "frames_wf log'" and "log_extends log log'" and "unat i < length (frames log')"
    by simp_all
  from ok(5) have "frames log' ! unat i = truncation_frame" by (simp add: stored_under_truncated)
  with log_trace_unfold [OF ok(1,3,4)] show "log_trace log' i = [truncation_frame]"
    by (simp add: truncation_frame_def)
  from ok(7) show "frame_view ` set (frames log') \<subseteq> insert truncation_frame (frame_view ` set (frames log))"
    by auto
qed

lemma user_frame_ok:
  assumes wf: "frames_wf log" and prev: "unat prev < length (frames log)"
    and res: "find_or_add_user_frame log fn line prev = Inr (i, log')"
  shows "frames_wf log'" and "log_extends log log'" and "unat i < length (frames log')"
    and "map frame_loc (log_trace log' i) =
      (Some (op_filename fn), line) # map frame_loc (log_trace log prev)"
    and "frame_view ` set (frames log') \<subseteq> insert (make_frame fn line 0) (frame_view ` set (frames log))"
proof -
  note res' = res [unfolded find_or_add_user_frame_eq]
  have "unat (prev_index (make_frame fn line prev)) < length (frames log)"
    using prev by simp
  note ok = intern_frame_ok [OF wf make_frame_stored this res']
  from ok(1,2,4) show "frames_wf log'" and "log_extends log log'" and "unat i < length (frames log')"
    by simp_all
  from ok(5) have "frame_loc (frames log' ! unat i) = (Some (op_filename fn), line)"
    and "prev_index (frames log' ! unat i) = prev"
    by (simp_all add: stored_under_key frame_loc_def)
  with log_trace_unfold [OF ok(1,3,4)] log_extends_trace [OF ok(2) prev]
  show "map frame_loc (log_trace log' i) =
      (Some (op_filename fn), line) # map frame_loc (log_trace log prev)"
    by simp
  from ok(7) show "frame_view ` set (frames log') \<subseteq> insert (make_frame fn line 0) (frame_view ` set (frames log))"
    by auto
qed

definition recorded :: "excimer_log \<Rightarrow> call_stack \<Rightarrow> zend_long \<Rightarrow> uint32_t \<Rightarrow> excimer_log \<Rightarrow> bool" where
  "recorded log stk d i log' \<longleftrightarrow>
     frames_wf log' \<and> log_extends log log' \<and> unat i < length (frames log') \<and>
     map frame_loc (log_trace log' i) = capture (max_depth log) stk d \<and>
     frame_view ` set (frames log') \<subseteq>
       frame_view ` set (frames log) \<union> insert truncation_frame (stack_views stk)"

lemma recorded_empty: "frames_wf log \<Longrightarrow> recorded log [] d 0 log"
  by (auto simp: recorded_def frames_wf_def)

text \<open>The two halves of one step of the recursion: the caller's index, then the frame itself.\<close>

lemma recorded_step:
  assumes wf: "frames_wf log1" and ext: "log_extends log log1" and i1: "unat i1 < length (frames log1)"
    and tr: "map frame_loc (log_trace log1 i1) = outer"
    and views: "frame_view ` set (frames log1) \<subseteq> V"
    and res: "(case func ed of None \<Rightarrow> Inr (i1, log1)
       | Some fn \<Rightarrow> if \<not> ZEND_USER_CODE (func_type fn) then Inr (i1, log1)
           else find_or_add_user_frame log1 fn (opline_lineno ed) i1) = Inr (i, log')"
  shows "frames_wf log' \<and> log_extends log log' \<and> unat i < length (frames log') \<and>
    map frame_loc (log_trace log' i) = user_loc ed @ outer \<and>
    frame_view ` set (frames log') \<subseteq> V \<union> set (user_view ed)"
proof (cases "\<exists>fn. func ed = Some fn \<and> ZEND_USER_CODE (func_type fn)")
  case True
  then obtain fn where fn: "func ed = Some fn" "ZEND_USER_CODE (func_type fn)" by blast
  with res have res': "find_or_add_user_frame log1 fn (opline_lineno ed) i1 = Inr (i, log')"
    by simp
  note ok = user_frame_ok [OF wf i1 res']
  show ?thesis
    using ok(1,3,4) log_extends_trans [OF ext ok(2)] tr fn ok(5) views
    by (auto simp: user_loc_def user_view_def)
next
  case False
  with res have "i = i1" "log' = log1" by (auto split: option.splits if_splits)
  moreover have "user_loc ed = []" "user_view ed = []"
    using False by (auto simp: user_loc_def user_view_def split: option.splits)
  ultimately show ?thesis using assms(1-5) by auto
qed

lemma find_or_add_frame_recorded:
  assumes "frames_wf log" and "excimer_log_find_or_add_frame log stk d = Inr (i, log')"
  shows "recorded log stk d i log'"
  using assms
proof (induction stk arbitrary: log d i log')
  case Nil
  then show ?case by (simp add: recorded_empty)
next
  case (Cons ed prev)
  let ?outer = "if prev = [] then [] else if max_depth log \<noteq> 0 \<and> max_depth log \<le>s d then [marker_loc]
      else capture (max_depth log) prev (d + 1)"
  let ?V = "frame_view ` set (frames log) \<union> insert truncation_frame (stack_views prev)"
  let ?caller = "if prev = [] then Inr (0, log)
      else if max_depth log \<noteq> 0 \<and> max_depth log \<le>s d then excimer_log_get_truncation_marker log
      else excimer_log_find_or_add_frame log prev (d + 1)"
  from Cons.prems(2) obtain i1 log1 where caller: "?caller = Inr (i1, log1)"
    and rest: "(case func ed of None \<Rightarrow> Inr (i1, log1)
       | Some fn \<Rightarrow> if \<not> ZEND_USER_CODE (func_type fn) then Inr (i1, log1)
           else find_or_add_user_frame log1 fn (opline_lineno ed) i1) = Inr (i, log')"
    by (auto elim!: rbind_Inr_D)
  have "frames_wf log1 \<and> log_extends log log1 \<and> unat i1 < length (frames log1) \<and>
      map frame_loc (log_trace log1 i1) = ?outer \<and> frame_view ` set (frames log1) \<subseteq> ?V"
  proof (cases "prev = []")
    case True
    with caller Cons.prems(1) show ?thesis by (auto simp: frames_wf_def)
  next
    case nonempty: False
    show ?thesis
    proof (cases "max_depth log \<noteq> 0 \<and> max_depth log \<le>s d")
      case True
      with nonempty caller have "excimer_log_get_truncation_marker log = Inr (i1, log1)" by simp
      note ok = marker_ok [OF Cons.prems(1) this]
      from ok True nonempty show ?thesis by (auto simp: marker_loc_def)
    next
      case False
      with nonempty caller have "excimer_log_find_or_add_frame log prev (d + 1) = Inr (i1, log1)"
        by simp
      from Cons.IH [OF Cons.prems(1) this] False nonempty show ?thesis by (auto simp: recorded_def)
    qed
  qed
  with recorded_step [OF _ _ _ _ _ rest, of log ?outer ?V]
  show ?case by (auto simp: recorded_def stack_views_def)
qed

section \<open>Recording always answers, and answers again the same\<close>

lemma intern_frame_total:
  assumes "frames_wf log" and "length (frames log) < 2 ^ 32"
  shows "\<exists>i log'. intern_frame log k f = Inr (i, log') \<and> length (frames log') \<le> Suc (length (frames log))"
  using assms by (auto simp: intern_frame_eq split: option.split)

lemma find_or_add_frame_total:
  assumes "frames_wf log" and "length (frames log) + length stk \<le> 2 ^ 32"
  shows "\<exists>i log'. excimer_log_find_or_add_frame log stk d = Inr (i, log') \<and>
     length (frames log') \<le> length (frames log) + length stk"
  using assms
proof (induction stk arbitrary: log d)
  case (Cons ed prev)
  let ?caller = "if prev = [] then Inr (0, log)
      else if max_depth log \<noteq> 0 \<and> max_depth log \<le>s d then excimer_log_get_truncation_marker log
      else excimer_log_find_or_add_frame log prev (d + 1)"
  have marker: "\<exists>i1 log1. excimer_log_get_truncation_marker log = Inr (i1, log1) \<and>
      length (frames log1) \<le> length (frames log) + length prev" if "prev \<noteq> []"
    using intern_frame_total [OF Cons.prems(1)] Cons.prems(2) that
    by (fastforce simp: get_truncation_marker_eq neq_Nil_conv)
  obtain i1 log1 where caller: "?caller = Inr (i1, log1)"
    and len: "length (frames log1) \<le> length (frames log) + length prev"
    using marker Cons.IH [OF Cons.prems(1), of "d + 1"] Cons.prems(2)
    by (cases "prev = []"; cases "max_depth log \<noteq> 0 \<and> max_depth log \<le>s d") auto
  have wf1: "frames_wf log1"
  proof (cases "prev = []")
    case True
    with caller Cons.prems show ?thesis by simp
  next
    case nonempty: False
    show ?thesis
      using caller nonempty marker_ok(1) [OF Cons.prems(1)] find_or_add_frame_recorded [OF Cons.prems(1)]
      by (auto simp: recorded_def split: if_splits)
  qed
  have "\<exists>i log'. find_or_add_user_frame log1 fn (opline_lineno ed) i1 = Inr (i, log') \<and>
      length (frames log') \<le> Suc (length (frames log1))" for fn
    unfolding find_or_add_user_frame_eq
    by (rule intern_frame_total) (use wf1 len Cons.prems(2) in auto)
  with caller len show ?case
    by (cases "func ed") (fastforce simp: le_Suc_eq)+
qed auto

lemma log_extends_find:
  "log_extends a b \<Longrightarrow> zh_find (reverse_frames a) k = Some z \<Longrightarrow> zh_find (reverse_frames b) k = Some z"
  by (auto simp: log_extends_def zh_find_def map_add_def)

lemma ucast_ucast_32 [simp]: "(ucast (ucast (i :: 32 word) :: 64 word) :: 32 word) = i"
  by (rule bit_word_eqI) (simp add: bit_simps)

lemma intern_frame_again:
  assumes "frames_wf log" and "stored_under k f" and "unat (prev_index f) < length (frames log)"
    and "intern_frame log k f = Inr (i, log')"
    and "log_extends log' log''" and "frames_wf log''"
  shows "intern_frame log'' k g = Inr (i, log'')"
  using log_extends_find [OF assms(5) intern_frame_ok(6) [OF assms(1-4)]] assms(6)
  by (simp add: intern_frame_eq)

lemma find_or_add_frame_again:
  assumes "frames_wf log" and "excimer_log_find_or_add_frame log stk d = Inr (i, log')"
    and "log_extends log' log''" and "frames_wf log''"
  shows "excimer_log_find_or_add_frame log'' stk d = Inr (i, log'')"
  using assms
proof (induction stk arbitrary: log d i log' log'')
  case (Cons ed prev)
  let ?marker = "excimer_log_get_truncation_marker"
  let ?caller = "\<lambda>log. if prev = [] then Inr (0, log)
      else if max_depth log \<noteq> 0 \<and> max_depth log \<le>s d then ?marker log
      else excimer_log_find_or_add_frame log prev (d + 1)"
  from Cons.prems(2) obtain i1 log1 where caller: "?caller log = Inr (i1, log1)"
    and rest: "(case func ed of None \<Rightarrow> Inr (i1, log1)
       | Some fn \<Rightarrow> if \<not> ZEND_USER_CODE (func_type fn) then Inr (i1, log1)
           else find_or_add_user_frame log1 fn (opline_lineno ed) i1) = Inr (i, log')"
    by (auto elim!: rbind_Inr_D)
  have mark: "?marker l'' = Inr (j, l'')" if "?marker log = Inr (j, l')" "log_extends l' l''" "frames_wf l''"
    for j l' l''
    using intern_frame_again [OF Cons.prems(1), of excimer_log_truncated_name truncation_frame] that
      Cons.prems(1)
    by (simp add: get_truncation_marker_eq stored_under_truncated truncation_frame_def frames_wf_def)
  have ok1: "frames_wf log1 \<and> log_extends log log1 \<and> unat i1 < length (frames log1)"
    using caller marker_ok(1-3) [OF Cons.prems(1)] find_or_add_frame_recorded [OF Cons.prems(1)]
      Cons.prems(1)
    by (auto simp: recorded_def frames_wf_def split: if_splits)
  have ext1: "log_extends log1 log'"
    using rest ok1 user_frame_ok(2) by (auto split: option.splits if_splits)
  then have ext: "log_extends log1 log''" using Cons.prems(3) log_extends_trans by blast
  then have depth: "max_depth log'' = max_depth log"
    using ok1 by (simp add: log_extends_def)
  have again: "?caller log'' = Inr (i1, log'')"
    using caller mark [OF _ ext Cons.prems(4)] Cons.IH [OF Cons.prems(1) _ ext Cons.prems(4)]
    by (auto simp: depth split: if_splits)
  have "find_or_add_user_frame log'' fn (opline_lineno ed) i1 = Inr (i, log'')"
    if "find_or_add_user_frame log1 fn (opline_lineno ed) i1 = Inr (i, log')" for fn
    using intern_frame_again [OF _ make_frame_stored _ _ Cons.prems(3,4), of log1] that ok1
    unfolding find_or_add_user_frame_eq by simp
  with rest again show ?case by (auto split: option.splits if_splits)
qed simp

section \<open>Entries\<close>

lemma log_extends_entries:
  "log_extends a b \<Longrightarrow> entries_wf a \<Longrightarrow> entries_wf b"
  by (auto simp: log_extends_def entries_wf_def)

lemma excimer_log_add_Inr:
  assumes "excimer_log_add log stk n t = Inr log'"
  obtains i log1 where "excimer_log_find_or_add_frame log stk 0 = Inr (i, log1)"
    and "unat (entries_size log1 + 1) * sizeof_entry < 2 ^ 64"
    and "log' = log1\<lparr>entries := entries log1 @ [\<lparr>frame_index = i, entry_event_count = n, timestamp = t\<rparr>],
       entries_size := entries_size log1 + 1, log_event_count := log_event_count log1 + n\<rparr>"
  using assms
  by (auto simp: excimer_log_add_def safe_erealloc_def elim!: rbind_Inr_D split: if_splits)

lemma entries_wf_push:
  assumes "entries_wf log" and "unat i < length (frames log)"
    and fits: "unat (entries_size log + 1) * sizeof_entry < 2 ^ 64"
  shows "entries_wf (log\<lparr>entries := entries log @ [\<lparr>frame_index = i, entry_event_count = n, timestamp = t\<rparr>],
     entries_size := entries_size log + 1, log_event_count := log_event_count log + n\<rparr>)"
proof -
  let ?m = "length (entries log)"
  have m: "?m * 24 < 2 ^ 64" and sz: "entries_size log = of_nat ?m"
    using assms(1) by (simp_all add: entries_wf_def sizeof_entry_def)
  have "unat (entries_size log + 1) = Suc ?m"
    using m unat_of_nat64 [of "Suc ?m"] by (simp add: sz add.commute)
  with fits have "Suc ?m * sizeof_entry < 2 ^ 64" by simp
  with assms(1,2) sz show ?thesis by (auto simp: entries_wf_def add.commute)
qed

lemma frames_wf_update:
  "frames_wf (log\<lparr>entries := es, entries_size := sz, log_event_count := c\<rparr>) \<longleftrightarrow> frames_wf log"
  "frames_wf (log\<lparr>max_depth := m\<rparr>) \<longleftrightarrow> frames_wf log"
  "frames_wf (log\<lparr>epoch := e\<rparr>) \<longleftrightarrow> frames_wf log"
  "frames_wf (log\<lparr>period := p\<rparr>) \<longleftrightarrow> frames_wf log"
  by (simp_all add: frames_wf_def)

lemma log_trace_update [simp]:
  "log_trace (log\<lparr>entries := es, entries_size := sz, log_event_count := c\<rparr>) i = log_trace log i"
  "log_trace (log\<lparr>max_depth := m\<rparr>) i = log_trace log i"
  by (simp_all add: log_trace_def)

text \<open>
  The abstract value of a log: its samples in order, each the recorded locations
  (innermost first), its event count and its time.
\<close>

definition log_samples ::
  "excimer_log \<Rightarrow> ((string option \<times> uint32_t) list \<times> zend_long \<times> uint64_t) list" where
  "log_samples log = map (\<lambda>e. (map frame_loc (log_trace log (frame_index e)),
     entry_event_count e, timestamp e)) (entries log)"

lemma excimer_log_add_ok:
  assumes wf: "log_wf log" and res: "excimer_log_add log stk n t = Inr log'"
  shows "log_wf log'"
    and "log_samples log' = log_samples log @ [(captured (max_depth log) stk, n, t)]"
    and "max_depth log' = max_depth log" and "epoch log' = epoch log" and "period log' = period log"
proof -
  obtain i log1 where rec: "excimer_log_find_or_add_frame log stk 0 = Inr (i, log1)"
    and fits: "unat (entries_size log1 + 1) * sizeof_entry < 2 ^ 64"
    and log': "log' = log1\<lparr>entries := entries log1 @ [\<lparr>frame_index = i, entry_event_count = n, timestamp = t\<rparr>],
       entries_size := entries_size log1 + 1, log_event_count := log_event_count log1 + n\<rparr>"
    by (rule excimer_log_add_Inr [OF res])
  have "frames_wf log" and ewf: "entries_wf log" using wf by (simp_all add: log_wf_def)
  from find_or_add_frame_recorded [OF this(1) rec]
  have wf1: "frames_wf log1" and ext: "log_extends log log1" and i: "unat i < length (frames log1)"
    and tr: "map frame_loc (log_trace log1 i) = captured (max_depth log) stk"
    by (simp_all add: recorded_def capture_captured)
  have "entries_wf log'"
    unfolding log' by (rule entries_wf_push [OF log_extends_entries [OF ext ewf] i fits])
  with wf1 show "log_wf log'" by (simp add: log' log_wf_def frames_wf_update)
  have "log_trace log1 (frame_index e) = log_trace log (frame_index e)" if "e \<in> set (entries log)" for e
    using log_extends_trace [OF ext] ewf that by (auto simp: entries_wf_def)
  with ext tr show "log_samples log' = log_samples log @ [(captured (max_depth log) stk, n, t)]"
    by (simp add: log' log_samples_def log_extends_def)
  from ext show "max_depth log' = max_depth log" "epoch log' = epoch log" "period log' = period log"
    by (simp_all add: log' log_extends_def)
qed

lemma excimer_log_add_total:
  assumes wf: "log_wf log" and frames: "length (frames log) + length stk \<le> 2 ^ 32"
    and entries: "Suc (length (entries log)) * sizeof_entry < 2 ^ 64"
  shows "\<exists>log'. excimer_log_add log stk n t = Inr log'"
proof -
  have fwf: "frames_wf log" and ewf: "entries_wf log" using wf by (simp_all add: log_wf_def)
  obtain i log1 where rec: "excimer_log_find_or_add_frame log stk 0 = Inr (i, log1)"
    using find_or_add_frame_total [OF fwf frames] by blast
  have "entries_size log1 = of_nat (length (entries log))"
    using find_or_add_frame_recorded [OF fwf rec] ewf
    by (simp add: recorded_def log_extends_def entries_wf_def)
  moreover have "unat (of_nat (length (entries log)) + 1 :: 64 word) = Suc (length (entries log))"
    using entries unat_of_nat64 [of "Suc (length (entries log))"]
    by (simp add: sizeof_entry_def add.commute)
  ultimately show ?thesis using rec entries by (simp add: excimer_log_add_def safe_erealloc_def)
qed

section \<open>The log as a contract\<close>

text \<open>
  What the profiler relies on: adding appends exactly one sample, the counter is the sum
  of the samples' event counts, and the way a stack is captured does not change.
\<close>

locale sample_log =
  fixes ok :: "'l \<Rightarrow> bool"
    and samples :: "'l \<Rightarrow> ('t \<times> 'n :: comm_monoid_add \<times> 'u) list"
    and total :: "'l \<Rightarrow> 'n"
    and view :: "'l \<Rightarrow> 's \<Rightarrow> 't"
    and add :: "'l \<Rightarrow> 's \<Rightarrow> 'n \<Rightarrow> 'u \<Rightarrow> 'l res"
  assumes ok_add: "ok l \<Longrightarrow> add l s n u = Inr l' \<Longrightarrow> ok l'"
    and samples_add: "ok l \<Longrightarrow> add l s n u = Inr l' \<Longrightarrow> samples l' = samples l @ [(view l s, n, u)]"
    and view_add: "ok l \<Longrightarrow> add l s n u = Inr l' \<Longrightarrow> view l' = view l"
    and total_samples: "ok l \<Longrightarrow> total l = (\<Sum>(t, n, u) \<leftarrow> samples l. n)"
begin

lemma total_add: "ok l \<Longrightarrow> add l s n u = Inr l' \<Longrightarrow> total l' = total l + n"
  by (simp add: total_samples ok_add samples_add)

lemma ok_run: "ok l \<Longrightarrow> foldR (\<lambda>l (s, n, u). add l s n u) l evs = Inr l' \<Longrightarrow> ok l'"
proof (induction evs arbitrary: l)
  case (Cons e evs)
  then show ?case by (cases e) (auto elim!: rbind_Inr_D dest: ok_add)
qed simp

lemma samples_run:
  "ok l \<Longrightarrow> foldR (\<lambda>l (s, n, u). add l s n u) l evs = Inr l' \<Longrightarrow>
     samples l' = samples l @ map (\<lambda>(s, n, u). (view l s, n, u)) evs"
proof (induction evs arbitrary: l)
  case (Cons e evs)
  obtain s n u where e: "e = (s, n, u)" by (cases e)
  with Cons.prems obtain l1 where add: "add l s n u = Inr l1"
    and rest: "foldR (\<lambda>l (s, n, u). add l s n u) l1 evs = Inr l'"
    by (auto elim!: rbind_Inr_D)
  from Cons.IH [OF ok_add [OF Cons.prems(1) add] rest] show ?case
    by (simp add: e samples_add [OF Cons.prems(1) add] view_add [OF Cons.prems(1) add])
qed simp

lemma total_run:
  assumes "ok l" and "foldR (\<lambda>l (s, n, u). add l s n u) l evs = Inr l'"
  shows "total l' = total l + (\<Sum>(s, n, u) \<leftarrow> evs. n)"
  using total_samples [OF assms(1)] total_samples [OF ok_run [OF assms]] samples_run [OF assms]
  by (simp add: comp_def case_prod_unfold)

end

lemma log_wf_total: "log_wf log \<Longrightarrow> log_event_count log = (\<Sum>(t, n, u) \<leftarrow> log_samples log. n)"
  by (simp add: log_wf_def entries_wf_def log_samples_def comp_def)

interpretation elog: sample_log log_wf log_samples log_event_count
    "\<lambda>log. captured (max_depth log)" excimer_log_add
  by unfold_locales (auto intro: excimer_log_add_ok(1) simp: excimer_log_add_ok(2,3) log_wf_total)

section \<open>Reachable logs\<close>

text \<open>Everything the extension does to a log between creating and destroying it.\<close>

inductive log_reachable :: "excimer_log \<Rightarrow> bool" where
  init: "log_reachable (excimer_log_init mem)"
| set_max_depth: "log_reachable log \<Longrightarrow> log_reachable (excimer_log_set_max_depth log d)"
| copy_options: "log_reachable log \<Longrightarrow> log_reachable (excimer_log_copy_options log src)"
| set_epoch: "log_reachable log \<Longrightarrow> log_reachable (log\<lparr>epoch := e\<rparr>)"
| set_period: "log_reachable log \<Longrightarrow> log_reachable (log\<lparr>period := p\<rparr>)"
| add: "log_reachable log \<Longrightarrow> excimer_log_add log stk n t = Inr log' \<Longrightarrow> log_reachable log'"

lemma log_wf_options:
  assumes "log_wf log"
  shows "log_wf (log\<lparr>max_depth := d\<rparr>)" "log_wf (log\<lparr>epoch := e\<rparr>)" "log_wf (log\<lparr>period := p\<rparr>)"
    "log_wf (excimer_log_set_max_depth log d)" "log_wf (excimer_log_copy_options log src)"
  using assms
  by (simp_all add: log_wf_def frames_wf_update entries_wf_def excimer_log_set_max_depth_def
      excimer_log_copy_options_def)

lemma log_wf_init: "log_wf (excimer_log_init mem)"
  using frames_wf_init [of mem] by (simp add: log_wf_def entries_wf_def excimer_log_init_def)

lemma log_reachable_wf: "log_reachable log \<Longrightarrow> log_wf log"
  by (induction rule: log_reachable.induct)
    (auto intro: log_wf_init log_wf_options excimer_log_add_ok(1))

section \<open>Accessors\<close>

lemma get_entry_eq:
  assumes "entries_wf log"
  shows "excimer_log_get_entry log i =
     (if 0 \<le> sint i \<and> nat (sint i) < length (entries log)
      then Some (entries log ! nat (sint i)) else None)"
proof -
  have m: "length (entries log) < 2 ^ 63" and sz: "entries_size log = of_nat (length (entries log))"
    using assms by (auto simp: entries_wf_def sizeof_entry_def)
  have "i < of_nat (length (entries log)) \<longleftrightarrow> unat i < length (entries log)"
    using m by (simp add: word_less_nat_alt word_nat)
  moreover have "nat (sint i) = unat i" if "0 \<le> sint i"
    using that by (rule nat_sint_unat)
  ultimately show ?thesis using sz by (auto simp: excimer_log_get_entry_def word_sle_eq)
qed

lemma get_frame_eq:
  assumes "frames_wf log"
  shows "excimer_log_get_frame log i =
     (if 0 < sint i \<and> nat (sint i) < length (frames log)
      then Some (frames log ! nat (sint i)) else None)"
proof -
  have m: "length (frames log) < 2 ^ 63" and sz: "frames_size log = of_nat (length (frames log))"
    using assms by (auto simp: frames_wf_def)
  have "i < of_nat (length (frames log)) \<longleftrightarrow> unat i < length (frames log)"
    using m by (simp add: word_less_nat_alt word_nat)
  moreover have "nat (sint i) = unat i" if "0 < sint i"
    using that by (intro nat_sint_unat) simp
  ultimately show ?thesis using sz by (auto simp: excimer_log_get_frame_def word_sless_alt)
qed

lemma find_or_add_frame_fault:
  assumes "frames_wf log" and "excimer_log_find_or_add_frame log stk d = Inl e"
  shows "e = Fatal_Error ''Integer out of range''"
  using assms
proof (induction stk arbitrary: log d)
  case (Cons ed prev)
  have intern: "intern_frame l k f = Inl e \<Longrightarrow> frames_wf l \<Longrightarrow> e = Fatal_Error ''Integer out of range''"
    for l k f
    by (auto simp: intern_frame_eq split: option.splits if_splits)
  let ?caller = "if prev = [] then Inr (0, log)
      else if max_depth log \<noteq> 0 \<and> max_depth log \<le>s d then excimer_log_get_truncation_marker log
      else excimer_log_find_or_add_frame log prev (d + 1)"
  show ?case
  proof (cases ?caller)
    case (Inl a)
    with Cons.prems(2) have "a = e" by simp
    with Inl Cons.IH [OF Cons.prems(1)] intern Cons.prems(1) show ?thesis
      by (auto simp: get_truncation_marker_eq split: if_splits)
  next
    case (Inr p)
    obtain i1 log1 where p: "p = (i1, log1)" by (cases p)
    have "frames_wf log1"
      using Inr p marker_ok(1) [OF Cons.prems(1)] find_or_add_frame_recorded [OF Cons.prems(1)]
        Cons.prems(1)
      by (auto simp: recorded_def split: if_splits)
    with Inr p Cons.prems(2) intern show ?thesis
      by (auto simp: find_or_add_user_frame_eq split: option.splits if_splits)
  qed
qed simp

section \<open>A concrete script\<close>

text \<open>
  \<^verbatim>\<open>a.php\<close> calls \<^verbatim>\<open>foo\<close> on line 9, which calls the internal \<^verbatim>\<open>usleep\<close> on line 4; and a second
  function \<^verbatim>\<open>bar\<close> that shares line 4 with it. Used by the witnesses.
\<close>

definition demo_fn :: "string option \<Rightarrow> zend_function" where
  "demo_fn name = \<lparr>func_type = ZEND_USER_FUNCTION, op_filename = ''a.php'', scope_name = None,
     func_name = name, acc_closure = False, line_start = 1\<rparr>"

definition demo_usleep :: zend_function where
  "demo_usleep = \<lparr>func_type = ZEND_INTERNAL_FUNCTION, op_filename = [], scope_name = None,
     func_name = Some ''usleep'', acc_closure = False, line_start = 0\<rparr>"

definition demo_stack :: call_stack where
  "demo_stack = [\<lparr>func = Some demo_usleep, opline_lineno = 0\<rparr>,
     \<lparr>func = Some (demo_fn (Some ''foo'')), opline_lineno = 4\<rparr>,
     \<lparr>func = Some (demo_fn None), opline_lineno = 9\<rparr>]"

definition demo_log :: "zend_long \<Rightarrow> excimer_log" where
  "demo_log depth = excimer_log_init \<lparr>entries = [], entries_size = 0, frames = [],
     frames_size = 0, reverse_frames = [], max_depth = depth, epoch = 0, period = 100000000,
     log_event_count = 0\<rparr>"

lemmas demo_defs = demo_fn_def demo_usleep_def demo_stack_def demo_log_def

lemmas log_eval = excimer_log_init_def excimer_log_add_def find_or_add_user_frame_def
  excimer_log_get_truncation_marker_def log_push_frame_def safe_erealloc_def excimer_safe_uint32_def
  frame_key_def make_frame_def zh_find_def zh_add_def Let_def ZEND_USER_CODE_def sizeof_frame_def
  sizeof_entry_def printf_d_def dec_int_def dec_nat.simps digit_char_def null_frame_def
  truncation_frame_def excimer_log_truncated_name_def excimer_log_fake_filename_def
  word_sless_alt word_sle_eq

definition demo_frames :: "excimer_log_frame list" where
  "demo_frames = [null_frame, make_frame (demo_fn None) 9 0, make_frame (demo_fn (Some ''foo'')) 4 1]"

definition demo_result :: excimer_log where
  "demo_result = (demo_log 0)\<lparr>frames := demo_frames, frames_size := 3,
     reverse_frames := [(frame_key ''a.php'' 9 0, 1), (frame_key ''a.php'' 4 1, 2)],
     entries := [\<lparr>frame_index = 2, entry_event_count = 3, timestamp = 77\<rparr>],
     entries_size := 1, log_event_count := 3\<rparr>"

lemma demo_add: "excimer_log_add (demo_log 0) demo_stack 3 77 = Inr demo_result"
  by (simp add: demo_defs demo_result_def demo_frames_def log_eval)

lemma demo_record:
  "excimer_log_find_or_add_frame (demo_log 0) demo_stack 0 =
     Inr (2, demo_result\<lparr>entries := [], entries_size := 0, log_event_count := 0\<rparr>)"
  by (simp add: demo_defs demo_result_def demo_frames_def log_eval)

lemma demo_log_wf: "log_wf (demo_log d)" "frames_wf (demo_log d)"
  using log_wf_init by (simp_all add: demo_log_def log_wf_def)

section \<open>Properties\<close>

text \<open>C1 (refinement): adding an entry to a well-formed log keeps it well-formed and appends
  exactly one sample, whose trace is what the depth limit lets the recorder capture of the call
  stack (innermost frame first, internal functions left out, the truncation marker outermost
  when the stack is cut), with the given event count and time; the earlier samples read the
  same as before.\<close>

theorem log_add_appends_sample:
  assumes "log_wf log" and "excimer_log_add log stk n t = Inr log'"
  shows "log_wf log' \<and> log_samples log' = log_samples log @ [(captured (max_depth log) stk, n, t)]"
  using excimer_log_add_ok(1,2) [OF assms] by simp

theorem log_add_appends_sample_witness:
  "log_samples demo_result = log_samples (demo_log 0) @ [(captured 0 demo_stack, 3, 77)]"
proof -
  have d: "max_depth (demo_log 0) = 0" by (simp add: demo_log_def excimer_log_init_def)
  show ?thesis using log_add_appends_sample [OF demo_log_wf(1) demo_add] unfolding d by simp
qed

text \<open>C19 (functional): when no two functions of the log and of the stack share a file and line,
  the recorded trace is exact in every field: file, line, class, function and closure line of
  each visited user function, then the truncation marker when the stack was cut.\<close>

theorem recorded_trace_exact:
  assumes "frames_wf log" and "excimer_log_find_or_add_frame log stk 0 = Inr (i, log')"
    and "inj_on frame_loc (frame_view ` set (frames log) \<union> insert truncation_frame (stack_views stk))"
  shows "map frame_view (log_trace log' i) =
     concat (map user_view (visited (max_depth log) stk)) @
     (if length (visited (max_depth log) stk) < length stk then [truncation_frame] else [])"
    (is "_ = ?views")
proof (rule map_inj_on)
  let ?C = "frame_view ` set (frames log) \<union> insert truncation_frame (stack_views stk)"
  have rec: "recorded log stk 0 i log'" by (rule find_or_add_frame_recorded [OF assms(1,2)])
  have ul: "map frame_loc (user_view ed) = user_loc ed" for ed
    by (simp add: user_view_def user_loc_def make_frame_def frame_loc_def split: option.split)
  have "map frame_loc (concat (map user_view xs)) = concat (map user_loc xs)" for xs
    by (induction xs) (simp_all add: ul)
  then show "map frame_loc (map frame_view (log_trace log' i)) = map frame_loc ?views"
    using rec by (simp add: recorded_def capture_captured captured_def marker_loc_def comp_def)
  have "set (log_trace log' i) \<subseteq> set (frames log')"
    using trace_idx_range by (fastforce simp: log_trace_def)
  with rec have "set (map frame_view (log_trace log' i)) \<subseteq> ?C"
    by (auto simp: recorded_def)
  moreover have "set (visited (max_depth log) stk) \<subseteq> set stk"
    by (auto simp: visited_def dest: in_set_takeD)
  then have "set ?views \<subseteq> ?C" by (auto simp: stack_views_def)
  ultimately show "inj_on frame_loc (set (map frame_view (log_trace log' i)) \<union> set ?views)"
    by (intro inj_on_subset [OF assms(3)] Un_least)
qed

theorem recorded_trace_exact_witness:
  "map frame_view (log_trace (demo_result\<lparr>entries := [], entries_size := 0, log_event_count := 0\<rparr>) 2) =
     [make_frame (demo_fn (Some ''foo'')) 4 0, make_frame (demo_fn None) 9 0]"
proof -
  have "inj_on frame_loc (frame_view ` set (frames (demo_log 0)) \<union>
      insert truncation_frame (stack_views demo_stack))"
    by (auto simp: inj_on_def frame_loc_def frame_view_def stack_views_def user_view_def demo_defs log_eval)
  from recorded_trace_exact [OF demo_log_wf(2) demo_record this]
  show ?thesis by (simp add: visited_def user_view_def demo_defs log_eval)
qed

text \<open>With a positive depth limit a recorded trace has at most two frames more than
  the limit: the innermost element is not counted, and the truncation marker is a frame of its
  own.\<close>

lemma recorded_depth_bound:
  assumes "frames_wf log" and "excimer_log_find_or_add_frame log stk 0 = Inr (i, log')"
    and "0 < sint (max_depth log)"
  shows "length (log_trace log' i) \<le> nat (sint (max_depth log)) + 2"
proof -
  have "recorded log stk 0 i log'" by (rule find_or_add_frame_recorded [OF assms(1,2)])
  then have "length (log_trace log' i) = length (captured (max_depth log) stk)"
    by (metis capture_captured length_map recorded_def)
  moreover have "length (concat (map user_loc xs)) \<le> length xs" for xs
    by (induction xs) (auto simp: user_loc_def split: option.split)
  moreover have "length (visited (max_depth log) stk) \<le> nat (sint (max_depth log)) + 1"
    using assms(3) by (auto simp: visited_def)
  ultimately have "length (concat (map user_loc (visited (max_depth log) stk))) \<le> nat (sint (max_depth log)) + 1"
    and "length (log_trace log' i) = length (captured (max_depth log) stk)"
    using le_trans by blast+
  then show ?thesis by (auto simp: captured_def)
qed

definition deep_stack :: call_stack where
  "deep_stack = map (\<lambda>l. \<lparr>func = Some (demo_fn None), opline_lineno = l\<rparr>) [1, 2, 3, 4]"

text \<open>Frames are shared. Recording a stack again, in any later state of the
  same log, finds the same frame index and adds nothing.\<close>

lemma recording_is_idempotent:
  assumes "frames_wf log" and "excimer_log_find_or_add_frame log stk d = Inr (i, log')"
    and "log_extends log' log''" and "frames_wf log''"
  shows "excimer_log_find_or_add_frame log'' stk d = Inr (i, log'')"
  by (rule find_or_add_frame_again [OF assms])

text \<open>C35 (error): on a well-formed log, recording a stack either succeeds or ends the request
  with "Integer out of range", never with an invalid read; and it does succeed while the frames
  and the stack together stay within the 32-bit index range.\<close>

theorem recording_faults:
  assumes "frames_wf log"
  shows "(case excimer_log_find_or_add_frame log stk d of
      Inl e \<Rightarrow> e = Fatal_Error ''Integer out of range'' \<and> 2 ^ 32 < length (frames log) + length stk
    | Inr (i, log') \<Rightarrow> unat i < length (frames log') \<and> length (frames log') \<le> 2 ^ 32)"
proof (cases "excimer_log_find_or_add_frame log stk d")
  case (Inl e)
  with find_or_add_frame_total [OF assms, of stk d] have "\<not> length (frames log) + length stk \<le> 2 ^ 32"
    by auto
  with find_or_add_frame_fault [OF assms Inl] Inl show ?thesis by simp
next
  case (Inr p)
  then show ?thesis
    using find_or_add_frame_recorded [OF assms, of stk d] by (cases p) (auto simp: recorded_def frames_wf_def)
qed

theorem recording_faults_witness:
  "frames_wf (demo_log 0) \<and> \<not> 2 ^ 32 < length (frames (demo_log 0)) + length demo_stack \<and>
   (\<exists>i log'. excimer_log_find_or_add_frame (demo_log 0) demo_stack 0 = Inr (i, log') \<and>
     unat i < length (frames log'))"
proof -
  have "\<not> 2 ^ 32 < length (frames (demo_log 0)) + length demo_stack"
    by (simp add: demo_log_def excimer_log_init_def demo_stack_def)
  with recording_faults [OF demo_log_wf(2) [of 0], of demo_stack 0] demo_log_wf(2) [of 0]
  show ?thesis by (auto split: sum.splits)
qed

text \<open>C18 (invariant): every log the extension can produce is well-formed: frame 0 is the null
  frame, frame links decrease (so every walk along them ends), the reverse hashtable names every
  other frame exactly once, entries point to existing frames, and the event counter is the sum
  of the entries' event counts.\<close>

theorem reachable_log_wf:
  assumes "log_reachable log"
  shows "log_wf log"
  by (rule log_reachable_wf [OF assms])

theorem reachable_log_wf_witness: "log_reachable demo_result \<and> log_wf demo_result"
proof -
  have "log_reachable demo_result"
    using log_reachable.add [OF _ demo_add] log_reachable.init by (simp add: demo_log_def)
  then show ?thesis using reachable_log_wf by blast
qed

text \<open>A sequence of timer events recorded into a fresh log yields exactly one
  sample per event, in order, and \<^verbatim>\<open>event_count\<close> is the sum of the events' counts (modulo the
  64-bit width).\<close>

lemma log_run_from_init:
  assumes "foldR (\<lambda>log (stk, n, t). excimer_log_add log stk n t) (excimer_log_init mem) evs = Inr log'"
  shows "log_samples log' = map (\<lambda>(stk, n, t). (captured (max_depth mem) stk, n, t)) evs \<and>
     log_event_count log' = (\<Sum>(stk, n, t) \<leftarrow> evs. n)"
  using elog.samples_run [OF log_wf_init assms] elog.total_run [OF log_wf_init assms]
  by (simp add: excimer_log_init_def log_samples_def)

text \<open>The reverse hashtable's key is the file, the line and the caller only. A
  second function on the same line of the same file under the same caller is given the first
  function's frame, and the log keeps the first function's name.\<close>

lemma same_line_shares_frame:
  assumes "frames_wf log" and "unat prev < length (frames log)"
    and "find_or_add_user_frame log fn line prev = Inr (i, log')"
    and "op_filename fn' = op_filename fn"
  shows "find_or_add_user_frame log' fn' line prev = Inr (i, log')"
proof -
  let ?key = "frame_key (op_filename fn) line prev"
  have res: "intern_frame log ?key (make_frame fn line prev) = Inr (i, log')"
    using assms(3) by (simp only: find_or_add_user_frame_eq)
  have "intern_frame log' ?key g = Inr (i, log')" for g
    by (rule intern_frame_again [OF assms(1) make_frame_stored _ res log_extends_refl])
      (simp_all add: assms(2) user_frame_ok(1) [OF assms(1-3)])
  then show ?thesis by (simp only: find_or_add_user_frame_eq assms(4))
qed

end
