(* ===== verification/Log_Format.thy ===== *)
theory Log_Format
  imports Excimer_Log
begin

text \<open>
  \<^verbatim>\<open>excimer_log_format_collapsed\<close> and the name rendering it shares with the speedscope export
  (\<^verbatim>\<open>excimer_log_append_no_spaces\<close>, \<^verbatim>\<open>excimer_log_append_frame_name\<close>), together with the loop
  over the frames of a trace, which every reader of the log has. The specification is one
  grouping of the entries by their rendered stack; the code groups by frame first.
\<close>

section \<open>Loops along a trace\<close>

text \<open>
  \<^verbatim>\<open>while (frame_index) { frame = ...; body; frame_index = frame->prev_index; }\<close>. The callers give
  the number of frames as fuel: a walk that visits more elements repeats one, so it runs for
  ever, and \<open>Diverges\<close> says so. \<open>frame_loop_wf\<close> below shows that it does not happen.
\<close>

fun frame_loop ::
  "(uint32_t \<Rightarrow> excimer_log_frame res) \<Rightarrow> ('s \<Rightarrow> uint32_t \<Rightarrow> excimer_log_frame \<Rightarrow> 's res) \<Rightarrow>
     nat \<Rightarrow> uint32_t \<Rightarrow> 's \<Rightarrow> 's res" where
  "frame_loop get body fuel i s =
     (if i = 0 then Inr s
      else case fuel of
        0 \<Rightarrow> Inl Diverges
      | Suc n \<Rightarrow> rbind (get i) (\<lambda>f. rbind (body s i f)
          (\<lambda>s'. frame_loop get body n (prev_index f) s')))"

declare frame_loop.simps [simp del]

text \<open>The two ways the code reads a frame: through the checked accessor and straight from the array.\<close>

definition frame_at :: "excimer_log \<Rightarrow> uint32_t \<Rightarrow> excimer_log_frame res" where
  "frame_at log i = deref (excimer_log_get_frame log (ucast i))"

definition raw_frame_at :: "excimer_log \<Rightarrow> uint32_t \<Rightarrow> excimer_log_frame res" where
  "raw_frame_at log i =
     (if unat i < length (frames log) then Inr (frames log ! unat i) else Inl Out_Of_Bounds)"

section \<open>Frame names\<close>

definition excimer_log_append_no_spaces :: "string \<Rightarrow> string \<Rightarrow> string" where
  "excimer_log_append_no_spaces dest src =
     dest @ map (\<lambda>c. if c = CHR '' '' \<or> c = CHR 0x00 then CHR ''_'' else c) src"

definition excimer_log_append_frame_name :: "string \<Rightarrow> excimer_log_frame \<Rightarrow> string res" where
  "excimer_log_append_frame_name ss frame =
     (if closure_line frame \<noteq> 0 then
        rbind (deref (filename frame)) (\<lambda>file. Inr
          (excimer_log_append_no_spaces (ss @ ''{closure:'') file
             @ ''('' @ printf_d (closure_line frame) @ '')}''))
      else case function_name frame of
        None \<Rightarrow> rbind (deref (filename frame)) (\<lambda>file. Inr (excimer_log_append_no_spaces ss file))
      | Some fn \<Rightarrow> Inr (excimer_log_append_no_spaces
          (case class_name frame of
             None \<Rightarrow> ss
           | Some cls \<Rightarrow> excimer_log_append_no_spaces ss cls @ ''::'') fn))"

section \<open>The collapsed format\<close>

text \<open>Growing the array of frame pointers, 8 bytes each.\<close>

definition push_frame_ptr :: "excimer_log_frame list \<Rightarrow> excimer_log_frame \<Rightarrow> excimer_log_frame list res" where
  "push_frame_ptr frame_ptrs frame =
     (if 2 ^ 63 - 2 \<le> length frame_ptrs then Inl (Fatal_Error ''Too many Excimer frames'')
      else rbind (safe_erealloc frame_ptrs (of_nat (length frame_ptrs + 1)) 8)
        (\<lambda>ps. Inr (ps @ [frame])))"

text \<open>One trace as a line: collect the frames, then run through them in reverse.\<close>

definition collapsed_line :: "excimer_log \<Rightarrow> uint32_t \<Rightarrow> string res" where
  "collapsed_line log fi =
     rbind (frame_loop (frame_at log) (\<lambda>ps _ f. push_frame_ptr ps f) (length (frames log)) fi [])
       (\<lambda>frame_ptrs. rbind
          (foldR (\<lambda>(line_start, ss_line) frame.
             rbind (excimer_log_append_frame_name (if line_start then ss_line else ss_line @ '';'') frame)
               (\<lambda>ss'. Inr (False, ss'))) (True, []) (rev frame_ptrs))
          (\<lambda>(_, ss_line). Inr ss_line))"

definition collapsed_counts :: "excimer_log \<Rightarrow> (uint32_t, zend_long) ztable" where
  "collapsed_counts log =
     foldl (\<lambda>t e. zh_incr t (frame_index e) (entry_event_count e)) [] (entries log)"

definition collapsed_lines :: "excimer_log \<Rightarrow> (string, zend_long) ztable res" where
  "collapsed_lines log =
     foldR (\<lambda>ht_lines (fi, count). rbind (collapsed_line log fi)
       (\<lambda>str_line. Inr (zh_incr ht_lines str_line count))) [] (collapsed_counts log)"

definition render_line :: "string \<times> zend_long \<Rightarrow> string" where
  "render_line lc = fst lc @ '' '' @ printf_ld (snd lc) @ [CHR 0x0A]"

definition excimer_log_format_collapsed :: "excimer_log \<Rightarrow> string res" where
  "excimer_log_format_collapsed log =
     rbind (collapsed_lines log) (\<lambda>ht_lines. Inr (concat (map render_line ht_lines)))"

section \<open>Reading a trace in a well-formed log\<close>

lemma frame_loop_wf:
  assumes wf: "frames_wf log"
    and get: "\<And>j. 0 < unat j \<Longrightarrow> unat j < length (frames log) \<Longrightarrow> get j = Inr (frames log ! unat j)"
    and i: "unat i < length (frames log)" and fuel: "unat i \<le> fuel"
  shows "frame_loop get body fuel i s =
     foldR (\<lambda>s j. body s (of_nat j) (frames log ! j)) s (trace_idx (frames log) (unat i))"
  using i fuel
proof (induction fuel arbitrary: i s)
  case 0
  then have "i = 0" by (simp add: unsigned_eq_0_iff)
  then show ?case by (simp add: frame_loop.simps)
next
  case (Suc n)
  show ?case
  proof (cases "i = 0")
    case True
    then show ?thesis by (simp add: frame_loop.simps)
  next
    case False
    then have pos: "0 < unat i" by (simp add: unat_gt_0)
    let ?f = "frames log ! unat i"
    have prev: "unat (prev_index ?f) < unat i" by (rule frames_wf_prev [OF wf pos Suc.prems(1)])
    have IH: "frame_loop get body n (prev_index ?f) =
        (\<lambda>s'. foldR (\<lambda>s j. body s (of_nat j) (frames log ! j)) s'
          (trace_idx (frames log) (unat (prev_index ?f))))"
      using prev Suc.prems by (intro ext Suc.IH) auto
    have "trace_idx (frames log) (unat i) = unat i # trace_idx (frames log) (unat (prev_index ?f))"
      using pos prev Suc.prems(1) by (simp add: trace_idx.simps [of "frames log" "unat i"])
    then show ?thesis
      using False get [OF pos Suc.prems(1)]
      by (simp add: frame_loop.simps [of get body "Suc n" i s] IH)
  qed
qed

lemma frame_at_wf:
  assumes "frames_wf log" and "0 < unat i" and "unat i < length (frames log)"
  shows "frame_at log i = Inr (frames log ! unat i)"
proof -
  have "0 < uint i" using assms(2) by (simp flip: nat_uint_eq)
  with assms show ?thesis by (simp add: frame_at_def get_frame_eq)
qed

lemma raw_frame_at_wf: "unat i < length (frames log) \<Longrightarrow> raw_frame_at log i = Inr (frames log ! unat i)"
  by (simp add: raw_frame_at_def)

text \<open>A loop whose body looks at the frame only is a fold over the trace.\<close>

lemma frame_loop_trace:
  assumes wf: "frames_wf log" and i: "unat i < length (frames log)"
  shows "frame_loop (frame_at log) (\<lambda>s _. body s) (length (frames log)) i s =
     foldR body s (log_trace log i)"
proof -
  have "foldR (\<lambda>s j. body s (frames log ! j)) s js = foldR body s (map ((!) (frames log)) js)" for js
    by (induction js arbitrary: s) (auto simp: rbind_def split: sum.split)
  with frame_loop_wf [OF wf frame_at_wf [OF wf] i, of "length (frames log)" "\<lambda>s _. body s" s] i
  show ?thesis by (simp add: log_trace_def)
qed

lemma log_trace_filename:
  assumes "frames_wf log" and "f \<in> set (log_trace log i)"
  shows "filename f \<noteq> None"
  using assms frames_wf_filename trace_idx_range by (fastforce simp: log_trace_def)

lemma length_log_trace:
  assumes "frames_wf log"
  shows "length (log_trace log i) \<le> 2 ^ 32"
  using length_trace_idx [of "frames log" "unat i"] unat32_less [of i]
  by (simp add: log_trace_def)

section \<open>Rendering specified\<close>

definition no_spaces :: "string \<Rightarrow> string" where
  "no_spaces s = excimer_log_append_no_spaces [] s"

lemma append_no_spaces_eq: "excimer_log_append_no_spaces dest src = dest @ no_spaces src"
  by (simp add: excimer_log_append_no_spaces_def no_spaces_def)

definition frame_name :: "excimer_log_frame \<Rightarrow> string" where
  "frame_name f =
     (if closure_line f \<noteq> 0
      then ''{closure:'' @ no_spaces (the (filename f)) @ ''('' @ printf_d (closure_line f) @ '')}''
      else case function_name f of
        None \<Rightarrow> no_spaces (the (filename f))
      | Some fn \<Rightarrow> (case class_name f of None \<Rightarrow> [] | Some c \<Rightarrow> no_spaces c @ ''::'') @ no_spaces fn)"

lemma append_frame_name_eq:
  "filename f \<noteq> None \<Longrightarrow> excimer_log_append_frame_name ss f = Inr (ss @ frame_name f)"
  by (auto simp: excimer_log_append_frame_name_def frame_name_def append_no_spaces_eq split: option.split)

fun join_names :: "string list \<Rightarrow> string" where
  "join_names [] = []"
| "join_names (x # xs) = x @ concat (map (\<lambda>n. '';'' @ n) xs)"

text \<open>The line of a frame index: the names from the outermost frame in, separated by semicolons.\<close>

definition stack_line :: "excimer_log \<Rightarrow> uint32_t \<Rightarrow> string" where
  "stack_line log i = join_names (map frame_name (rev (log_trace log i)))"

lemma foldR_names:
  assumes "\<And>f. f \<in> set fs \<Longrightarrow> filename f \<noteq> None"
  shows "foldR (\<lambda>(line_start, ss_line) frame.
      rbind (excimer_log_append_frame_name (if line_start then ss_line else ss_line @ '';'') frame)
        (\<lambda>ss'. Inr (False, ss'))) (False, ss) fs = Inr (False, ss @ concat (map (\<lambda>f. '';'' @ frame_name f) fs))"
  using assms by (induction fs arbitrary: ss) (simp_all add: append_frame_name_eq)

lemma foldR_push_ptr:
  "length ps + length fs \<le> 2 ^ 32 \<Longrightarrow> foldR push_frame_ptr ps fs = Inr (ps @ fs)"
proof (induction fs arbitrary: ps)
  case (Cons f fs)
  then have len: "length ps < 2 ^ 32" by simp
  then have "unat (of_nat (length ps + 1) :: 64 word) = length ps + 1"
    by (intro unat_of_nat64) simp
  with len have "push_frame_ptr ps f = Inr (ps @ [f])"
    by (simp add: push_frame_ptr_def safe_erealloc_def)
  with Cons show ?case by simp
qed simp

lemma collapsed_line_eq:
  assumes wf: "frames_wf log" and i: "unat i < length (frames log)"
  shows "collapsed_line log i = Inr (stack_line log i)"
proof -
  let ?tr = "log_trace log i"
  have ptrs: "frame_loop (frame_at log) (\<lambda>ps _ f. push_frame_ptr ps f) (length (frames log)) i [] = Inr ?tr"
    using frame_loop_trace [OF wf i, of push_frame_ptr "[]"] foldR_push_ptr [of "[]" ?tr]
      length_log_trace [OF wf, of i] by simp
  have files: "\<And>f. f \<in> set (rev ?tr) \<Longrightarrow> filename f \<noteq> None"
    using log_trace_filename [OF wf] by simp
  show ?thesis
  proof (cases "rev ?tr")
    case Nil
    with ptrs show ?thesis by (simp add: collapsed_line_def stack_line_def)
  next
    case (Cons f fs)
    with files have "filename f \<noteq> None" "\<And>g. g \<in> set fs \<Longrightarrow> filename g \<noteq> None" by auto
    with ptrs Cons foldR_names [of fs "frame_name f"] show ?thesis
      by (simp add: collapsed_line_def stack_line_def append_frame_name_eq comp_def)
  qed
qed

section \<open>The table of lines\<close>

lemma collapsed_lines_eq:
  assumes wf: "log_wf log"
  shows "collapsed_lines log =
     Inr (group_by (\<lambda>e. stack_line log (frame_index e)) entry_event_count (entries log))"
proof -
  let ?counts = "group_by frame_index entry_event_count (entries log)"
  have counts: "collapsed_counts log = ?counts"
    by (simp add: collapsed_counts_def zh_fold_incr_eq)
  have fwf: "frames_wf log" using wf by (simp add: log_wf_def)
  have "unat fi < length (frames log)" if "(fi, c) \<in> set ?counts" for fi c
  proof -
    from that have "fi \<in> frame_index ` set (entries log)"
      using set_keys_group_by [of frame_index entry_event_count "entries log"] by force
    then show ?thesis using wf by (auto simp: log_wf_def entries_wf_def)
  qed
  then have "collapsed_lines log =
      Inr (foldl (\<lambda>t kv. zh_incr t (stack_line log (fst kv)) (snd kv)) [] ?counts)"
    unfolding collapsed_lines_def counts
    by (intro foldR_Inr) (auto simp: collapsed_line_eq [OF fwf])
  also have "\<dots> = Inr (group_by (\<lambda>e. stack_line log (frame_index e)) entry_event_count (entries log))"
    by (simp add: zh_fold_incr_eq group_by_group_by)
  finally show ?thesis .
qed

section \<open>Reading the format back\<close>

fun read_lines :: "string \<Rightarrow> string \<Rightarrow> string list" where
  "read_lines acc [] = []"
| "read_lines acc (c # cs) =
     (if c = CHR 0x0A then rev acc # read_lines [] cs else read_lines (c # acc) cs)"

text \<open>A line is read at its last space.\<close>

definition read_line :: "string \<Rightarrow> string \<times> int" where
  "read_line l = (rev (tl (dropWhile (\<lambda>c. c \<noteq> CHR '' '') (rev l))),
     read_int (rev (takeWhile (\<lambda>c. c \<noteq> CHR '' '') (rev l))))"

lemma read_lines_line:
  "CHR 0x0A \<notin> set l \<Longrightarrow> read_lines acc (l @ CHR 0x0A # rest) = (rev acc @ l) # read_lines [] rest"
  by (induction l arbitrary: acc) auto

lemma read_line_last:
  assumes "CHR '' '' \<notin> set n"
  shows "read_line (l @ CHR '' '' # n) = (l, read_int n)"
proof -
  have "takeWhile (\<lambda>c. c \<noteq> CHR '' '') (rev n @ CHR '' '' # rev l) = rev n"
    by (subst takeWhile_append2) (use assms in auto)
  moreover have "dropWhile (\<lambda>c. c \<noteq> CHR '' '') (rev n @ CHR '' '' # rev l) = CHR '' '' # rev l"
    by (subst dropWhile_append2) (use assms in auto)
  ultimately show ?thesis by (simp add: read_line_def)
qed

lemma printf_ld_separators: "CHR '' '' \<notin> set (printf_ld n)" "CHR 0x0A \<notin> set (printf_ld n)"
  unfolding printf_ld_def using dec_int_no_separator(2,3) by metis+

lemma read_render_lines:
  assumes "\<And>l c. (l, c) \<in> set ls \<Longrightarrow> CHR 0x0A \<notin> set l"
  shows "map read_line (read_lines [] (concat (map render_line ls))) = map (\<lambda>(l, c). (l, sint c)) ls"
  using assms
proof (induction ls)
  case (Cons lc ls)
  obtain l c where lc: "lc = (l, c)" by (cases lc)
  let ?line = "l @ CHR '' '' # printf_ld c"
  have "CHR 0x0A \<notin> set ?line" using Cons.prems [of l c] lc printf_ld_separators by auto
  from read_lines_line [OF this, of "[]" "concat (map render_line ls)"]
  have "read_lines [] (concat (map render_line (lc # ls))) = ?line # read_lines [] (concat (map render_line ls))"
    by (simp add: lc render_line_def)
  moreover have "read_line ?line = (l, sint c)"
    by (simp add: read_line_last printf_ld_separators) (simp add: printf_ld_def)
  moreover have "map read_line (read_lines [] (concat (map render_line ls))) = map (\<lambda>(l, c). (l, sint c)) ls"
    by (intro Cons.IH) (use Cons.prems in auto)
  ultimately show ?case by (simp add: lc)
qed simp

lemma join_names_set: "c \<in> set (join_names ns) \<Longrightarrow> c = CHR '';'' \<or> (\<exists>n \<in> set ns. c \<in> set n)"
  by (cases ns) (auto split: if_splits)

lemma set_log_trace: "frames_wf log \<Longrightarrow> set (log_trace log i) \<subseteq> set (tl (frames log))"
proof
  fix f assume wf: "frames_wf log" and "f \<in> set (log_trace log i)"
  then obtain j where "f = frames log ! j" "0 < j" "j < length (frames log)"
    using trace_idx_range by (fastforce simp: log_trace_def)
  then show "f \<in> set (tl (frames log))"
    by (metis Suc_pred diff_Suc_1 in_set_conv_nth length_tl less_diff_conv nth_tl Suc_eq_plus1)
qed

lemma stack_line_chars:
  assumes "frames_wf log" and "c \<noteq> CHR '';''"
    and "\<And>f. f \<in> set (tl (frames log)) \<Longrightarrow> c \<notin> set (frame_name f)"
  shows "c \<notin> set (stack_line log i)"
  using assms set_log_trace [OF assms(1), of i] join_names_set unfolding stack_line_def
  by fastforce

lemma no_spaces_chars: "CHR '' '' \<notin> set (no_spaces s)" "CHR 0x00 \<notin> set (no_spaces s)"
  by (auto simp: no_spaces_def excimer_log_append_no_spaces_def)

lemma printf_d_no_space [simp]: "CHR '' '' \<notin> set (printf_d n)"
  unfolding printf_d_def using dec_int_no_separator(2) by metis

lemma frame_name_chars: "CHR '' '' \<notin> set (frame_name f)" "CHR 0x00 \<notin> set (frame_name f)"
  by (auto simp: frame_name_def no_spaces_chars split: option.split)

section \<open>Properties\<close>

lemma demo_result_wf: "log_wf demo_result"
  by (rule elog.ok_add [OF demo_log_wf(1) demo_add])

lemma demo_trace: "log_trace demo_result 2 = [make_frame (demo_fn (Some ''foo'')) 4 1, make_frame (demo_fn None) 9 0]"
  by (simp add: log_trace_def trace_idx.simps demo_result_def demo_frames_def make_frame_def)

lemma demo_names:
  "frame_name (make_frame (demo_fn (Some ''foo'')) 4 1) = ''foo''"
  "frame_name (make_frame (demo_fn None) 9 0) = ''a.php''"
  by (simp_all add: frame_name_def make_frame_def demo_fn_def no_spaces_def excimer_log_append_no_spaces_def)

lemma demo_line: "stack_line demo_result 2 = ''a.php;foo''"
  by (simp add: stack_line_def demo_trace demo_names)

lemma demo_entries: "entries demo_result = [\<lparr>frame_index = 2, entry_event_count = 3, timestamp = 77\<rparr>]"
  by (simp add: demo_result_def)

text \<open>C8 (equivalence): the collapsed output of a well-formed log has one line per distinct
  rendered stack, in the order the stacks first occur, with the sum of the event counts of all
  entries that render to it. The code's two passes (by frame index, then by rendered line,
  which merges frames that differ in line numbers only) compute exactly this one grouping, and
  always return.\<close>

theorem collapsed_groups_by_stack:
  assumes "log_wf log"
  shows "excimer_log_format_collapsed log = Inr (concat (map render_line
     (group_by (\<lambda>e. stack_line log (frame_index e)) entry_event_count (entries log))))"
  by (simp add: excimer_log_format_collapsed_def collapsed_lines_eq [OF assms])

theorem collapsed_groups_by_stack_witness:
  "excimer_log_format_collapsed demo_result = Inr (''a.php;foo 3'' @ [CHR 0x0A])"
  using collapsed_groups_by_stack [OF demo_result_wf]
  by (simp add: demo_entries group_by_def add_key_def demo_line render_line_def printf_ld_def
      dec_int_def dec_nat.simps digit_char_def)

text \<open>No event is lost or counted twice: the counts of the collapsed lines sum to
  the log's event counter (modulo the 64-bit width), and the lines are pairwise different.\<close>

lemma collapsed_conserves_events:
  assumes "log_wf log"
  shows "\<exists>ls. collapsed_lines log = Inr ls \<and> (\<Sum>(l, c) \<leftarrow> ls. c) = log_event_count log \<and>
     distinct (map fst ls)"
proof -
  let ?ls = "group_by (\<lambda>e. stack_line log (frame_index e)) entry_event_count (entries log)"
  have "(\<Sum>(l, c) \<leftarrow> ?ls. c) = log_event_count log"
    using assms by (simp add: sum_group_by log_wf_def entries_wf_def)
  moreover have "distinct (map fst ?ls)"
    using zh_ok_group_by unfolding zh_ok_def zh_keys_def by blast
  ultimately show ?thesis by (simp add: collapsed_lines_eq [OF assms])
qed

text \<open>C30 (roundtrip): when no frame name contains a line break, splitting the output at line
  breaks and each line at its last space gives back the stacks and their counts; a stack never
  contains a space or a NUL.\<close>

theorem collapsed_roundtrip:
  assumes "log_wf log" and "\<forall>f \<in> set (tl (frames log)). CHR 0x0A \<notin> set (frame_name f)"
  shows "\<exists>out ls. excimer_log_format_collapsed log = Inr out \<and> collapsed_lines log = Inr ls \<and>
     map read_line (read_lines [] out) = map (\<lambda>(l, c). (l, sint c)) ls \<and>
     (\<forall>(l, c) \<in> set ls. CHR '' '' \<notin> set l \<and> CHR 0x00 \<notin> set l)"
proof -
  let ?ls = "group_by (\<lambda>e. stack_line log (frame_index e)) entry_event_count (entries log)"
  have fwf: "frames_wf log" using assms(1) by (simp add: log_wf_def)
  have key: "\<exists>i. l = stack_line log i" if "(l, c) \<in> set ?ls" for l c
    using that by (auto simp: group_by_def set_foldl_add_key)
  have "map read_line (read_lines [] (concat (map render_line ?ls))) = map (\<lambda>(l, c). (l, sint c)) ?ls"
    using key stack_line_chars [OF fwf, of "CHR 0x0A"] assms(2) by (intro read_render_lines) fastforce
  moreover have "CHR '' '' \<notin> set (stack_line log i) \<and> CHR 0x00 \<notin> set (stack_line log i)" for i
    by (intro conjI stack_line_chars [OF fwf]) (simp_all add: frame_name_chars)
  then have "\<forall>(l, c) \<in> set ?ls. CHR '' '' \<notin> set l \<and> CHR 0x00 \<notin> set l"
    using key by blast
  ultimately show ?thesis
    by (simp add: excimer_log_format_collapsed_def collapsed_lines_eq [OF assms(1)])
qed

theorem collapsed_roundtrip_witness:
  "\<exists>out. excimer_log_format_collapsed demo_result = Inr out \<and>
     map read_line (read_lines [] out) = [(''a.php;foo'', 3)]"
proof -
  have "\<forall>f \<in> set (tl (frames demo_result)). CHR 0x0A \<notin> set (frame_name f)"
    by (simp add: demo_result_def demo_frames_def demo_names)
  from collapsed_roundtrip [OF demo_result_wf this] obtain out ls where
    "excimer_log_format_collapsed demo_result = Inr out" "collapsed_lines demo_result = Inr ls"
    "map read_line (read_lines [] out) = map (\<lambda>(l, c). (l, sint c)) ls" by blast
  moreover from this(2) have "ls = [(''a.php;foo'', 3)]"
    by (simp add: collapsed_lines_eq [OF demo_result_wf] demo_entries group_by_def add_key_def demo_line)
  ultimately show ?thesis by simp
qed

end
