(* ===== verification/Log_Aggregate.thy ===== *)
theory Log_Aggregate
  imports Log_Format
begin

text \<open>
  The readers of the log that build PHP arrays frame by frame: \<^verbatim>\<open>excimer_log_frame_to_array\<close>,
  \<^verbatim>\<open>excimer_log_trace_to_array\<close> and the per-function aggregation \<^verbatim>\<open>excimer_log_aggr_by_func\<close>. The
  engine's \<^verbatim>\<open>zend_hash_sort\<close> is the parameter \<open>zsort\<close>.
\<close>

section \<open>Frames and traces as arrays\<close>

definition excimer_log_frame_to_array :: "excimer_log_frame \<Rightarrow> (zkey, zval) ztable" where
  "excimer_log_frame_to_array frame =
     (let ht = (case filename frame of
            Some file \<Rightarrow> zh_add (zh_add [] (KStr ''file'') (ZStr file)) (KStr ''line'') (ZLong (ucast (lineno frame)))
          | None \<Rightarrow> []);
          ht = (case class_name frame of Some c \<Rightarrow> zh_add ht (KStr ''class'') (ZStr c) | None \<Rightarrow> ht);
          ht = (case function_name frame of Some f \<Rightarrow> zh_add ht (KStr ''function'') (ZStr f) | None \<Rightarrow> ht)
      in if closure_line frame \<noteq> 0
         then zh_add ht (KStr ''closure_line'') (ZLong (ucast (closure_line frame))) else ht)"

definition excimer_log_trace_to_array :: "excimer_log \<Rightarrow> zend_long \<Rightarrow> (zkey, zval) ztable res" where
  "excimer_log_trace_to_array log l_frame_index =
     rbind (excimer_safe_uint32 l_frame_index) (\<lambda>frame_index.
     rbind (frame_loop (frame_at log) (\<lambda>fs _ f. Inr (fs @ [ZArr (excimer_log_frame_to_array f)]))
        (length (frames log)) frame_index []) (\<lambda>vs. Inr (zlist vs)))"

section \<open>Aggregation by function\<close>

definition z_lval :: "zval \<Rightarrow> zend_long res" where
  "z_lval v = (case v of ZLong n \<Rightarrow> Inr n | _ \<Rightarrow> Inl Type_Confusion)"

definition excimer_log_array_incr :: "(zkey, zval) ztable \<Rightarrow> string \<Rightarrow> zend_long \<Rightarrow> (zkey, zval) ztable res" where
  "excimer_log_array_incr ht key trm =
     (case zh_find ht (KStr key) of
        None \<Rightarrow> Inr (zh_add ht (KStr key) (ZLong trm))
      | Some v \<Rightarrow> rbind (z_lval v) (\<lambda>n. Inr (zh_set ht (KStr key) (ZLong (n + trm)))))"

text \<open>\<^verbatim>\<open>ZEND_NORMALIZE_BOOL\<close> of the signed difference.\<close>

definition excimer_log_aggr_compare :: "'k \<times> (zkey, zval) ztable \<Rightarrow> 'k \<times> (zkey, zval) ztable \<Rightarrow> int res" where
  "excimer_log_aggr_compare a b =
     rbind (deref (zh_find (snd a) (KStr ''inclusive''))) (\<lambda>za.
     rbind (deref (zh_find (snd b) (KStr ''inclusive''))) (\<lambda>zb.
     rbind (z_lval za) (\<lambda>na. rbind (z_lval zb) (\<lambda>nb.
     let d = nb - na in Inr (if 0 <s d then 1 else if d <s 0 then - 1 else 0)))))"

definition aggr_name :: "excimer_log_frame \<Rightarrow> string res" where
  "aggr_name frame =
     (if closure_line frame \<noteq> 0 then
        rbind (deref (filename frame)) (\<lambda>file.
          Inr (''{closure:'' @ file @ ''('' @ printf_d (closure_line frame) @ '')}''))
      else case function_name frame of
        None \<Rightarrow> deref (filename frame)
      | Some fn \<Rightarrow> Inr ((case class_name frame of Some c \<Rightarrow> c @ ''::'' | None \<Rightarrow> []) @ fn))"

type_synonym aggr_table = "(string, (zkey, zval) ztable) ztable"

text \<open>The loop body: the state is the result table, the names seen in this entry, and \<^verbatim>\<open>is_top\<close>.\<close>

definition aggr_frame ::
  "zend_long \<Rightarrow> aggr_table \<times> (string, unit) ztable \<times> bool \<Rightarrow> excimer_log_frame \<Rightarrow>
   (aggr_table \<times> (string, unit) ztable \<times> bool) res" where
  "aggr_frame event_count st frame =
     (let (ht_result, ht_unique_names, is_top) = st
      in rbind (aggr_name frame) (\<lambda>sp_name.
         let ht = (case zh_find ht_result sp_name of
               None \<Rightarrow> zh_add ht_result sp_name
                 (zh_add (zh_add (excimer_log_frame_to_array frame) (KStr ''self'') (ZLong 0)) (KStr ''inclusive'') (ZLong 0))
             | Some _ \<Rightarrow> ht_result)
         in rbind (deref (zh_find ht sp_name)) (\<lambda>info.
            rbind (if is_top then excimer_log_array_incr info ''self'' event_count else Inr info) (\<lambda>info.
            rbind (if zh_find ht_unique_names sp_name = None
                   then rbind (excimer_log_array_incr info ''inclusive'' event_count)
                     (\<lambda>info. Inr (info, zh_add ht_unique_names sp_name ()))
                   else Inr (info, ht_unique_names)) (\<lambda>(info, un).
            Inr (zh_set ht sp_name info, un, False))))))"

definition aggr_entry :: "excimer_log \<Rightarrow> aggr_table \<Rightarrow> excimer_log_entry \<Rightarrow> aggr_table res" where
  "aggr_entry log ht_result entry =
     rbind (frame_loop (frame_at log) (\<lambda>st _. aggr_frame (entry_event_count entry) st)
        (length (frames log)) (frame_index entry) (ht_result, [], True))
       (\<lambda>(ht, _, _). Inr ht)"

definition excimer_log_aggr_by_func ::
  "((string \<times> (zkey, zval) ztable \<Rightarrow> string \<times> (zkey, zval) ztable \<Rightarrow> int res) \<Rightarrow> aggr_table \<Rightarrow> aggr_table) \<Rightarrow>
   excimer_log \<Rightarrow> aggr_table res" where
  "excimer_log_aggr_by_func zsort log =
     rbind (foldR (aggr_entry log) [] (entries log)) (\<lambda>ht_result.
     Inr (zsort excimer_log_aggr_compare ht_result))"

section \<open>Names and records\<close>

definition aggr_key :: "excimer_log_frame \<Rightarrow> string" where
  "aggr_key f =
     (if closure_line f \<noteq> 0 then ''{closure:'' @ the (filename f) @ ''('' @ printf_d (closure_line f) @ '')}''
      else case function_name f of
        None \<Rightarrow> the (filename f)
      | Some fn \<Rightarrow> (case class_name f of Some c \<Rightarrow> c @ ''::'' | None \<Rightarrow> []) @ fn)"

lemma aggr_name_eq: "filename f \<noteq> None \<Longrightarrow> aggr_name f = Inr (aggr_key f)"
  by (auto simp: aggr_name_def aggr_key_def split: option.split)

text \<open>The row of a function: what is known of one of its frames, and the two counts.\<close>

definition func_row :: "excimer_log_frame \<Rightarrow> zend_long \<Rightarrow> zend_long \<Rightarrow> (zkey, zval) ztable" where
  "func_row f s i = excimer_log_frame_to_array f @ [(KStr ''self'', ZLong s), (KStr ''inclusive'', ZLong i)]"

lemma frame_to_array_keys:
  "set (zh_keys (excimer_log_frame_to_array f)) \<subseteq>
     KStr ` {''file'', ''line'', ''class'', ''function'', ''closure_line''}"
  by (auto simp: excimer_log_frame_to_array_def Let_def zh_keys_add zh_keys_def [of "[]"] add_key_def
      split: option.splits if_splits)

lemma frame_to_array_no_count:
  "zh_find (excimer_log_frame_to_array f) (KStr ''self'') = None"
  "zh_find (excimer_log_frame_to_array f) (KStr ''inclusive'') = None"
  using frame_to_array_keys [of f] by (auto simp: zh_find_None_iff)

lemma zh_find_append: "zh_find (t @ u) k = (case zh_find t k of Some v \<Rightarrow> Some v | None \<Rightarrow> zh_find u k)"
  by (simp add: zh_find_def map_add_def split: option.split)

lemma zh_set_absent: "zh_find t k = None \<Longrightarrow> zh_set t k v = t"
  by (induction t) (auto simp: zh_set_def zh_find_def split: if_splits)

lemma zh_set_append: "zh_set (t @ u) k v = zh_set t k v @ zh_set u k v"
  by (simp add: zh_set_def)

lemma zh_Cons:
  "zh_find ((k, v) # t) k' = (if k' = k then Some v else zh_find t k')" "zh_find [] k' = None"
  "zh_set ((k, v) # t) k' w = (k, if k = k' then w else v) # zh_set t k' w" "zh_set [] k' w = []"
  by (simp_all add: zh_find_def zh_set_def)

lemma func_row_new:
  "zh_add (zh_add (excimer_log_frame_to_array f) (KStr ''self'') (ZLong 0)) (KStr ''inclusive'') (ZLong 0) = func_row f 0 0"
  by (simp add: zh_add_def zh_find_append frame_to_array_no_count func_row_def zh_Cons)

lemma func_row_incr:
  "excimer_log_array_incr (func_row f s i) ''self'' n = Inr (func_row f (s + n) i)"
  "excimer_log_array_incr (func_row f s i) ''inclusive'' n = Inr (func_row f s (i + n))"
  by (simp_all add: excimer_log_array_incr_def func_row_def zh_find_append frame_to_array_no_count
      zh_set_append zh_set_absent zh_Cons z_lval_def)

lemma func_row_find [simp]:
  "zh_find (func_row f s i) (KStr ''self'') = Some (ZLong s)"
  "zh_find (func_row f s i) (KStr ''inclusive'') = Some (ZLong i)"
  by (simp_all add: func_row_def zh_find_append frame_to_array_no_count zh_Cons)

section \<open>What the aggregation computes\<close>

text \<open>
  \<open>aggr_rel ht K S I\<close>: the rows of \<open>ht\<close> are for the functions \<open>K\<close>, in order, and hold the counts \<open>S\<close>
  and \<open>I\<close>, which are zero for every other function.
\<close>

definition aggr_rel ::
  "aggr_table \<Rightarrow> string list \<Rightarrow> (string \<Rightarrow> zend_long) \<Rightarrow> (string \<Rightarrow> zend_long) \<Rightarrow> bool" where
  "aggr_rel ht K S I \<longleftrightarrow> zh_ok ht \<and> zh_keys ht = K \<and>
     (\<forall>k \<in> set K. \<exists>f. aggr_key f = k \<and> zh_find ht k = Some (func_row f (S k) (I k))) \<and>
     (\<forall>k. k \<notin> set K \<longrightarrow> S k = 0 \<and> I k = 0)"

lemma aggr_rel_empty: "aggr_rel [] [] (\<lambda>_. 0) (\<lambda>_. 0)"
  by (simp add: aggr_rel_def zh_ok_def zh_keys_def)

lemma zh_ok_add_set [simp]: "zh_ok (zh_set t k v) = zh_ok t" "zh_ok (zh_add t k v) = zh_ok t"
  by (simp_all add: zh_ok_def zh_keys_add)

lemma aggr_frame_rel:
  assumes rel: "aggr_rel ht K S I" and named: "filename f \<noteq> None" and un: "zh_keys un = U"
  obtains ht' un' where "aggr_frame n (ht, un, tp) f = Inr (ht', un', False)"
    "zh_keys un' = add_key U (aggr_key f)"
    "aggr_rel ht' (add_key K (aggr_key f)) (S(aggr_key f := S (aggr_key f) + (if tp then n else 0)))
       (I(aggr_key f := I (aggr_key f) + (if aggr_key f \<in> set U then 0 else n)))"
proof -
  let ?k = "aggr_key f"
  let ?ht = "case zh_find ht ?k of None \<Rightarrow> zh_add ht ?k (func_row f 0 0) | Some _ \<Rightarrow> ht"
  have keys: "zh_keys ?ht = add_key K ?k" "zh_ok ?ht"
    using rel zh_find_None_iff [of ht ?k]
    by (cases "zh_find ht ?k"; simp add: aggr_rel_def zh_keys_add add_key_def)+
  have other: "zh_find ?ht x = zh_find ht x" if "x \<noteq> ?k" for x
    using that by (simp add: zh_find_add split: option.split)
  obtain g where g: "aggr_key g = ?k" "zh_find ?ht ?k = Some (func_row g (S ?k) (I ?k))"
  proof (cases "zh_find ht ?k")
    case None
    then have "S ?k = 0 \<and> I ?k = 0" using rel by (simp add: aggr_rel_def zh_find_None_iff)
    with None that [of f] show thesis by (simp add: zh_find_add)
  next
    case (Some r)
    then have "?k \<in> set K" using rel zh_find_None_iff [of ht ?k] by (auto simp: aggr_rel_def)
    with rel Some that show thesis by (auto simp: aggr_rel_def)
  qed
  let ?row = "func_row g (S ?k + (if tp then n else 0)) (I ?k + (if ?k \<in> set U then 0 else n))"
  let ?un = "if ?k \<in> set U then un else zh_add un ?k ()"
  have "aggr_frame n (ht, un, tp) f = Inr (zh_set ?ht ?k ?row, ?un, False)"
    unfolding aggr_frame_def Let_def prod.case aggr_name_eq [OF named] rbind_simps func_row_new g(2) deref_simps
    using un zh_find_None_iff [of un ?k] by (simp add: func_row_incr)
  moreover have "zh_keys ?un = add_key U ?k" using un by (simp add: zh_keys_add add_key_def)
  moreover have "aggr_rel (zh_set ?ht ?k ?row) (add_key K ?k) (S(?k := S ?k + (if tp then n else 0)))
      (I(?k := I ?k + (if ?k \<in> set U then 0 else n)))"
    unfolding aggr_rel_def using rel keys g other
    by (auto simp: aggr_rel_def zh_find_set)
  ultimately show thesis using that by blast
qed

text \<open>One entry: its innermost function gets its events as \<open>self\<close>, every function on it once as \<open>inclusive\<close>.\<close>

definition on_trace :: "excimer_log_frame list \<Rightarrow> string \<Rightarrow> bool" where
  "on_trace tr k \<longleftrightarrow> k \<in> aggr_key ` set tr"

definition on_top :: "excimer_log_frame list \<Rightarrow> string \<Rightarrow> bool" where
  "on_top tr k \<longleftrightarrow> tr \<noteq> [] \<and> aggr_key (hd tr) = k"

lemma aggr_frames_rel:
  assumes "aggr_rel ht K S I" "\<And>f. f \<in> set tr \<Longrightarrow> filename f \<noteq> None" "zh_keys un = U"
  shows "\<exists>ht' un' b. foldR (aggr_frame n) (ht, un, tp) tr = Inr (ht', un', b) \<and>
    aggr_rel ht' (foldl add_key K (map aggr_key tr))
      (\<lambda>k. S k + (if tp \<and> on_top tr k then n else 0))
      (\<lambda>k. I k + (if k \<notin> set U \<and> on_trace tr k then n else 0))"
  using assms
proof (induction tr arbitrary: ht K S I un U tp)
  case Nil
  then show ?case by (simp add: on_top_def on_trace_def)
next
  case (Cons f tr)
  have nf: "filename f \<noteq> None" using Cons.prems(2) by simp
  obtain ht' un' where step: "aggr_frame n (ht, un, tp) f = Inr (ht', un', False)"
    and un': "zh_keys un' = add_key U (aggr_key f)"
    and rel': "aggr_rel ht' (add_key K (aggr_key f)) (S(aggr_key f := S (aggr_key f) + (if tp then n else 0)))
       (I(aggr_key f := I (aggr_key f) + (if aggr_key f \<in> set U then 0 else n)))"
    by (rule aggr_frame_rel [OF Cons.prems(1) nf Cons.prems(3)])
  have S: "(\<lambda>k. (S(aggr_key f := S (aggr_key f) + (if tp then n else 0))) k + (if False \<and> on_top tr k then n else 0)) =
      (\<lambda>k. S k + (if tp \<and> on_top (f # tr) k then n else 0))"
    by (auto simp: on_top_def)
  have I: "(\<lambda>k. (I(aggr_key f := I (aggr_key f) + (if aggr_key f \<in> set U then 0 else n))) k +
        (if k \<notin> set (add_key U (aggr_key f)) \<and> on_trace tr k then n else 0)) =
      (\<lambda>k. I k + (if k \<notin> set U \<and> on_trace (f # tr) k then n else 0))"
    by (auto simp: on_trace_def fun_eq_iff)
  from Cons.IH [OF rel' _ un', of False] Cons.prems(2) show ?case
    unfolding S I by (simp add: step)
qed

definition self_count :: "excimer_log \<Rightarrow> excimer_log_entry list \<Rightarrow> string \<Rightarrow> zend_long" where
  "self_count log es k = (\<Sum>e \<leftarrow> filter (\<lambda>e. on_top (log_trace log (frame_index e)) k) es. entry_event_count e)"

definition inclusive_count :: "excimer_log \<Rightarrow> excimer_log_entry list \<Rightarrow> string \<Rightarrow> zend_long" where
  "inclusive_count log es k = (\<Sum>e \<leftarrow> filter (\<lambda>e. on_trace (log_trace log (frame_index e)) k) es. entry_event_count e)"

definition log_functions :: "excimer_log \<Rightarrow> excimer_log_entry list \<Rightarrow> string list" where
  "log_functions log es = concat (map (\<lambda>e. map aggr_key (log_trace log (frame_index e))) es)"

lemma aggr_entries_rel:
  assumes wf: "frames_wf log" and es: "\<And>e. e \<in> set es \<Longrightarrow> unat (frame_index e) < length (frames log)"
    and rel: "aggr_rel ht K S I"
  shows "\<exists>ht'. foldR (aggr_entry log) ht es = Inr ht' \<and>
    aggr_rel ht' (foldl add_key K (log_functions log es))
      (\<lambda>k. S k + self_count log es k) (\<lambda>k. I k + inclusive_count log es k)"
  using es rel
proof (induction es arbitrary: ht K S I)
  case Nil
  then show ?case by (simp add: self_count_def inclusive_count_def log_functions_def)
next
  case (Cons e es)
  let ?tr = "log_trace log (frame_index e)" and ?n = "entry_event_count e"
  obtain ht' un b where fold: "foldR (aggr_frame ?n) (ht, [], True) ?tr = Inr (ht', un, b)"
    and rel': "aggr_rel ht' (foldl add_key K (map aggr_key ?tr))
      (\<lambda>k. S k + (if on_top ?tr k then ?n else 0)) (\<lambda>k. I k + (if on_trace ?tr k then ?n else 0))"
    using aggr_frames_rel [OF Cons.prems(2), of ?tr "[]" "[]" ?n True] log_trace_filename [OF wf]
    by (auto simp: zh_keys_def)
  have "aggr_entry log ht e = Inr ht'"
    using fold frame_loop_trace [OF wf, of "frame_index e" "aggr_frame ?n" "(ht, [], True)"] Cons.prems(1)
    by (simp add: aggr_entry_def)
  moreover have "(\<lambda>k. S k + (if on_top ?tr k then ?n else 0) + self_count log es k) = (\<lambda>k. S k + self_count log (e # es) k)"
    "(\<lambda>k. I k + (if on_trace ?tr k then ?n else 0) + inclusive_count log es k) = (\<lambda>k. I k + inclusive_count log (e # es) k)"
    by (simp_all add: self_count_def inclusive_count_def fun_eq_iff)
  moreover have "log_functions log (e # es) = map aggr_key ?tr @ log_functions log es"
    by (simp add: log_functions_def)
  ultimately show ?case using Cons.IH [OF _ rel'] Cons.prems(1) by simp
qed

section \<open>Sorting\<close>

text \<open>
  What \<^verbatim>\<open>zend_hash_sort\<close> documents: the buckets are permuted, and when the comparison function
  compares the buckets by a number, they come out in ascending order of it.
\<close>

definition zend_sort_ok ::
  "((string \<times> (zkey, zval) ztable \<Rightarrow> string \<times> (zkey, zval) ztable \<Rightarrow> int res) \<Rightarrow> aggr_table \<Rightarrow> aggr_table) \<Rightarrow> bool" where
  "zend_sort_ok zsort \<longleftrightarrow> (\<forall>cmp t. mset (zsort cmp t) = mset t \<and>
     (\<forall>key. (\<forall>a \<in> set t. \<forall>b \<in> set t. cmp a b = Inr (sgn (key a - key b :: int))) \<longrightarrow>
        sorted_wrt (\<lambda>a b. key a \<le> key b) (zsort cmp t)))"

lemma zend_sort_okD:
  assumes "zend_sort_ok zsort" "\<And>a b. a \<in> set t \<Longrightarrow> b \<in> set t \<Longrightarrow> cmp a b = Inr (sgn (key a - key b :: int))"
  shows "sorted_wrt (\<lambda>a b. key a \<le> key b) (zsort cmp t)"
  using assms by (simp add: zend_sort_ok_def)

text \<open>A sort that meets it: insertion, keeping a bucket before the first one it does not exceed.\<close>

fun insert_cmp :: "('b \<Rightarrow> 'b \<Rightarrow> int res) \<Rightarrow> 'b \<Rightarrow> 'b list \<Rightarrow> 'b list" where
  "insert_cmp cmp x [] = [x]"
| "insert_cmp cmp x (y # ys) = (case cmp x y of
     Inr c \<Rightarrow> if c \<le> 0 then x # y # ys else y # insert_cmp cmp x ys
   | Inl _ \<Rightarrow> x # y # ys)"

definition sort_cmp :: "('b \<Rightarrow> 'b \<Rightarrow> int res) \<Rightarrow> 'b list \<Rightarrow> 'b list" where
  "sort_cmp cmp t = foldr (insert_cmp cmp) t []"

lemma mset_insert_cmp [simp]: "mset (insert_cmp cmp x ys) = add_mset x (mset ys)"
  by (induction ys) (auto split: sum.split)

lemma mset_sort_cmp [simp]: "mset (sort_cmp cmp t) = mset t"
  by (induction t) (simp_all add: sort_cmp_def)

lemma set_insert_cmp: "set (insert_cmp cmp x ys) = insert x (set ys)"
  by (induction ys) (auto split: sum.split)

lemma sorted_insert_cmp:
  assumes "\<forall>y \<in> set ys. cmp x y = Inr (sgn (key x - key y :: int))" "sorted_wrt (\<lambda>a b. key a \<le> key b) ys"
  shows "sorted_wrt (\<lambda>a b. key a \<le> key b) (insert_cmp cmp x ys)"
  using assms by (induction ys) (auto simp: set_insert_cmp sgn_if split: if_splits)

lemma sorted_sort_cmp:
  assumes "\<forall>a \<in> set t. \<forall>b \<in> set t. cmp a b = Inr (sgn (key a - key b :: int))"
  shows "sorted_wrt (\<lambda>a b. key a \<le> key b) (sort_cmp cmp t)"
  using assms
proof (induction t)
  case (Cons x t)
  have "set (sort_cmp cmp t) = set t" using mset_sort_cmp [of cmp t] by (metis set_mset_mset)
  with Cons show ?case
    using sorted_insert_cmp [of "sort_cmp cmp t" cmp x key] by (simp add: sort_cmp_def)
qed (simp add: sort_cmp_def)

lemma sort_cmp_ok: "zend_sort_ok sort_cmp"
  by (simp add: zend_sort_ok_def sorted_sort_cmp)

lemma aggr_by_func_rel:
  assumes "log_wf log" "zend_sort_ok zsort"
  obtains ht t where "excimer_log_aggr_by_func zsort log = Inr t" "t = zsort excimer_log_aggr_compare ht" "mset t = mset ht"
    "aggr_rel ht (foldl add_key [] (log_functions log (entries log)))
      (self_count log (entries log)) (inclusive_count log (entries log))"
proof -
  have "\<exists>ht. foldR (aggr_entry log) [] (entries log) = Inr ht \<and>
      aggr_rel ht (foldl add_key [] (log_functions log (entries log)))
        (\<lambda>k. 0 + self_count log (entries log) k) (\<lambda>k. 0 + inclusive_count log (entries log) k)"
    by (rule aggr_entries_rel [OF _ _ aggr_rel_empty]) (use assms(1) in \<open>auto simp: log_wf_def entries_wf_def\<close>)
  with assms(2) that show thesis by (auto simp: excimer_log_aggr_by_func_def zend_sort_ok_def)
qed

lemma aggr_rel_row:
  assumes "aggr_rel ht K S I" "b \<in> set ht"
  shows "\<exists>f. aggr_key f = fst b \<and> snd b = func_row f (S (fst b)) (I (fst b))"
proof -
  have "zh_find ht (fst b) = Some (snd b)" using assms by (auto simp: aggr_rel_def intro: zh_in_find)
  moreover have "fst b \<in> set K" using assms by (auto simp: aggr_rel_def zh_keys_def)
  then obtain f where "aggr_key f = fst b" "zh_find ht (fst b) = Some (func_row f (S (fst b)) (I (fst b)))"
    using assms(1) unfolding aggr_rel_def by blast
  ultimately show ?thesis by auto
qed

section \<open>Properties\<close>

text \<open>C21 (functional): \<^verbatim>\<open>excimer_log_aggr_by_func\<close> always returns on a well-formed log. The result has one
  row for each function that occurs in the log; its \<open>self\<close> count is the number of events whose
  innermost frame is in the function, and its \<open>inclusive\<close> count the number of events with the function
  anywhere on the stack, a recursive function being counted once per event.\<close>

theorem aggr_by_func_counts:
  assumes "log_wf log" and "zend_sort_ok zsort"
  shows "\<exists>t. excimer_log_aggr_by_func zsort log = Inr t \<and> distinct (map fst t) \<and>
    set (map fst t) = {aggr_key f | f e. e \<in> set (entries log) \<and> f \<in> set (log_trace log (frame_index e))} \<and>
    (\<forall>(k, row) \<in> set t.
       zh_find row (KStr ''self'') = Some (ZLong (\<Sum>e \<leftarrow> filter (\<lambda>e. log_trace log (frame_index e) \<noteq> [] \<and>
         aggr_key (hd (log_trace log (frame_index e))) = k) (entries log). entry_event_count e)) \<and>
       zh_find row (KStr ''inclusive'') = Some (ZLong (\<Sum>e \<leftarrow> filter (\<lambda>e.
         k \<in> aggr_key ` set (log_trace log (frame_index e))) (entries log). entry_event_count e)))"
proof -
  obtain ht t where t: "excimer_log_aggr_by_func zsort log = Inr t" "mset t = mset ht"
    and rel: "aggr_rel ht (foldl add_key [] (log_functions log (entries log)))
      (self_count log (entries log)) (inclusive_count log (entries log))"
    using aggr_by_func_rel [OF assms] by metis
  have "mset (map fst t) = mset (zh_keys ht)" using t(2) by (simp add: zh_keys_def)
  moreover have "set (zh_keys ht) = set (log_functions log (entries log))"
    using rel by (simp add: aggr_rel_def set_foldl_add_key)
  ultimately have "distinct (map fst t)" "set (map fst t) = set (log_functions log (entries log))"
    using rel unfolding aggr_rel_def zh_ok_def by (metis mset_eq_imp_distinct_iff, metis mset_eq_setD)
  moreover have "zh_find row (KStr ''self'') = Some (ZLong (self_count log (entries log) k)) \<and>
      zh_find row (KStr ''inclusive'') = Some (ZLong (inclusive_count log (entries log) k))"
    if "(k, row) \<in> set t" for k row
  proof -
    have "(k, row) \<in> set ht" using mset_eq_setD [OF t(2)] that by simp
    from aggr_rel_row [OF rel this] show ?thesis by auto
  qed
  ultimately show ?thesis using t(1)
    by (auto simp: log_functions_def self_count_def inclusive_count_def on_top_def on_trace_def)
qed

text \<open>C36 (functional): the rows are in descending order of the inclusive count, as long as no count has
  wrapped around to a negative number (the comparison subtracts, so its sign is only right then).\<close>

theorem aggr_by_func_sorted:
  assumes "log_wf log" and "zend_sort_ok zsort"
    and "\<And>k. 0 \<le>s inclusive_count log (entries log) k"
    and "excimer_log_aggr_by_func zsort log = Inr t"
  shows "sorted_wrt (\<lambda>(k, _) (k', _). sint (inclusive_count log (entries log) k') \<le>
    sint (inclusive_count log (entries log) k)) t"
proof -
  let ?I = "inclusive_count log (entries log)"
  let ?key = "\<lambda>b :: string \<times> (zkey, zval) ztable. - sint (?I (fst b))"
  obtain ht where t: "t = zsort excimer_log_aggr_compare ht" "mset t = mset ht"
    and rel: "aggr_rel ht (foldl add_key [] (log_functions log (entries log))) (self_count log (entries log)) ?I"
    using aggr_by_func_rel [OF assms(1,2)] assms(4) by (metis Inr_inject)
  have "excimer_log_aggr_compare a b = Inr (sgn (?key a - ?key b))" if mem: "a \<in> set ht" "b \<in> set ht" for a b
  proof -
    obtain f g where r: "snd a = func_row f (self_count log (entries log) (fst a)) (?I (fst a))"
      "snd b = func_row g (self_count log (entries log) (fst b)) (?I (fst b))"
      using aggr_rel_row [OF rel mem(1)] aggr_rel_row [OF rel mem(2)] by blast
    have range: "0 \<le> sint (?I k)" "sint (?I k) < 2 ^ 63" for k
      using assms(3) [of k] sint_lt [of "?I k"] by (simp_all add: word_sle_eq)
    have "sint (?I (fst b) - ?I (fst a)) = sint (?I (fst b)) - sint (?I (fst a))"
      using range [of "fst a"] range [of "fst b"] by (intro sint64_diff_eq) simp_all
    then show ?thesis
      by (simp add: excimer_log_aggr_compare_def r z_lval_def word_sless_alt Let_def sgn_if)
  qed
  then have "sorted_wrt (\<lambda>a b. ?key a \<le> ?key b) t"
    unfolding t(1) by (intro zend_sort_okD [where key = ?key, OF assms(2)])
  then show ?thesis by (rule sorted_wrt_mono_rel [rotated]) auto
qed

lemma demo_functions: "map aggr_key (log_trace demo_result 2) = [''foo'', ''a.php'']"
  by (simp add: demo_trace aggr_key_def make_frame_def demo_defs)

theorem aggr_by_func_counts_witness:
  "\<exists>t. excimer_log_aggr_by_func sort_cmp demo_result = Inr t \<and> set (map fst t) = {''foo'', ''a.php''} \<and>
     (\<forall>row. (''foo'', row) \<in> set t \<longrightarrow> zh_find row (KStr ''self'') = Some (ZLong 3))"
proof -
  have keys: "aggr_key ` set (log_trace demo_result 2) = {''foo'', ''a.php''}"
    using arg_cong [OF demo_functions, of set] by simp
  have hd: "log_trace demo_result 2 \<noteq> []" "aggr_key (hd (log_trace demo_result 2)) = ''foo''"
    using demo_functions by (cases "log_trace demo_result 2"; simp)+
  have names: "{aggr_key f | f e. e \<in> set (entries demo_result) \<and> f \<in> set (log_trace demo_result (frame_index e))} =
      {''foo'', ''a.php''}" unfolding keys [symmetric] demo_entries by auto
  from aggr_by_func_counts [OF demo_result_wf sort_cmp_ok] show ?thesis unfolding names
  proof (elim exE conjE, intro exI conjI allI impI)
    fix t row
    assume "\<forall>(k, row) \<in> set t.
       zh_find row (KStr ''self'') = Some (ZLong (\<Sum>e \<leftarrow> filter (\<lambda>e. log_trace demo_result (frame_index e) \<noteq> [] \<and>
         aggr_key (hd (log_trace demo_result (frame_index e))) = k) (entries demo_result). entry_event_count e)) \<and>
       zh_find row (KStr ''inclusive'') = Some (ZLong (\<Sum>e \<leftarrow> filter (\<lambda>e.
         k \<in> aggr_key ` set (log_trace demo_result (frame_index e))) (entries demo_result). entry_event_count e))"
      and "(''foo'', row) \<in> set t"
    from bspec [OF this] show "zh_find row (KStr ''self'') = Some (ZLong 3)" using hd by (simp add: demo_entries)
  qed
qed

theorem aggr_by_func_sorted_witness:
  "\<exists>t. excimer_log_aggr_by_func sort_cmp demo_result = Inr t \<and>
     sorted_wrt (\<lambda>(k, _) (k', _). sint (inclusive_count demo_result (entries demo_result) k') \<le>
       sint (inclusive_count demo_result (entries demo_result) k)) t"
proof -
  obtain t where t: "excimer_log_aggr_by_func sort_cmp demo_result = Inr t"
    using aggr_by_func_rel [OF demo_result_wf sort_cmp_ok] by metis
  have "0 \<le>s inclusive_count demo_result (entries demo_result) k" for k
    by (simp add: inclusive_count_def demo_entries word_sle_eq)
  from aggr_by_func_sorted [OF demo_result_wf sort_cmp_ok this t] t show ?thesis by blast
qed

end
