(* ===== verification/Log_Speedscope.thy ===== *)
theory Log_Speedscope
  imports Log_Format
begin

text \<open>
  The speedscope export (\<^verbatim>\<open>excimer_log_get_speedscope_data\<close>): a table of frames without duplicates,
  one sample per log entry as a list of indexes into it, outermost frame first, and one weight per
  entry. The specification decodes the samples through the frame table.
\<close>

section \<open>Operations\<close>

definition excimer_log_frame_to_speedscope_array :: "excimer_log_frame \<Rightarrow> (zkey, zval) ztable res" where
  "excimer_log_frame_to_speedscope_array frame =
     rbind (excimer_log_append_frame_name [] frame) (\<lambda>ss_name.
     let ht = zh_add [] (KStr ''name'') (ZStr ss_name)
     in Inr (case filename frame of
          Some file \<Rightarrow> zh_add ht (KStr ''file'') (ZStr file)
        | None \<Rightarrow> ht))"

definition excimer_log_get_speedscope_frame_key :: "excimer_log_frame \<Rightarrow> string res" where
  "excimer_log_get_speedscope_frame_key frame =
     rbind (excimer_log_append_frame_name [] frame) (\<lambda>ss.
     rbind (deref (filename frame)) (\<lambda>file. Inr (ss @ [CHR 0x00] @ file)))"

definition excimer_log_count_frames :: "excimer_log \<Rightarrow> uint32_t \<Rightarrow> uint32_t res" where
  "excimer_log_count_frames log fi =
     frame_loop (raw_frame_at log) (\<lambda>n _ _. Inr (n + 1)) (length (frames log)) fi 0"

text \<open>One round of the loop that builds \<^verbatim>\<open>ht_frames\<close>, \<^verbatim>\<open>ht_indexes_by_key\<close> and \<^verbatim>\<open>lp_frame_indexes\<close>.\<close>

definition speedscope_frame ::
  "excimer_log \<Rightarrow> zval list \<times> (string, zend_long) ztable \<times> zend_long list \<Rightarrow> nat \<Rightarrow>
   (zval list \<times> (string, zend_long) ztable \<times> zend_long list) res" where
  "speedscope_frame log st i =
     (let (ht_frames, ht_indexes_by_key, lp_frame_indexes) = st
      in rbind (raw_frame_at log (of_nat i)) (\<lambda>frame.
         rbind (excimer_log_get_speedscope_frame_key frame) (\<lambda>str_key.
         rbind (case zh_find ht_indexes_by_key str_key of
             None \<Rightarrow>
               let index = of_nat (length ht_frames)
               in rbind (excimer_log_frame_to_speedscope_array frame) (\<lambda>arr.
                  Inr (ht_frames @ [ZArr arr], zh_add ht_indexes_by_key str_key index, index))
           | Some index \<Rightarrow> Inr (ht_frames, ht_indexes_by_key, index))
           (\<lambda>(ht_frames, ht_indexes_by_key, index).
           Inr (ht_frames, ht_indexes_by_key, lp_frame_indexes[i := index])))))"

definition speedscope_frames ::
  "excimer_log \<Rightarrow> (zval list \<times> (string, zend_long) ztable \<times> zend_long list) res" where
  "speedscope_frames log =
     foldR (speedscope_frame log) ([], [], replicate (unat (frames_size log)) 0) [1..<unat (frames_size log)]"

text \<open>Filling the stack array of \<open>n\<close> elements from its end.\<close>

fun speedscope_fill :: "excimer_log \<Rightarrow> zend_long list \<Rightarrow> nat \<Rightarrow> uint32_t \<Rightarrow> zend_long list res" where
  "speedscope_fill log lp 0 fi = Inr []"
| "speedscope_fill log lp (Suc n) fi =
     (if unat fi < length lp then
        rbind (raw_frame_at log fi) (\<lambda>frame.
        rbind (speedscope_fill log lp n (prev_index frame)) (\<lambda>vs. Inr (vs @ [lp ! unat fi])))
      else Inl Out_Of_Bounds)"

definition speedscope_sample :: "excimer_log \<Rightarrow> zend_long list \<Rightarrow> excimer_log_entry \<Rightarrow> zend_long list res" where
  "speedscope_sample log lp entry =
     rbind (excimer_log_count_frames log (frame_index entry)) (\<lambda>num_frames.
     speedscope_fill log lp (unat num_frames) (frame_index entry))"

text \<open>The result array, with its constant parts.\<close>

definition speedscope_data :: "zval list \<Rightarrow> zend_long list list \<Rightarrow> zend_long list \<Rightarrow> uint64_t \<Rightarrow> (zkey, zval) ztable" where
  "speedscope_data frs samples weights end_value =
     [(KStr ''$schema'', ZStr ''https://www.speedscope.app/file-format-schema.json''),
      (KStr ''exporter'', ZStr ''Excimer''),
      (KStr ''shared'', ZArr [(KStr ''frames'', ZArr (zlist frs))]),
      (KStr ''profiles'', ZArr (zlist [ZArr
         [(KStr ''type'', ZStr ''sampled''),
          (KStr ''name'', ZStr ''''),
          (KStr ''unit'', ZStr ''nanoseconds''),
          (KStr ''startValue'', ZLong 0),
          (KStr ''endValue'', ZLong end_value),
          (KStr ''samples'', ZArr (zlist (map (\<lambda>s. ZArr (zlist (map ZLong s))) samples))),
          (KStr ''weights'', ZArr (zlist (map ZLong weights)))]]))]"

definition excimer_log_get_speedscope_data :: "excimer_log \<Rightarrow> (zkey, zval) ztable res" where
  "excimer_log_get_speedscope_data log =
     rbind (speedscope_frames log) (\<lambda>(ht_frames, _, lp_frame_indexes).
     rbind (mapR (speedscope_sample log lp_frame_indexes) (entries log)) (\<lambda>samples.
     let weights = map (\<lambda>entry. entry_event_count entry * period log) (entries log);
         first_timestamp = (if entries log = [] then 0 else timestamp (hd (entries log)));
         last_timestamp = (if entries log = [] then 0 else timestamp (last (entries log)))
     in Inr (speedscope_data ht_frames samples weights (last_timestamp - first_timestamp))))"

section \<open>Keys and positions\<close>

definition scope_key :: "excimer_log_frame \<Rightarrow> string" where
  "scope_key f = frame_name f @ [CHR 0x00] @ the (filename f)"

definition scope_row :: "excimer_log_frame \<Rightarrow> zval" where
  "scope_row f = ZArr [(KStr ''name'', ZStr (frame_name f)), (KStr ''file'', ZStr (the (filename f)))]"

text \<open>A key determines the row: the name holds no null byte.\<close>

definition key_row :: "string \<Rightarrow> zval" where
  "key_row k = ZArr [(KStr ''name'', ZStr (takeWhile (\<lambda>c. c \<noteq> CHR 0x00) k)),
     (KStr ''file'', ZStr (tl (dropWhile (\<lambda>c. c \<noteq> CHR 0x00) k)))]"

lemma key_row_scope_key: "key_row (scope_key f) = scope_row f"
proof -
  have "\<forall>c \<in> set (frame_name f). c \<noteq> CHR 0x00" using frame_name_chars(2) by metis
  then show ?thesis by (simp add: key_row_def scope_row_def scope_key_def takeWhile_append2 dropWhile_append2)
qed

lemma scope_frame_eq:
  assumes "filename f \<noteq> None"
  shows "excimer_log_get_speedscope_frame_key f = Inr (scope_key f)"
    "rbind (excimer_log_frame_to_speedscope_array f) (\<lambda>a. g (ZArr a)) = g (scope_row f)"
  using assms by (auto simp: excimer_log_get_speedscope_frame_key_def excimer_log_frame_to_speedscope_array_def
      append_frame_name_eq scope_key_def scope_row_def zh_add_def zh_find_def)

definition pos :: "'a list \<Rightarrow> 'a \<Rightarrow> nat" where
  "pos xs x = length (takeWhile (\<lambda>y. y \<noteq> x) xs)"

lemma pos_less: "x \<in> set xs \<Longrightarrow> pos xs x < length xs"
  by (induction xs) (auto simp: pos_def)

lemma nth_pos: "x \<in> set xs \<Longrightarrow> xs ! pos xs x = x"
  by (induction xs) (auto simp: pos_def)

lemma pos_append: "x \<in> set xs \<Longrightarrow> pos (xs @ ys) x = pos xs x"
  by (induction xs) (auto simp: pos_def)

lemma pos_new: "x \<notin> set xs \<Longrightarrow> pos (xs @ [x]) x = length xs"
  by (induction xs) (auto simp: pos_def)

lemma pos_add_key: "x \<in> set ks \<Longrightarrow> pos (add_key ks k) x = pos ks x"
  by (simp add: add_key_def pos_append)

section \<open>The frame table\<close>

definition scope_keys :: "excimer_log \<Rightarrow> nat \<Rightarrow> string list" where
  "scope_keys log i = foldl add_key [] (map (\<lambda>j. scope_key (frames log ! j)) [1..<i])"

lemma scope_keys_Suc: "1 \<le> i \<Longrightarrow> scope_keys log (Suc i) = add_key (scope_keys log i) (scope_key (frames log ! i))"
  by (simp add: scope_keys_def)

lemma in_scope_keys: "1 \<le> j \<Longrightarrow> j < i \<Longrightarrow> scope_key (frames log ! j) \<in> set (scope_keys log i)"
  by (simp add: scope_keys_def set_foldl_add_key)

lemma length_scope_keys: "length (scope_keys log i) \<le> i - 1"
  using length_foldl_add_key [of "[]" "map (\<lambda>j. scope_key (frames log ! j)) [1..<i]"] by (simp add: scope_keys_def)

definition scope_inv :: "excimer_log \<Rightarrow> nat \<Rightarrow> zval list \<times> (string, zend_long) ztable \<times> zend_long list \<Rightarrow> bool" where
  "scope_inv log i st \<longleftrightarrow> (case st of (frs, idx, lp) \<Rightarrow>
     frs = map key_row (scope_keys log i) \<and>
     (\<forall>k. zh_find idx k = (if k \<in> set (scope_keys log i) then Some (of_nat (pos (scope_keys log i) k)) else None)) \<and>
     length lp = length (frames log) \<and>
     (\<forall>j. 1 \<le> j \<and> j < i \<longrightarrow> lp ! j = of_nat (pos (scope_keys log i) (scope_key (frames log ! j)))))"

lemma speedscope_frame_inv:
  assumes wf: "frames_wf log" and i: "1 \<le> i" "i < length (frames log)" and inv: "scope_inv log i st"
  shows "\<exists>st'. speedscope_frame log st i = Inr st' \<and> scope_inv log (Suc i) st'"
proof -
  obtain frs idx lp where st: "st = (frs, idx, lp)" by (cases st)
  let ?f = "frames log ! i"
  let ?k = "scope_key ?f" and ?K = "scope_keys log i"
  have "length (frames log) \<le> 2 ^ 32" using wf by (simp add: frames_wf_def)
  then have "unat (of_nat i :: uint32_t) = i" using i by (intro unat_of_nat32) simp
  then have fr: "raw_frame_at log (of_nat i) = Inr ?f" using i by (simp add: raw_frame_at_def)
  have named: "filename ?f \<noteq> None" using frames_wf_filename [OF wf] i by simp
  note K' = scope_keys_Suc [OF i(1), of log]
  have lp: "(lp[i := v]) ! j = (if j = i then v else lp ! j)" if "j < Suc i" for v j
    using inv i that by (auto simp: scope_inv_def st nth_list_update)
  show ?thesis
  proof (cases "?k \<in> set ?K")
    case True
    then have K: "scope_keys log (Suc i) = ?K" by (simp add: K' add_key_def)
    have "speedscope_frame log st i = Inr (frs, idx, lp[i := of_nat (pos ?K ?k)])"
      using inv True by (simp add: speedscope_frame_def st fr scope_frame_eq(1) [OF named] scope_inv_def)
    moreover have "scope_inv log (Suc i) (frs, idx, lp[i := of_nat (pos ?K ?k)])"
      using inv lp by (auto simp: scope_inv_def st K less_Suc_eq)
    ultimately show ?thesis by blast
  next
    case False
    then have K: "scope_keys log (Suc i) = ?K @ [?k]" by (simp add: K' add_key_def)
    let ?n = "of_nat (length frs) :: zend_long"
    have len: "length frs = length ?K" using inv by (simp add: scope_inv_def st)
    have "speedscope_frame log st i = Inr (frs @ [scope_row ?f], zh_add idx ?k ?n, lp[i := ?n])"
      using inv False scope_frame_eq(2) [OF named, of "\<lambda>a. Inr (frs @ [a], zh_add idx ?k ?n, ?n)"]
      by (simp add: speedscope_frame_def st fr scope_frame_eq(1) [OF named] scope_inv_def Let_def)
    moreover have "scope_inv log (Suc i) (frs @ [scope_row ?f], zh_add idx ?k ?n, lp[i := ?n])"
      using inv lp False len in_scope_keys [of _ i log]
      by (auto simp: scope_inv_def st K less_Suc_eq key_row_scope_key zh_find_add pos_append pos_new)
    ultimately show ?thesis by blast
  qed
qed

lemma speedscope_frames_ok:
  assumes wf: "frames_wf log"
  shows "\<exists>st. speedscope_frames log = Inr st \<and> scope_inv log (length (frames log)) st"
proof -
  have len: "unat (frames_size log) = length (frames log)" "frames log \<noteq> []"
    using wf unat_of_nat64 [of "length (frames log)"] by (simp_all add: frames_wf_def)
  have "\<exists>st. foldR (speedscope_frame log) ([], [], replicate (length (frames log)) 0) [1..<i] = Inr st \<and> scope_inv log i st"
    if "1 \<le> i" "i \<le> length (frames log)" for i
    using that
  proof (induction i rule: nat_induct_at_least)
    case base
    then show ?case by (simp add: scope_inv_def scope_keys_def zh_find_def)
  next
    case (Suc i)
    then obtain st where st: "foldR (speedscope_frame log) ([], [], replicate (length (frames log)) 0) [1..<i] = Inr st"
      "scope_inv log i st" by auto
    obtain st' where "speedscope_frame log st i = Inr st'" "scope_inv log (Suc i) st'"
      using speedscope_frame_inv [OF wf _ _ st(2)] Suc by auto
    with st Suc.hyps show ?case by (simp add: foldR_append)
  qed
  from this [of "length (frames log)"] len show ?thesis by (simp add: speedscope_frames_def Suc_le_eq)
qed

section \<open>Samples\<close>

lemma count_frames_eq:
  assumes wf: "frames_wf log" and i: "unat i < length (frames log)"
  shows "excimer_log_count_frames log i = Inr (of_nat (length (log_trace log i)))"
proof -
  have count: "foldR (\<lambda>n j. Inr (n + 1)) n js = Inr (n + of_nat (length js))" for n :: uint32_t and js :: "nat list"
    by (induction js arbitrary: n) (auto simp: algebra_simps)
  show ?thesis
    using frame_loop_wf [OF wf raw_frame_at_wf i, of "length (frames log)" "\<lambda>n _ _. Inr (n + 1)" "0 :: uint32_t"] i
    by (simp add: excimer_log_count_frames_def count log_trace_def)
qed

lemma speedscope_fill_eq:
  assumes wf: "frames_wf log" and lp: "length lp = length (frames log)" and i: "unat i < length (frames log)"
  shows "speedscope_fill log lp (length (trace_idx (frames log) (unat i))) i =
    Inr (rev (map ((!) lp) (trace_idx (frames log) (unat i))))"
  using i
proof (induction "unat i" arbitrary: i rule: less_induct)
  case less
  show ?case
  proof (cases "unat i = 0")
    case False
    let ?p = "prev_index (frames log ! unat i)"
    have p: "unat ?p < unat i" using frames_wf_prev [OF wf] False less.prems by simp
    have tr: "trace_idx (frames log) (unat i) = unat i # trace_idx (frames log) (unat ?p)"
      using p False less.prems by (simp add: trace_idx.simps [of "frames log" "unat i"])
    have "unat ?p < length (frames log)" using p less.prems by simp
    from less.hyps [OF p this] show ?thesis
      using less.prems lp by (simp add: tr raw_frame_at_wf)
  qed simp
qed

lemma speedscope_sample_eq:
  assumes wf: "frames_wf log" and inv: "scope_inv log (length (frames log)) (frs, idx, lp)"
    and i: "unat (frame_index e) < length (frames log)"
  shows "\<exists>vs. speedscope_sample log lp e = Inr vs \<and> (\<forall>v \<in> set vs. unat v < length frs) \<and>
    map (\<lambda>v. frs ! unat v) vs = map scope_row (rev (log_trace log (frame_index e)))"
proof -
  let ?js = "trace_idx (frames log) (unat (frame_index e))" and ?K = "scope_keys log (length (frames log))"
  have small: "length (frames log) \<le> 2 ^ 32" using wf by (simp add: frames_wf_def)
  have "length ?js \<le> unat (frame_index e)" by (rule length_trace_idx)
  then have "length ?js < 2 ^ 32" using unat32_less [of "frame_index e"] by (rule le_less_trans)
  then have "unat (of_nat (length ?js) :: uint32_t) = length ?js" by (rule unat_of_nat32)
  then have run: "speedscope_sample log lp e = Inr (rev (map ((!) lp) ?js))"
    using speedscope_fill_eq [OF wf _ i] inv count_frames_eq [OF wf i]
    by (simp add: speedscope_sample_def log_trace_def scope_inv_def)
  have row: "unat (lp ! j) < length frs \<and> frs ! unat (lp ! j) = scope_row (frames log ! j)" if "j \<in> set ?js" for j
  proof -
    have j: "1 \<le> j" "j < length (frames log)" using trace_idx_range [OF that] by auto
    let ?k = "scope_key (frames log ! j)"
    have K: "?k \<in> set ?K" using in_scope_keys [OF j] .
    have "length ?K < 2 ^ 64" using length_scope_keys [of log "length (frames log)"] small by simp
    then have "unat (lp ! j) = pos ?K ?k"
      using inv j pos_less [OF K] unat_of_nat64 [of "pos ?K ?k"] by (simp add: scope_inv_def)
    then show ?thesis using inv pos_less [OF K] nth_pos [OF K] by (simp add: scope_inv_def key_row_scope_key)
  qed
  then have "map (\<lambda>v. frs ! unat v) (rev (map ((!) lp) ?js)) = map scope_row (rev (log_trace log (frame_index e)))"
    by (simp add: log_trace_def rev_map)
  with run row show ?thesis by auto
qed

lemma distinct_scope_rows:
  assumes "scope_inv log i (frs, idx, lp)"
  shows "distinct frs"
proof -
  have "inj_on key_row (set (scope_keys log i))"
  proof (rule inj_onI)
    fix k k'
    assume "k \<in> set (scope_keys log i)" "k' \<in> set (scope_keys log i)" and eq: "key_row k = key_row k'"
    then obtain f g where "k = scope_key f" "k' = scope_key g"
      by (auto simp: scope_keys_def set_foldl_add_key)
    with eq show "k = k'" by (simp add: key_row_scope_key) (simp add: scope_row_def scope_key_def)
  qed
  moreover have "distinct (scope_keys log i)" by (simp add: scope_keys_def distinct_foldl_add_key)
  ultimately show ?thesis using assms by (simp add: scope_inv_def distinct_map)
qed

section \<open>Properties\<close>

lemma speedscope_run:
  assumes "log_wf log"
  obtains frs idx lp smp where "scope_inv log (length (frames log)) (frs, idx, lp)"
    "\<And>e. e \<in> set (entries log) \<Longrightarrow> (\<forall>v \<in> set (smp e). unat v < length frs) \<and>
       map (\<lambda>v. frs ! unat v) (smp e) = map scope_row (rev (log_trace log (frame_index e)))"
    "excimer_log_get_speedscope_data log = Inr (speedscope_data frs (map smp (entries log))
       (map (\<lambda>e. entry_event_count e * period log) (entries log))
       ((if entries log = [] then 0 else timestamp (last (entries log))) - (if entries log = [] then 0 else timestamp (hd (entries log)))))"
proof -
  have wf: "frames_wf log" and fi: "\<And>e. e \<in> set (entries log) \<Longrightarrow> unat (frame_index e) < length (frames log)"
    using assms by (auto simp: log_wf_def entries_wf_def)
  obtain frs idx lp where run: "speedscope_frames log = Inr (frs, idx, lp)"
    and inv: "scope_inv log (length (frames log)) (frs, idx, lp)"
    using speedscope_frames_ok [OF wf] by auto
  let ?smp = "\<lambda>e. projr (speedscope_sample log lp e)"
  have smp: "speedscope_sample log lp e = Inr (?smp e)" "\<forall>v \<in> set (?smp e). unat v < length frs"
    "map (\<lambda>v. frs ! unat v) (?smp e) = map scope_row (rev (log_trace log (frame_index e)))"
    if "e \<in> set (entries log)" for e
    using speedscope_sample_eq [OF wf inv fi [OF that]] by auto
  have samples: "mapR (speedscope_sample log lp) (entries log) = Inr (map ?smp (entries log))"
    by (rule mapR_Inr) (rule smp(1))
  have "excimer_log_get_speedscope_data log = Inr (speedscope_data frs (map ?smp (entries log))
       (map (\<lambda>e. entry_event_count e * period log) (entries log))
       ((if entries log = [] then 0 else timestamp (last (entries log))) - (if entries log = [] then 0 else timestamp (hd (entries log)))))"
    by (simp add: excimer_log_get_speedscope_data_def run samples Let_def)
  with inv smp(2,3) show thesis by (intro that [of frs idx lp ?smp]) blast+
qed

text \<open>C20 (roundtrip): the speedscope export of a well-formed log always returns, and decodes back to the
  log: there is one sample and one weight per entry, in order; looking each index of a sample up in
  the shared frame table gives the names and files of the entry's stack, outermost first; the weight
  is the entry's event count times the period; the frame table has no duplicates; and the end value
  is the time from the first entry to the last.\<close>

theorem speedscope_decodes:
  assumes "log_wf log"
  shows "\<exists>frs samples weights end_value.
    excimer_log_get_speedscope_data log = Inr (speedscope_data frs samples weights end_value) \<and>
    distinct frs \<and> length samples = length (entries log) \<and>
    (\<forall>i < length (entries log). (\<forall>v \<in> set (samples ! i). unat v < length frs) \<and>
       map (\<lambda>v. frs ! unat v) (samples ! i) =
         map (\<lambda>f. ZArr [(KStr ''name'', ZStr (frame_name f)), (KStr ''file'', ZStr (the (filename f)))])
           (rev (log_trace log (frame_index (entries log ! i))))) \<and>
    weights = map (\<lambda>e. entry_event_count e * period log) (entries log) \<and>
    (entries log \<noteq> [] \<longrightarrow> end_value = timestamp (last (entries log)) - timestamp (hd (entries log)))"
proof -
  let ?first = "if entries log = [] then 0 else timestamp (hd (entries log))"
  let ?last = "if entries log = [] then 0 else timestamp (last (entries log))"
  let ?ws = "map (\<lambda>e. entry_event_count e * period log) (entries log)"
  obtain frs idx lp smp where inv: "scope_inv log (length (frames log)) (frs, idx, lp)"
    and smp: "\<And>e. e \<in> set (entries log) \<Longrightarrow> (\<forall>v \<in> set (smp e). unat v < length frs) \<and>
       map (\<lambda>v. frs ! unat v) (smp e) = map scope_row (rev (log_trace log (frame_index e)))"
    and data: "excimer_log_get_speedscope_data log = Inr (speedscope_data frs (map smp (entries log)) ?ws (?last - ?first))"
    by (rule speedscope_run [OF assms], rule that) blast+
  have rows: "\<forall>i < length (entries log). (\<forall>v \<in> set (map smp (entries log) ! i). unat v < length frs) \<and>
      map (\<lambda>v. frs ! unat v) (map smp (entries log) ! i) =
        map (\<lambda>f. ZArr [(KStr ''name'', ZStr (frame_name f)), (KStr ''file'', ZStr (the (filename f)))])
          (rev (log_trace log (frame_index (entries log ! i))))"
    using smp [OF nth_mem, unfolded scope_row_def] by simp
  show ?thesis
    by (rule exI [of _ frs], rule exI [of _ "map smp (entries log)"], rule exI [of _ ?ws],
        rule exI [of _ "?last - ?first"], intro conjI data rows distinct_scope_rows [OF inv]) simp_all
qed

definition demo_frame_row :: "string \<Rightarrow> zval" where
  "demo_frame_row n = ZArr [(KStr ''name'', ZStr n), (KStr ''file'', ZStr ''a.php'')]"

theorem speedscope_decodes_witness:
  "\<exists>frs samples. excimer_log_get_speedscope_data demo_result =
       Inr (speedscope_data frs samples [3 * period demo_result] 0) \<and>
     map (\<lambda>v. frs ! unat v) (samples ! 0) = [demo_frame_row ''a.php'', demo_frame_row ''foo'']"
proof -
  have "map (\<lambda>f. ZArr [(KStr ''name'', ZStr (frame_name f)), (KStr ''file'', ZStr (the (filename f)))])
      (rev (log_trace demo_result 2)) = [demo_frame_row ''a.php'', demo_frame_row ''foo'']"
    by (simp add: demo_trace demo_names demo_frame_row_def) (simp add: make_frame_def demo_fn_def)
  moreover obtain frs samples where data: "excimer_log_get_speedscope_data demo_result =
      Inr (speedscope_data frs samples [3 * period demo_result] 0)"
    and "map (\<lambda>v. frs ! unat v) (samples ! 0) =
       map (\<lambda>f. ZArr [(KStr ''name'', ZStr (frame_name f)), (KStr ''file'', ZStr (the (filename f)))])
         (rev (log_trace demo_result 2))"
    using speedscope_decodes [OF demo_result_wf] unfolding demo_entries by auto
  ultimately have "map (\<lambda>v. frs ! unat v) (samples ! 0) = [demo_frame_row ''a.php'', demo_frame_row ''foo'']" by argo
  with data show ?thesis by (intro exI conjI)
qed

end
