(* ===== verification/Timespec.thy ===== *)
theory Timespec
  imports Prelude Complex_Main
begin

text \<open>
  \<^verbatim>\<open>struct timespec\<close> arithmetic of \<^verbatim>\<open>timerlib.h\<close> and \<^verbatim>\<open>timerlib_common.c\<close>. Both fields are signed
  64-bit. A finite \<^verbatim>\<open>double\<close> is the real number it stands for; the rounding of an inexact
  floating-point operation is the parameter \<open>fl\<close> (NaN and infinities are left out: their
  conversion to an integer is undefined in C).
\<close>

section \<open>Definitions\<close>

record timespec =
  tv_sec :: "64 word"
  tv_nsec :: "64 word"

definition TIMERLIB_BILLION :: "64 word" where
  "TIMERLIB_BILLION = 1000000000"

definition timerlib_timespec_is_zero :: "timespec \<Rightarrow> bool" where
  "timerlib_timespec_is_zero ts \<longleftrightarrow> tv_sec ts = 0 \<and> tv_nsec ts = 0"

definition timerlib_timespec_to_ns :: "timespec \<Rightarrow> uint64_t" where
  "timerlib_timespec_to_ns ts = tv_nsec ts + tv_sec ts * TIMERLIB_BILLION"

definition timerlib_timespec_to_double :: "(real \<Rightarrow> real) \<Rightarrow> timespec \<Rightarrow> real" where
  "timerlib_timespec_to_double fl ts =
     fl (fl (real (unat (timerlib_timespec_to_ns ts))) * fl (1 / 1000000000))"

definition timerlib_timespec_add :: "timespec \<Rightarrow> timespec \<Rightarrow> timespec" where
  "timerlib_timespec_add a b =
     (let sec = tv_sec a + tv_sec b; nsec = tv_nsec a + tv_nsec b
      in if TIMERLIB_BILLION <s nsec
         then \<lparr>tv_sec = sec + 1, tv_nsec = nsec - TIMERLIB_BILLION\<rparr>
         else \<lparr>tv_sec = sec, tv_nsec = nsec\<rparr>)"

definition timerlib_timespec_subtract :: "timespec \<Rightarrow> timespec \<Rightarrow> timespec" where
  "timerlib_timespec_subtract a b =
     (let sec = tv_sec a - tv_sec b
      in if tv_nsec a <s tv_nsec b
         then \<lparr>tv_sec = sec - 1, tv_nsec = tv_nsec a + (TIMERLIB_BILLION - tv_nsec b)\<rparr>
         else \<lparr>tv_sec = sec, tv_nsec = tv_nsec a - tv_nsec b\<rparr>)"

text \<open>
  \<^verbatim>\<open>modf\<close> is exact; the product with \<^verbatim>\<open>1e9\<close> is rounded; the casts truncate (both operands are
  non-negative here).
\<close>

definition timerlib_timespec_from_double :: "(real \<Rightarrow> real) \<Rightarrow> real \<Rightarrow> timespec" where
  "timerlib_timespec_from_double fl source =
     (if source < 0 then \<lparr>tv_sec = 0, tv_nsec = 0\<rparr>
      else
        let integral = \<lfloor>source\<rfloor>; fractional = source - of_int integral;
            sec = word_of_int integral; nsec = word_of_int \<lfloor>fl (fractional * 1000000000)\<rfloor>
        in if TIMERLIB_BILLION \<le>s nsec
           then \<lparr>tv_sec = sec + 1, tv_nsec = nsec - TIMERLIB_BILLION\<rparr>
           else \<lparr>tv_sec = sec, tv_nsec = nsec\<rparr>)"

section \<open>Values\<close>

text \<open>The number of nanoseconds a timespec stands for, and the normal form POSIX requires.\<close>

definition ts_value :: "timespec \<Rightarrow> int" where
  "ts_value ts = sint (tv_sec ts) * 1000000000 + sint (tv_nsec ts)"

definition ts_normal :: "timespec \<Rightarrow> bool" where
  "ts_normal ts \<longleftrightarrow> 0 \<le> sint (tv_nsec ts) \<and> sint (tv_nsec ts) < 1000000000"

lemma sint_billion [simp]: "sint TIMERLIB_BILLION = 1000000000"
  by (simp add: TIMERLIB_BILLION_def)

lemma sint_word_of_int64: "- (2 ^ 63) \<le> i \<Longrightarrow> i < 2 ^ 63 \<Longrightarrow> sint (word_of_int i :: 64 word) = i"
  by (simp add: signed_take_bit_int_eq_self sint_sbintrunc')

lemma sint64_bounds: "- (2 ^ 63) \<le> sint a" "sint a < 2 ^ 63" for a :: "64 word"
  using sint_ge [of a] sint_lt [of a] by simp_all

text \<open>The sum of two normal timespecs may hold a full second of nanoseconds.\<close>

definition ts_near :: "timespec \<Rightarrow> bool" where
  "ts_near ts \<longleftrightarrow> 0 \<le> sint (tv_nsec ts) \<and> sint (tv_nsec ts) \<le> 1000000000"

text \<open>Times far from the ends of the 64-bit range.\<close>

definition ts_bounded :: "timespec \<Rightarrow> bool" where
  "ts_bounded ts \<longleftrightarrow> 0 \<le> sint (tv_sec ts) \<and> sint (tv_sec ts) < 2 ^ 61"

lemma ts_normal_near: "ts_normal ts \<Longrightarrow> ts_near ts"
  by (simp add: ts_normal_def ts_near_def)

lemma add_value:
  assumes "ts_normal a" and "ts_normal b"
    and "- (2 ^ 63) \<le> sint (tv_sec a) + sint (tv_sec b)" and "sint (tv_sec a) + sint (tv_sec b) + 1 < 2 ^ 63"
  shows "ts_value (timerlib_timespec_add a b) = ts_value a + ts_value b \<and>
     (ts_normal (timerlib_timespec_add a b) \<longleftrightarrow> sint (tv_nsec a) + sint (tv_nsec b) \<noteq> 1000000000) \<and>
     ts_near (timerlib_timespec_add a b)"
proof -
  let ?n = "tv_nsec a + tv_nsec b" and ?s = "tv_sec a + tv_sec b"
  have n: "sint ?n = sint (tv_nsec a) + sint (tv_nsec b)"
    using assms(1,2) by (intro sint64_eq) (auto simp: ts_normal_def)
  have s: "sint ?s = sint (tv_sec a) + sint (tv_sec b)"
    using assms(3,4) by (intro sint64_eq) auto
  have s1: "sint (?s + 1) = sint ?s + 1"
    using sint64_eq [of ?s 1] assms(3,4) by (simp add: s)
  have n1: "sint (?n - TIMERLIB_BILLION) = sint ?n - 1000000000"
    using sint64_diff_eq [of ?n TIMERLIB_BILLION] assms(1,2) by (simp add: n ts_normal_def)
  show ?thesis
  proof (cases "TIMERLIB_BILLION <s ?n")
    case True
    with assms(1,2) s1 n1 s n show ?thesis
      by (simp add: timerlib_timespec_add_def ts_value_def ts_normal_def ts_near_def word_sless_alt)
  next
    case False
    with assms(1,2) s n show ?thesis
      by (simp add: timerlib_timespec_add_def ts_value_def ts_normal_def ts_near_def word_sless_alt) linarith
  qed
qed

lemma subtract_value:
  assumes "ts_near a" and "ts_normal b"
    and "- (2 ^ 63) \<le> sint (tv_sec a) - sint (tv_sec b) - 1" and "sint (tv_sec a) - sint (tv_sec b) < 2 ^ 63"
  shows "ts_value (timerlib_timespec_subtract a b) = ts_value a - ts_value b \<and>
     (sint (tv_nsec a) < 1000000000 \<longrightarrow> ts_normal (timerlib_timespec_subtract a b))"
proof -
  let ?s = "tv_sec a - tv_sec b"
  have s: "sint ?s = sint (tv_sec a) - sint (tv_sec b)"
    using assms(3,4) by (intro sint64_diff_eq) auto
  have s1: "sint (?s - 1) = sint ?s - 1"
    using sint64_diff_eq [of ?s 1] assms(3,4) by (simp add: s)
  have c: "sint (TIMERLIB_BILLION - tv_nsec b) = 1000000000 - sint (tv_nsec b)"
    using sint64_diff_eq [of TIMERLIB_BILLION "tv_nsec b"] assms(2) by (simp add: ts_normal_def ts_near_def)
  have n: "sint (tv_nsec a + (TIMERLIB_BILLION - tv_nsec b)) = sint (tv_nsec a) + 1000000000 - sint (tv_nsec b)"
    using sint64_eq [of "tv_nsec a" "TIMERLIB_BILLION - tv_nsec b"] assms(1,2) by (simp add: c ts_normal_def ts_near_def)
  have d: "sint (tv_nsec a - tv_nsec b) = sint (tv_nsec a) - sint (tv_nsec b)"
    using assms(1,2) by (intro sint64_diff_eq) (auto simp: ts_normal_def ts_near_def)
  show ?thesis
    using assms(1,2) s s1 n d
    by (simp add: timerlib_timespec_subtract_def Let_def ts_value_def ts_normal_def ts_near_def word_sless_alt)
qed

section \<open>Properties\<close>

text \<open>Adding two normalised timespecs whose seconds do not overflow adds their
  nanosecond values. The result is normalised except when the nanoseconds sum to exactly one
  billion, where the carry is not taken.\<close>

lemma timespec_add_value:
  assumes "ts_normal a" and "ts_normal b"
    and "- (2 ^ 63) \<le> sint (tv_sec a) + sint (tv_sec b)" and "sint (tv_sec a) + sint (tv_sec b) + 1 < 2 ^ 63"
  shows "ts_value (timerlib_timespec_add a b) = ts_value a + ts_value b \<and>
     (ts_normal (timerlib_timespec_add a b) \<longleftrightarrow> sint (tv_nsec a) + sint (tv_nsec b) \<noteq> 1000000000)"
  using add_value [OF assms] by simp

text \<open>Subtracting two normalised timespecs whose seconds do not overflow subtracts
  their nanosecond values and gives a normalised timespec.\<close>

lemma timespec_subtract_value:
  assumes "ts_normal a" and "ts_normal b"
    and "- (2 ^ 63) \<le> sint (tv_sec a) - sint (tv_sec b) - 1" and "sint (tv_sec a) - sint (tv_sec b) < 2 ^ 63"
  shows "ts_value (timerlib_timespec_subtract a b) = ts_value a - ts_value b \<and>
     ts_normal (timerlib_timespec_subtract a b)"
  using subtract_value [OF ts_normal_near [OF assms(1)] assms(2-4)] assms(1) by (simp add: ts_normal_def)

text \<open>For a finite non-negative number of seconds below \<open>2^63 - 1\<close>, and any
  floating-point rounding that is monotone and exact at 0 and at \<^verbatim>\<open>1e9\<close>, the conversion yields
  a normalised timespec (the carry handles a fraction that rounds up to a whole second), whose
  seconds are the integral part or one more. A negative argument gives zero.\<close>

lemma timespec_from_double_normal:
  assumes "mono fl" and "fl 0 = 0" and "fl 1000000000 = 1000000000" and "x < 2 ^ 63 - 1"
  shows "ts_normal (timerlib_timespec_from_double fl x) \<and>
     ts_value (timerlib_timespec_from_double fl x) =
       (if x < 0 then 0 else \<lfloor>x\<rfloor> * 1000000000 + \<lfloor>fl (frac x * 1000000000)\<rfloor>)"
proof (cases "x < 0")
  case True
  then show ?thesis by (simp add: timerlib_timespec_from_double_def ts_normal_def ts_value_def)
next
  case False
  let ?r = "fl (frac x * 1000000000)"
  have "fl 0 \<le> ?r" by (rule monoD [OF assms(1)]) simp
  moreover have "?r \<le> fl 1000000000" by (rule monoD [OF assms(1)]) (use frac_lt_1 [of x] in linarith)
  ultimately have r: "0 \<le> \<lfloor>?r\<rfloor>" "\<lfloor>?r\<rfloor> \<le> 1000000000"
    using assms(2,3) by (simp_all add: floor_le_iff)
  then have n: "sint (word_of_int \<lfloor>?r\<rfloor> :: 64 word) = \<lfloor>?r\<rfloor>" by (intro sint_word_of_int64) simp_all
  have x: "0 \<le> \<lfloor>x\<rfloor>" "\<lfloor>x\<rfloor> < 2 ^ 63 - 1" using False assms(4) by (simp_all add: floor_less_iff)
  then have s: "sint (word_of_int \<lfloor>x\<rfloor> :: 64 word) = \<lfloor>x\<rfloor>" by (intro sint_word_of_int64) simp_all
  have s1: "sint (word_of_int \<lfloor>x\<rfloor> + 1 :: 64 word) = \<lfloor>x\<rfloor> + 1"
    using sint64_eq [of "word_of_int \<lfloor>x\<rfloor>" 1] x by (simp add: s)
  have n1: "sint (word_of_int \<lfloor>?r\<rfloor> - TIMERLIB_BILLION) = \<lfloor>?r\<rfloor> - 1000000000"
    using sint64_diff_eq [of "word_of_int \<lfloor>?r\<rfloor>" TIMERLIB_BILLION] r by (simp add: n)
  show ?thesis
    using False r n s s1 n1
    by (simp add: timerlib_timespec_from_double_def Let_def frac_def ts_normal_def ts_value_def
        word_sle_eq)
qed

text \<open>\<^verbatim>\<open>timerlib_timespec_to_ns\<close> is the nanosecond value modulo \<open>2^64\<close>, hence exact for
  any normalised time of less than about 584 years.\<close>

lemma timespec_to_ns_value:
  "int (unat (timerlib_timespec_to_ns ts)) = ts_value ts mod 2 ^ 64"
proof -
  have "timerlib_timespec_to_ns ts = word_of_int (ts_value ts)"
    by (simp add: timerlib_timespec_to_ns_def ts_value_def TIMERLIB_BILLION_def add.commute)
  then show ?thesis by (simp add: take_bit_eq_mod unsigned_of_int)
qed

end
