(* ===== verification/Os_World.thy ===== *)
theory Os_World
  imports Timespec
begin

text \<open>
  The operating system and the C library as the extension sees them. Each call to them is
  answered by the environment: \<open>answers s n\<close> is the outcome of the \<open>n\<close>-th call, and theorems
  quantify over all answers. The calls made so far are kept with their outcomes, so that a
  property can speak of resources acquired and released. A program over this state either
  ends in a fault or returns a value and the new state.
\<close>

section \<open>Calls, answers and warnings\<close>

datatype clockid = CLOCK_MONOTONIC | Cpu_Clock nat

text \<open>The mutexes of the program: one per timer (\<^verbatim>\<open>ready_mutex\<close> or \<^verbatim>\<open>last_fired_at_mutex\<close>), one per thread.\<close>

datatype mutex = Timer_Mutex | Tls_Mutex nat

datatype os_call =
    Pthread_attr_init
  | Pthread_attr_setsigmask_np
  | Pthread_attr_destroy
  | Pthread_sigmask_block
  | Pthread_sigmask_restore
  | Pthread_create
  | Pthread_kill nat
  | Pthread_join nat
  | Pthread_getcpuclockid
  | Pthread_cond_wait
  | Pthread_cond_broadcast
  | Gettid
  | Sigwaitinfo
  | Mutex_lock mutex
  | Mutex_unlock mutex
  | Mutex_init mutex
  | Mutex_destroy mutex
  | Timer_create clockid nat
  | Timer_settime nat timespec timespec
  | Timer_gettime nat
  | Timer_delete nat
  | Clock_gettime clockid
  | Kqueue
  | Kevent_add int bool uint64_t
  | Kevent_wait int
  | Close int

text \<open>
  \<open>err\<close> is 0 on success and the error number otherwise; \<open>val\<close> is the handle, descriptor, thread
  identifier or event data a successful call yields, \<open>time\<close> the time it yields, \<open>posted\<close> whether
  the handler thread has announced itself by the time the call returns (for \<open>Kevent_wait\<close>, whether
  an event was returned; for \<open>Sigwaitinfo\<close>, whether the signal comes from a timer), \<open>kill_seen\<close> whether
  the handler thread finds \<^verbatim>\<open>killed\<close> set after the call.
\<close>

record os_answer =
  err :: nat
  val :: nat
  time :: timespec
  posted :: bool
  kill_seen :: bool

datatype warning = Errno_Warning string nat | Warning string

record os =
  answers :: "nat \<Rightarrow> os_answer"
  os_calls :: "(os_call \<times> os_answer) list"
  warnings :: "warning list"
  loop_fuel :: nat

section \<open>Programs\<close>

type_synonym ('s, 'a) prog = "'s \<Rightarrow> ('a \<times> 's) res"

definition pret :: "'a \<Rightarrow> ('s, 'a) prog" where
  "pret x s = Inr (x, s)"

definition pbind :: "('s, 'a) prog \<Rightarrow> ('a \<Rightarrow> ('s, 'b) prog) \<Rightarrow> ('s, 'b) prog" where
  "pbind m f s = rbind (m s) (\<lambda>(x, s'). f x s')"

definition pfail :: "c_fault \<Rightarrow> ('s, 'a) prog" where
  "pfail e s = Inl e"

lemma pret_Inr [simp]: "pret x s = Inr (x, s)"
  by (simp add: pret_def)

lemma pfail_Inl [simp]: "pfail e s = Inl e"
  by (simp add: pfail_def)

lemma pbind_Inr: "m s = Inr (x, s') \<Longrightarrow> pbind m f s = f x s'"
  by (simp add: pbind_def)

lemma pbind_Inl: "m s = Inl e \<Longrightarrow> pbind m f s = Inl e"
  by (simp add: pbind_def)

lemma pbind_InrE:
  assumes "pbind m f s = Inr (y, s'')"
  obtains x s' where "m s = Inr (x, s')" "f x s' = Inr (y, s'')"
  using assms by (auto simp: pbind_def rbind_Inr_iff)

section \<open>Primitive calls\<close>

definition next_answer :: "'z os_scheme \<Rightarrow> os_answer" where
  "next_answer s = answers s (length (os_calls s))"

definition logged :: "os_call \<Rightarrow> 'z os_scheme \<Rightarrow> 'z os_scheme" where
  "logged c s = s\<lparr>os_calls := os_calls s @ [(c, next_answer s)]\<rparr>"

definition syscall :: "os_call \<Rightarrow> ('z os_scheme, os_answer) prog" where
  "syscall c s = Inr (next_answer s, logged c s)"

definition warn :: "warning \<Rightarrow> ('z os_scheme, unit) prog" where
  "warn w s = Inr ((), s\<lparr>warnings := warnings s @ [w]\<rparr>)"

definition timerlib_report_errno :: "string \<Rightarrow> nat \<Rightarrow> ('z os_scheme, unit) prog" where
  "timerlib_report_errno fn error = warn (Errno_Warning fn error)"

definition timerlib_abort_func :: "string \<Rightarrow> string \<Rightarrow> nat \<Rightarrow> ('z os_scheme, 'a) prog" where
  "timerlib_abort_func tlfunc libfunc error = pfail (Abort (tlfunc @ ''/'' @ libfunc))"

definition timerlib_mutex_lock_func :: "mutex \<Rightarrow> string \<Rightarrow> ('z os_scheme, os_answer) prog" where
  "timerlib_mutex_lock_func m fn = pbind (syscall (Mutex_lock m)) (\<lambda>a.
     if err a \<noteq> 0 then timerlib_abort_func fn ''pthread_mutex_lock'' (err a) else pret a)"

definition timerlib_mutex_unlock_func :: "mutex \<Rightarrow> string \<Rightarrow> ('z os_scheme, unit) prog" where
  "timerlib_mutex_unlock_func m fn = pbind (syscall (Mutex_unlock m)) (\<lambda>a.
     if err a \<noteq> 0 then timerlib_abort_func fn ''pthread_mutex_unlock'' (err a) else pret ())"

text \<open>The wrappers of \<^verbatim>\<open>excimer_mutex.c\<close>: the init and destroy failures are PHP fatal errors.\<close>

definition excimer_mutex_init :: "mutex \<Rightarrow> ('z os_scheme, unit) prog" where
  "excimer_mutex_init m = pbind (syscall (Mutex_init m)) (\<lambda>a.
     if err a \<noteq> 0 then pfail (Fatal_Error ''pthread_mutex_init()'') else pret ())"

definition excimer_mutex_lock :: "mutex \<Rightarrow> ('z os_scheme, unit) prog" where
  "excimer_mutex_lock m = pbind (syscall (Mutex_lock m)) (\<lambda>a.
     if err a \<noteq> 0 then pfail (Abort ''pthread_mutex_lock()'') else pret ())"

definition excimer_mutex_unlock :: "mutex \<Rightarrow> ('z os_scheme, unit) prog" where
  "excimer_mutex_unlock m = pbind (syscall (Mutex_unlock m)) (\<lambda>a.
     if err a \<noteq> 0 then pfail (Abort ''pthread_mutex_unlock()'') else pret ())"

definition excimer_mutex_destroy :: "mutex \<Rightarrow> ('z os_scheme, unit) prog" where
  "excimer_mutex_destroy m = pbind (syscall (Mutex_destroy m)) (\<lambda>a.
     if err a \<noteq> 0 then pfail (Fatal_Error ''pthread_mutex_destroy()'') else pret ())"

text \<open>The facts that run a program of primitive calls symbolically.\<close>

lemma logged_simps [simp]:
  "answers (logged c s) = answers s" "warnings (logged c s) = warnings s"
  "loop_fuel (logged c s) = loop_fuel s" "os_calls (logged c s) = os_calls s @ [(c, next_answer s)]"
  "os.more (logged c s) = os.more s"
  by (simp_all add: logged_def)

lemmas prog_defs = pbind_def syscall_def warn_def timerlib_report_errno_def timerlib_abort_func_def
  timerlib_mutex_lock_func_def timerlib_mutex_unlock_func_def
  excimer_mutex_init_def excimer_mutex_lock_def excimer_mutex_unlock_def excimer_mutex_destroy_def

section \<open>What a call leaves alone\<close>

text \<open>The bound that stands for running a loop of the source until it ends.\<close>

definition get_fuel :: "('z os_scheme, nat) prog" where
  "get_fuel s = Inr (loop_fuel s, s)"

text \<open>
  A library call extends the trace and the warnings, and changes nothing else of the state.
\<close>

definition new_calls :: "'z os_scheme \<Rightarrow> 'z os_scheme \<Rightarrow> (os_call \<times> os_answer) list" where
  "new_calls s s' = drop (length (os_calls s)) (os_calls s')"

definition new_warnings :: "'z os_scheme \<Rightarrow> 'z os_scheme \<Rightarrow> warning list" where
  "new_warnings s s' = drop (length (warnings s)) (warnings s')"

definition os_frame :: "'z os_scheme \<Rightarrow> 'z os_scheme \<Rightarrow> bool" where
  "os_frame s s' \<longleftrightarrow> answers s' = answers s \<and> loop_fuel s' = loop_fuel s \<and> os.more s' = os.more s \<and>
     os_calls s' = os_calls s @ new_calls s s' \<and> warnings s' = warnings s @ new_warnings s s'"

lemma os_frameI:
  "answers s' = answers s \<Longrightarrow> loop_fuel s' = loop_fuel s \<Longrightarrow> os.more s' = os.more s \<Longrightarrow>
   os_calls s' = os_calls s @ cs \<Longrightarrow> warnings s' = warnings s @ ws \<Longrightarrow> os_frame s s'"
  by (simp add: os_frame_def new_calls_def new_warnings_def)

lemma os_frame_refl [simp]: "os_frame s s"
  by (simp add: os_frame_def new_calls_def new_warnings_def)

lemma os_frame_trans:
  assumes "os_frame a b" "os_frame b c"
  shows "os_frame a c" "new_calls a c = new_calls a b @ new_calls b c"
    "new_warnings a c = new_warnings a b @ new_warnings b c"
proof -
  have cs: "os_calls c = os_calls a @ new_calls a b @ new_calls b c"
    and ws: "warnings c = warnings a @ new_warnings a b @ new_warnings b c"
    using assms by (metis os_frame_def append.assoc)+
  show "os_frame a c" using assms cs ws
    by (intro os_frameI [where cs = "new_calls a b @ new_calls b c" and ws = "new_warnings a b @ new_warnings b c"])
      (auto simp: os_frame_def)
  show "new_calls a c = new_calls a b @ new_calls b c" unfolding new_calls_def [of a c] cs by simp
  show "new_warnings a c = new_warnings a b @ new_warnings b c" unfolding new_warnings_def [of a c] ws by simp
qed

lemma os_frame_logged [simp]:
  "os_frame s (logged c s)" "new_calls s (logged c s) = [(c, next_answer s)]" "new_warnings s (logged c s) = []"
  by (auto intro!: os_frameI simp: new_calls_def new_warnings_def)

lemma os_frame_warn [simp]:
  "os_frame s (s\<lparr>warnings := warnings s @ [w]\<rparr>)" "new_calls s (s\<lparr>warnings := warnings s @ [w]\<rparr>) = []"
  "new_warnings s (s\<lparr>warnings := warnings s @ [w]\<rparr>) = [w]"
  by (auto intro!: os_frameI simp: new_calls_def new_warnings_def)

text \<open>
  \<open>prog_spec m P\<close>: every run of \<open>m\<close> that returns keeps the frame and satisfies \<open>P\<close> on its result,
  the calls it made and the warnings it gave. The rules compose such facts along a program.
\<close>

definition prog_spec ::
  "('z os_scheme, 'a) prog \<Rightarrow> ('a \<Rightarrow> (os_call \<times> os_answer) list \<Rightarrow> warning list \<Rightarrow> bool) \<Rightarrow> bool" where
  "prog_spec m P \<longleftrightarrow> (\<forall>s x s'. m s = Inr (x, s') \<longrightarrow> os_frame s s' \<and> P x (new_calls s s') (new_warnings s s'))"

lemma prog_specD:
  assumes "prog_spec m P" "m s = Inr (x, s')"
  shows "os_frame s s'" "P x (new_calls s s') (new_warnings s s')"
  using assms by (auto simp: prog_spec_def)

lemma prog_spec_conseq: "prog_spec m P \<Longrightarrow> (\<And>x cs ws. P x cs ws \<Longrightarrow> Q x cs ws) \<Longrightarrow> prog_spec m Q"
  by (auto simp: prog_spec_def)

lemma prog_spec_pret: "P x [] [] \<Longrightarrow> prog_spec (pret x) P"
  by (auto simp: prog_spec_def new_calls_def new_warnings_def)

lemma prog_spec_pfail: "prog_spec (pfail e) P"
  by (simp add: prog_spec_def)

lemma prog_spec_bind:
  assumes "prog_spec m (\<lambda>x cs ws. prog_spec (f x) (\<lambda>y cs' ws'. P y (cs @ cs') (ws @ ws')))"
  shows "prog_spec (pbind m f) P"
  unfolding prog_spec_def
proof (intro allI impI)
  fix s y s''
  assume "pbind m f s = Inr (y, s'')"
  then obtain x s' where m: "m s = Inr (x, s')" and f: "f x s' = Inr (y, s'')" by (rule pbind_InrE)
  from prog_specD [OF assms m] f
  show "os_frame s s'' \<and> P y (new_calls s s'') (new_warnings s s'')"
    using prog_specD [of "f x" _ s' y s''] os_frame_trans [of s s' s''] by auto
qed

lemma prog_spec_syscall: "(\<And>a. P a [(c, a)] []) \<Longrightarrow> prog_spec (syscall c) P"
  by (auto simp: prog_spec_def syscall_def)

lemma prog_spec_warn: "P () [] [w] \<Longrightarrow> prog_spec (warn w) P"
  by (auto simp: prog_spec_def warn_def)

lemma prog_spec_report: "P () [] [Errno_Warning fn e] \<Longrightarrow> prog_spec (timerlib_report_errno fn e) P"
  by (simp add: timerlib_report_errno_def prog_spec_warn)

lemma prog_spec_if: "(b \<Longrightarrow> prog_spec m P) \<Longrightarrow> (\<not> b \<Longrightarrow> prog_spec m' P) \<Longrightarrow> prog_spec (if b then m else m') P"
  by simp

lemma prog_spec_abort: "prog_spec (timerlib_abort_func f l e) P"
  by (simp add: timerlib_abort_func_def prog_spec_pfail)

lemmas prog_spec_rules = prog_spec_bind prog_spec_if prog_spec_pret prog_spec_pfail prog_spec_syscall
  prog_spec_warn prog_spec_report prog_spec_abort

lemma prog_spec_lock:
  "(\<And>a. err a = 0 \<Longrightarrow> P a [(Mutex_lock m, a)] []) \<Longrightarrow> prog_spec (timerlib_mutex_lock_func m fn) P"
  unfolding timerlib_mutex_lock_func_def by (intro prog_spec_rules) simp_all

lemma prog_spec_unlock:
  "(\<And>a. err a = 0 \<Longrightarrow> P () [(Mutex_unlock m, a)] []) \<Longrightarrow> prog_spec (timerlib_mutex_unlock_func m fn) P"
  unfolding timerlib_mutex_unlock_func_def by (intro prog_spec_rules) simp_all

lemma prog_spec_get_fuel: "(\<And>n. P n [] []) \<Longrightarrow> prog_spec get_fuel P"
  by (auto simp: prog_spec_def get_fuel_def new_calls_def new_warnings_def)

section \<open>Freedom from memory errors\<close>

text \<open>
  \<open>fault_free m\<close>: no run of \<open>m\<close> ends in a memory error. \<open>triple P m Q\<close>: a run from a state in \<open>P\<close> does
  not end in a memory error, and if it returns then in \<open>Q\<close>.
\<close>

definition fault_free :: "('s, 'a) prog \<Rightarrow> bool" where
  "fault_free m \<longleftrightarrow> (\<forall>s e. m s = Inl e \<longrightarrow> \<not> memory_fault e)"

definition triple :: "('s \<Rightarrow> bool) \<Rightarrow> ('s, 'a) prog \<Rightarrow> ('a \<Rightarrow> 's \<Rightarrow> bool) \<Rightarrow> bool" where
  "triple P m Q \<longleftrightarrow> (\<forall>s. P s \<longrightarrow> (case m s of Inl e \<Rightarrow> \<not> memory_fault e | Inr (x, s') \<Rightarrow> Q x s'))"

lemma tripleI:
  assumes "\<And>s e. P s \<Longrightarrow> m s = Inl e \<Longrightarrow> \<not> memory_fault e" "\<And>s x s'. P s \<Longrightarrow> m s = Inr (x, s') \<Longrightarrow> Q x s'"
  shows "triple P m Q"
  using assms by (auto simp: triple_def split: sum.split)

lemma tripleD:
  assumes "triple P m Q" "P s"
  shows "m s = Inl e \<Longrightarrow> \<not> memory_fault e" "m s = Inr (x, s') \<Longrightarrow> Q x s'"
  using assms unfolding triple_def by force+

lemma triple_bind:
  assumes "triple P m R" "\<And>x. triple (R x) (f x) Q"
  shows "triple P (pbind m f) Q"
  unfolding triple_def
proof (intro allI impI)
  fix s
  assume P: "P s"
  show "case pbind m f s of Inl e \<Rightarrow> \<not> memory_fault e | Inr (x, s') \<Rightarrow> Q x s'"
  proof (cases "m s")
    case (Inl e)
    with tripleD(1) [OF assms(1) P] show ?thesis by (simp add: pbind_def)
  next
    case (Inr r)
    obtain x s' where r: "m s = Inr (x, s')" using Inr by (cases r) simp
    with tripleD(2) [OF assms(1) P] have "R x s'" by blast
    with assms(2) [of x] r show ?thesis by (simp add: pbind_def triple_def)
  qed
qed

lemma triple_conseq:
  "triple P m Q \<Longrightarrow> (\<And>s. P' s \<Longrightarrow> P s) \<Longrightarrow> (\<And>x s. Q x s \<Longrightarrow> Q' x s) \<Longrightarrow> triple P' m Q'"
  unfolding triple_def by (fastforce split: sum.splits)

lemma triple_pret: "(\<And>s. P s \<Longrightarrow> Q x s) \<Longrightarrow> triple P (pret x) Q"
  by (simp add: triple_def)

lemma triple_pfail: "\<not> memory_fault e \<Longrightarrow> triple P (pfail e) Q"
  by (simp add: triple_def)

lemma triple_if: "(b \<Longrightarrow> triple P m Q) \<Longrightarrow> (\<not> b \<Longrightarrow> triple P m' Q) \<Longrightarrow> triple P (if b then m else m') Q"
  by simp

lemma triple_fault_free:
  assumes "fault_free m" "\<And>s x s'. P s \<Longrightarrow> m s = Inr (x, s') \<Longrightarrow> Q x s'"
  shows "triple P m Q"
  using assms by (intro tripleI) (auto simp: fault_free_def)

lemma fault_free_pret [intro]: "fault_free (pret x)"
  by (simp add: fault_free_def)

lemma fault_free_pfail: "\<not> memory_fault e \<Longrightarrow> fault_free (pfail e)"
  by (simp add: fault_free_def)

lemma fault_free_bind [intro]: "fault_free m \<Longrightarrow> (\<And>x. fault_free (f x)) \<Longrightarrow> fault_free (pbind m f)"
  by (fastforce simp: fault_free_def pbind_def rbind_def split: sum.splits)

lemma fault_free_if [intro]: "(b \<Longrightarrow> fault_free m) \<Longrightarrow> (\<not> b \<Longrightarrow> fault_free m') \<Longrightarrow> fault_free (if b then m else m')"
  by simp

lemma fault_free_calls [intro]:
  "fault_free (syscall c)" "fault_free (warn w)" "fault_free (timerlib_report_errno fn e)" "fault_free get_fuel"
  "fault_free (timerlib_abort_func f l e)" "fault_free (timerlib_mutex_lock_func m fn)"
  "fault_free (timerlib_mutex_unlock_func m fn)" "fault_free (excimer_mutex_lock m)" "fault_free (excimer_mutex_unlock m)"
  by (auto simp: fault_free_def prog_defs get_fuel_def split: if_splits)

end
