(* ===== verification/Php_Log.thy ===== *)
theory Php_Log
  imports Log_Aggregate Log_Speedscope Os_World
begin

text \<open>
  The classes \<^verbatim>\<open>ExcimerLog\<close> and \<^verbatim>\<open>ExcimerLogEntry\<close> of \<^verbatim>\<open>excimer.c\<close>: construction, counting, array
  access, the methods of the \<^verbatim>\<open>Iterator\<close> interface, the engine-level iterator \<^verbatim>\<open>foreach\<close> uses, and the
  accessors of an entry. An entry object holds its log and an index; within one log it is the index.
  An index is signed, \<^verbatim>\<open>entries_size\<close> unsigned, so comparisons between them are unsigned.
\<close>

section \<open>Objects\<close>

record log_obj =
  obj_log :: excimer_log
  z_current :: "zend_long option"
  iter_entry_index :: zend_long

record log_iterator =
  it_current :: "zend_long option"
  it_index :: zend_long

definition ExcimerLog_new :: "excimer_log \<Rightarrow> log_obj" where
  "ExcimerLog_new mem = \<lparr>obj_log = excimer_log_init mem, z_current = None, iter_entry_index = 0\<rparr>"

text \<open>The entry object for an index, or null.\<close>

definition ExcimerLog_init_entry :: "excimer_log \<Rightarrow> zend_long \<Rightarrow> zend_long option" where
  "ExcimerLog_init_entry lg index =
     (case excimer_log_get_entry lg index of Some _ \<Rightarrow> Some index | None \<Rightarrow> None)"

section \<open>Methods of ExcimerLog\<close>

definition ExcimerLog_count_elements :: "log_obj \<Rightarrow> zend_long" where
  "ExcimerLog_count_elements ob = entries_size (obj_log ob)"

definition ExcimerLog_getEventCount :: "log_obj \<Rightarrow> zend_long" where
  "ExcimerLog_getEventCount ob = log_event_count (obj_log ob)"

definition ExcimerLog_current :: "log_obj \<Rightarrow> zend_long option \<times> log_obj" where
  "ExcimerLog_current ob =
     (let ob' = (if z_current ob = None \<and> iter_entry_index ob < entries_size (obj_log ob)
           then ob\<lparr>z_current := ExcimerLog_init_entry (obj_log ob) (iter_entry_index ob)\<rparr> else ob)
      in (z_current ob', ob'))"

definition ExcimerLog_key :: "log_obj \<Rightarrow> zval" where
  "ExcimerLog_key ob =
     (if iter_entry_index ob < entries_size (obj_log ob) then ZLong (iter_entry_index ob) else ZNull)"

definition ExcimerLog_next :: "log_obj \<Rightarrow> log_obj" where
  "ExcimerLog_next ob =
     (let ob' = ob\<lparr>z_current := None\<rparr>
      in if iter_entry_index ob' < entries_size (obj_log ob')
         then ob'\<lparr>iter_entry_index := iter_entry_index ob' + 1\<rparr> else ob')"

definition ExcimerLog_rewind :: "log_obj \<Rightarrow> log_obj" where
  "ExcimerLog_rewind ob = ob\<lparr>iter_entry_index := 0, z_current := None\<rparr>"

definition ExcimerLog_valid :: "log_obj \<Rightarrow> bool" where
  "ExcimerLog_valid ob \<longleftrightarrow> iter_entry_index ob < entries_size (obj_log ob)"

definition ExcimerLog_count :: "log_obj \<Rightarrow> zend_long" where
  "ExcimerLog_count ob = entries_size (obj_log ob)"

definition ExcimerLog_offsetExists :: "log_obj \<Rightarrow> zend_long \<Rightarrow> bool" where
  "ExcimerLog_offsetExists ob offset \<longleftrightarrow> 0 \<le>s offset \<and> offset < entries_size (obj_log ob)"

definition ExcimerLog_offsetGet :: "log_obj \<Rightarrow> zend_long \<Rightarrow> zend_long option" where
  "ExcimerLog_offsetGet ob offset =
     (if offset <s 0 \<or> entries_size (obj_log ob) \<le> offset then None
      else ExcimerLog_init_entry (obj_log ob) offset)"

definition ExcimerLog_offsetSet :: "('z os_scheme, unit) prog" where
  "ExcimerLog_offsetSet = warn (Warning ''ExcimerLog cannot be modified'')"

definition ExcimerLog_offsetUnset :: "('z os_scheme, unit) prog" where
  "ExcimerLog_offsetUnset = warn (Warning ''ExcimerLog cannot be modified'')"

section \<open>The engine's iterator\<close>

definition ExcimerLog_get_iterator :: "bool \<Rightarrow> log_iterator option" where
  "ExcimerLog_get_iterator by_ref =
     (if by_ref then None else Some \<lparr>it_current = None, it_index = 0\<rparr>)"

definition ExcimerLog_iterator_valid :: "excimer_log \<Rightarrow> log_iterator \<Rightarrow> bool" where
  "ExcimerLog_iterator_valid lg it \<longleftrightarrow> it_index it < entries_size lg"

definition ExcimerLog_iterator_get_current_data ::
  "excimer_log \<Rightarrow> log_iterator \<Rightarrow> zend_long option \<times> log_iterator" where
  "ExcimerLog_iterator_get_current_data lg it =
     (if it_current it = None then
        if it_index it < entries_size lg then
          let it' = it\<lparr>it_current := ExcimerLog_init_entry lg (it_index it)\<rparr> in (it_current it', it')
        else (None, it)
      else (it_current it, it))"

definition ExcimerLog_iterator_get_current_key :: "excimer_log \<Rightarrow> log_iterator \<Rightarrow> zval" where
  "ExcimerLog_iterator_get_current_key lg it =
     (if it_index it < entries_size lg then ZLong (it_index it) else ZNull)"

definition ExcimerLog_iterator_move_forward :: "excimer_log \<Rightarrow> log_iterator \<Rightarrow> log_iterator" where
  "ExcimerLog_iterator_move_forward lg it =
     (let it' = it\<lparr>it_current := None\<rparr>
      in if it_index it' < entries_size lg then it'\<lparr>it_index := it_index it' + 1\<rparr> else it')"

definition ExcimerLog_iterator_rewind :: "log_iterator \<Rightarrow> log_iterator" where
  "ExcimerLog_iterator_rewind it = it\<lparr>it_current := None, it_index := 0\<rparr>"

definition ExcimerLog_iterator_invalidate_current :: "log_iterator \<Rightarrow> log_iterator" where
  "ExcimerLog_iterator_invalidate_current it = it\<lparr>it_current := None\<rparr>"

section \<open>Methods of ExcimerLogEntry\<close>

text \<open>
  The source reads the entry through the pointer \<^verbatim>\<open>excimer_log_get_entry\<close> returned without a check.
\<close>

definition ExcimerLogEntry_getTimestamp :: "(real \<Rightarrow> real) \<Rightarrow> excimer_log \<Rightarrow> zend_long \<Rightarrow> real res" where
  "ExcimerLogEntry_getTimestamp fl lg index =
     rbind (deref (excimer_log_get_entry lg index)) (\<lambda>entry.
     Inr (fl (fl (real (unat (timestamp entry - epoch lg))) / 1000000000)))"

definition ExcimerLogEntry_getEventCount :: "excimer_log \<Rightarrow> zend_long \<Rightarrow> zend_long res" where
  "ExcimerLogEntry_getEventCount lg index =
     rbind (deref (excimer_log_get_entry lg index)) (\<lambda>entry. Inr (entry_event_count entry))"

definition ExcimerLogEntry_getTrace :: "excimer_log \<Rightarrow> zend_long \<Rightarrow> (zkey, zval) ztable res" where
  "ExcimerLogEntry_getTrace lg index =
     rbind (deref (excimer_log_get_entry lg index)) (\<lambda>entry.
     excimer_log_trace_to_array lg (ucast (frame_index entry)))"

section \<open>Iteration: the contract\<close>

text \<open>
  What \<^verbatim>\<open>foreach\<close> relies on: \<open>posn s\<close> is the position of the cursor in a sequence of \<open>size\<close> entries.
\<close>

locale log_cursor =
  fixes ok :: "'s \<Rightarrow> bool"
    and rewind :: "'s \<Rightarrow> 's"
    and valid :: "'s \<Rightarrow> bool"
    and current :: "'s \<Rightarrow> zend_long option \<times> 's"
    and key :: "'s \<Rightarrow> zval"
    and move :: "'s \<Rightarrow> 's"
    and posn :: "'s \<Rightarrow> nat"
    and size :: nat
  assumes rewind_at: "ok s \<Longrightarrow> ok (rewind s) \<and> posn (rewind s) = 0"
    and valid_at: "ok s \<Longrightarrow> valid s \<longleftrightarrow> posn s < size"
    and current_at: "ok s \<Longrightarrow> posn s < size \<Longrightarrow>
      \<exists>s'. current s = (Some (of_nat (posn s)), s') \<and> ok s' \<and> posn s' = posn s"
    and key_at: "ok s \<Longrightarrow> posn s < size \<Longrightarrow> key s = ZLong (of_nat (posn s))"
    and move_at: "ok s \<Longrightarrow> posn s < size \<Longrightarrow> ok (move s) \<and> posn (move s) = Suc (posn s)"
    and at_size: "ok s \<Longrightarrow> posn s \<le> size"
begin

text \<open>The loop of \<^verbatim>\<open>foreach\<close>, collecting keys and values.\<close>

fun walk :: "nat \<Rightarrow> 's \<Rightarrow> (zval \<times> zend_long option) list res" where
  "walk 0 s = Inl Diverges"
| "walk (Suc n) s =
     (if valid s then
        let (v, s') = current s
        in rbind (walk n (move s')) (\<lambda>r. Inr ((key s', v) # r))
      else Inr [])"

lemma walk_from:
  "ok s \<Longrightarrow> size - posn s < n \<Longrightarrow>
   walk n s = Inr (map (\<lambda>i. (ZLong (of_nat i), Some (of_nat i))) [posn s..<size])"
proof (induction n arbitrary: s)
  case (Suc n)
  show ?case
  proof (cases "posn s < size")
    case True
    then obtain s' where s': "current s = (Some (of_nat (posn s)), s')" "ok s'" "posn s' = posn s"
      using current_at [OF Suc.prems(1)] by blast
    have m: "ok (move s')" "posn (move s') = Suc (posn s)" using move_at [OF s'(2)] s'(3) True by auto
    have "walk n (move s') = Inr (map (\<lambda>i. (ZLong (of_nat i), Some (of_nat i))) [Suc (posn s)..<size])"
      using Suc.IH [OF m(1)] m(2) Suc.prems(2) True by simp
    then show ?thesis
      using True valid_at [OF Suc.prems(1)] s' key_at [OF s'(2)] by (simp add: upt_rec [of "posn s"])
  next
    case False
    then show ?thesis using valid_at [OF Suc.prems(1)] by simp
  qed
qed simp

lemma walk_all:
  assumes "ok s"
  shows "walk (Suc size) (rewind s) = Inr (map (\<lambda>i. (ZLong (of_nat i), Some (of_nat i))) [0..<size])"
  using walk_from [of "rewind s" "Suc size"] rewind_at [OF assms] by simp

end

section \<open>Both iterators meet it\<close>

text \<open>The states of the cursors: the position is in range and the cached entry is the one there.\<close>

definition cursor_ok :: "excimer_log \<Rightarrow> zend_long \<Rightarrow> zend_long option \<Rightarrow> bool" where
  "cursor_ok lg i c \<longleftrightarrow> entries_wf lg \<and> unat i \<le> length (entries lg) \<and> (c = None \<or> c = Some i \<and> unat i < length (entries lg))"

lemma entries_size_eq:
  assumes "entries_wf lg"
  shows "i < entries_size lg \<longleftrightarrow> unat i < length (entries lg)"
    and "length (entries lg) < 2 ^ 63"
proof -
  show m: "length (entries lg) < 2 ^ 63" using assms by (auto simp: entries_wf_def sizeof_entry_def)
  have "entries_size lg = of_nat (length (entries lg))" using assms by (simp add: entries_wf_def)
  then show "i < entries_size lg \<longleftrightarrow> unat i < length (entries lg)"
    using m by (simp add: word_less_nat_alt word_nat)
qed

lemma init_entry_eq:
  assumes "entries_wf lg" "unat i < length (entries lg)"
  shows "ExcimerLog_init_entry lg i = Some i" "excimer_log_get_entry lg i = Some (entries lg ! unat i)"
proof -
  have "unat i < 2 ^ 63" using assms entries_size_eq(2) [OF assms(1)] by simp
  then have "sint (of_nat (unat i) :: 64 word) = int (unat i)" by (rule sint_of_nat64)
  then have i: "sint i = int (unat i)" by simp
  then show "excimer_log_get_entry lg i = Some (entries lg ! unat i)" using assms by (simp add: get_entry_eq)
  then show "ExcimerLog_init_entry lg i = Some i" by (simp add: ExcimerLog_init_entry_def)
qed

lemma unat_Suc_pos:
  assumes "entries_wf lg" "unat i < length (entries lg)"
  shows "unat (i + 1) = Suc (unat (i :: zend_long))"
proof -
  have "Suc (unat i) < 2 ^ 64" using assms entries_size_eq(2) [OF assms(1)] by simp
  then show ?thesis using unat_of_nat64 [of "Suc (unat i)"] by (simp add: add.commute)
qed

lemma current_data_eq:
  assumes "cursor_ok lg i c" "unat i < length (entries lg)"
  shows "obj_log ob = lg \<Longrightarrow> iter_entry_index ob = i \<Longrightarrow> z_current ob = c \<Longrightarrow>
      ExcimerLog_current ob = (Some i, ob\<lparr>z_current := Some i\<rparr>)"
    and "it_index it = i \<Longrightarrow> it_current it = c \<Longrightarrow>
      ExcimerLog_iterator_get_current_data lg it = (Some i, it\<lparr>it_current := Some i\<rparr>)"
proof -
  have wf: "entries_wf lg" and c: "c = None \<or> c = Some i" using assms(1) by (auto simp: cursor_ok_def)
  note less = entries_size_eq(1) [OF wf, of i] and init = init_entry_eq(1) [OF wf assms(2)]
  show "ExcimerLog_current ob = (Some i, ob\<lparr>z_current := Some i\<rparr>)"
    if "obj_log ob = lg" "iter_entry_index ob = i" "z_current ob = c"
    using c that less init assms(2) by (cases ob) (auto simp: ExcimerLog_current_def Let_def)
  show "ExcimerLog_iterator_get_current_data lg it = (Some i, it\<lparr>it_current := Some i\<rparr>)"
    if "it_index it = i" "it_current it = c"
    using c that less init assms(2) by (cases it) (auto simp: ExcimerLog_iterator_get_current_data_def Let_def)
qed

interpretation methods: log_cursor
  "\<lambda>ob. obj_log ob = lg \<and> cursor_ok lg (iter_entry_index ob) (z_current ob)"
  ExcimerLog_rewind ExcimerLog_valid ExcimerLog_current ExcimerLog_key ExcimerLog_next
  "\<lambda>ob. unat (iter_entry_index ob)" "length (entries lg)" for lg
proof
  fix ob :: log_obj
  assume ok: "obj_log ob = lg \<and> cursor_ok lg (iter_entry_index ob) (z_current ob)"
  then have wf: "entries_wf lg" by (simp add: cursor_ok_def)
  note less = entries_size_eq(1) [OF wf]
  show "(obj_log (ExcimerLog_rewind ob) = lg \<and>
      cursor_ok lg (iter_entry_index (ExcimerLog_rewind ob)) (z_current (ExcimerLog_rewind ob))) \<and>
      unat (iter_entry_index (ExcimerLog_rewind ob)) = 0"
    using ok by (simp add: ExcimerLog_rewind_def cursor_ok_def)
  show "ExcimerLog_valid ob = (unat (iter_entry_index ob) < length (entries lg))"
    using ok less by (simp add: ExcimerLog_valid_def)
  show "unat (iter_entry_index ob) \<le> length (entries lg)" using ok by (simp add: cursor_ok_def)
  assume i: "unat (iter_entry_index ob) < length (entries lg)"
  show "\<exists>s'. ExcimerLog_current ob = (Some (of_nat (unat (iter_entry_index ob))), s') \<and>
      (obj_log s' = lg \<and> cursor_ok lg (iter_entry_index s') (z_current s')) \<and>
      unat (iter_entry_index s') = unat (iter_entry_index ob)"
    using ok i current_data_eq(1) [of lg "iter_entry_index ob" "z_current ob" ob] by (simp add: cursor_ok_def)
  show "ExcimerLog_key ob = ZLong (of_nat (unat (iter_entry_index ob)))"
    using ok i less by (simp add: ExcimerLog_key_def)
  show "(obj_log (ExcimerLog_next ob) = lg \<and>
      cursor_ok lg (iter_entry_index (ExcimerLog_next ob)) (z_current (ExcimerLog_next ob))) \<and>
      unat (iter_entry_index (ExcimerLog_next ob)) = Suc (unat (iter_entry_index ob))"
    using ok i less unat_Suc_pos [OF wf i] by (simp add: ExcimerLog_next_def cursor_ok_def Let_def)
qed

interpretation engine: log_cursor
  "\<lambda>it. cursor_ok lg (it_index it) (it_current it)" ExcimerLog_iterator_rewind
  "ExcimerLog_iterator_valid lg" "ExcimerLog_iterator_get_current_data lg"
  "ExcimerLog_iterator_get_current_key lg" "ExcimerLog_iterator_move_forward lg"
  "\<lambda>it. unat (it_index it)" "length (entries lg)" for lg
proof
  fix it :: log_iterator
  assume ok: "cursor_ok lg (it_index it) (it_current it)"
  then have wf: "entries_wf lg" by (simp add: cursor_ok_def)
  note less = entries_size_eq(1) [OF wf]
  show "cursor_ok lg (it_index (ExcimerLog_iterator_rewind it)) (it_current (ExcimerLog_iterator_rewind it)) \<and>
      unat (it_index (ExcimerLog_iterator_rewind it)) = 0"
    using ok by (simp add: ExcimerLog_iterator_rewind_def cursor_ok_def)
  show "ExcimerLog_iterator_valid lg it = (unat (it_index it) < length (entries lg))"
    using less by (simp add: ExcimerLog_iterator_valid_def)
  show "unat (it_index it) \<le> length (entries lg)" using ok by (simp add: cursor_ok_def)
  assume i: "unat (it_index it) < length (entries lg)"
  show "\<exists>s'. ExcimerLog_iterator_get_current_data lg it = (Some (of_nat (unat (it_index it))), s') \<and>
      cursor_ok lg (it_index s') (it_current s') \<and> unat (it_index s') = unat (it_index it)"
    using ok i current_data_eq(2) [of lg "it_index it" "it_current it" it] by (simp add: cursor_ok_def)
  show "ExcimerLog_iterator_get_current_key lg it = ZLong (of_nat (unat (it_index it)))"
    using i less by (simp add: ExcimerLog_iterator_get_current_key_def)
  show "cursor_ok lg (it_index (ExcimerLog_iterator_move_forward lg it)) (it_current (ExcimerLog_iterator_move_forward lg it)) \<and>
      unat (it_index (ExcimerLog_iterator_move_forward lg it)) = Suc (unat (it_index it))"
    using ok i less unat_Suc_pos [OF wf i] by (simp add: ExcimerLog_iterator_move_forward_def cursor_ok_def Let_def)
qed

section \<open>Traces as arrays\<close>

lemma trace_to_array_eq:
  assumes wf: "frames_wf lg" and i: "unat i < length (frames lg)"
  shows "excimer_log_trace_to_array lg (ucast i) =
    Inr (zlist (map (\<lambda>f. ZArr (excimer_log_frame_to_array f)) (log_trace lg i)))"
proof -
  have fold: "foldR (\<lambda>fs f. Inr (fs @ [g f])) fs tr = Inr (fs @ map g tr)" for fs tr and g :: "excimer_log_frame \<Rightarrow> zval"
    by (induction tr arbitrary: fs) simp_all
  have "excimer_safe_uint32 (ucast i) = Inr i"
    using unsigned_less [of i, where ?'a = int] by (simp add: excimer_safe_uint32_def word_sless_alt)
  then show ?thesis
    using frame_loop_trace [OF wf i, of "\<lambda>fs f. Inr (fs @ [ZArr (excimer_log_frame_to_array f)])" "[]"]
    by (simp add: excimer_log_trace_to_array_def fold)
qed

section \<open>Properties\<close>

text \<open>C34 (functional): a \<^verbatim>\<open>foreach\<close> over a well-formed log, through the engine's iterator or through the
  methods of the \<^verbatim>\<open>Iterator\<close> interface, terminates and visits every entry exactly once, in order, with
  its index as key, wherever the cursor was before the rewind.\<close>

theorem foreach_visits_all:
  assumes "entries_wf lg" and "cursor_ok lg (it_index it) (it_current it)"
    and "obj_log ob = lg" and "cursor_ok lg (iter_entry_index ob) (z_current ob)"
  shows "engine.walk lg (Suc (length (entries lg))) (ExcimerLog_iterator_rewind it) =
      Inr (map (\<lambda>i. (ZLong (of_nat i), Some (of_nat i))) [0..<length (entries lg)]) \<and>
    methods.walk (Suc (length (entries lg))) (ExcimerLog_rewind ob) =
      Inr (map (\<lambda>i. (ZLong (of_nat i), Some (of_nat i))) [0..<length (entries lg)])"
  using engine.walk_all [OF assms(2)] methods.walk_all [of ob lg] assms(3,4) by simp

lemma offset_exists_iff:
  assumes "entries_wf (obj_log ob)"
  shows "ExcimerLog_offsetExists ob i \<longleftrightarrow> 0 \<le> sint i \<and> sint i < int (length (entries (obj_log ob)))"
  using entries_size_eq(1) [OF assms, of i] nat_sint_unat [of i]
  by (auto simp: ExcimerLog_offsetExists_def word_sle_eq)

lemma entry_reads:
  assumes "log_wf (obj_log ob)" "ExcimerLog_offsetExists ob i"
  shows "unat i < length (entries (obj_log ob))"
    "ExcimerLogEntry_getEventCount (obj_log ob) i = Inr (entry_event_count (entries (obj_log ob) ! unat i))"
    "ExcimerLogEntry_getTrace (obj_log ob) i = Inr (zlist (map (\<lambda>f. ZArr (excimer_log_frame_to_array f))
      (log_trace (obj_log ob) (frame_index (entries (obj_log ob) ! unat i)))))"
proof -
  have wf: "frames_wf (obj_log ob)" "entries_wf (obj_log ob)" using assms by (simp_all add: log_wf_def)
  show less: "unat i < length (entries (obj_log ob))"
    using offset_exists_iff [OF wf(2)] assms(2) nat_sint_unat [of i] by auto
  then have "unat (frame_index (entries (obj_log ob) ! unat i)) < length (frames (obj_log ob))"
    using wf(2) by (auto simp: entries_wf_def)
  then show "ExcimerLogEntry_getEventCount (obj_log ob) i = Inr (entry_event_count (entries (obj_log ob) ! unat i))"
    "ExcimerLogEntry_getTrace (obj_log ob) i = Inr (zlist (map (\<lambda>f. ZArr (excimer_log_frame_to_array f))
      (log_trace (obj_log ob) (frame_index (entries (obj_log ob) ! unat i)))))"
    using init_entry_eq(2) [OF wf(2)] less trace_to_array_eq [OF wf(1)]
    by (simp_all add: ExcimerLogEntry_getEventCount_def ExcimerLogEntry_getTrace_def)
qed

text \<open>Array access agrees with counting and iteration: an offset exists exactly when it
  is at least zero and below the count, then yields the entry with that index, and null otherwise; and
  every accessor of an entry so obtained returns (it never reads through a null pointer), giving the
  entry's event count and the array of its frames, innermost first.\<close>

lemma entry_access_exact:
  assumes "log_wf (obj_log ob)"
  shows "(ExcimerLog_offsetExists ob i \<longleftrightarrow> 0 \<le> sint i \<and> sint i < sint (ExcimerLog_count ob)) \<and>
    ExcimerLog_offsetGet ob i = (if ExcimerLog_offsetExists ob i then Some i else None) \<and>
    (ExcimerLog_offsetExists ob i \<longrightarrow>
      ExcimerLogEntry_getEventCount (obj_log ob) i = Inr (entry_event_count (entries (obj_log ob) ! unat i)) \<and>
      ExcimerLogEntry_getTrace (obj_log ob) i = Inr (zlist (map (\<lambda>f. ZArr (excimer_log_frame_to_array f))
        (log_trace (obj_log ob) (frame_index (entries (obj_log ob) ! unat i))))))"
proof -
  have wf: "frames_wf (obj_log ob)" "entries_wf (obj_log ob)" using assms by (simp_all add: log_wf_def)
  have n: "sint (ExcimerLog_count ob) = int (length (entries (obj_log ob)))"
    using wf(2) entries_size_eq(2) [OF wf(2)] sint_of_nat64 by (simp add: ExcimerLog_count_def entries_wf_def)
  note ex = offset_exists_iff [OF wf(2), of i] and reads = entry_reads [OF assms, of i]
  have "ExcimerLog_offsetGet ob i = (if ExcimerLog_offsetExists ob i then Some i else None)"
  proof (cases "ExcimerLog_offsetExists ob i")
    case True
    then show ?thesis using init_entry_eq(1) [OF wf(2) reads(1)]
      by (auto simp: ExcimerLog_offsetGet_def ExcimerLog_offsetExists_def word_sle_eq word_sless_alt)
  next
    case False
    then show ?thesis
      by (auto simp: ExcimerLog_offsetGet_def ExcimerLog_offsetExists_def word_sle_eq word_sless_alt)
  qed
  with reads n ex show ?thesis by simp
qed

definition demo_log_obj :: log_obj where
  "demo_log_obj = \<lparr>obj_log = demo_result, z_current = None, iter_entry_index = 0\<rparr>"

theorem foreach_visits_all_witness:
  "engine.walk demo_result 2 (ExcimerLog_iterator_rewind \<lparr>it_current = None, it_index = 1\<rparr>) = Inr [(ZLong 0, Some 0)] \<and>
   methods.walk 2 (ExcimerLog_rewind demo_log_obj) = Inr [(ZLong 0, Some 0)]"
proof -
  have wf: "entries_wf demo_result" using demo_result_wf by (simp add: log_wf_def)
  have "cursor_ok demo_result (it_index \<lparr>it_current = None, it_index = 1\<rparr>) (it_current \<lparr>it_current = None, it_index = 1\<rparr>)"
    "obj_log demo_log_obj = demo_result" "cursor_ok demo_result (iter_entry_index demo_log_obj) (z_current demo_log_obj)"
    using wf by (simp_all add: cursor_ok_def demo_log_obj_def demo_entries)
  from foreach_visits_all [OF wf this] show ?thesis by (simp add: demo_entries numeral_2_eq_2)
qed

end
