(* ===== verification/Pending_List.thy ===== *)
theory Pending_List
  imports Zend_Hash Os_World
begin

text \<open>
  The pending list of \<^verbatim>\<open>excimer_timer.c\<close>: a circular doubly-linked list threaded through the
  \<^verbatim>\<open>excimer_timer\<close> structures, with its head in the thread's \<^verbatim>\<open>excimer_timer_tls\<close>. Timers live
  in a store indexed by address, so that the pointer writes and their aliasing are explicit;
  \<open>None\<close> is the null pointer. The contract is the locale \<open>fifo_set\<close>: a first-in first-out
  queue without duplicates.
\<close>

section \<open>State\<close>

type_synonym addr = nat

text \<open>
  A thread's copy of the \<^verbatim>\<open>ZEND_TLS\<close> variable and of \<^verbatim>\<open>EG(vm_interrupt)\<close>. Without thread safety both
  are plain globals and every thread, the handler threads included, is at index 0.
\<close>

type_synonym thread = nat

text \<open>The two functions the extension installs as event callbacks, \<^verbatim>\<open>ExcimerProfiler_event\<close> and \<^verbatim>\<open>ExcimerTimer_event\<close>.\<close>

datatype timer_callback = Profiler_callback | Timer_callback

text \<open>
  \<open>'tl\<close> is the backend's timer (\<^verbatim>\<open>timerlib_timer_t\<close>). \<open>timer_tls\<close> and \<open>vm_interrupt_ptr\<close> name the
  thread whose data they point to.
\<close>

record 'tl excimer_timer =
  is_valid :: bool
  is_running :: bool
  vm_interrupt_ptr :: thread
  tl_timer :: 'tl
  callback :: timer_callback
  user_data :: addr
  pending_next :: "addr option"
  pending_prev :: "addr option"
  timer_event_count :: zend_long
  timer_tls :: "thread option"

text \<open>The mutex of the structure is \<open>Tls_Mutex th\<close>.\<close>

record excimer_timer_tls =
  pending_head :: "addr option"
  timers_active :: uint64_t

record 'tl tstate = os +
  timers :: "addr \<Rightarrow> 'tl excimer_timer"
  tls_of :: "thread \<Rightarrow> excimer_timer_tls"
  vm_interrupt :: "thread \<Rightarrow> bool"

section \<open>Pointer writes\<close>

definition set_next :: "addr \<Rightarrow> addr option \<Rightarrow> ('tl, 'z) tstate_scheme \<Rightarrow> ('tl, 'z) tstate_scheme" where
  "set_next t v st = st\<lparr>timers := (timers st)(t := (timers st t)\<lparr>pending_next := v\<rparr>)\<rparr>"

definition set_prev :: "addr \<Rightarrow> addr option \<Rightarrow> ('tl, 'z) tstate_scheme \<Rightarrow> ('tl, 'z) tstate_scheme" where
  "set_prev t v st = st\<lparr>timers := (timers st)(t := (timers st t)\<lparr>pending_prev := v\<rparr>)\<rparr>"

definition set_head :: "thread \<Rightarrow> addr option \<Rightarrow> ('tl, 'z) tstate_scheme \<Rightarrow> ('tl, 'z) tstate_scheme" where
  "set_head th v st = st\<lparr>tls_of := (tls_of st)(th := (tls_of st th)\<lparr>pending_head := v\<rparr>)\<rparr>"

abbreviation nx :: "('tl, 'z) tstate_scheme \<Rightarrow> addr \<Rightarrow> addr option" where
  "nx st t \<equiv> pending_next (timers st t)"

abbreviation pv :: "('tl, 'z) tstate_scheme \<Rightarrow> addr \<Rightarrow> addr option" where
  "pv st t \<equiv> pending_prev (timers st t)"

abbreviation hd_ptr :: "('tl, 'z) tstate_scheme \<Rightarrow> thread \<Rightarrow> addr option" where
  "hd_ptr st th \<equiv> pending_head (tls_of st th)"

section \<open>Operations\<close>

definition excimer_timer_list_enqueue :: "thread \<Rightarrow> addr \<Rightarrow> ('tl, 'z) tstate_scheme \<Rightarrow> ('tl, 'z) tstate_scheme res" where
  "excimer_timer_list_enqueue th timer st =
     (if nx st timer = None then
        (case hd_ptr st th of
           Some h \<Rightarrow>
             let st1 = set_next timer (Some h) st;
                 st2 = set_prev timer (pv st1 h) st1
             in rbind (deref (pv st2 h)) (\<lambda>p.
                  let st3 = set_next p (Some timer) st2
                  in Inr (set_prev h (Some timer) st3))
         | None \<Rightarrow>
             Inr (set_prev timer (Some timer) (set_next timer (Some timer) (set_head th (Some timer) st))))
      else Inr st)"

definition excimer_timer_list_dequeue :: "thread \<Rightarrow> ('tl, 'z) tstate_scheme \<Rightarrow> (addr option \<times> ('tl, 'z) tstate_scheme) res" where
  "excimer_timer_list_dequeue th st =
     (case hd_ptr st th of
        Some timer \<Rightarrow>
          rbind
            (if nx st timer = Some timer then Inr (set_head th None st)
             else rbind (deref (nx st timer)) (\<lambda>n.
               let st1 = set_prev n (pv st timer) st
               in rbind (deref (pv st1 timer)) (\<lambda>p.
                    let st2 = set_next p (nx st1 timer) st1
                    in Inr (set_head th (nx st1 timer) st2))))
            (\<lambda>st'. Inr (Some timer, set_prev timer None (set_next timer None st')))
      | None \<Rightarrow> Inr (None, st))"

definition excimer_timer_list_remove :: "thread \<Rightarrow> addr \<Rightarrow> ('tl, 'z) tstate_scheme \<Rightarrow> ('tl, 'z) tstate_scheme res" where
  "excimer_timer_list_remove th timer st =
     (if nx st timer \<noteq> None then
        rbind
          (if nx st timer = Some timer then Inr (set_head th None st)
           else rbind (deref (nx st timer)) (\<lambda>n.
             let st1 = set_prev n (pv st timer) st
             in rbind (deref (pv st1 timer)) (\<lambda>p.
                  let st2 = set_next p (nx st1 timer) st1
                  in Inr (if hd_ptr st2 th = Some timer then set_head th (nx st2 timer) st2 else st2))))
          (\<lambda>st'. Inr (set_prev timer None (set_next timer None st')))
      else Inr st)"

lemma nx_upd [simp]:
  "nx (set_next t v st) x = (if x = t then v else nx st x)"
  "nx (set_prev t v st) x = nx st x" "nx (set_head th h st) x = nx st x"
  by (auto simp: set_next_def set_prev_def set_head_def)

lemma pv_upd [simp]:
  "pv (set_next t v st) x = pv st x"
  "pv (set_prev t v st) x = (if x = t then v else pv st x)" "pv (set_head th h st) x = pv st x"
  by (auto simp: set_next_def set_prev_def set_head_def)

lemma head_upd [simp]:
  "hd_ptr (set_next t v st) th' = hd_ptr st th'" "hd_ptr (set_prev t v st) th' = hd_ptr st th'"
  "hd_ptr (set_head th h st) th' = (if th' = th then h else hd_ptr st th')"
  by (auto simp: set_next_def set_prev_def set_head_def)

section \<open>Linked paths\<close>

fun linked :: "(addr \<Rightarrow> addr option) \<Rightarrow> (addr \<Rightarrow> addr option) \<Rightarrow> addr list \<Rightarrow> bool" where
  "linked f g (x # y # zs) \<longleftrightarrow> f x = Some y \<and> g y = Some x \<and> linked f g (y # zs)"
| "linked f g _ \<longleftrightarrow> True"

lemma linked_append:
  "linked f g (xs @ ys) \<longleftrightarrow> linked f g xs \<and> linked f g ys \<and>
     (xs \<noteq> [] \<and> ys \<noteq> [] \<longrightarrow> f (last xs) = Some (hd ys) \<and> g (hd ys) = Some (last xs))"
proof (induction xs)
  case (Cons x xs)
  then show ?case by (cases xs; cases ys) auto
qed simp

lemma distinct_butlast_neq_last: "distinct xs \<Longrightarrow> x \<in> set (butlast xs) \<Longrightarrow> x \<noteq> last xs"
  by (induction xs) (auto split: if_splits)

lemma in_set_tl: "x \<in> set (tl xs) \<Longrightarrow> x \<in> set xs"
  by (cases xs) auto

lemma distinct_tl_neq_hd: "distinct xs \<Longrightarrow> x \<in> set (tl xs) \<Longrightarrow> x \<noteq> hd xs"
  by (cases xs) auto

lemma linked_cong:
  assumes "linked f g xs"
    and "\<And>x. x \<in> set (butlast xs) \<Longrightarrow> f' x = f x" and "\<And>x. x \<in> set (tl xs) \<Longrightarrow> g' x = g x"
  shows "linked f' g' xs"
  using assms by (induction f g xs rule: linked.induct) auto

text \<open>Unlinking one element: its neighbours are joined and the other links stay.\<close>

lemma linked_bypass:
  assumes xs: "linked f g xs" and ys: "linked f g (ys @ (if xs = [] then [] else [hd xs]))"
    and fresh: "t \<notin> set xs" "t \<notin> set ys" "distinct (xs @ ys)" and ne: "xs @ ys \<noteq> []"
    and f': "\<And>x. f' x = (if x = t then None else if x = last (ys @ xs) then Some (hd (ys @ xs)) else f x)"
    and g': "\<And>x. g' x = (if x = t then None else if x = hd (ys @ xs) then Some (last (ys @ xs)) else g x)"
  shows "linked f' g' ((xs @ ys) @ [hd (xs @ ys)])"
proof -
  have lxs: "linked f' g' xs"
  proof (rule linked_cong [OF xs])
    fix x
    assume x: "x \<in> set (butlast xs)"
    then have "x \<noteq> last xs" "xs \<noteq> []" using fresh distinct_butlast_neq_last [OF _ x] by auto
    then show "f' x = f x" unfolding f' using fresh in_set_butlastD [OF x] by auto
  next
    fix x
    assume x: "x \<in> set (tl xs)"
    then have "x \<noteq> hd xs" "x \<in> set xs"
      using fresh distinct_tl_neq_hd [OF _ x] by (auto dest: in_set_tl)
    then show "g' x = g x" unfolding g' using fresh by (cases ys) auto
  qed
  have lx: "xs \<noteq> [] \<Longrightarrow> last xs \<notin> set ys" using fresh(3) last_in_set [of xs] by (auto simp: disjoint_iff)
  have "linked f' g' (ys @ (if xs = [] then [] else [hd xs]))"
  proof (rule linked_cong [OF ys])
    fix x
    assume "x \<in> set (butlast (ys @ (if xs = [] then [] else [hd xs])))"
    then have "x \<in> set ys" "x \<noteq> last (ys @ xs)"
      using fresh distinct_butlast_neq_last [of ys x] lx
      by (auto dest: in_set_butlastD split: if_splits)
    then show "f' x = f x" unfolding f' using fresh by auto
  next
    fix x
    assume "x \<in> set (tl (ys @ (if xs = [] then [] else [hd xs])))"
    then have "x \<in> set (ys @ xs)" "x \<noteq> hd (ys @ xs)"
      using fresh by (cases ys; auto split: if_splits)+
    then show "g' x = g x" unfolding g' using fresh by auto
  qed
  moreover have "f' (last (ys @ xs)) = Some (hd (ys @ xs))" "g' (hd (ys @ xs)) = Some (last (ys @ xs))"
    using fresh ne last_in_set [of "ys @ xs"] hd_in_set [of "ys @ xs"] by (auto simp: f' g')
  ultimately show ?thesis using lxs
    by (cases "xs = []"; cases "ys = []") (auto simp: linked_append)
qed

text \<open>
  \<open>pending_ring th D st q\<close>: the list of thread \<open>th\<close> holds the timers \<open>q\<close> in order, the last
  linked back to the first, and every other timer of \<open>D\<close> (the timers of the thread) is unlinked.
\<close>

definition pending_ring :: "thread \<Rightarrow> addr set \<Rightarrow> ('tl, 'z) tstate_scheme \<Rightarrow> addr list \<Rightarrow> bool" where
  "pending_ring th D st q \<longleftrightarrow>
     distinct q \<and> set q \<subseteq> D \<and>
     hd_ptr st th = (case q of [] \<Rightarrow> None | h # _ \<Rightarrow> Some h) \<and>
     (q \<noteq> [] \<longrightarrow> linked (nx st) (pv st) (q @ [hd q])) \<and>
     (\<forall>t \<in> D. t \<notin> set q \<longrightarrow> nx st t = None \<and> pv st t = None)"

lemma pending_ringI:
  assumes "distinct q" "set q \<subseteq> D" "hd_ptr st th = (case q of [] \<Rightarrow> None | h # _ \<Rightarrow> Some h)"
    "q \<noteq> [] \<Longrightarrow> linked (nx st) (pv st) (q @ [hd q])"
    "\<And>t. t \<in> D \<Longrightarrow> t \<notin> set q \<Longrightarrow> nx st t = None \<and> pv st t = None"
  shows "pending_ring th D st q"
  using assms by (simp add: pending_ring_def)

lemma pending_ringD:
  assumes "pending_ring th D st q"
  shows "distinct q" "set q \<subseteq> D" "hd_ptr st th = (case q of [] \<Rightarrow> None | h # _ \<Rightarrow> Some h)"
    "q \<noteq> [] \<Longrightarrow> linked (nx st) (pv st) (q @ [hd q])"
    "t \<in> D \<Longrightarrow> t \<notin> set q \<Longrightarrow> nx st t = None" "t \<in> D \<Longrightarrow> t \<notin> set q \<Longrightarrow> pv st t = None"
  using assms by (simp_all add: pending_ring_def)

text \<open>The neighbours of an element, and the links that do not involve it.\<close>

lemma ring_split:
  assumes "pending_ring th D st (xs @ t # ys)"
  shows "nx st t = Some (hd (ys @ xs @ [t]))"
    and "pv st t = Some (last (t # ys @ xs))"
    and "linked (nx st) (pv st) xs"
    and "linked (nx st) (pv st) (ys @ (if xs = [] then [] else [hd xs]))"
proof -
  have l: "linked (nx st) (pv st) (xs @ t # ys @ [hd (xs @ [t])])"
    using pending_ringD(4) [OF assms] by (cases xs) simp_all
  let ?h = "hd (xs @ [t])"
  from l have xs: "linked (nx st) (pv st) xs" "xs \<noteq> [] \<Longrightarrow> pv st t = Some (last xs)"
    and r: "linked (nx st) (pv st) (t # (ys @ [?h]))"
    unfolding linked_append [of _ _ xs] by simp_all
  from r have "nx st t = Some (hd (ys @ [?h]))" by (cases ys) simp_all
  then show "nx st t = Some (hd (ys @ xs @ [t]))" by (cases ys) (simp_all add: hd_append)
  have m: "linked (nx st) (pv st) ((t # ys) @ [?h])" using r by simp
  then have "pv st ?h = Some (last (t # ys))" unfolding linked_append by simp
  with xs(2) show "pv st t = Some (last (t # ys @ xs))" by (cases "xs = []") simp_all
  show "linked (nx st) (pv st) xs" by (rule xs)
  from r have n: "linked (nx st) (pv st) (ys @ [?h])" by (cases ys) simp_all
  then have "linked (nx st) (pv st) ys" by (simp add: linked_append)
  with n show "linked (nx st) (pv st) (ys @ (if xs = [] then [] else [hd xs]))"
    by (cases "xs = []") simp_all
qed

lemma ring_nx_iff:
  assumes "pending_ring th D st q" "t \<in> D"
  shows "nx st t = None \<longleftrightarrow> t \<notin> set q"
  using assms pending_ringD(5) [OF assms(1)] ring_split(1) [of th D st _ t]
  by (auto simp: in_set_conv_decomp)


section \<open>What the list operations leave alone\<close>

definition unlinked :: "'tl excimer_timer \<Rightarrow> 'tl excimer_timer" where
  "unlinked t = t\<lparr>pending_next := None, pending_prev := None\<rparr>"

lemma unlinked_sel [simp]:
  "is_valid (unlinked t) = is_valid t"
  "is_running (unlinked t) = is_running t"
  "vm_interrupt_ptr (unlinked t) = vm_interrupt_ptr t"
  "tl_timer (unlinked t) = tl_timer t"
  "callback (unlinked t) = callback t"
  "user_data (unlinked t) = user_data t"
  "timer_event_count (unlinked t) = timer_event_count t"
  "timer_tls (unlinked t) = timer_tls t"
  by (simp_all add: unlinked_def)

text \<open>
  The list operations of a thread write only the link fields of its timers and its list head.
\<close>

definition list_frame :: "thread \<Rightarrow> addr set \<Rightarrow> ('tl, 'z) tstate_scheme \<Rightarrow> ('tl, 'z) tstate_scheme \<Rightarrow> bool" where
  "list_frame th D st st' \<longleftrightarrow>
     (\<forall>x. unlinked (timers st' x) = unlinked (timers st x)) \<and>
     (\<forall>x. x \<notin> D \<longrightarrow> timers st' x = timers st x) \<and>
     (\<forall>th'. timers_active (tls_of st' th') = timers_active (tls_of st th')) \<and>
     (\<forall>th'. th' \<noteq> th \<longrightarrow> tls_of st' th' = tls_of st th') \<and>
     vm_interrupt st' = vm_interrupt st \<and> tstate.more st' = tstate.more st \<and>
     answers st' = answers st \<and> os_calls st' = os_calls st \<and> warnings st' = warnings st \<and>
     loop_fuel st' = loop_fuel st"

lemma list_frame_refl [simp]: "list_frame th D st st"
  by (simp add: list_frame_def)

lemma list_frame_trans: "list_frame th D a b \<Longrightarrow> list_frame th D b c \<Longrightarrow> list_frame th D a c"
  by (simp add: list_frame_def)

lemma list_frame_set:
  "x \<in> D \<Longrightarrow> list_frame th D st (set_next x v st)"
  "x \<in> D \<Longrightarrow> list_frame th D st (set_prev x v st)"
  "list_frame th D st (set_head th h st)"
  by (auto simp: list_frame_def set_next_def set_prev_def set_head_def unlinked_def)

lemmas list_frame_step = list_frame_set [THEN list_frame_trans [rotated]]

lemma list_frameD:
  assumes "list_frame th D st st'"
  shows "is_valid (timers st' x) = is_valid (timers st x)"
    "is_running (timers st' x) = is_running (timers st x)"
    "vm_interrupt_ptr (timers st' x) = vm_interrupt_ptr (timers st x)"
    "tl_timer (timers st' x) = tl_timer (timers st x)"
    "callback (timers st' x) = callback (timers st x)"
    "user_data (timers st' x) = user_data (timers st x)"
    "timer_event_count (timers st' x) = timer_event_count (timers st x)"
    "timer_tls (timers st' x) = timer_tls (timers st x)"
    "timers_active (tls_of st' th') = timers_active (tls_of st th')"
    "vm_interrupt st' = vm_interrupt st" "tstate.more st' = tstate.more st"
    "answers st' = answers st" "os_calls st' = os_calls st" "warnings st' = warnings st"
    "loop_fuel st' = loop_fuel st"
proof -
  have u: "unlinked (timers st' x) = unlinked (timers st x)" using assms by (simp add: list_frame_def)
  show "is_valid (timers st' x) = is_valid (timers st x)" using arg_cong [OF u, of is_valid] by simp
  show "is_running (timers st' x) = is_running (timers st x)" using arg_cong [OF u, of is_running] by simp
  show "vm_interrupt_ptr (timers st' x) = vm_interrupt_ptr (timers st x)" using arg_cong [OF u, of vm_interrupt_ptr] by simp
  show "tl_timer (timers st' x) = tl_timer (timers st x)" using arg_cong [OF u, of tl_timer] by simp
  show "callback (timers st' x) = callback (timers st x)" using arg_cong [OF u, of callback] by simp
  show "user_data (timers st' x) = user_data (timers st x)" using arg_cong [OF u, of user_data] by simp
  show "timer_event_count (timers st' x) = timer_event_count (timers st x)" using arg_cong [OF u, of timer_event_count] by simp
  show "timer_tls (timers st' x) = timer_tls (timers st x)" using arg_cong [OF u, of timer_tls] by simp
qed (use assms in \<open>simp_all add: list_frame_def\<close>)

section \<open>The operations on a ring\<close>

lemma enqueue_ring:
  assumes ring: "pending_ring th D st q" and t: "t \<in> D"
  obtains st' where "excimer_timer_list_enqueue th t st = Inr st'"
    "pending_ring th D st' (add_key q t)" "list_frame th D st st'"
proof (cases "t \<in> set q")
  case True
  with ring t that [of st] show thesis
    by (simp add: excimer_timer_list_enqueue_def ring_nx_iff add_key_def)
next
  case new: False
  have unl: "nx st t = None" using new ring t by (simp add: ring_nx_iff)
  note rd = pending_ringD [OF ring]
  show thesis
  proof (cases q)
    case Nil
    let ?st = "set_prev t (Some t) (set_next t (Some t) (set_head th (Some t) st))"
    have "pending_ring th D ?st [t]" using rd(5,6) t Nil by (intro pending_ringI) auto
    moreover have "list_frame th D st ?st" using t by (intro list_frame_step) auto
    ultimately show thesis using that [of ?st] unl Nil rd(3)
      by (simp add: excimer_timer_list_enqueue_def add_key_def)
  next
    case (Cons h r)
    let ?l = "last q"
    have pvh: "pv st h = Some ?l" using ring_split(2) [of th D st "[]" h r] ring Cons by simp
    have lq: "linked (nx st) (pv st) q" using rd(4) unfolding linked_append by (cases "q = []") simp_all
    have mem: "h \<in> D" "?l \<in> D" "h \<in> set q" "?l \<in> set q" "t \<noteq> h" "t \<noteq> ?l"
      using rd(2) Cons new last_in_set [of q] by auto
    let ?st = "set_prev h (Some t) (set_next ?l (Some t) (set_prev t (Some ?l) (set_next t (Some h) st)))"
    have "linked (nx ?st) (pv ?st) q"
    proof (rule linked_cong [OF lq])
      fix x
      assume "x \<in> set (butlast q)"
      then show "nx ?st x = nx st x" using rd(1) Cons new
        by (auto dest: in_set_butlastD distinct_butlast_neq_last)
    next
      fix x
      assume "x \<in> set (tl q)"
      then show "pv ?st x = pv st x" using rd(1) Cons new by auto
    qed
    then have "linked (nx ?st) (pv ?st) (q @ [t, h])"
      using mem Cons by (subst linked_append) simp
    then have "pending_ring th D ?st (q @ [t])" using rd mem new t Cons
      by (intro pending_ringI) auto
    moreover have "list_frame th D st ?st" using t mem by (intro list_frame_step) auto
    ultimately show thesis using that [of ?st] unl Cons rd(3) pvh mem new
      by (simp add: excimer_timer_list_enqueue_def add_key_def Let_def)
  qed
qed

lemma remove_ring:
  assumes ring: "pending_ring th D st q" and t: "t \<in> D"
  obtains st' where "excimer_timer_list_remove th t st = Inr st'"
    "pending_ring th D st' (remove1 t q)" "list_frame th D st st'"
proof (cases "t \<in> set q")
  case False
  with ring t that [of st] show thesis
    by (simp add: excimer_timer_list_remove_def ring_nx_iff remove1_idem)
next
  case True
  then obtain xs ys where q: "q = xs @ t # ys" by (auto simp: in_set_conv_decomp)
  note rd = pending_ringD [OF ring]
  have fresh: "t \<notin> set xs" "t \<notin> set ys" "distinct (xs @ ys)" using rd(1) q by auto
  have rem: "remove1 t q = xs @ ys" using q fresh by (simp add: remove1_append)
  note sp = ring_split [OF ring [unfolded q]]
  show thesis
  proof (cases "xs @ ys = []")
    case True
    let ?st = "set_prev t None (set_next t None (set_head th None st))"
    have "pending_ring th D ?st []" using rd(5,6) q True by (intro pending_ringI) auto
    moreover have "list_frame th D st ?st" using t by (intro list_frame_step) auto
    ultimately show thesis using that [of ?st] sp(1) True rem
      by (simp add: excimer_timer_list_remove_def)
  next
    case False
    let ?n = "hd (ys @ xs)" and ?p = "last (ys @ xs)"
    have np: "nx st t = Some ?n" "pv st t = Some ?p"
      using sp(1,2) False by (auto simp: hd_append)
    have in_yx: "?n \<in> set (ys @ xs)" "?p \<in> set (ys @ xs)"
      using False hd_in_set [of "ys @ xs"] last_in_set [of "ys @ xs"] by auto
    then have mem: "?n \<in> D" "?p \<in> D" "?n \<noteq> t" "?p \<noteq> t" using rd(2) q fresh by auto
    let ?s2 = "set_next ?p (Some ?n) (set_prev ?n (Some ?p) st)"
    let ?s3 = "if hd_ptr st th = Some t then set_head th (Some ?n) ?s2 else ?s2"
    let ?st = "set_prev t None (set_next t None ?s3)"
    have "linked (nx ?st) (pv ?st) ((xs @ ys) @ [hd (xs @ ys)])"
      by (rule linked_bypass [OF sp(3,4) fresh False]) simp_all
    moreover have "hd_ptr st th = Some t \<longleftrightarrow> xs = []"
      using rd(3) q fresh by (cases xs) auto
    then have "hd_ptr ?st th = (case xs @ ys of [] \<Rightarrow> None | h # _ \<Rightarrow> Some h)"
      using rd(3) q False by (cases xs; cases ys) simp_all
    moreover have "nx ?st x = None \<and> pv ?st x = None" if "x \<in> D" "x \<notin> set (xs @ ys)" for x
    proof -
      have "x \<noteq> ?n" "x \<noteq> ?p" using that in_yx by auto
      then show ?thesis using rd(5,6) [of x] that q by simp
    qed
    ultimately have "pending_ring th D ?st (xs @ ys)" using rd(2) q fresh
      by (intro pending_ringI) auto
    moreover have "list_frame th D st ?st" using t mem
      by (cases "hd_ptr st th = Some t") (simp_all, (intro list_frame_step; auto)+)
    ultimately show thesis using that [of ?st] np mem rem
      by (simp add: excimer_timer_list_remove_def Let_def)
  qed
qed

text \<open>Dequeueing is removing the head and handing it out.\<close>

lemma dequeue_eq_remove:
  assumes "hd_ptr st th = Some h" "nx st h \<noteq> None"
  shows "excimer_timer_list_dequeue th st =
    rbind (excimer_timer_list_remove th h st) (\<lambda>st'. Inr (Some h, st'))"
  using assms
  by (cases "nx st h = Some h"; cases "pv st h")
    (auto simp: excimer_timer_list_dequeue_def excimer_timer_list_remove_def Let_def)

lemma dequeue_ring:
  assumes ring: "pending_ring th D st (h # r)"
  obtains st' where "excimer_timer_list_dequeue th st = Inr (Some h, st')"
    "pending_ring th D st' r" "list_frame th D st st'"
proof -
  have h: "h \<in> D" using pending_ringD(2) [OF ring] by simp
  obtain st' where st': "excimer_timer_list_remove th h st = Inr st'"
    "pending_ring th D st' (remove1 h (h # r))" "list_frame th D st st'"
    using remove_ring [OF ring h] .
  have "nx st h \<noteq> None" using ring_nx_iff [OF ring h] by simp
  with st' that [of st'] show thesis
    using dequeue_eq_remove [of st th h] pending_ringD(3) [OF ring] by simp
qed

lemma dequeue_ring_empty:
  "pending_ring th D st [] \<Longrightarrow> excimer_timer_list_dequeue th st = Inr (None, st)"
  by (simp add: pending_ring_def excimer_timer_list_dequeue_def)

section \<open>The contract: a first-in first-out queue without duplicates\<close>

text \<open>
  \<open>rel s q\<close>: the state \<open>s\<close> holds the queue \<open>q\<close>. The operations are partial (they return
  \<open>Inl\<close> on a fault), and the laws say that on a state holding a queue they never fault.
\<close>

locale fifo_set =
  fixes dom_q :: "'x set"
    and rel :: "'s \<Rightarrow> 'x list \<Rightarrow> bool"
    and enq :: "'x \<Rightarrow> 's \<Rightarrow> 's res"
    and deq :: "'s \<Rightarrow> ('x option \<times> 's) res"
    and rem :: "'x \<Rightarrow> 's \<Rightarrow> 's res"
  assumes rel_distinct: "rel s q \<Longrightarrow> distinct q \<and> set q \<subseteq> dom_q"
    and enq_rel: "rel s q \<Longrightarrow> x \<in> dom_q \<Longrightarrow> \<exists>s'. enq x s = Inr s' \<and> rel s' (add_key q x)"
    and deq_empty: "rel s [] \<Longrightarrow> deq s = Inr (None, s)"
    and deq_rel: "rel s (x # q) \<Longrightarrow> \<exists>s'. deq s = Inr (Some x, s') \<and> rel s' q"
    and rem_rel: "rel s q \<Longrightarrow> x \<in> dom_q \<Longrightarrow> \<exists>s'. rem x s = Inr s' \<and> rel s' (remove1 x q)"
begin

fun drain :: "nat \<Rightarrow> 's \<Rightarrow> ('x list \<times> 's) res" where
  "drain 0 s = Inl Diverges"
| "drain (Suc n) s = rbind (deq s) (\<lambda>(x, s'). case x of
     None \<Rightarrow> Inr ([], s')
   | Some x \<Rightarrow> rbind (drain n s') (\<lambda>(xs, s''). Inr (x # xs, s'')))"

lemma enq_all:
  assumes "rel s q" "set xs \<subseteq> dom_q"
  shows "\<exists>s'. foldR (\<lambda>s x. enq x s) s xs = Inr s' \<and> rel s' (foldl add_key q xs)"
  using assms
proof (induction xs arbitrary: s q)
  case (Cons x xs)
  then obtain s' where "enq x s = Inr s'" "rel s' (add_key q x)" using enq_rel [of s q x] by auto
  with Cons.IH [of s' "add_key q x"] Cons.prems show ?case by simp
qed auto

lemma drain_all:
  assumes "rel s q" "length q < n"
  shows "\<exists>s'. drain n s = Inr (q, s') \<and> rel s' []"
  using assms
proof (induction n arbitrary: s q)
  case (Suc n)
  show ?case
  proof (cases q)
    case Nil
    with Suc.prems deq_empty [of s] show ?thesis by simp
  next
    case (Cons x r)
    then obtain s' where "deq s = Inr (Some x, s')" "rel s' r" using deq_rel Suc.prems by blast
    with Suc.IH [of s' r] Suc.prems Cons show ?thesis by auto
  qed
qed simp

lemma enqueued_order:
  assumes "rel s []" "set xs \<subseteq> dom_q" "length xs < n"
  shows "\<exists>s' s''. foldR (\<lambda>s x. enq x s) s xs = Inr s' \<and>
    drain n s' = Inr (foldl add_key [] xs, s'') \<and> rel s'' []"
proof -
  obtain s' where s': "foldR (\<lambda>s x. enq x s) s xs = Inr s'" "rel s' (foldl add_key [] xs)"
    using enq_all [OF assms(1,2)] by auto
  moreover have "length (foldl add_key [] xs) < n"
    using length_foldl_add_key [of "[]" xs] assms(3) by simp
  ultimately show ?thesis using drain_all by blast
qed

lemma removed_not_delivered:
  assumes "rel s q" "x \<in> dom_q" "length q < n"
  shows "\<exists>s' xs s''. rem x s = Inr s' \<and> drain n s' = Inr (xs, s'') \<and> x \<notin> set xs"
proof -
  obtain s' where s': "rem x s = Inr s'" "rel s' (remove1 x q)" using rem_rel assms by blast
  moreover have "x \<notin> set (remove1 x q)" using rel_distinct [OF assms(1)] by auto
  moreover have "length (remove1 x q) < n" using assms(3) by (auto simp: length_remove1)
  ultimately show ?thesis using drain_all by blast
qed

end

interpretation pq: fifo_set D "pending_ring th D" "excimer_timer_list_enqueue th"
  "excimer_timer_list_dequeue th" "excimer_timer_list_remove th" for th D
proof
  fix s :: "('a, 'b) tstate_scheme" and q x
  show "pending_ring th D s q \<Longrightarrow> distinct q \<and> set q \<subseteq> D" using pending_ringD by blast
  show "pending_ring th D s [] \<Longrightarrow> excimer_timer_list_dequeue th s = Inr (None, s)"
    by (rule dequeue_ring_empty)
  show "\<exists>s'. excimer_timer_list_enqueue th x s = Inr s' \<and> pending_ring th D s' (add_key q x)"
    if "pending_ring th D s q" "x \<in> D" using enqueue_ring [OF that] by blast
  show "\<exists>s'. excimer_timer_list_remove th x s = Inr s' \<and> pending_ring th D s' (remove1 x q)"
    if "pending_ring th D s q" "x \<in> D" using remove_ring [OF that] by blast
  show "\<exists>s'. excimer_timer_list_dequeue th s = Inr (Some x, s') \<and> pending_ring th D s' q"
    if "pending_ring th D s (x # q)" using dequeue_ring [OF that] by blast
qed

section \<open>Properties\<close>

text \<open>A concrete list: timers 1 and 2 pending in that order, timer 3 idle.\<close>

definition idle_timer :: "'tl \<Rightarrow> 'tl excimer_timer" where
  "idle_timer x = \<lparr>is_valid = True, is_running = True, vm_interrupt_ptr = 0, tl_timer = x,
     callback = Profiler_callback, user_data = 0, pending_next = None, pending_prev = None,
     timer_event_count = 0, timer_tls = Some 0\<rparr>"

definition demo_pending :: "unit tstate" where
  "demo_pending =
     \<lparr>answers = \<lambda>_. \<lparr>err = 0, val = 0, time = \<lparr>tv_sec = 0, tv_nsec = 0\<rparr>, posted = True, kill_seen = False\<rparr>,
      os_calls = [], warnings = [], loop_fuel = 5,
      timers = (\<lambda>_. idle_timer ())
        (1 := (idle_timer ())\<lparr>pending_next := Some 2, pending_prev := Some 2\<rparr>,
         2 := (idle_timer ())\<lparr>pending_next := Some 1, pending_prev := Some 1\<rparr>),
      tls_of = (\<lambda>_. \<lparr>pending_head = Some 1, timers_active = 3\<rparr>),
      vm_interrupt = (\<lambda>_. False)\<rparr>"

lemma demo_ring: "pending_ring 0 {1, 2, 3} demo_pending [1, 2]"
  by (simp add: pending_ring_def demo_pending_def idle_timer_def)

text \<open>C10 (refinement): on a well-linked ring the three list operations never dereference null and
  implement the abstract queue: enqueue appends the timer unless it is already there, remove deletes
  it wherever it is, dequeue takes the first; the ring stays well linked, and nothing but the link
  fields of the thread's timers and its list head is written.\<close>

theorem pending_list_refines_queue:
  assumes "pending_ring th D st q" and "t \<in> D"
  shows "(\<exists>st'. excimer_timer_list_enqueue th t st = Inr st' \<and>
            pending_ring th D st' (if t \<in> set q then q else q @ [t]) \<and> list_frame th D st st') \<and>
         (\<exists>st'. excimer_timer_list_remove th t st = Inr st' \<and>
            pending_ring th D st' (filter (\<lambda>x. x \<noteq> t) q) \<and> list_frame th D st st') \<and>
         (case q of
            [] \<Rightarrow> excimer_timer_list_dequeue th st = Inr (None, st)
          | h # r \<Rightarrow> \<exists>st'. excimer_timer_list_dequeue th st = Inr (Some h, st') \<and>
                      pending_ring th D st' r \<and> list_frame th D st st')"
proof (intro conjI)
  show "\<exists>st'. excimer_timer_list_enqueue th t st = Inr st' \<and>
      pending_ring th D st' (if t \<in> set q then q else q @ [t]) \<and> list_frame th D st st'"
    using enqueue_ring [OF assms] unfolding add_key_def by blast
  have "remove1 t q = filter (\<lambda>x. x \<noteq> t) q"
    using pq.rel_distinct [OF assms(1)]
    by (auto simp: distinct_remove1_removeAll removeAll_filter_not_eq intro: filter_cong)
  then show "\<exists>st'. excimer_timer_list_remove th t st = Inr st' \<and>
      pending_ring th D st' (filter (\<lambda>x. x \<noteq> t) q) \<and> list_frame th D st st'"
    using remove_ring [OF assms] by metis
  show "case q of
      [] \<Rightarrow> excimer_timer_list_dequeue th st = Inr (None, st)
    | h # r \<Rightarrow> \<exists>st'. excimer_timer_list_dequeue th st = Inr (Some h, st') \<and>
                pending_ring th D st' r \<and> list_frame th D st st'"
  proof (cases q)
    case Nil
    with assms(1) show ?thesis by (simp add: dequeue_ring_empty)
  next
    case (Cons h r)
    then have "pending_ring th D st (h # r)" using assms(1) by simp
    then obtain st' where "excimer_timer_list_dequeue th st = Inr (Some h, st')"
      "pending_ring th D st' r" "list_frame th D st st'" by (rule dequeue_ring)
    with Cons show ?thesis by auto
  qed
qed

theorem pending_list_refines_queue_witness:
  "(\<exists>st'. excimer_timer_list_enqueue 0 3 demo_pending = Inr st' \<and> pending_ring 0 {1, 2, 3} st' [1, 2, 3]) \<and>
   (\<exists>st'. excimer_timer_list_dequeue 0 demo_pending = Inr (Some 1, st') \<and> pending_ring 0 {1, 2, 3} st' [2])"
  using pending_list_refines_queue [OF demo_ring, of 3] by auto

text \<open>Timers are delivered in the order of their first event: enqueueing any
  sequence of a thread's timers on an empty list and then dequeueing until the list is empty hands
  out each timer once, in order of first occurrence, and a membership test on the link field is exact
  in between.\<close>

lemma pending_list_fifo:
  assumes "pending_ring th D st []" and "set ts \<subseteq> D" and "length ts < n"
  shows "\<exists>st' st''. foldR (\<lambda>s t. excimer_timer_list_enqueue th t s) st ts = Inr st' \<and>
           (\<forall>t \<in> D. nx st' t \<noteq> None \<longleftrightarrow> t \<in> set ts) \<and>
           pq.drain th n st' = Inr (rev (remdups (rev ts)), st'') \<and> pending_ring th D st'' []"
proof -
  obtain st' st'' where
    st: "foldR (\<lambda>s t. excimer_timer_list_enqueue th t s) st ts = Inr st'"
      "pq.drain th n st' = Inr (foldl add_key [] ts, st'')" "pending_ring th D st'' []"
    using pq.enqueued_order [OF assms] by blast
  moreover have "pending_ring th D st' (foldl add_key [] ts)"
    using pq.enq_all [OF assms(1,2)] st(1) by auto
  then have "\<forall>t \<in> D. nx st' t \<noteq> None \<longleftrightarrow> t \<in> set ts"
    by (simp add: ring_nx_iff set_foldl_add_key)
  ultimately show ?thesis by (auto simp: foldl_add_key_remdups)
qed

definition demo_none_pending :: "unit tstate" where
  "demo_none_pending = demo_pending
     \<lparr>timers := \<lambda>_. idle_timer (), tls_of := \<lambda>_. \<lparr>pending_head = None, timers_active = 3\<rparr>\<rparr>"

lemma demo_ring_empty: "pending_ring 0 {1, 2, 3} demo_none_pending []"
  by (simp add: pending_ring_def demo_none_pending_def idle_timer_def)

end
