(* ===== verification/Timer_Backend.thy ===== *)
theory Timer_Backend
  imports Os_World
begin

text \<open>
  The interface of timerlib (\<^verbatim>\<open>timerlib.h\<close>) that \<^verbatim>\<open>excimer_timer.c\<close> is written against: the functions
  as a record, chosen at build time, and what they promise as locales. Each backend theory
  interprets them on its own functions. \<open>'tl\<close> is the backend's \<^verbatim>\<open>timerlib_timer_t\<close>.
\<close>

section \<open>The functions\<close>

definition TIMERLIB_REAL :: c_int where
  "TIMERLIB_REAL = 0"

definition TIMERLIB_CPU :: c_int where
  "TIMERLIB_CPU = 1"

text \<open>
  A function that updates \<^verbatim>\<open>*timer\<close> returns the new structure. The Boolean is
  \<^verbatim>\<open>TIMERLIB_SUCCESS\<close>. The notify function is \<^verbatim>\<open>excimer_timer_handle\<close>, its data the timer's address.
\<close>

record ('tl, 'z) timerlib =
  tl_init :: "c_int \<Rightarrow> nat \<Rightarrow> ('z os_scheme, bool \<times> 'tl) prog"
  tl_start :: "'tl \<Rightarrow> timespec \<Rightarrow> timespec \<Rightarrow> ('z os_scheme, bool \<times> 'tl) prog"
  tl_stop :: "'tl \<Rightarrow> ('z os_scheme, bool \<times> 'tl) prog"
  tl_destroy :: "'tl \<Rightarrow> ('z os_scheme, 'tl) prog"
  tl_get_time :: "'tl \<Rightarrow> ('z os_scheme, bool \<times> timespec) prog"
  tl_clock_get_time :: "c_int \<Rightarrow> ('z os_scheme, bool \<times> timespec) prog"

definition timerlib_timer_start_oneshot ::
  "('tl, 'z) timerlib \<Rightarrow> 'tl \<Rightarrow> timespec \<Rightarrow> ('z os_scheme, bool \<times> 'tl) prog" where
  "timerlib_timer_start_oneshot lib t duration = tl_start lib t \<lparr>tv_sec = 0, tv_nsec = 0\<rparr> duration"

definition timerlib_timer_start_periodic ::
  "('tl, 'z) timerlib \<Rightarrow> 'tl \<Rightarrow> timespec \<Rightarrow> ('z os_scheme, bool \<times> 'tl) prog" where
  "timerlib_timer_start_periodic lib t period = tl_start lib t period period"

definition prog_total :: "('s, 'a) prog \<Rightarrow> bool" where
  "prog_total m \<longleftrightarrow> (\<forall>s. \<exists>r. m s = Inr r)"

lemma prog_totalE:
  assumes "prog_total m"
  obtains x s' where "m s = Inr (x, s')"
  using assms by (metis prog_total_def surj_pair)

lemma prog_total_pret [intro]: "prog_total (pret x)"
  by (simp add: prog_total_def)

lemma prog_total_syscall [intro]: "prog_total (syscall c)"
  by (simp add: prog_total_def syscall_def)

lemma prog_total_warn [intro]: "prog_total (warn w)" "prog_total (timerlib_report_errno fn e)"
  by (simp_all add: prog_total_def warn_def timerlib_report_errno_def)

lemma prog_total_bind [intro]:
  assumes "prog_total m" "\<And>x. prog_total (f x)"
  shows "prog_total (pbind m f)"
  unfolding prog_total_def
proof
  fix s
  obtain x s' where "m s = Inr (x, s')" using assms(1) by (rule prog_totalE)
  with assms(2) [of x] show "\<exists>r. pbind m f s = Inr r" by (simp add: pbind_Inr prog_total_def)
qed

lemma prog_total_if [intro]: "(b \<Longrightarrow> prog_total m) \<Longrightarrow> (\<not> b \<Longrightarrow> prog_total m') \<Longrightarrow> prog_total (if b then m else m')"
  by simp

section \<open>The contract\<close>

text \<open>
  \<open>live t\<close>: the structure is one a successful initialisation can produce. Every function leaves
  the caller's data alone and only makes calls and gives warnings; a failure is never silent;
  starting, stopping and destroying always return.
\<close>

locale timer_backend =
  fixes lib :: "('tl, 'z) timerlib"
    and live :: "'tl \<Rightarrow> bool"
  assumes init_spec: "prog_spec (tl_init lib clk data) (\<lambda>(ok, t) cs ws. (ok \<longrightarrow> live t) \<and> (\<not> ok \<longrightarrow> ws \<noteq> []))"
    and start_spec: "live t \<Longrightarrow> prog_spec (tl_start lib t p i) (\<lambda>(ok, t') cs ws. live t' \<and> (\<not> ok \<longrightarrow> ws \<noteq> []))"
    and stop_spec: "live t \<Longrightarrow> prog_spec (tl_stop lib t) (\<lambda>(ok, t') cs ws. live t' \<and> (\<not> ok \<longrightarrow> ws \<noteq> []))"
    and destroy_spec: "prog_spec (tl_destroy lib t) (\<lambda>t' cs ws. True)"
    and get_time_spec: "prog_spec (tl_get_time lib t) (\<lambda>r cs ws. True)"
    and init_safe: "fault_free (tl_init lib clk data)"
    and get_time_safe: "fault_free (tl_get_time lib t)"
    and start_frame: "prog_spec (tl_start lib t p i) (\<lambda>r cs ws. True)"
    and stop_frame: "prog_spec (tl_stop lib t) (\<lambda>r cs ws. True)"
    and clock_spec: "prog_spec (tl_clock_get_time lib clk) (\<lambda>r cs ws. True)"
    and start_total: "prog_total (tl_start lib t p i)"
    and stop_total: "prog_total (tl_stop lib t)"
    and destroy_total: "prog_total (tl_destroy lib t)"
    and clock_total: "prog_total (tl_clock_get_time lib clk)"
begin

lemma init_run:
  assumes "tl_init lib clk data s = Inr ((ok, t), s')"
  shows "os_frame s s'" "ok \<Longrightarrow> live t" "\<not> ok \<Longrightarrow> new_warnings s s' \<noteq> []"
  using prog_specD [OF init_spec assms] by auto

lemma start_run:
  assumes "live t"
  obtains ok t' s' where "tl_start lib t p i s = Inr ((ok, t'), s')" "os_frame s s'" "live t'"
    "\<not> ok \<Longrightarrow> new_warnings s s' \<noteq> []"
proof -
  obtain r s' where "tl_start lib t p i s = Inr (r, s')" using start_total by (rule prog_totalE)
  with prog_specD [OF start_spec [OF assms]] that show thesis by (cases r) fastforce
qed

lemma stop_run:
  assumes "live t"
  obtains ok t' s' where "tl_stop lib t s = Inr ((ok, t'), s')" "os_frame s s'" "live t'"
    "\<not> ok \<Longrightarrow> new_warnings s s' \<noteq> []"
proof -
  obtain r s' where "tl_stop lib t s = Inr (r, s')" using stop_total by (rule prog_totalE)
  with prog_specD [OF stop_spec [OF assms]] that show thesis by (cases r) fastforce
qed

lemma destroy_run:
  obtains t' s' where "tl_destroy lib t s = Inr (t', s')" "os_frame s s'"
proof -
  obtain t' s' where "tl_destroy lib t s = Inr (t', s')" using destroy_total by (rule prog_totalE)
  with prog_specD(1) [OF destroy_spec] that show thesis by blast
qed

lemma clock_run:
  obtains ok ts s' where "tl_clock_get_time lib clk s = Inr ((ok, ts), s')" "os_frame s s'"
proof -
  obtain r s' where "tl_clock_get_time lib clk s = Inr (r, s')" using clock_total by (rule prog_totalE)
  with prog_specD(1) [OF clock_spec] that show thesis by (cases r) blast
qed

end

section \<open>Ownership\<close>

text \<open>
  The kernel resources a backend acquires and releases. \<open>owned t\<close> is what the structure still
  has to release. The stronger contract: what is acquired is recorded in the structure, and
  destroying releases exactly that.
\<close>

datatype resource = Thread nat | Kernel_Timer nat | Descriptor int

fun acquires :: "os_call \<times> os_answer \<Rightarrow> resource multiset" where
  "acquires (Pthread_create, a) = (if err a = 0 then {#Thread (val a)#} else {#})"
| "acquires (Timer_create c tid, a) = (if err a = 0 then {#Kernel_Timer (val a)#} else {#})"
| "acquires (Kqueue, a) = (if err a = 0 then {#Descriptor (int (val a))#} else {#})"
| "acquires _ = {#}"

text \<open>A thread is released by the call that makes it end.\<close>

fun releases :: "os_call \<times> os_answer \<Rightarrow> resource multiset" where
  "releases (Pthread_kill t, a) = {#Thread t#}"
| "releases (Timer_delete t, a) = {#Kernel_Timer t#}"
| "releases (Close fd, a) = {#Descriptor fd#}"
| "releases _ = {#}"

definition acquired :: "(os_call \<times> os_answer) list \<Rightarrow> resource multiset" where
  "acquired cs = sum_list (map acquires cs)"

definition released :: "(os_call \<times> os_answer) list \<Rightarrow> resource multiset" where
  "released cs = sum_list (map releases cs)"

lemma acquired_simps [simp]:
  "acquired [] = {#}" "acquired (c # cs) = acquires c + acquired cs" "acquired (cs @ ds) = acquired cs + acquired ds"
  by (simp_all add: acquired_def)

lemma released_simps [simp]:
  "released [] = {#}" "released (c # cs) = releases c + released cs" "released (cs @ ds) = released cs + released ds"
  by (simp_all add: released_def)

text \<open>What a client may do with a timer between initialising and destroying it.\<close>

datatype timer_op = Op_start timespec timespec | Op_stop | Op_get_time

definition run_op :: "('tl, 'z) timerlib \<Rightarrow> 'tl \<Rightarrow> timer_op \<Rightarrow> ('z os_scheme, 'tl) prog" where
  "run_op lib t op = (case op of
     Op_start p i \<Rightarrow> pbind (tl_start lib t p i) (\<lambda>(ok, t'). pret t')
   | Op_stop \<Rightarrow> pbind (tl_stop lib t) (\<lambda>(ok, t'). pret t')
   | Op_get_time \<Rightarrow> pbind (tl_get_time lib t) (\<lambda>r. pret t))"

fun run_ops :: "('tl, 'z) timerlib \<Rightarrow> 'tl \<Rightarrow> timer_op list \<Rightarrow> ('z os_scheme, 'tl) prog" where
  "run_ops lib t [] = pret t"
| "run_ops lib t (op # ops) = pbind (run_op lib t op) (\<lambda>t'. run_ops lib t' ops)"

definition timer_life :: "('tl, 'z) timerlib \<Rightarrow> c_int \<Rightarrow> nat \<Rightarrow> timer_op list \<Rightarrow> ('z os_scheme, 'tl) prog" where
  "timer_life lib clk data ops =
     pbind (tl_init lib clk data) (\<lambda>(ok, t).
     pbind (if ok then run_ops lib t ops else pret t) (\<lambda>t'. tl_destroy lib t'))"

locale owning_backend = timer_backend lib live
  for lib :: "('tl, 'z) timerlib" and live +
  fixes owned :: "'tl \<Rightarrow> resource multiset"
  assumes init_owned: "prog_spec (tl_init lib clk data) (\<lambda>(ok, t) cs ws. acquired cs = released cs + owned t)"
    and start_owned: "prog_spec (tl_start lib t p i) (\<lambda>(ok, t') cs ws. acquired cs + owned t = released cs + owned t')"
    and stop_owned: "prog_spec (tl_stop lib t) (\<lambda>(ok, t') cs ws. acquired cs + owned t = released cs + owned t')"
    and get_time_owned: "prog_spec (tl_get_time lib t) (\<lambda>r cs ws. acquired cs = released cs)"
    and destroy_owned: "prog_spec (tl_destroy lib t) (\<lambda>t' cs ws. acquired cs + owned t = released cs \<and> owned t' = {#})"
begin

lemma run_op_owned: "prog_spec (run_op lib t op) (\<lambda>t' cs ws. acquired cs + owned t = released cs + owned t')"
proof (cases op)
  case (Op_start p i)
  then show ?thesis unfolding run_op_def
    by (auto intro!: prog_spec_bind prog_spec_conseq [OF start_owned] prog_spec_pret)
next
  case Op_stop
  then show ?thesis unfolding run_op_def
    by (auto intro!: prog_spec_bind prog_spec_conseq [OF stop_owned] prog_spec_pret)
next
  case Op_get_time
  then show ?thesis unfolding run_op_def
    by (auto intro!: prog_spec_bind prog_spec_conseq [OF get_time_owned] prog_spec_pret)
qed

lemma run_ops_owned: "prog_spec (run_ops lib t ops) (\<lambda>t' cs ws. acquired cs + owned t = released cs + owned t')"
proof (induction ops arbitrary: t)
  case (Cons op ops)
  show ?case unfolding run_ops.simps
  proof (rule prog_spec_bind, rule prog_spec_conseq [OF run_op_owned])
    fix t' cs ws
    assume "acquired cs + owned t = released cs + owned t'"
    then show "prog_spec (run_ops lib t' ops)
        (\<lambda>y cs' ws'. acquired (cs @ cs') + owned t = released (cs @ cs') + owned y)"
      by (intro prog_spec_conseq [OF Cons.IH])
        (simp add: union_assoc, metis union_assoc union_commute)
  qed
qed (simp add: prog_spec_pret)

lemma timer_life_balanced:
  "prog_spec (timer_life lib clk data ops) (\<lambda>t cs ws. acquired cs = released cs \<and> owned t = {#})"
  unfolding timer_life_def
proof (rule prog_spec_bind, rule prog_spec_conseq [OF init_owned], clarify)
  fix ok t cs
  assume init: "acquired cs = released cs + owned t"
  have "prog_spec (if ok then run_ops lib t ops else pret t)
      (\<lambda>t' cs ws. acquired cs + owned t = released cs + owned t')"
    using run_ops_owned by (auto intro: prog_spec_pret)
  then show "prog_spec (pbind (if ok then run_ops lib t ops else pret t) (tl_destroy lib))
      (\<lambda>y cs' ws'. acquired (cs @ cs') = released (cs @ cs') \<and> owned y = {#})"
  proof (rule prog_spec_bind [OF prog_spec_conseq])
    fix t' cs1
    assume "acquired cs1 + owned t = released cs1 + owned t'"
    with init show "prog_spec (tl_destroy lib t') (\<lambda>y cs' ws'.
        acquired (cs @ cs1 @ cs') = released (cs @ cs1 @ cs') \<and> owned y = {#})"
      by (intro prog_spec_conseq [OF destroy_owned])
        (simp add: union_assoc, metis union_assoc union_commute)
  qed
qed

end

end
