(* ===== verification/Excimer_Timer.thy ===== *)
theory Excimer_Timer
  imports Pending_List Timer_Backend
begin

text \<open>
  The timer layer (\<^verbatim>\<open>excimer_timer.c\<close>): timers on top of a timerlib backend \<open>lib\<close>, events that the
  handler threads post to the pending list of a PHP thread, and the VM interrupt hook that delivers
  them. \<open>me\<close> is the running thread. The event callbacks are the parameter \<open>cb\<close> and foreign interrupt
  hooks the parameter \<open>hook\<close>: both are programs over the whole state.
\<close>

section \<open>State\<close>

datatype interrupt_hook = Hook_excimer_timer_interrupt | Hook_foreign nat

record 'tl tmodule = "'tl tstate" +
  zend_interrupt_function :: "interrupt_hook option"
  old_zend_interrupt_function :: "interrupt_hook option"

abbreviation upd_timer ::
  "addr \<Rightarrow> ('tl excimer_timer \<Rightarrow> 'tl excimer_timer) \<Rightarrow> ('tl, 'z) tstate_scheme \<Rightarrow> ('tl, 'z) tstate_scheme" where
  "upd_timer t f st \<equiv> st\<lparr>timers := (timers st)(t := f (timers st t))\<rparr>"

definition modify :: "('s \<Rightarrow> 's) \<Rightarrow> ('s, unit) prog" where
  "modify f s = Inr ((), f s)"

definition gets :: "('s \<Rightarrow> 'a) \<Rightarrow> ('s, 'a) prog" where
  "gets f s = Inr (f s, s)"

definition lift_st :: "('s \<Rightarrow> 's res) \<Rightarrow> ('s, unit) prog" where
  "lift_st f s = rbind (f s) (\<lambda>s'. Inr ((), s'))"

lemmas state_defs = modify_def gets_def lift_st_def

section \<open>Operations\<close>

definition excimer_timer_pending_dequeue ::
  "thread \<Rightarrow> (('tl, 'z) tstate_scheme, (addr \<times> zend_long) option) prog" where
  "excimer_timer_pending_dequeue me =
     pbind (excimer_mutex_lock (Tls_Mutex me)) (\<lambda>_.
     pbind (excimer_timer_list_dequeue me) (\<lambda>ret.
     pbind (case ret of
         Some t \<Rightarrow> pbind (gets (\<lambda>st. timer_event_count (timers st t))) (\<lambda>event_count.
                   pbind (modify (upd_timer t (timer_event_count_update (\<lambda>_. 0)))) (\<lambda>_.
                   pret (Some (t, event_count))))
       | None \<Rightarrow> pret None) (\<lambda>r.
     pbind (excimer_mutex_unlock (Tls_Mutex me)) (\<lambda>_. pret r))))"

definition excimer_timer_module_init :: "(('tl, 'z) tmodule_scheme, unit) prog" where
  "excimer_timer_module_init = modify (\<lambda>st. st
     \<lparr>old_zend_interrupt_function := zend_interrupt_function st,
      zend_interrupt_function := Some Hook_excimer_timer_interrupt\<rparr>)"

definition excimer_timer_thread_init :: "thread \<Rightarrow> (('tl, 'z) tstate_scheme, unit) prog" where
  "excimer_timer_thread_init me = modify (\<lambda>st. st
     \<lparr>tls_of := (tls_of st)(me := \<lparr>pending_head = None, timers_active = 0\<rparr>)\<rparr>)"

definition excimer_timer_thread_shutdown :: "thread \<Rightarrow> (('tl, 'z) tstate_scheme, unit) prog" where
  "excimer_timer_thread_shutdown me = pbind (gets (\<lambda>st. timers_active (tls_of st me))) (\<lambda>n.
     if n \<noteq> 0 then warn (Warning ''Timer still active at thread termination'')
     else excimer_mutex_destroy (Tls_Mutex me))"

text \<open>
  The \<^verbatim>\<open>memset\<close> also clears the backend's structure, which \<^verbatim>\<open>timerlib_timer_init\<close> overwrites in full.
\<close>

definition excimer_timer_init ::
  "('tl, ('tl, 'z) tstate_ext) timerlib \<Rightarrow> thread \<Rightarrow> addr \<Rightarrow> c_int \<Rightarrow> timer_callback \<Rightarrow> addr \<Rightarrow>
   (('tl, 'z) tstate_scheme, bool) prog" where
  "excimer_timer_init lib me t event_type cb data =
     pbind (modify (upd_timer t (\<lambda>old. \<lparr>is_valid = False, is_running = False, vm_interrupt_ptr = me,
       tl_timer = tl_timer old, callback = cb, user_data = data, pending_next = None, pending_prev = None,
       timer_event_count = 0, timer_tls = Some me\<rparr>))) (\<lambda>_.
     pbind (tl_init lib event_type t) (\<lambda>(ok, tl).
     pbind (modify (upd_timer t (tl_timer_update (\<lambda>_. tl)))) (\<lambda>_.
     if \<not> ok then
       pbind (tl_destroy lib tl) (\<lambda>tl'.
       pbind (modify (upd_timer t (tl_timer_update (\<lambda>_. tl')))) (\<lambda>_. pret False))
     else
       pbind (modify (\<lambda>st. st\<lparr>tls_of := (tls_of st)(me := (tls_of st me)
         \<lparr>timers_active := timers_active (tls_of st me) + 1\<rparr>)\<rparr>)) (\<lambda>_.
       pbind (modify (upd_timer t (is_valid_update (\<lambda>_. True) \<circ> is_running_update (\<lambda>_. False)))) (\<lambda>_.
       pret True)))))"

definition excimer_timer_start ::
  "('tl, ('tl, 'z) tstate_ext) timerlib \<Rightarrow> addr \<Rightarrow> timespec \<Rightarrow> timespec \<Rightarrow> (('tl, 'z) tstate_scheme, unit) prog" where
  "excimer_timer_start lib t period initial =
     pbind (gets (\<lambda>st. timers st t)) (\<lambda>tm.
     if \<not> is_valid tm then warn (Warning ''Unable to start uninitialised timer'')
     else
       let initial = (if timerlib_timespec_is_zero initial then period else initial)
       in if timerlib_timespec_is_zero initial then
            warn (Warning ''Unable to start timer with a value of zero duration and period'')
          else
            pbind (tl_start lib (tl_timer tm) period initial) (\<lambda>(ok, tl).
            pbind (modify (upd_timer t (tl_timer_update (\<lambda>_. tl)))) (\<lambda>_.
            if ok then modify (upd_timer t (is_running_update (\<lambda>_. True))) else pret ())))"

definition excimer_timer_stop ::
  "('tl, ('tl, 'z) tstate_ext) timerlib \<Rightarrow> addr \<Rightarrow> (('tl, 'z) tstate_scheme, unit) prog" where
  "excimer_timer_stop lib t =
     pbind (gets (\<lambda>st. timers st t)) (\<lambda>tm.
     if \<not> is_valid tm then warn (Warning ''Unable to start uninitialised timer'')
     else if is_running tm then
       pbind (tl_stop lib (tl_timer tm)) (\<lambda>(ok, tl).
       pbind (modify (upd_timer t (tl_timer_update (\<lambda>_. tl)))) (\<lambda>_.
       if ok then modify (upd_timer t (is_running_update (\<lambda>_. False))) else pret ()))
     else pret ())"

definition excimer_timer_destroy ::
  "('tl, ('tl, 'z) tstate_ext) timerlib \<Rightarrow> thread \<Rightarrow> addr \<Rightarrow> (('tl, 'z) tstate_scheme, unit) prog" where
  "excimer_timer_destroy lib me t =
     pbind (gets (\<lambda>st. timers st t)) (\<lambda>tm.
     if \<not> is_valid tm then pret ()
     else if timer_tls tm \<noteq> Some me then
       warn (Warning ''Cannot delete a timer belonging to a different thread'')
     else
       pbind
         (if is_running tm then
            pbind (modify (upd_timer t (is_running_update (\<lambda>_. False)))) (\<lambda>_.
            pbind (tl_stop lib (tl_timer tm)) (\<lambda>(ok, tl).
            modify (upd_timer t (tl_timer_update (\<lambda>_. tl)))))
          else pret ()) (\<lambda>_.
       pbind (gets (\<lambda>st. tl_timer (timers st t))) (\<lambda>tl.
       pbind (tl_destroy lib tl) (\<lambda>tl'.
       pbind (modify (upd_timer t (tl_timer_update (\<lambda>_. tl')))) (\<lambda>_.
       pbind (modify (\<lambda>st. st\<lparr>tls_of := (tls_of st)(me := (tls_of st me)
         \<lparr>timers_active := timers_active (tls_of st me) - 1\<rparr>)\<rparr>)) (\<lambda>_.
       pbind (excimer_mutex_lock (Tls_Mutex me)) (\<lambda>_.
       pbind (lift_st (excimer_timer_list_remove me t)) (\<lambda>_.
       pbind (excimer_mutex_unlock (Tls_Mutex me)) (\<lambda>_.
       modify (upd_timer t (is_valid_update (\<lambda>_. False) \<circ> timer_tls_update (\<lambda>_. None))))))))))))"

text \<open>
  The notify function, which runs in a handler thread: \<open>me\<close> is the handler thread, so that
  \<^verbatim>\<open>excimer_timer_tls\<close> is that thread's. The sum is computed at the width of \<^verbatim>\<open>int\<close>.
\<close>

definition excimer_timer_handle :: "thread \<Rightarrow> addr \<Rightarrow> c_int \<Rightarrow> (('tl, 'z) tstate_scheme, unit) prog" where
  "excimer_timer_handle me t overrun_count =
     pbind (excimer_mutex_lock (Tls_Mutex me)) (\<lambda>_.
     pbind (modify (upd_timer t (timer_event_count_update (\<lambda>n. n + scast (overrun_count + 1))))) (\<lambda>_.
     pbind (lift_st (excimer_timer_list_enqueue me t)) (\<lambda>_.
     pbind (excimer_mutex_unlock (Tls_Mutex me)) (\<lambda>_.
     modify (\<lambda>st. st\<lparr>vm_interrupt := (vm_interrupt st)(vm_interrupt_ptr (timers st t) := True)\<rparr>)))))"

text \<open>The delivery loop; it ends in \<open>Diverges\<close> when \<open>n\<close> rounds were not enough.\<close>

fun deliver_pending ::
  "(timer_callback \<Rightarrow> zend_long \<Rightarrow> addr \<Rightarrow> (('tl, 'z) tstate_scheme, unit) prog) \<Rightarrow> thread \<Rightarrow> nat \<Rightarrow>
   (('tl, 'z) tstate_scheme, unit) prog" where
  "deliver_pending cb me 0 = pfail Diverges"
| "deliver_pending cb me (Suc n) =
     pbind (excimer_timer_pending_dequeue me) (\<lambda>r. case r of
       None \<Rightarrow> pret ()
     | Some (t, event_count) \<Rightarrow>
         pbind (gets (\<lambda>st. timers st t)) (\<lambda>tm.
         pbind (cb (callback tm) event_count (user_data tm)) (\<lambda>_.
         deliver_pending cb me n)))"

definition excimer_timer_interrupt ::
  "(timer_callback \<Rightarrow> zend_long \<Rightarrow> addr \<Rightarrow> (('tl, 'z) tmodule_scheme, unit) prog) \<Rightarrow>
   (interrupt_hook \<Rightarrow> (('tl, 'z) tmodule_scheme, unit) prog) \<Rightarrow> thread \<Rightarrow>
   (('tl, 'z) tmodule_scheme, unit) prog" where
  "excimer_timer_interrupt cb hook me =
     pbind get_fuel (\<lambda>n.
     pbind (deliver_pending cb me n) (\<lambda>_.
     pbind (gets old_zend_interrupt_function) (\<lambda>old. case old of
       Some h \<Rightarrow> hook h
     | None \<Rightarrow> pret ())))"

definition excimer_timer_get_time ::
  "('tl, ('tl, 'z) tstate_ext) timerlib \<Rightarrow> addr \<Rightarrow> (('tl, 'z) tstate_scheme, timespec) prog" where
  "excimer_timer_get_time lib t =
     pbind (gets (\<lambda>st. timers st t)) (\<lambda>tm.
     if \<not> is_valid tm \<or> \<not> is_running tm then pret \<lparr>tv_sec = 0, tv_nsec = 0\<rparr>
     else pbind (tl_get_time lib (tl_timer tm)) (\<lambda>(ok, remaining). pret remaining))"

section \<open>The abstract event queue\<close>

text \<open>
  \<open>queued me D s q c\<close>: the timers of \<open>D\<close> pending for thread \<open>me\<close> are \<open>q\<close>, in order, \<open>c\<close> is the event
  count of every timer, and no library call fails from here on.
\<close>

definition queued :: "thread \<Rightarrow> addr set \<Rightarrow> ('tl, 'z) tstate_scheme \<Rightarrow> addr list \<Rightarrow> (addr \<Rightarrow> zend_long) \<Rightarrow> bool" where
  "queued me D s q c \<longleftrightarrow> pending_ring me D s q \<and> (\<forall>t. timer_event_count (timers s t) = c t) \<and>
     (\<forall>n. err (answers s n) = 0)"

text \<open>The fields of a timer that posting and delivering events leave alone.\<close>

definition core :: "'tl excimer_timer \<Rightarrow> 'tl excimer_timer" where
  "core t = t\<lparr>pending_next := None, pending_prev := None, timer_event_count := 0\<rparr>"

lemma core_sel [simp]:
  "is_valid (core t) = is_valid t" "is_running (core t) = is_running t"
  "vm_interrupt_ptr (core t) = vm_interrupt_ptr t" "tl_timer (core t) = tl_timer t"
  "callback (core t) = callback t" "user_data (core t) = user_data t" "timer_tls (core t) = timer_tls t"
  by (simp_all add: core_def)

definition event_frame :: "('tl, 'z) tstate_scheme \<Rightarrow> ('tl, 'z) tstate_scheme \<Rightarrow> bool" where
  "event_frame s s' \<longleftrightarrow> (\<forall>x. core (timers s' x) = core (timers s x)) \<and>
     (\<forall>th. timers_active (tls_of s' th) = timers_active (tls_of s th)) \<and>
     loop_fuel s' = loop_fuel s \<and> answers s' = answers s \<and> warnings s' = warnings s \<and> tstate.more s' = tstate.more s"

lemma event_frame_refl [simp]: "event_frame s s"
  by (simp add: event_frame_def)

lemma event_frame_trans: "event_frame a b \<Longrightarrow> event_frame b c \<Longrightarrow> event_frame a c"
  by (simp add: event_frame_def)

lemma event_frame_list: "list_frame me D s s' \<Longrightarrow> event_frame s s'"
proof -
  assume f: "list_frame me D s s'"
  have "core t = (unlinked t)\<lparr>timer_event_count := 0\<rparr>" for t :: "'a excimer_timer"
    by (simp add: core_def unlinked_def)
  with f show ?thesis using list_frameD [OF f] by (simp add: event_frame_def list_frame_def)
qed

lemma event_frame_logged [simp]: "event_frame s (logged c s)"
  by (simp add: event_frame_def logged_def)

lemma logged_sel [simp]:
  "timers (logged c s) = timers s" "tls_of (logged c s) = tls_of s" "vm_interrupt (logged c s) = vm_interrupt s"
  "tstate.more (logged c s) = tstate.more s"
  by (simp_all add: logged_def)

text \<open>The ring is a matter of the link fields and the head.\<close>

lemma pending_ring_cong:
  assumes "\<And>x. nx s' x = nx s x" "\<And>x. pv s' x = pv s x" "hd_ptr s' me = hd_ptr s me"
  shows "pending_ring me D s' q = pending_ring me D s q"
proof -
  have "nx s' = nx s" "pv s' = pv s" using assms(1,2) by (simp_all add: fun_eq_iff)
  then show ?thesis using assms unfolding pending_ring_def by simp
qed

lemma pending_ring_logged [simp]: "pending_ring me D (logged c s) q = pending_ring me D s q"
  by (rule pending_ring_cong) simp_all

lemma pending_ring_count [simp]:
  "pending_ring me D (upd_timer t (timer_event_count_update f) s) q = pending_ring me D s q"
  by (rule pending_ring_cong) simp_all

lemma pending_ring_interrupt [simp]: "pending_ring me D (s\<lparr>vm_interrupt := v\<rparr>) q = pending_ring me D s q"
  by (rule pending_ring_cong) simp_all

lemma handle_queued:
  assumes q: "queued me D s q c" and t: "t \<in> D"
  obtains s' where "excimer_timer_handle me t ov s = Inr ((), s')"
    "queued me D s' (add_key q t) (c(t := c t + scast (ov + 1)))" "event_frame s s'"
    "vm_interrupt s' (vm_interrupt_ptr (timers s t))"
proof -
  let ?s1 = "upd_timer t (timer_event_count_update (\<lambda>n. n + scast (ov + 1))) (logged (Mutex_lock (Tls_Mutex me)) s)"
  have "pending_ring me D ?s1 q" using q
    by (subst pending_ring_cong [where s = s]) (simp_all add: queued_def)
  then obtain s2 where s2: "excimer_timer_list_enqueue me t ?s1 = Inr s2" "pending_ring me D s2 (add_key q t)"
    "list_frame me D ?s1 s2" using t by (rule enqueue_ring)
  note f = list_frameD [OF s2(3)]
  let ?s3 = "logged (Mutex_unlock (Tls_Mutex me)) s2"
  let ?s' = "?s3\<lparr>vm_interrupt := (vm_interrupt ?s3)(vm_interrupt_ptr (timers ?s3 t) := True)\<rparr>"
  have run: "excimer_timer_handle me t ov s = Inr ((), ?s')"
    using q s2(1) f by (simp add: excimer_timer_handle_def prog_defs state_defs next_answer_def queued_def)
  show thesis
  proof (rule that [OF run])
    show "queued me D ?s' (add_key q t) (c(t := c t + scast (ov + 1)))"
      using s2(2) f q by (simp add: queued_def)
    have "event_frame s ?s1" by (simp add: event_frame_def core_def)
    moreover have "event_frame s2 ?s'" by (simp add: event_frame_def)
    ultimately show "event_frame s ?s'" using event_frame_list [OF s2(3)] event_frame_trans by blast
    show "vm_interrupt ?s' (vm_interrupt_ptr (timers s t))" using f by simp
  qed
qed

lemma dequeue_queued:
  assumes q: "queued me D s (h # r) c"
  obtains s' where "excimer_timer_pending_dequeue me s = Inr (Some (h, c h), s')"
    "queued me D s' r (c(h := 0))" "event_frame s s'"
proof -
  let ?s1 = "logged (Mutex_lock (Tls_Mutex me)) s"
  have "pending_ring me D ?s1 (h # r)" using q by (simp add: queued_def)
  then obtain s2 where s2: "excimer_timer_list_dequeue me ?s1 = Inr (Some h, s2)" "pending_ring me D s2 r"
    "list_frame me D ?s1 s2" by (rule dequeue_ring)
  note f = list_frameD [OF s2(3)]
  let ?s' = "logged (Mutex_unlock (Tls_Mutex me)) (upd_timer h (timer_event_count_update (\<lambda>_. 0)) s2)"
  have run: "excimer_timer_pending_dequeue me s = Inr (Some (h, c h), ?s')"
    using q s2(1) f by (simp add: excimer_timer_pending_dequeue_def prog_defs state_defs next_answer_def queued_def)
  show thesis
  proof (rule that [OF run])
    show "queued me D ?s' r (c(h := 0))" using s2(2) f q by (simp add: queued_def)
    have "event_frame s2 ?s'" by (simp add: event_frame_def core_def logged_def)
    then show "event_frame s ?s'" using event_frame_list [OF s2(3)] event_frame_trans event_frame_logged by blast
  qed
qed

lemma dequeue_queued_empty:
  assumes q: "queued me D s [] c"
  obtains s' where "excimer_timer_pending_dequeue me s = Inr (None, s')" "queued me D s' [] c" "event_frame s s'"
proof -
  let ?s1 = "logged (Mutex_lock (Tls_Mutex me)) s"
  have "excimer_timer_list_dequeue me ?s1 = Inr (None, ?s1)"
    using q by (intro dequeue_ring_empty [where D = D]) (simp add: queued_def)
  then have run: "excimer_timer_pending_dequeue me s = Inr (None, logged (Mutex_unlock (Tls_Mutex me)) ?s1)"
    using q by (simp add: excimer_timer_pending_dequeue_def prog_defs next_answer_def queued_def)
  show thesis by (rule that [OF run]) (use q in \<open>simp_all add: queued_def event_frame_def\<close>)
qed

section \<open>Interleavings of posting and delivering\<close>

text \<open>
  Handler threads post events and the PHP thread takes them, each under the mutex; any order of
  these critical sections is a run.
\<close>

datatype event_label = Fire addr c_int | Take "(addr \<times> zend_long) option"

inductive event_steps ::
  "thread \<Rightarrow> ('tl, 'z) tstate_scheme \<Rightarrow> event_label list \<Rightarrow> ('tl, 'z) tstate_scheme \<Rightarrow> bool" where
  finished: "event_steps me s [] s"
| fire: "excimer_timer_handle me t ov s = Inr ((), s') \<Longrightarrow> event_steps me s' ls s'' \<Longrightarrow>
     event_steps me s (Fire t ov # ls) s''"
| take: "excimer_timer_pending_dequeue me s = Inr (r, s') \<Longrightarrow> event_steps me s' ls s'' \<Longrightarrow>
     event_steps me s (Take r # ls) s''"

inductive_cases event_steps_NilE: "event_steps me s [] s'"
inductive_cases event_steps_FireE: "event_steps me s (Fire t ov # ls) s'"
inductive_cases event_steps_TakeE: "event_steps me s (Take r # ls) s'"

fun fired :: "addr \<Rightarrow> event_label list \<Rightarrow> zend_long" where
  "fired t [] = 0"
| "fired t (Fire t' ov # ls) = (if t' = t then scast (ov + 1) else 0) + fired t ls"
| "fired t (Take r # ls) = fired t ls"

fun delivered :: "addr \<Rightarrow> event_label list \<Rightarrow> zend_long" where
  "delivered t [] = 0"
| "delivered t (Take (Some (t', n)) # ls) = (if t' = t then n else 0) + delivered t ls"
| "delivered t (_ # ls) = delivered t ls"

fun targets :: "event_label list \<Rightarrow> addr set" where
  "targets [] = {}"
| "targets (Fire t ov # ls) = insert t (targets ls)"
| "targets (Take r # ls) = targets ls"

text \<open>A timer that is not pending has no events left to deliver.\<close>

definition counts_pending :: "addr set \<Rightarrow> addr list \<Rightarrow> (addr \<Rightarrow> zend_long) \<Rightarrow> bool" where
  "counts_pending D q c \<longleftrightarrow> (\<forall>t \<in> D. t \<notin> set q \<longrightarrow> c t = 0)"

lemma event_steps_conserve:
  assumes "event_steps me s ls s'" and "queued me D s q c" and "targets ls \<subseteq> D" and "counts_pending D q c"
  shows "\<exists>q' c'. queued me D s' q' c' \<and> counts_pending D q' c' \<and>
    (\<forall>t \<in> D. delivered t ls + c' t = c t + fired t ls) \<and> event_frame s s'"
  using assms
proof (induction arbitrary: q c rule: event_steps.induct)
  case (finished me s)
  then show ?case by auto
next
  case (fire me t ov s s' ls s'')
  have t: "t \<in> D" using fire.prems(2) by simp
  obtain s1 where s1: "excimer_timer_handle me t ov s = Inr ((), s1)"
    "queued me D s1 (add_key q t) (c(t := c t + scast (ov + 1)))" "event_frame s s1"
    using handle_queued [OF fire.prems(1) t] by metis
  let ?c = "c(t := c t + scast (ov + 1))"
  have s': "s' = s1" using s1(1) fire.hyps(1) by simp
  have "counts_pending D (add_key q t) ?c" using fire.prems(3) by (simp add: counts_pending_def)
  then obtain q' c' where "queued me D s'' q' c'" "counts_pending D q' c'" "event_frame s1 s''"
    "\<forall>x \<in> D. delivered x ls + c' x = ?c x + fired x ls"
    using fire.IH [of "add_key q t" ?c] s1(2) fire.prems(2) unfolding s' by (auto simp del: fun_upd_apply)
  moreover have "event_frame s s''" using calculation(3) s1(3) event_frame_trans by blast
  ultimately show ?case by (intro exI [of _ q'] exI [of _ c']) (auto simp: add.assoc)
next
  case (take me s r s' ls s'')
  show ?case
  proof (cases q)
    case Nil
    then obtain s1 where "excimer_timer_pending_dequeue me s = Inr (None, s1)" "queued me D s1 [] c" "event_frame s s1"
      using dequeue_queued_empty [of me D s c] take.prems(1) by metis
    then show ?thesis using take.IH [of "[]" c] take.hyps(1) take.prems Nil event_frame_trans by fastforce
  next
    case (Cons h w)
    then obtain s1 where s1: "excimer_timer_pending_dequeue me s = Inr (Some (h, c h), s1)"
      "queued me D s1 w (c(h := 0))" "event_frame s s1"
      using dequeue_queued [of me D s h w c] take.prems(1) by metis
    have "h \<in> D" "counts_pending D w (c(h := 0))"
      using take.prems(1,3) Cons pending_ringD(2) [of me D s q] by (auto simp: counts_pending_def queued_def)
    moreover have sr: "s' = s1" "r = Some (h, c h)" using s1(1) take.hyps(1) by simp_all
    ultimately obtain q' c' where "queued me D s'' q' c'" "counts_pending D q' c'" "event_frame s1 s''"
      "\<forall>x \<in> D. delivered x ls + c' x = (c(h := 0)) x + fired x ls"
      using take.IH [of w "c(h := 0)"] s1(2) take.prems(2) unfolding sr by (auto simp del: fun_upd_apply)
    moreover have "event_frame s s''" using calculation(3) s1(3) event_frame_trans by blast
    moreover note sr(2)
    ultimately show ?thesis by (intro exI [of _ q'] exI [of _ c']) (auto simp: add.assoc)
  qed
qed

section \<open>Properties\<close>

text \<open>C6 (safety): no timer event is lost or invented. For every interleaving of handler threads
  posting expirations and the PHP thread taking timers off its list, starting with nothing pending,
  the events delivered for a timer plus those still counted on it are the expirations posted for it
  (modulo the 64-bit count); once the list has been seen empty, everything posted has been delivered.\<close>

theorem timer_events_conserved:
  assumes "event_steps me s ls s'" and "queued me D s [] (\<lambda>_. 0)" and "targets ls \<subseteq> D" and "t \<in> D"
  shows "delivered t ls + timer_event_count (timers s' t) = fired t ls \<and>
    (excimer_timer_pending_dequeue me s' = Inr (None, s'') \<longrightarrow> delivered t ls = fired t ls)"
proof -
  obtain q c where q: "queued me D s' q c" "counts_pending D q c"
    and sum: "\<forall>t \<in> D. delivered t ls + c t = 0 + fired t ls"
    using event_steps_conserve [OF assms(1,2,3)] by (auto simp: counts_pending_def)
  have "q = []" if none: "excimer_timer_pending_dequeue me s' = Inr (None, s'')"
  proof (rule ccontr)
    assume "q \<noteq> []"
    then obtain h r where "queued me D s' (h # r) c" using q(1) by (metis list.exhaust)
    then show False by (rule dequeue_queued) (simp add: none)
  qed
  then show ?thesis using q sum assms(4) by (auto simp: queued_def counts_pending_def)
qed

lemma demo_queued: "queued 0 {1, 2, 3} demo_none_pending [] (\<lambda>_. 0)"
  using demo_ring_empty by (simp add: queued_def demo_none_pending_def demo_pending_def idle_timer_def)

theorem timer_events_conserved_witness:
  "\<exists>s'. event_steps 0 demo_none_pending [Fire 1 2, Fire 1 0, Take (Some (1, 4))] s' \<and>
     delivered 1 [Fire 1 2, Fire 1 0, Take (Some (1, 4))] + timer_event_count (timers s' 1) = 4"
proof -
  note q = demo_queued
  obtain s1 where h1: "excimer_timer_handle 0 1 2 demo_none_pending = Inr ((), s1)"
    and q1: "queued 0 {1, 2, 3} s1 [1] ((\<lambda>_. 0)(1 := 3))"
    using handle_queued [OF q, of 1 2] by (auto simp: add_key_def)
  obtain s2 where h2: "excimer_timer_handle 0 1 0 s1 = Inr ((), s2)"
    and q2: "queued 0 {1, 2, 3} s2 [1] ((\<lambda>_. 0)(1 := 4))"
    using handle_queued [OF q1, of 1 0] by (auto simp: add_key_def)
  obtain s3 where h3: "excimer_timer_pending_dequeue 0 s2 = Inr (Some (1, 4), s3)"
    using dequeue_queued [OF q2] by auto
  have "event_steps 0 demo_none_pending [Fire 1 2, Fire 1 0, Take (Some (1, 4))] s3"
    by (rule event_steps.fire [OF h1 event_steps.fire [OF h2 event_steps.take [OF h3 event_steps.finished]]])
  from timer_events_conserved [OF this q, of 1] this show ?thesis by auto
qed

end
