(* ===== verification/Php_Objects.thy ===== *)
theory Php_Objects
  imports Php_Log Excimer_Timer
begin

text \<open>
  The classes \<^verbatim>\<open>ExcimerProfiler\<close> and \<^verbatim>\<open>ExcimerTimer\<close> and the function \<^verbatim>\<open>excimer_set_timeout\<close> of
  \<^verbatim>\<open>excimer.c\<close>. Objects live in a heap with reference counts; a freed address is never used again,
  so that an access to a freed object is the fault \<open>Use_After_Free\<close>. The \<^verbatim>\<open>excimer_timer\<close> embedded in
  an object has the object's address. The methods are named \<open>zim_\<close> as the macro \<^verbatim>\<open>PHP_METHOD\<close> does,
  to tell them from the internal functions of the same name.
\<close>

section \<open>State\<close>

text \<open>A callback: unset, null, or a value of PHP.\<close>

datatype callback_zval = Z_UNDEF | Z_NULL | Z_VALUE nat

record profiler_obj =
  pr_period :: timespec
  pr_initial :: timespec
  pr_event_type :: zend_long
  pr_z_log :: addr
  pr_z_callback :: callback_zval
  pr_max_samples :: zend_long
  pr_need_reinit :: bool

record timer_obj =
  to_period :: timespec
  to_initial :: timespec
  to_event_type :: zend_long
  to_need_reinit :: bool
  to_z_callback :: callback_zval

text \<open>
  An object whose free handler is running is \<open>Obj_Freeing\<close> from the moment nothing is left of it but its callback: no
  reference to it exists any more, its storage is still allocated, and destroying the callback may run PHP code.
\<close>

datatype php_object = Obj_Profiler profiler_obj | Obj_Log log_obj | Obj_Timer timer_obj | Obj_Freeing callback_zval

text \<open>
  The argument of a user function: of a callback, or none, when a destructor is run. For a log object the record of
  calls keeps, beside the object, what it held at the call.
\<close>

datatype php_arg = Arg_Log addr excimer_log | Arg_Long zend_long | Arg_None

text \<open>
  The objects of class \<^verbatim>\<open>ExcimerLogEntry\<close>, the iterators of \<^verbatim>\<open>foreach\<close>, and the field \<^verbatim>\<open>z_current\<close> of the logs, which
  caches an entry. An observer records how many variables of PHP code hold an entry (\<open>entry_vars\<close>).
\<close>

record log_entry_obj =
  en_z_log :: "addr option"
  en_index :: zend_long

record iterator_obj =
  io_log :: addr
  io_current :: "addr option"
  io_index :: zend_long

record entry_heap =
  entry_objs :: "addr \<Rightarrow> log_entry_obj option"
  entry_count :: "addr \<Rightarrow> nat"
  next_entry :: addr
  log_current :: "addr \<Rightarrow> addr option"
  log_iterators :: "addr \<Rightarrow> iterator_obj option"
  next_iterator :: addr
  entry_vars :: "addr \<Rightarrow> nat"

text \<open>
  Objects and their reference counts, the running function, and what an observer records: the calls of
  user functions, and how many references to each log are held outside the profilers, by variables of PHP
  code and by the entry objects and iterators made from the log. No function of the extension reads these two.
\<close>

record 'tl php = "'tl tmodule" +
  objects :: "addr \<Rightarrow> php_object option"
  refcount :: "addr \<Rightarrow> nat"
  next_object :: addr
  current_execute_data :: call_stack
  user_calls :: "(callback_zval \<times> php_arg) list"
  php_refs :: "addr \<Rightarrow> nat"
  ents :: entry_heap

type_synonym ('tl, 'z) php_lib = "('tl, ('tl, 'z php_ext tmodule_ext) tstate_ext) timerlib"

text \<open>
  What the extension takes from the PHP engine and the hardware: rounding of floating-point results,
  the conversion of a double outside the range of \<^verbatim>\<open>uint64_t\<close>, which values are callable, calling one (and destroying what
  the call returns), and giving up a reference to one. The engine counts the references to a value: when the last one goes,
  the value is destroyed, and that can run PHP code, the destructor of an object that the value is or holds, which may call
  the extension. The counts themselves are in \<open>Callback_Memory\<close>; here giving up a reference is any program.
\<close>

record 's engine =
  fp_round :: "real \<Rightarrow> real"
  out_of_range_uint64 :: "real \<Rightarrow> uint64_t"
  is_callable :: "'s \<Rightarrow> nat \<Rightarrow> bool"
  call_user :: "nat \<Rightarrow> php_arg \<Rightarrow> ('s, unit) prog"
  release_value :: "nat \<Rightarrow> ('s, unit) prog"

definition callable :: "'s engine \<Rightarrow> 's \<Rightarrow> callback_zval \<Rightarrow> bool" where
  "callable eng s z = (case z of Z_VALUE v \<Rightarrow> is_callable eng s v | _ \<Rightarrow> False)"

text \<open>\<^verbatim>\<open>zval_ptr_dtor\<close> on a callback.\<close>

definition release_callback :: "'s engine \<Rightarrow> callback_zval \<Rightarrow> ('s, unit) prog" where
  "release_callback eng z = (case z of Z_VALUE v \<Rightarrow> release_value eng v | _ \<Rightarrow> pret ())"

definition double_to_uint64 :: "'s engine \<Rightarrow> real \<Rightarrow> uint64_t" where
  "double_to_uint64 eng x =
     (if - 1 < x \<and> x < 2 ^ 64 then (if x < 0 then 0 else word_of_int \<lfloor>x\<rfloor>) else out_of_range_uint64 eng x)"

section \<open>The heap\<close>

definition zero_log :: excimer_log where
  "zero_log = \<lparr>entries = [], entries_size = 0, frames = [], frames_size = 0, reverse_frames = [],
     max_depth = 0, epoch = 0, period = 0, log_event_count = 0\<rparr>"

definition zero_profiler :: profiler_obj where
  "zero_profiler = \<lparr>pr_period = \<lparr>tv_sec = 0, tv_nsec = 0\<rparr>, pr_initial = \<lparr>tv_sec = 0, tv_nsec = 0\<rparr>,
     pr_event_type = 0, pr_z_log = 0, pr_z_callback = Z_UNDEF, pr_max_samples = 0, pr_need_reinit = False\<rparr>"

definition zero_timer_obj :: timer_obj where
  "zero_timer_obj = \<lparr>to_period = \<lparr>tv_sec = 0, tv_nsec = 0\<rparr>, to_initial = \<lparr>tv_sec = 0, tv_nsec = 0\<rparr>,
     to_event_type = 0, to_need_reinit = False, to_z_callback = Z_UNDEF\<rparr>"

definition zeroed :: "'tl excimer_timer \<Rightarrow> 'tl excimer_timer" where
  "zeroed t = t\<lparr>is_valid := False, is_running := False, pending_next := None, pending_prev := None,
     timer_event_count := 0, timer_tls := None\<rparr>"

text \<open>\<^verbatim>\<open>excimer_object_alloc_init\<close>: zeroed storage, of which the embedded timer is part, with one reference.\<close>

definition excimer_object_alloc_init :: "php_object \<Rightarrow> (('tl, 'z) php_scheme, addr) prog" where
  "excimer_object_alloc_init ob =
     pbind (gets next_object) (\<lambda>a.
     pbind (modify (\<lambda>s. s\<lparr>objects := (objects s)(a \<mapsto> ob), refcount := (refcount s)(a := 1),
       next_object := Suc a\<rparr>)) (\<lambda>_.
     pbind (modify (upd_timer a zeroed)) (\<lambda>_.
     pret a)))"

text \<open>\<^verbatim>\<open>EXCIMER_OBJ\<close>: null for an object of another class, which the callers then dereference.\<close>

definition check_object :: "(php_object \<Rightarrow> 'a option) \<Rightarrow> addr \<Rightarrow> (('tl, 'z) php_scheme, 'a) prog" where
  "check_object sel a s = (case objects s a of
     None \<Rightarrow> Inl Use_After_Free
   | Some ob \<Rightarrow> (case sel ob of None \<Rightarrow> Inl Null_Deref | Some x \<Rightarrow> Inr (x, s)))"

fun as_profiler :: "php_object \<Rightarrow> profiler_obj option" where
  "as_profiler (Obj_Profiler x) = Some x"
| "as_profiler _ = None"

fun as_log :: "php_object \<Rightarrow> log_obj option" where
  "as_log (Obj_Log x) = Some x"
| "as_log _ = None"

fun as_timer :: "php_object \<Rightarrow> timer_obj option" where
  "as_timer (Obj_Timer x) = Some x"
| "as_timer _ = None"

fun as_freeing :: "php_object \<Rightarrow> callback_zval option" where
  "as_freeing (Obj_Freeing x) = Some x"
| "as_freeing _ = None"

abbreviation get_profiler :: "addr \<Rightarrow> (('tl, 'z) php_scheme, profiler_obj) prog" where
  "get_profiler \<equiv> check_object as_profiler"

abbreviation get_log :: "addr \<Rightarrow> (('tl, 'z) php_scheme, log_obj) prog" where
  "get_log \<equiv> check_object as_log"

abbreviation get_timer_obj :: "addr \<Rightarrow> (('tl, 'z) php_scheme, timer_obj) prog" where
  "get_timer_obj \<equiv> check_object as_timer"

definition put_object :: "addr \<Rightarrow> php_object \<Rightarrow> (('tl, 'z) php_scheme, unit) prog" where
  "put_object a ob = modify (\<lambda>s. s\<lparr>objects := (objects s)(a \<mapsto> ob)\<rparr>)"

definition set_profiler :: "addr \<Rightarrow> (profiler_obj \<Rightarrow> profiler_obj) \<Rightarrow> (('tl, 'z) php_scheme, unit) prog" where
  "set_profiler a f = pbind (get_profiler a) (\<lambda>x. put_object a (Obj_Profiler (f x)))"

definition set_log :: "addr \<Rightarrow> (excimer_log \<Rightarrow> excimer_log) \<Rightarrow> (('tl, 'z) php_scheme, unit) prog" where
  "set_log a f = pbind (get_log a) (\<lambda>x. put_object a (Obj_Log (x\<lparr>obj_log := f (obj_log x)\<rparr>)))"

definition set_timer_obj :: "addr \<Rightarrow> (timer_obj \<Rightarrow> timer_obj) \<Rightarrow> (('tl, 'z) php_scheme, unit) prog" where
  "set_timer_obj a f = pbind (get_timer_obj a) (\<lambda>x. put_object a (Obj_Timer (f x)))"

text \<open>
  In the free handlers, the last two steps: the callback is destroyed, with PHP code of its destructor running, and then
  the field is overwritten, in storage that has to be still there.
\<close>

definition destroy_callback :: "('tl, 'z) php_scheme engine \<Rightarrow> addr \<Rightarrow> callback_zval \<Rightarrow> (('tl, 'z) php_scheme, unit) prog" where
  "destroy_callback eng a z =
     pbind (put_object a (Obj_Freeing z)) (\<lambda>_.
     pbind (release_callback eng z) (\<lambda>_.
     pbind (check_object as_freeing a) (\<lambda>_.
     put_object a (Obj_Freeing Z_UNDEF))))"

definition addref :: "addr \<Rightarrow> (('tl, 'z) php_scheme, unit) prog" where
  "addref a = modify (\<lambda>s. s\<lparr>refcount := (refcount s)(a := Suc (refcount s a))\<rparr>)"

definition delref :: "addr \<Rightarrow> (('tl, 'z) php_scheme, unit) prog" where
  "delref a = modify (\<lambda>s. s\<lparr>refcount := (refcount s)(a := refcount s a - 1)\<rparr>)"

text \<open>The storage of an object whose last reference is gone.\<close>

definition free_storage :: "addr \<Rightarrow> (('tl, 'z) php_scheme, unit) prog" where
  "free_storage a = modify (\<lambda>s. s\<lparr>objects := (objects s)(a := None)\<rparr>)"

text \<open>
  \<^verbatim>\<open>zval_ptr_dtor\<close> on a log: the last reference frees the log (\<^verbatim>\<open>ExcimerLog_free_object\<close>). The field \<^verbatim>\<open>z_current\<close>, which
  the free handler releases too, is null then: an entry it cached would hold a reference to the log
  (\<open>cached_entry_keeps_log\<close>).
\<close>

definition release_log :: "addr \<Rightarrow> (('tl, 'z) php_scheme, unit) prog" where
  "release_log a =
     pbind (get_log a) (\<lambda>_.
     pbind (delref a) (\<lambda>_.
     pbind (gets (\<lambda>s. refcount s a)) (\<lambda>n.
     if n = 0 then free_storage a else pret ())))"

text \<open>
  A reference to a log that goes to a holder outside the profilers, and one that is given back; only the
  observer's count changes.
\<close>

definition hand_over :: "addr \<Rightarrow> (('tl, 'z) php_scheme, unit) prog" where
  "hand_over a = modify (\<lambda>s. s\<lparr>php_refs := (php_refs s)(a := Suc (php_refs s a))\<rparr>)"

definition take_back :: "addr \<Rightarrow> (('tl, 'z) php_scheme, unit) prog" where
  "take_back a = modify (\<lambda>s. s\<lparr>php_refs := (php_refs s)(a := php_refs s a - 1)\<rparr>)"

section \<open>ExcimerProfiler\<close>

definition EXCIMER_REAL :: zend_long where
  "EXCIMER_REAL = 0"

definition EXCIMER_CPU :: zend_long where
  "EXCIMER_CPU = 1"

text \<open>\<open>rnd\<close> is the value of \<^verbatim>\<open>php_mt_rand()\<close>: the first period is staggered.\<close>

definition staggered :: "'s engine \<Rightarrow> uint32_t \<Rightarrow> real \<Rightarrow> real" where
  "staggered eng rnd per =
     fp_round eng (fp_round eng (real (unat rnd) * per) / 4294967295)"

definition period_ns :: "'s engine \<Rightarrow> real \<Rightarrow> uint64_t" where
  "period_ns eng per = double_to_uint64 eng (fp_round eng (per * 1000000000))"

definition ExcimerProfiler_new ::
  "('tl, 'z) php_lib \<Rightarrow> ('tl, 'z) php_scheme engine \<Rightarrow> zend_long \<Rightarrow> uint32_t \<Rightarrow> (('tl, 'z) php_scheme, addr) prog" where
  "ExcimerProfiler_new lib eng default_max_depth rnd =
     pbind (excimer_object_alloc_init (Obj_Profiler zero_profiler)) (\<lambda>p.
     pbind (tl_clock_get_time lib TIMERLIB_REAL) (\<lambda>(_, now_ts).
     pbind (excimer_object_alloc_init (Obj_Log (ExcimerLog_new zero_log))) (\<lambda>l.
     pbind (set_profiler p (pr_z_log_update (\<lambda>_. l))) (\<lambda>_.
     pbind (set_log l (max_depth_update (\<lambda>_. default_max_depth))) (\<lambda>_.
     pbind (set_log l (epoch_update (\<lambda>_. timerlib_timespec_to_ns now_ts))) (\<lambda>_.
     let per = fp_round eng (1 / 10); initial = staggered eng rnd per
     in
     pbind (set_profiler p (\<lambda>pr. pr\<lparr>pr_z_callback := Z_NULL, pr_event_type := EXCIMER_REAL, pr_need_reinit := True,
       pr_initial := timerlib_timespec_from_double (fp_round eng) initial,
       pr_period := timerlib_timespec_from_double (fp_round eng) per\<rparr>)) (\<lambda>_.
     pbind (set_log l (period_update (\<lambda>_. period_ns eng per))) (\<lambda>_.
     pret p))))))))"

definition ExcimerProfiler_start ::
  "('tl, 'z) php_lib \<Rightarrow> thread \<Rightarrow> addr \<Rightarrow> (('tl, 'z) php_scheme, unit) prog" where
  "ExcimerProfiler_start lib me p =
     pbind (get_profiler p) (\<lambda>pr.
     pbind (gets (\<lambda>s. is_valid (timers s p))) (\<lambda>v.
     pbind
       (if pr_need_reinit pr \<or> \<not> v then
          pbind (if v then excimer_timer_destroy lib me p else pret ()) (\<lambda>_.
          pbind (excimer_timer_init lib me p (ucast (pr_event_type pr)) Profiler_callback p) (\<lambda>ok.
          if ok then pbind (set_profiler p (pr_need_reinit_update (\<lambda>_. False))) (\<lambda>_. pret True) else pret False))
        else pret True) (\<lambda>ok.
     if ok then excimer_timer_start lib p (pr_period pr) (pr_initial pr) else pret ())))"

definition ExcimerProfiler_stop :: "('tl, 'z) php_lib \<Rightarrow> addr \<Rightarrow> (('tl, 'z) php_scheme, unit) prog" where
  "ExcimerProfiler_stop lib p =
     pbind (get_profiler p) (\<lambda>_.
     pbind (gets (\<lambda>s. is_valid (timers s p))) (\<lambda>v.
     if v then excimer_timer_stop lib p else pret ()))"

text \<open>Calling a user function: the argument holds a reference for the duration of the call.\<close>

definition call_function ::
  "('tl, 'z) php_scheme engine \<Rightarrow> callback_zval \<Rightarrow> php_arg \<Rightarrow> (('tl, 'z) php_scheme, unit) prog" where
  "call_function eng z arg =
     pbind (modify (\<lambda>s. s\<lparr>user_calls := user_calls s @ [(z, arg)]\<rparr>)) (\<lambda>_.
     case z of Z_VALUE v \<Rightarrow> call_user eng v arg | _ \<Rightarrow> pret ())"

text \<open>The rotation of the log, and the whole function, which returns the old log.\<close>

definition rotate_log :: "addr \<Rightarrow> (('tl, 'z) php_scheme, addr) prog" where
  "rotate_log p =
     pbind (get_profiler p) (\<lambda>pr. let old = pr_z_log pr in
     pbind (get_log old) (\<lambda>_.
     pbind (addref old) (\<lambda>_.
     pbind (delref old) (\<lambda>_.
     pbind (excimer_object_alloc_init (Obj_Log (ExcimerLog_new zero_log))) (\<lambda>l.
     pbind (set_profiler p (pr_z_log_update (\<lambda>_. l))) (\<lambda>_.
     pbind (get_log old) (\<lambda>lo.
     pbind (set_log l (\<lambda>lg. excimer_log_copy_options lg (obj_log lo))) (\<lambda>_.
     pret old))))))))"

definition ExcimerProfiler_flush ::
  "('tl, 'z) php_lib \<Rightarrow> ('tl, 'z) php_scheme engine \<Rightarrow> addr \<Rightarrow> (('tl, 'z) php_scheme, addr) prog" where
  "ExcimerProfiler_flush lib eng p =
     pbind (rotate_log p) (\<lambda>old.
     pbind (get_profiler p) (\<lambda>pr.
     if pr_z_callback pr = Z_NULL then pret old
     else pbind (gets (\<lambda>s. callable eng s (pr_z_callback pr))) (\<lambda>c.
       if \<not> c then
         pbind (warn (Warning ''ExcimerProfiler callback is not callable (during event)'')) (\<lambda>_.
         pbind (ExcimerProfiler_stop lib p) (\<lambda>_. pret old))
       else
         pbind (get_log old) (\<lambda>lo.
         pbind (addref old) (\<lambda>_.
         pbind (call_function eng (pr_z_callback pr) (Arg_Log old (obj_log lo))) (\<lambda>_.
         pbind (release_log old) (\<lambda>_. pret old)))))))"

definition ExcimerProfiler_event ::
  "('tl, 'z) php_lib \<Rightarrow> ('tl, 'z) php_scheme engine \<Rightarrow> zend_long \<Rightarrow> addr \<Rightarrow> (('tl, 'z) php_scheme, unit) prog" where
  "ExcimerProfiler_event lib eng event_count p =
     pbind (get_profiler p) (\<lambda>pr. let l = pr_z_log pr in
     pbind (get_log l) (\<lambda>lo.
     pbind (tl_clock_get_time lib TIMERLIB_REAL) (\<lambda>(_, now_ts).
     pbind (gets current_execute_data) (\<lambda>stk.
     case excimer_log_add (obj_log lo) stk event_count (timerlib_timespec_to_ns now_ts) of
       Inl e \<Rightarrow> pfail e
     | Inr lg \<Rightarrow>
         pbind (put_object l (Obj_Log (lo\<lparr>obj_log := lg\<rparr>))) (\<lambda>_.
         if pr_max_samples pr \<noteq> 0 \<and> pr_max_samples pr \<le> entries_size lg then
           pbind (ExcimerProfiler_flush lib eng p) (\<lambda>old. release_log old)
         else pret ())))))"

definition ExcimerProfiler_free_object ::
  "('tl, 'z) php_lib \<Rightarrow> ('tl, 'z) php_scheme engine \<Rightarrow> thread \<Rightarrow> addr \<Rightarrow> (('tl, 'z) php_scheme, unit) prog" where
  "ExcimerProfiler_free_object lib eng me p =
     pbind (get_profiler p) (\<lambda>pr.
     pbind (gets (\<lambda>s. is_valid (timers s p))) (\<lambda>v.
     pbind (if v then excimer_timer_destroy lib me p else pret ()) (\<lambda>_.
     pbind (release_log (pr_z_log pr)) (\<lambda>_.
     destroy_callback eng p (pr_z_callback pr)))))"

definition ExcimerProfiler_dtor ::
  "('tl, 'z) php_lib \<Rightarrow> ('tl, 'z) php_scheme engine \<Rightarrow> addr \<Rightarrow> (('tl, 'z) php_scheme, unit) prog" where
  "ExcimerProfiler_dtor lib eng p =
     pbind (get_profiler p) (\<lambda>pr.
     pbind (get_log (pr_z_log pr)) (\<lambda>lo.
     if entries_size (obj_log lo) \<noteq> 0 then
       pbind (ExcimerProfiler_flush lib eng p) (\<lambda>old. release_log old)
     else pret ()))"

section \<open>Methods of ExcimerProfiler\<close>

definition zim_ExcimerProfiler_setPeriod ::
  "('tl, 'z) php_scheme engine \<Rightarrow> uint32_t \<Rightarrow> addr \<Rightarrow> real \<Rightarrow> (('tl, 'z) php_scheme, unit) prog" where
  "zim_ExcimerProfiler_setPeriod eng rnd p per =
     pbind (set_profiler p (\<lambda>pr. pr\<lparr>pr_period := timerlib_timespec_from_double (fp_round eng) per,
       pr_initial := timerlib_timespec_from_double (fp_round eng) (staggered eng rnd per)\<rparr>)) (\<lambda>_.
     pbind (get_profiler p) (\<lambda>pr.
     set_log (pr_z_log pr) (period_update (\<lambda>_. period_ns eng per))))"

definition zim_ExcimerProfiler_setEventType ::
  "addr \<Rightarrow> zend_long \<Rightarrow> (('tl, 'z) php_scheme, unit) prog" where
  "zim_ExcimerProfiler_setEventType p event_type =
     (if event_type \<noteq> EXCIMER_CPU \<and> event_type \<noteq> EXCIMER_REAL then warn (Warning ''Invalid event type'')
      else set_profiler p (\<lambda>pr. pr\<lparr>pr_event_type := event_type, pr_need_reinit := True\<rparr>))"

definition zim_ExcimerProfiler_setMaxDepth ::
  "addr \<Rightarrow> zend_long \<Rightarrow> (('tl, 'z) php_scheme, unit) prog" where
  "zim_ExcimerProfiler_setMaxDepth p depth =
     pbind (get_profiler p) (\<lambda>pr. set_log (pr_z_log pr) (\<lambda>lg. excimer_log_set_max_depth lg depth))"

definition zim_ExcimerProfiler_setFlushCallback ::
  "('tl, 'z) php_scheme engine \<Rightarrow> addr \<Rightarrow> callback_zval \<Rightarrow> zend_long \<Rightarrow> (('tl, 'z) php_scheme, unit) prog" where
  "zim_ExcimerProfiler_setFlushCallback eng p z max_samples =
     pbind (gets (\<lambda>s. callable eng s z)) (\<lambda>c.
     if \<not> c then warn (Warning ''flush callback is not callable'')
     else set_profiler p (\<lambda>pr. pr\<lparr>pr_z_callback := z, pr_max_samples := max_samples\<rparr>))"

definition zim_ExcimerProfiler_clearFlushCallback ::
  "('tl, 'z) php_scheme engine \<Rightarrow> addr \<Rightarrow> (('tl, 'z) php_scheme, unit) prog" where
  "zim_ExcimerProfiler_clearFlushCallback eng p =
     pbind (get_profiler p) (\<lambda>pr.
     pbind (release_callback eng (pr_z_callback pr)) (\<lambda>_.
     set_profiler p (\<lambda>pr. pr\<lparr>pr_z_callback := Z_NULL, pr_max_samples := 0\<rparr>)))"

definition zim_ExcimerProfiler_start ::
  "('tl, 'z) php_lib \<Rightarrow> thread \<Rightarrow> addr \<Rightarrow> (('tl, 'z) php_scheme, unit) prog" where
  "zim_ExcimerProfiler_start lib me p =
     pbind (get_profiler p) (\<lambda>_.
     pbind (gets (\<lambda>s. is_running (timers s p))) (\<lambda>r.
     pbind (if r then ExcimerProfiler_stop lib p else pret ()) (\<lambda>_.
     ExcimerProfiler_start lib me p)))"

definition zim_ExcimerProfiler_stop :: "('tl, 'z) php_lib \<Rightarrow> addr \<Rightarrow> (('tl, 'z) php_scheme, unit) prog" where
  "zim_ExcimerProfiler_stop lib p = ExcimerProfiler_stop lib p"

definition zim_ExcimerProfiler_getLog :: "addr \<Rightarrow> (('tl, 'z) php_scheme, addr) prog" where
  "zim_ExcimerProfiler_getLog p =
     pbind (get_profiler p) (\<lambda>pr. pbind (addref (pr_z_log pr)) (\<lambda>_. pret (pr_z_log pr)))"

definition zim_ExcimerProfiler_flush ::
  "('tl, 'z) php_lib \<Rightarrow> ('tl, 'z) php_scheme engine \<Rightarrow> addr \<Rightarrow> (('tl, 'z) php_scheme, addr) prog" where
  "zim_ExcimerProfiler_flush lib eng p = ExcimerProfiler_flush lib eng p"

section \<open>ExcimerTimer\<close>

definition ExcimerTimer_new :: "(('tl, 'z) php_scheme, addr) prog" where
  "ExcimerTimer_new =
     pbind (excimer_object_alloc_init (Obj_Timer zero_timer_obj)) (\<lambda>a.
     pbind (set_timer_obj a (\<lambda>t. t\<lparr>to_z_callback := Z_UNDEF, to_event_type := EXCIMER_REAL, to_need_reinit := True\<rparr>))
       (\<lambda>_. pret a))"

definition ExcimerTimer_free_object ::
  "('tl, 'z) php_lib \<Rightarrow> ('tl, 'z) php_scheme engine \<Rightarrow> thread \<Rightarrow> addr \<Rightarrow> (('tl, 'z) php_scheme, unit) prog" where
  "ExcimerTimer_free_object lib eng me a =
     pbind (get_timer_obj a) (\<lambda>to.
     pbind (gets (\<lambda>s. is_valid (timers s a))) (\<lambda>v.
     pbind (if v then excimer_timer_destroy lib me a else pret ()) (\<lambda>_.
     destroy_callback eng a (to_z_callback to))))"

text \<open>\<^verbatim>\<open>zval_ptr_dtor\<close> on a timer object.\<close>

definition release_timer_obj ::
  "('tl, 'z) php_lib \<Rightarrow> ('tl, 'z) php_scheme engine \<Rightarrow> thread \<Rightarrow> addr \<Rightarrow> (('tl, 'z) php_scheme, unit) prog" where
  "release_timer_obj lib eng me a =
     pbind (get_timer_obj a) (\<lambda>_.
     pbind (delref a) (\<lambda>_.
     pbind (gets (\<lambda>s. refcount s a)) (\<lambda>n.
     if n = 0 then pbind (ExcimerTimer_free_object lib eng me a) (\<lambda>_. free_storage a) else pret ())))"

definition ExcimerTimer_set_callback ::
  "('tl, 'z) php_scheme engine \<Rightarrow> addr \<Rightarrow> callback_zval \<Rightarrow> (('tl, 'z) php_scheme, bool) prog" where
  "ExcimerTimer_set_callback eng a z =
     pbind (gets (\<lambda>s. callable eng s z)) (\<lambda>c.
     if \<not> c then pbind (warn (Warning ''timer callback is not callable'')) (\<lambda>_. pret False)
     else pbind (get_timer_obj a) (\<lambda>to.
       pbind (release_callback eng (to_z_callback to)) (\<lambda>_.
       pbind (set_timer_obj a (to_z_callback_update (\<lambda>_. z))) (\<lambda>_. pret True))))"

definition ExcimerTimer_start ::
  "('tl, 'z) php_lib \<Rightarrow> thread \<Rightarrow> addr \<Rightarrow> (('tl, 'z) php_scheme, unit) prog" where
  "ExcimerTimer_start lib me a =
     pbind (get_timer_obj a) (\<lambda>to.
     pbind (gets (\<lambda>s. is_valid (timers s a))) (\<lambda>v.
     pbind
       (if to_need_reinit to \<or> \<not> v then
          pbind (if v then excimer_timer_destroy lib me a else pret ()) (\<lambda>_.
          pbind (excimer_timer_init lib me a (ucast (to_event_type to)) Timer_callback a) (\<lambda>ok.
          if ok then pbind (set_timer_obj a (to_need_reinit_update (\<lambda>_. False))) (\<lambda>_. pret True) else pret False))
        else pret True) (\<lambda>ok.
     if ok then excimer_timer_start lib a (to_period to) (to_initial to) else pret ())))"

definition ExcimerTimer_stop :: "('tl, 'z) php_lib \<Rightarrow> addr \<Rightarrow> (('tl, 'z) php_scheme, unit) prog" where
  "ExcimerTimer_stop lib a =
     pbind (get_timer_obj a) (\<lambda>_.
     pbind (gets (\<lambda>s. is_valid (timers s a))) (\<lambda>v.
     if v then excimer_timer_stop lib a else pret ()))"

definition ExcimerTimer_event ::
  "('tl, 'z) php_lib \<Rightarrow> ('tl, 'z) php_scheme engine \<Rightarrow> zend_long \<Rightarrow> addr \<Rightarrow> (('tl, 'z) php_scheme, unit) prog" where
  "ExcimerTimer_event lib eng event_count a =
     pbind (get_timer_obj a) (\<lambda>to.
     if to_z_callback to = Z_NULL \<or> to_z_callback to = Z_UNDEF then pret ()
     else pbind (gets (\<lambda>s. callable eng s (to_z_callback to))) (\<lambda>c.
       if \<not> c then
         pbind (warn (Warning ''ExcimerTimer callback is not callable (during event)'')) (\<lambda>_.
         ExcimerTimer_stop lib a)
       else call_function eng (to_z_callback to) (Arg_Long event_count)))"

definition zim_ExcimerTimer_setEventType :: "addr \<Rightarrow> zend_long \<Rightarrow> (('tl, 'z) php_scheme, unit) prog" where
  "zim_ExcimerTimer_setEventType a event_type =
     (if event_type \<noteq> EXCIMER_CPU \<and> event_type \<noteq> EXCIMER_REAL then warn (Warning ''Invalid event type'')
      else set_timer_obj a (\<lambda>t. t\<lparr>to_event_type := event_type, to_need_reinit := True\<rparr>))"

definition zim_ExcimerTimer_setInterval ::
  "('tl, 'z) php_scheme engine \<Rightarrow> addr \<Rightarrow> real \<Rightarrow> (('tl, 'z) php_scheme, unit) prog" where
  "zim_ExcimerTimer_setInterval eng a initial =
     set_timer_obj a (to_initial_update (\<lambda>_. timerlib_timespec_from_double (fp_round eng) initial))"

definition zim_ExcimerTimer_setPeriod ::
  "('tl, 'z) php_scheme engine \<Rightarrow> addr \<Rightarrow> real \<Rightarrow> (('tl, 'z) php_scheme, unit) prog" where
  "zim_ExcimerTimer_setPeriod eng a per =
     set_timer_obj a (to_period_update (\<lambda>_. timerlib_timespec_from_double (fp_round eng) per))"

definition zim_ExcimerTimer_setCallback ::
  "('tl, 'z) php_scheme engine \<Rightarrow> addr \<Rightarrow> callback_zval \<Rightarrow> (('tl, 'z) php_scheme, unit) prog" where
  "zim_ExcimerTimer_setCallback eng a z =
     (if z = Z_NULL then
        pbind (get_timer_obj a) (\<lambda>to.
        pbind (release_callback eng (to_z_callback to)) (\<lambda>_.
        set_timer_obj a (to_z_callback_update (\<lambda>_. Z_NULL))))
      else pbind (ExcimerTimer_set_callback eng a z) (\<lambda>_. pret ()))"

definition zim_ExcimerTimer_start ::
  "('tl, 'z) php_lib \<Rightarrow> thread \<Rightarrow> addr \<Rightarrow> (('tl, 'z) php_scheme, unit) prog" where
  "zim_ExcimerTimer_start lib me a =
     pbind (get_timer_obj a) (\<lambda>_.
     pbind (gets (\<lambda>s. is_running (timers s a))) (\<lambda>r.
     pbind (if r then ExcimerTimer_stop lib a else pret ()) (\<lambda>_.
     ExcimerTimer_start lib me a)))"

definition zim_ExcimerTimer_stop :: "('tl, 'z) php_lib \<Rightarrow> addr \<Rightarrow> (('tl, 'z) php_scheme, unit) prog" where
  "zim_ExcimerTimer_stop lib a = ExcimerTimer_stop lib a"

definition zim_ExcimerTimer_getTime ::
  "('tl, 'z) php_lib \<Rightarrow> ('tl, 'z) php_scheme engine \<Rightarrow> addr \<Rightarrow> (('tl, 'z) php_scheme, real) prog" where
  "zim_ExcimerTimer_getTime lib eng a =
     pbind (get_timer_obj a) (\<lambda>_.
     pbind (excimer_timer_get_time lib a) (\<lambda>ts.
     pret (timerlib_timespec_to_double (fp_round eng) ts)))"

text \<open>\<open>None\<close> is the return value null.\<close>

definition excimer_set_timeout ::
  "('tl, 'z) php_lib \<Rightarrow> ('tl, 'z) php_scheme engine \<Rightarrow> thread \<Rightarrow> callback_zval \<Rightarrow> real \<Rightarrow>
   (('tl, 'z) php_scheme, addr option) prog" where
  "excimer_set_timeout lib eng me z initial =
     pbind ExcimerTimer_new (\<lambda>a.
     pbind (ExcimerTimer_set_callback eng a z) (\<lambda>ok.
     pbind (if ok then pret (Some a) else pbind (release_timer_obj lib eng me a) (\<lambda>_. pret None)) (\<lambda>ret.
     pbind (set_timer_obj a (to_initial_update (\<lambda>_. timerlib_timespec_from_double (fp_round eng) initial))) (\<lambda>_.
     pbind (ExcimerTimer_start lib me a) (\<lambda>_. pret ret)))))"

text \<open>The event callbacks as the interrupt hook calls them.\<close>

definition event_callback ::
  "('tl, 'z) php_lib \<Rightarrow> ('tl, 'z) php_scheme engine \<Rightarrow> timer_callback \<Rightarrow> zend_long \<Rightarrow> addr \<Rightarrow>
   (('tl, 'z) php_scheme, unit) prog" where
  "event_callback lib eng f event_count data = (case f of
     Profiler_callback \<Rightarrow> ExcimerProfiler_event lib eng event_count data
   | Timer_callback \<Rightarrow> ExcimerTimer_event lib eng event_count data)"

end
