(* ===== verification/Timerlib_Posix.thy ===== *)
theory Timerlib_Posix
  imports Timer_Backend
begin

text \<open>
  The POSIX backend of timerlib (\<^verbatim>\<open>timerlib_posix.c\<close>, \<^verbatim>\<open>timerlib_posix.h\<close>): the calls of the
  application thread. What the handler thread writes into the structure (\<^verbatim>\<open>tid\<close>, \<^verbatim>\<open>ready\<close>) becomes
  visible at the calls that synchronise with it. The two builds of the signal mask handling are
  selected by the flag \<open>np\<close> (\<^verbatim>\<open>HAVE_PTHREAD_ATTR_SETSIGMASK_NP\<close>).
\<close>

section \<open>The timer structure\<close>

datatype timerlib_notify_function = Excimer_timer_handle

record posix_timer =
  timer :: nat
  timer_valid :: bool
  thread :: nat
  thread_valid :: bool
  tid :: nat
  clock :: c_int
  notify_function :: timerlib_notify_function
  notify_data :: nat
  ready :: bool
  killed :: bool

section \<open>The handler thread\<close>

text \<open>
  The thread's program, on its view of the structure; it yields the overrun counts it passes to the
  notify function, in order. Both wait loops of the source are one recursion here: a failed wait
  waits again. It ends in \<open>Diverges\<close> when \<open>n\<close> waits were not enough.
\<close>

definition timerlib_notify_ready :: "posix_timer \<Rightarrow> ('z os_scheme, posix_timer) prog" where
  "timerlib_notify_ready t =
     pbind (timerlib_mutex_lock_func Timer_Mutex ''timerlib_notify_ready'') (\<lambda>_.
     let t = t\<lparr>ready := True\<rparr>
     in pbind (syscall Pthread_cond_broadcast) (\<lambda>a.
        if err a \<noteq> 0 then timerlib_abort_func ''timerlib_notify_ready'' ''pthread_cond_broadcast'' (err a)
        else pbind (timerlib_mutex_unlock_func Timer_Mutex ''timerlib_notify_ready'') (\<lambda>_. pret t)))"

fun posix_signal_loop :: "nat \<Rightarrow> ('z os_scheme, c_int list) prog" where
  "posix_signal_loop 0 = pfail Diverges"
| "posix_signal_loop (Suc n) = pbind (syscall Sigwaitinfo) (\<lambda>a.
     if err a \<noteq> 0 then posix_signal_loop n
     else if kill_seen a then pret []
     else if posted a then pbind (posix_signal_loop n) (\<lambda>evs. pret (of_nat (val a) # evs))
     else posix_signal_loop n)"

definition timerlib_timer_thread_main :: "posix_timer \<Rightarrow> ('z os_scheme, c_int list \<times> posix_timer) prog" where
  "timerlib_timer_thread_main t =
     pbind (syscall Gettid) (\<lambda>a.
     pbind (timerlib_notify_ready (t\<lparr>tid := val a\<rparr>)) (\<lambda>t.
     pbind get_fuel (\<lambda>n.
     pbind (posix_signal_loop n) (\<lambda>evs. pret (evs, t)))))"

section \<open>Operations\<close>

definition timerlib_block_signals :: "bool \<Rightarrow> ('z os_scheme, unit) prog" where
  "timerlib_block_signals np =
     pbind (syscall (if np then Pthread_attr_setsigmask_np else Pthread_sigmask_block)) (\<lambda>_. pret ())"

definition timerlib_unblock_signals :: "bool \<Rightarrow> ('z os_scheme, unit) prog" where
  "timerlib_unblock_signals np =
     (if np then pret () else pbind (syscall Pthread_sigmask_restore) (\<lambda>_. pret ()))"

definition timerlib_graceful_exit :: "posix_timer \<Rightarrow> ('z os_scheme, bool \<times> posix_timer) prog" where
  "timerlib_graceful_exit t =
     (let t = t\<lparr>killed := True\<rparr>
      in pbind (syscall (Pthread_kill (thread t))) (\<lambda>a.
           if err a \<noteq> 0 then
             pbind (timerlib_report_errno ''pthread_kill'' (err a)) (\<lambda>_. pret (False, t))
           else pret (True, t)))"

definition timerlib_join :: "posix_timer \<Rightarrow> ('z os_scheme, bool) prog" where
  "timerlib_join t = pbind (syscall (Pthread_join (thread t))) (\<lambda>a.
     if err a \<noteq> 0 then pbind (timerlib_report_errno ''pthread_join'' (err a)) (\<lambda>_. pret False)
     else pret True)"

definition timerlib_map_clock :: "c_int \<Rightarrow> ('z os_scheme, clockid) prog" where
  "timerlib_map_clock clk =
     (if clk = TIMERLIB_REAL then pret CLOCK_MONOTONIC
      else pbind (syscall Pthread_getcpuclockid) (\<lambda>a.
        if err a \<noteq> 0 then
          pbind (timerlib_report_errno ''pthread_getcpuclockid'' (err a)) (\<lambda>_. pret CLOCK_MONOTONIC)
        else pret (Cpu_Clock (val a))))"

text \<open>What the application thread sees of the handler thread's announcement.\<close>

definition see_ready :: "os_answer \<Rightarrow> posix_timer \<Rightarrow> posix_timer" where
  "see_ready a t = (if posted a then t\<lparr>ready := True, tid := val a\<rparr> else t)"

text \<open>The wait for \<^verbatim>\<open>ready\<close>; it ends in \<open>Diverges\<close> when \<open>n\<close> wake-ups were not enough.\<close>

fun timerlib_wait_ready :: "nat \<Rightarrow> posix_timer \<Rightarrow> ('z os_scheme, bool \<times> posix_timer) prog" where
  "timerlib_wait_ready 0 t = pfail Diverges"
| "timerlib_wait_ready (Suc n) t =
     (if ready t then pret (True, t)
      else pbind (syscall Pthread_cond_wait) (\<lambda>a.
        if err a \<noteq> 0 then
          pbind (timerlib_report_errno ''pthread_cond_wait'' (err a)) (\<lambda>_. pret (False, t))
        else timerlib_wait_ready n (see_ready a t)))"

definition timerlib_timer_init_posix ::
  "bool \<Rightarrow> c_int \<Rightarrow> timerlib_notify_function \<Rightarrow> nat \<Rightarrow> ('z os_scheme, bool \<times> posix_timer) prog" where
  "timerlib_timer_init_posix np clk notify data =
     (let t = \<lparr>timer = 0, timer_valid = False, thread = 0, thread_valid = False, tid = 0, clock = clk,
               notify_function = notify, notify_data = data, ready = False, killed = False\<rparr>
      in pbind (syscall Pthread_attr_init) (\<lambda>_.
         pbind (timerlib_block_signals np) (\<lambda>_.
         pbind (syscall Pthread_create) (\<lambda>a.
         pbind (timerlib_unblock_signals np) (\<lambda>_.
         pbind (syscall Pthread_attr_destroy) (\<lambda>_.
         if err a \<noteq> 0 then
           pbind (timerlib_report_errno ''pthread_create'' (err a)) (\<lambda>_. pret (False, t))
         else
           let t = t\<lparr>thread := val a, thread_valid := True\<rparr>
           in pbind (timerlib_mutex_lock_func Timer_Mutex ''timerlib_timer_init'') (\<lambda>l.
              pbind get_fuel (\<lambda>n.
              pbind (timerlib_wait_ready n (see_ready l t)) (\<lambda>(ok, t).
              if \<not> ok then pret (False, t)
              else
                pbind (timerlib_mutex_unlock_func Timer_Mutex ''timerlib_timer_init'') (\<lambda>_.
                pbind (timerlib_map_clock (clock t)) (\<lambda>c.
                pbind (syscall (Timer_create c (tid t))) (\<lambda>a.
                if err a \<noteq> 0 then
                  pbind (timerlib_report_errno ''timer_create'' (err a)) (\<lambda>_. pret (False, t))
                else pret (True, t\<lparr>timer := val a, timer_valid := True\<rparr>)))))))))))))"

definition timerlib_timer_start_posix ::
  "posix_timer \<Rightarrow> timespec \<Rightarrow> timespec \<Rightarrow> ('z os_scheme, bool) prog" where
  "timerlib_timer_start_posix t period initial =
     (if \<not> timer_valid t then pret False
      else
        let it_value = (if timerlib_timespec_is_zero initial then initial\<lparr>tv_nsec := 1\<rparr> else initial)
        in pbind (syscall (Timer_settime (timer t) period it_value)) (\<lambda>a.
             if err a \<noteq> 0 then
               pbind (timerlib_report_errno ''timer_settime'' (err a)) (\<lambda>_. pret False)
             else pret True))"

definition zero_timespec :: timespec where
  "zero_timespec = \<lparr>tv_sec = 0, tv_nsec = 0\<rparr>"

definition timerlib_timer_stop_posix :: "posix_timer \<Rightarrow> ('z os_scheme, bool) prog" where
  "timerlib_timer_stop_posix t =
     (if \<not> timer_valid t then pret False
      else pbind (syscall (Timer_settime (timer t) zero_timespec zero_timespec)) (\<lambda>a.
        if err a \<noteq> 0 then
          pbind (timerlib_report_errno ''timer_settime'' (err a)) (\<lambda>_. pret False)
        else pret True))"

definition timerlib_timer_destroy_posix :: "posix_timer \<Rightarrow> ('z os_scheme, posix_timer) prog" where
  "timerlib_timer_destroy_posix t =
     pbind
       (if thread_valid t then
          pbind (timerlib_graceful_exit (t\<lparr>thread_valid := False\<rparr>)) (\<lambda>(ok, t).
          if ok then pbind (timerlib_join t) (\<lambda>_. pret t) else pret t)
        else pret t)
       (\<lambda>t. if timer_valid t then
          let t = t\<lparr>timer_valid := False\<rparr>
          in pbind (syscall (Timer_delete (timer t))) (\<lambda>a.
               if err a \<noteq> 0 then
                 pbind (timerlib_report_errno ''timer_delete'' (err a)) (\<lambda>_. pret t)
               else pret t)
        else pret t)"

definition timerlib_timer_get_time_posix :: "posix_timer \<Rightarrow> ('z os_scheme, bool \<times> timespec) prog" where
  "timerlib_timer_get_time_posix t =
     (if timer_valid t then
        pbind (syscall (Timer_gettime (timer t))) (\<lambda>a.
        if err a \<noteq> 0 then
          pbind (timerlib_report_errno ''timer_gettime'' (err a)) (\<lambda>_. pret (False, zero_timespec))
        else pret (True, time a))
      else pret (False, zero_timespec))"

definition timerlib_clock_get_time_posix :: "c_int \<Rightarrow> ('z os_scheme, bool \<times> timespec) prog" where
  "timerlib_clock_get_time_posix clk =
     pbind (timerlib_map_clock clk) (\<lambda>c.
     pbind (syscall (Clock_gettime c)) (\<lambda>a.
     if err a \<noteq> 0 then
       pbind (timerlib_report_errno ''timer_gettime'' (err a)) (\<lambda>_. pret (False, zero_timespec))
     else pret (True, time a)))"

definition posix_timerlib :: "bool \<Rightarrow> (posix_timer, 'z) timerlib" where
  "posix_timerlib np =
     \<lparr>tl_init = \<lambda>clk data. timerlib_timer_init_posix np clk Excimer_timer_handle data,
      tl_start = \<lambda>t p i. pbind (timerlib_timer_start_posix t p i) (\<lambda>ok. pret (ok, t)),
      tl_stop = \<lambda>t. pbind (timerlib_timer_stop_posix t) (\<lambda>ok. pret (ok, t)),
      tl_destroy = timerlib_timer_destroy_posix,
      tl_get_time = timerlib_timer_get_time_posix,
      tl_clock_get_time = timerlib_clock_get_time_posix\<rparr>"

section \<open>What each operation does\<close>

text \<open>The fields the handler thread does not write.\<close>

definition main_fields :: "posix_timer \<Rightarrow> posix_timer" where
  "main_fields t = t\<lparr>ready := False, tid := 0\<rparr>"

lemma main_fields_see_ready [simp]: "main_fields (see_ready a t) = main_fields t"
  by (simp add: main_fields_def see_ready_def)

lemma main_fieldsD:
  assumes "main_fields t' = main_fields t"
  shows "timer t' = timer t" "timer_valid t' = timer_valid t" "thread t' = thread t"
    "thread_valid t' = thread_valid t" "clock t' = clock t" "killed t' = killed t"
    "notify_data t' = notify_data t"
  using assms by (cases t; cases t'; simp add: main_fields_def)+

lemma wait_ready_spec:
  "prog_spec (timerlib_wait_ready n t) (\<lambda>(ok, t') cs ws. main_fields t' = main_fields t \<and>
     (ok \<longrightarrow> ready t' \<and> ws = []) \<and> (\<not> ok \<longrightarrow> ws \<noteq> []) \<and> (\<forall>c \<in> set cs. fst c = Pthread_cond_wait))"
proof (induction n arbitrary: t)
  case (Suc n)
  show ?case unfolding timerlib_wait_ready.simps
    by (intro prog_spec_rules prog_spec_conseq [OF Suc.IH]) auto
qed (simp add: prog_spec_pfail)

lemma map_clock_spec:
  "prog_spec (timerlib_map_clock clk) (\<lambda>c cs ws. (\<forall>c \<in> set cs. fst c = Pthread_getcpuclockid) \<and>
     (clk = TIMERLIB_REAL \<longrightarrow> c = CLOCK_MONOTONIC))"
  unfolding timerlib_map_clock_def by (intro prog_spec_rules) auto

lemma no_resource:
  "(\<forall>c \<in> set cs. fst c = Pthread_cond_wait) \<Longrightarrow> acquired cs = {#} \<and> released cs = {#}"
  "(\<forall>c \<in> set cs. fst c = Pthread_getcpuclockid) \<Longrightarrow> acquired cs = {#} \<and> released cs = {#}"
  by (induction cs) auto

definition posix_owned :: "posix_timer \<Rightarrow> resource multiset" where
  "posix_owned t = (if thread_valid t then {#Thread (thread t)#} else {#}) +
     (if timer_valid t then {#Kernel_Timer (timer t)#} else {#})"

definition posix_live :: "posix_timer \<Rightarrow> bool" where
  "posix_live t \<longleftrightarrow> thread_valid t \<and> timer_valid t"

lemma wait_ready_owned:
  "prog_spec (timerlib_wait_ready n t) (\<lambda>(ok, t') cs ws.
     timer_valid t' = timer_valid t \<and> thread t' = thread t \<and> thread_valid t' = thread_valid t \<and>
     clock t' = clock t \<and> killed t' = killed t \<and> notify_data t' = notify_data t \<and> (ok \<longrightarrow> ready t') \<and>
     (\<not> ok \<longrightarrow> ws \<noteq> []) \<and> acquired cs = {#} \<and> released cs = {#})"
  by (rule prog_spec_conseq [OF wait_ready_spec]) (clarsimp, metis main_fieldsD no_resource(1))

lemma map_clock_owned:
  "prog_spec (timerlib_map_clock clk) (\<lambda>c cs ws. acquired cs = {#} \<and> released cs = {#})"
  by (rule prog_spec_conseq [OF map_clock_spec]) (auto simp: no_resource)

lemma signals_owned:
  "prog_spec (timerlib_block_signals np) (\<lambda>_ cs ws. acquired cs = {#} \<and> released cs = {#})"
  "prog_spec (timerlib_unblock_signals np) (\<lambda>_ cs ws. acquired cs = {#} \<and> released cs = {#})"
  unfolding timerlib_block_signals_def timerlib_unblock_signals_def
  by (intro prog_spec_rules; simp)+

lemma see_ready_fields [simp]:
  "timer_valid (see_ready a t) = timer_valid t" "thread (see_ready a t) = thread t"
  "thread_valid (see_ready a t) = thread_valid t" "clock (see_ready a t) = clock t"
  "killed (see_ready a t) = killed t" "notify_data (see_ready a t) = notify_data t"
  by (simp_all add: see_ready_def)

lemma init_spec_posix:
  "prog_spec (timerlib_timer_init_posix np clk nf data) (\<lambda>(ok, t) cs ws.
     acquired cs = posix_owned t \<and> released cs = {#} \<and> (ok \<longrightarrow> posix_live t \<and> ready t) \<and> (\<not> ok \<longrightarrow> ws \<noteq> []) \<and>
     clock t = clk \<and> notify_data t = data \<and> \<not> killed t)"
  unfolding timerlib_timer_init_posix_def Let_def
  by (auto intro!: prog_spec_rules prog_spec_lock prog_spec_unlock prog_spec_get_fuel
      prog_spec_conseq [OF signals_owned(1)] prog_spec_conseq [OF signals_owned(2)]
      prog_spec_conseq [OF wait_ready_owned] prog_spec_conseq [OF map_clock_owned]
      simp: posix_owned_def posix_live_def)

lemma start_spec_posix:
  "prog_spec (timerlib_timer_start_posix t p i) (\<lambda>ok cs ws. acquired cs = {#} \<and> released cs = {#} \<and>
     (timer_valid t \<and> \<not> ok \<longrightarrow> ws \<noteq> []))"
  unfolding timerlib_timer_start_posix_def Let_def by (auto intro!: prog_spec_rules)

lemma stop_spec_posix:
  "prog_spec (timerlib_timer_stop_posix t) (\<lambda>ok cs ws. acquired cs = {#} \<and> released cs = {#} \<and>
     (timer_valid t \<and> \<not> ok \<longrightarrow> ws \<noteq> []))"
  unfolding timerlib_timer_stop_posix_def by (auto intro!: prog_spec_rules)

lemma get_time_spec_posix:
  "prog_spec (timerlib_timer_get_time_posix t) (\<lambda>r cs ws. acquired cs = {#} \<and> released cs = {#})"
  unfolding timerlib_timer_get_time_posix_def by (auto intro!: prog_spec_rules)

lemma destroy_spec_posix:
  "prog_spec (timerlib_timer_destroy_posix t) (\<lambda>t' cs ws.
     acquired cs = {#} \<and> released cs = posix_owned t \<and> posix_owned t' = {#})"
  unfolding timerlib_timer_destroy_posix_def timerlib_graceful_exit_def timerlib_join_def Let_def
  by (auto intro!: prog_spec_rules simp: posix_owned_def)

lemma total_posix:
  "prog_total (timerlib_timer_start_posix t p i)" "prog_total (timerlib_timer_stop_posix t)"
  "prog_total (timerlib_timer_destroy_posix t)" "prog_total (timerlib_timer_get_time_posix t)"
  unfolding timerlib_timer_start_posix_def timerlib_timer_stop_posix_def timerlib_timer_destroy_posix_def
    timerlib_timer_get_time_posix_def timerlib_graceful_exit_def timerlib_join_def Let_def
  by (auto intro!: prog_total_bind prog_total_if)

lemma clock_posix:
  "prog_spec (timerlib_clock_get_time_posix clk) (\<lambda>r cs ws. True)" "prog_total (timerlib_clock_get_time_posix clk)"
  unfolding timerlib_clock_get_time_posix_def timerlib_map_clock_def
  by (auto intro!: prog_spec_rules prog_total_bind prog_total_if)

lemma fault_free_wait: "fault_free (timerlib_wait_ready n t)"
  by (induction n t rule: timerlib_wait_ready.induct) (auto simp: fault_free_def [of "\<lambda>a. Inl Diverges"])

lemma fault_free_posix:
  "fault_free (timerlib_timer_init_posix np clk f data)" "fault_free (timerlib_timer_get_time_posix t)"
  unfolding timerlib_timer_init_posix_def timerlib_timer_get_time_posix_def timerlib_map_clock_def
    timerlib_block_signals_def timerlib_unblock_signals_def Let_def
  by (auto intro!: fault_free_bind fault_free_if fault_free_wait split: prod.split)

interpretation posix: owning_backend "posix_timerlib np" posix_live posix_owned for np
proof
  fix clk :: c_int and data :: nat and t :: posix_timer and p i :: timespec
  show "prog_spec (tl_init (posix_timerlib np) clk data) (\<lambda>(ok, t) cs ws. (ok \<longrightarrow> posix_live t) \<and> (\<not> ok \<longrightarrow> ws \<noteq> []))"
    "prog_spec (tl_init (posix_timerlib np) clk data) (\<lambda>(ok, t) cs ws. acquired cs = released cs + posix_owned t)"
    unfolding posix_timerlib_def timerlib.simps by (rule prog_spec_conseq [OF init_spec_posix]; auto)+
  show "posix_live t \<Longrightarrow> prog_spec (tl_start (posix_timerlib np) t p i)
      (\<lambda>(ok, t') cs ws. posix_live t' \<and> (\<not> ok \<longrightarrow> ws \<noteq> []))"
    "prog_spec (tl_start (posix_timerlib np) t p i)
      (\<lambda>(ok, t') cs ws. acquired cs + posix_owned t = released cs + posix_owned t')"
    unfolding posix_timerlib_def timerlib.simps
    by (rule prog_spec_bind, rule prog_spec_conseq [OF start_spec_posix];
        auto intro!: prog_spec_pret simp: posix_live_def)+
  show "posix_live t \<Longrightarrow> prog_spec (tl_stop (posix_timerlib np) t)
      (\<lambda>(ok, t') cs ws. posix_live t' \<and> (\<not> ok \<longrightarrow> ws \<noteq> []))"
    "prog_spec (tl_stop (posix_timerlib np) t)
      (\<lambda>(ok, t') cs ws. acquired cs + posix_owned t = released cs + posix_owned t')"
    unfolding posix_timerlib_def timerlib.simps
    by (rule prog_spec_bind, rule prog_spec_conseq [OF stop_spec_posix];
        auto intro!: prog_spec_pret simp: posix_live_def)+
  show "prog_spec (tl_get_time (posix_timerlib np) t) (\<lambda>r cs ws. True)"
    "prog_spec (tl_get_time (posix_timerlib np) t) (\<lambda>r cs ws. acquired cs = released cs)"
    unfolding posix_timerlib_def timerlib.simps by (rule prog_spec_conseq [OF get_time_spec_posix]; simp)+
  show "prog_spec (tl_destroy (posix_timerlib np) t) (\<lambda>t' cs ws. True)"
    "prog_spec (tl_destroy (posix_timerlib np) t)
      (\<lambda>t' cs ws. acquired cs + posix_owned t = released cs \<and> posix_owned t' = {#})"
    unfolding posix_timerlib_def timerlib.simps by (rule prog_spec_conseq [OF destroy_spec_posix]; simp)+
  show "prog_total (tl_start (posix_timerlib np) t p i)" "prog_total (tl_stop (posix_timerlib np) t)"
    "prog_total (tl_destroy (posix_timerlib np) t)"
    unfolding posix_timerlib_def timerlib.simps by (auto intro!: total_posix)
  show "prog_spec (tl_clock_get_time (posix_timerlib np) clk) (\<lambda>r cs ws. True)"
    "prog_total (tl_clock_get_time (posix_timerlib np) clk)"
    by (simp_all add: posix_timerlib_def clock_posix)
  show "fault_free (tl_init (posix_timerlib np) clk data)" "fault_free (tl_get_time (posix_timerlib np) t)"
    by (simp_all add: posix_timerlib_def fault_free_posix)
  show "prog_spec (tl_start (posix_timerlib np) t p i) (\<lambda>r cs ws. True)"
    "prog_spec (tl_stop (posix_timerlib np) t) (\<lambda>r cs ws. True)"
    unfolding posix_timerlib_def timerlib.simps
    by (rule prog_spec_bind, rule prog_spec_conseq [OF start_spec_posix], rule prog_spec_pret, rule TrueI)
      (rule prog_spec_bind, rule prog_spec_conseq [OF stop_spec_posix], rule prog_spec_pret, rule TrueI)
qed

section \<open>Waiting for the handler thread\<close>

lemma wait_ready_now: "ready t \<Longrightarrow> 0 < n \<Longrightarrow> timerlib_wait_ready n t s = Inr ((True, t), s)"
  by (cases n) simp_all

text \<open>
  When no call fails and the handler thread has announced itself by some wake-up the fuel covers,
  the wait ends with its thread identifier.
\<close>

lemma wait_ready_posted:
  assumes "\<And>m. err (answers s m) = 0" and "posted (answers s (length (os_calls s) + j))" and "j + 1 < n"
    and "\<not> ready t"
  obtains j' t' s' where "timerlib_wait_ready n t s = Inr ((True, t'), s')" "j' \<le> j"
    "posted (answers s (length (os_calls s) + j'))" "tid t' = val (answers s (length (os_calls s) + j'))"
    "main_fields t' = main_fields t" "answers s' = answers s"
  using assms
proof (induction j arbitrary: n t s thesis)
  case 0
  obtain m where n: "n = Suc m" "0 < m" using "0.prems"(4) by (cases n) auto
  have "timerlib_wait_ready n t s = Inr ((True, see_ready (next_answer s) t), logged Pthread_cond_wait s)"
    using 0 n by (simp add: prog_defs next_answer_def wait_ready_now see_ready_def)
  then show ?case
    using "0.prems"(1) [of "see_ready (next_answer s) t" "logged Pthread_cond_wait s" 0] "0.prems"(3)
    by (simp add: see_ready_def next_answer_def main_fields_def)
next
  case (Suc j)
  obtain m where n: "n = Suc m" "j + 1 < m" using Suc.prems(4) by (cases n) auto
  let ?s = "logged Pthread_cond_wait s" and ?t = "see_ready (next_answer s) t"
  have step: "timerlib_wait_ready n t s = timerlib_wait_ready m ?t ?s"
    using Suc.prems(2,5) n by (simp add: prog_defs next_answer_def)
  show ?case
  proof (cases "ready ?t")
    case True
    then have "posted (next_answer s)" using Suc.prems(5) by (auto simp: see_ready_def split: if_splits)
    moreover have "timerlib_wait_ready n t s = Inr ((True, ?t), ?s)" unfolding step using wait_ready_now [OF True, of m ?s] n by simp
    ultimately show ?thesis using Suc.prems(1) [of ?t ?s 0]
      by (simp add: see_ready_def next_answer_def main_fields_def)
  next
    case False
    have "\<And>m. err (answers ?s m) = 0" "posted (answers ?s (length (os_calls ?s) + j))"
      using Suc.prems(2,3) by simp_all
    then obtain j' t' s' where "timerlib_wait_ready m ?t ?s = Inr ((True, t'), s')" "j' \<le> j"
      "posted (answers ?s (length (os_calls ?s) + j'))" "tid t' = val (answers ?s (length (os_calls ?s) + j'))"
      "main_fields t' = main_fields ?t" "answers s' = answers ?s"
      using Suc.IH [where s = ?s and n = m and t = ?t] n False by metis
    then show ?thesis using Suc.prems(1) [of t' s' "Suc j'"] step by simp
  qed
qed

lemma wait_after_lock:
  assumes "\<And>n. err (answers s n) = 0" "answers sl = answers s" "length (os_calls sl) = Suc b"
    and "posted (answers s (b + j))" "j + 1 < n" "\<not> ready t"
  obtains k t' s' where "timerlib_wait_ready n (see_ready (answers s b) t) sl = Inr ((True, t'), s')" "k \<le> j"
    "posted (answers s (b + k))" "tid t' = val (answers s (b + k))"
    "main_fields t' = main_fields t" "answers s' = answers s"
proof (cases "posted (answers s b)")
  case True
  with assms that [of "see_ready (answers s b) t" sl 0] show thesis
    by (simp add: wait_ready_now see_ready_def main_fields_def)
next
  case False
  then obtain i where j: "j = Suc i" using assms(4) by (cases j) auto
  have "see_ready (answers s b) t = t" using False by (simp add: see_ready_def)
  moreover have "\<And>m. err (answers sl m) = 0" "posted (answers sl (length (os_calls sl) + i))" "i + 1 < n"
    using assms j by simp_all
  then obtain j' t' s' where "timerlib_wait_ready n t sl = Inr ((True, t'), s')" "j' \<le> i"
    "posted (answers sl (length (os_calls sl) + j'))" "tid t' = val (answers sl (length (os_calls sl) + j'))"
    "main_fields t' = main_fields t" "answers s' = answers sl"
    using wait_ready_posted [of sl i n t] assms(6) by metis
  ultimately show thesis using that [of t' s' "Suc j'"] assms(2,3) j by simp
qed

section \<open>Properties\<close>

definition demo_os :: os where
  "demo_os = \<lparr>answers = \<lambda>n. \<lparr>err = 0, val = n + 10, time = \<lparr>tv_sec = 1, tv_nsec = 0\<rparr>, posted = True, kill_seen = False\<rparr>,
     os_calls = [], warnings = [], loop_fuel = 2\<rparr>"

lemmas posix_eval = posix_timerlib_def timer_life_def run_op_def timerlib_timer_init_posix_def
  timerlib_block_signals_def timerlib_unblock_signals_def timerlib_map_clock_def get_fuel_def
  timerlib_timer_start_posix_def timerlib_timer_stop_posix_def timerlib_timer_destroy_posix_def
  timerlib_graceful_exit_def timerlib_join_def see_ready_def next_answer_def demo_os_def prog_defs
  logged_def numeral_2_eq_2 Let_def TIMERLIB_REAL_def zero_timespec_def timerlib_timespec_is_zero_def

text \<open>C16 (safety): a POSIX timer never leaks. Whatever the system calls answer, initialising a timer
  (successfully or not), starting, stopping and reading it any number of times and destroying it asks
  exactly the threads it created to exit and deletes exactly the kernel timers it created, each once.\<close>

theorem posix_timer_no_leak:
  assumes "timer_life (posix_timerlib np) clk data ops s = Inr (t, s')"
  shows "acquired (new_calls s s') = released (new_calls s s')"
  using prog_specD(2) [OF posix.timer_life_balanced assms] by simp

theorem posix_timer_no_leak_witness:
  "\<exists>t s'. timer_life (posix_timerlib True) TIMERLIB_REAL 7 [Op_start \<lparr>tv_sec = 1, tv_nsec = 0\<rparr> \<lparr>tv_sec = 1, tv_nsec = 0\<rparr>, Op_stop]
      demo_os = Inr (t, s') \<and> acquired (new_calls demo_os s') = {#Thread 12, Kernel_Timer 16#} \<and>
      released (new_calls demo_os s') = {#Thread 12, Kernel_Timer 16#}"
proof -
  obtain t s' where run: "timer_life (posix_timerlib True) TIMERLIB_REAL 7
      [Op_start \<lparr>tv_sec = 1, tv_nsec = 0\<rparr> \<lparr>tv_sec = 1, tv_nsec = 0\<rparr>, Op_stop] demo_os = Inr (t, s')"
    and cs: "acquired (new_calls demo_os s') = {#Thread 12, Kernel_Timer 16#}"
    by (simp add: posix_eval new_calls_def)
  with posix_timer_no_leak [OF run] show ?thesis by auto
qed

text \<open>When no system call fails and the new thread announces itself at or before the
  \<open>j\<close>-th wake-up, initialisation succeeds within \<open>j + 2\<close> rounds of the wait loop, and the kernel timer
  it creates is directed at the thread identifier the handler thread announced.\<close>

lemma posix_init_succeeds:
  assumes ok: "\<And>n. err (answers s n) = 0"
    and lock: "b = length (os_calls s) + (if np then 4 else 5)"
    and post: "posted (answers s (b + j))" and fuel: "j + 1 < loop_fuel s"
  shows "\<exists>t s' k. timerlib_timer_init_posix np TIMERLIB_REAL nf data s = Inr ((True, t), s') \<and>
    k \<le> j \<and> posted (answers s (b + k)) \<and> tid t = val (answers s (b + k)) \<and>
    (\<exists>a. last (os_calls s') = (Timer_create CLOCK_MONOTONIC (tid t), a) \<and> timer t = val a) \<and> timer_valid t"
proof -
  let ?pre = "\<lambda>s. logged Pthread_attr_destroy ((if np then id else logged Pthread_sigmask_restore)
    (logged Pthread_create (logged (if np then Pthread_attr_setsigmask_np else Pthread_sigmask_block)
      (logged Pthread_attr_init s))))"
  let ?c = "answers s (length (os_calls s) + 2)" and ?l = "answers s b"
  let ?t = "\<lparr>timer = 0, timer_valid = False, thread = val ?c, thread_valid = True, tid = 0,
    clock = TIMERLIB_REAL, notify_function = nf, notify_data = data, ready = False, killed = False\<rparr>"
  let ?s = "logged (Mutex_lock Timer_Mutex) (?pre s)"
  have len: "length (os_calls ?s) = Suc b" and ans: "answers ?s = answers s" "loop_fuel ?s = loop_fuel s"
    using lock by simp_all
  obtain k t s' where w: "timerlib_wait_ready (loop_fuel s) (see_ready ?l ?t) ?s = Inr ((True, t), s')"
    and k: "k \<le> j" "posted (answers s (b + k))" "tid t = val (answers s (b + k))"
    and t: "main_fields t = main_fields ?t" "answers s' = answers s"
    by (rule wait_after_lock [OF ok ans(1) len post fuel, of ?t]) simp
  have clk: "clock t = TIMERLIB_REAL" using main_fieldsD(5) [OF t(1)] by simp
  let ?s' = "logged (Timer_create CLOCK_MONOTONIC (tid t)) (logged (Mutex_unlock Timer_Mutex) s')"
  have "timerlib_timer_init_posix np TIMERLIB_REAL nf data s =
    Inr ((True, t\<lparr>timer := val (next_answer (logged (Mutex_unlock Timer_Mutex) s')), timer_valid := True\<rparr>), ?s')"
    using w clk ok t(2) lock
    by (cases np) (simp_all add: timerlib_timer_init_posix_def timerlib_block_signals_def
        timerlib_unblock_signals_def timerlib_map_clock_def get_fuel_def next_answer_def prog_defs Let_def
        eval_nat_numeral)
  then show ?thesis using k by fastforce
qed

definition demo_posix_timer :: posix_timer where
  "demo_posix_timer = \<lparr>timer = 5, timer_valid = True, thread = 6, thread_valid = True, tid = 7, clock = TIMERLIB_REAL,
     notify_function = Excimer_timer_handle, notify_data = 1, ready = True, killed = False\<rparr>"

text \<open>Destroying a live timer marks the thread for exit, signals it, waits for it to
  end and only then deletes the kernel timer; if the thread could not be signalled it is not waited
  for, and the kernel timer is deleted all the same. Afterwards nothing is marked valid, so a second
  destroy makes no call at all.\<close>

lemma posix_destroy_order:
  assumes "posix_live t"
  shows "\<exists>t' s'. timerlib_timer_destroy_posix t s = Inr (t', s') \<and>
    map fst (new_calls s s') = [Pthread_kill (thread t)] @
      (if err (next_answer s) = 0 then [Pthread_join (thread t)] else []) @ [Timer_delete (timer t)] \<and>
    killed t' \<and> timerlib_timer_destroy_posix t' s' = Inr (t', s')"
  using assms
  by (cases "err (next_answer s) = 0")
    (simp_all add: posix_live_def timerlib_timer_destroy_posix_def timerlib_graceful_exit_def
      timerlib_join_def prog_defs new_calls_def Let_def)

text \<open>Starting a valid timer makes exactly one call, which arms it: the initial value
  it passes is never zero (zero would disarm) and is the caller's whenever that is not zero; stopping
  passes zero, which disarms. Both succeed exactly when the call does, and warn exactly when not.\<close>

lemma posix_start_stop_calls:
  assumes "timer_valid t"
  shows "\<exists>v s' s''. timerlib_timer_start_posix t period initial s = Inr (err (next_answer s) = 0, s') \<and>
      new_calls s s' = [(Timer_settime (timer t) period v, next_answer s)] \<and>
      \<not> timerlib_timespec_is_zero v \<and> (\<not> timerlib_timespec_is_zero initial \<longrightarrow> v = initial) \<and>
      (new_warnings s s' = []) = (err (next_answer s) = 0) \<and>
    timerlib_timer_stop_posix t s = Inr (err (next_answer s) = 0, s'') \<and>
      new_calls s s'' = [(Timer_settime (timer t) zero_timespec zero_timespec, next_answer s)] \<and>
      (new_warnings s s'' = []) = (err (next_answer s) = 0)"
  using assms
  by (cases "err (next_answer s) = 0")
    (auto simp: timerlib_timer_start_posix_def timerlib_timer_stop_posix_def timerlib_timespec_is_zero_def
      prog_defs new_calls_def new_warnings_def Let_def)

text \<open>The timer signals a trace of calls received before the exit request was seen, with their overruns.\<close>

fun timer_signals :: "(os_call \<times> os_answer) list \<Rightarrow> nat list" where
  "timer_signals [] = []"
| "timer_signals ((Sigwaitinfo, a) # cs) =
     (if err a \<noteq> 0 then timer_signals cs else if kill_seen a then []
      else if posted a then val a # timer_signals cs else timer_signals cs)"
| "timer_signals (_ # cs) = timer_signals cs"

lemma signal_loop_spec:
  "prog_spec (posix_signal_loop n) (\<lambda>evs cs ws. evs = map of_nat (timer_signals cs) \<and> ws = [] \<and> cs \<noteq> [] \<and>
     fst (last cs) = Sigwaitinfo \<and> kill_seen (snd (last cs)) \<and> (\<forall>c \<in> set cs. fst c = Sigwaitinfo))"
proof (induction n)
  case (Suc n)
  show ?case unfolding posix_signal_loop.simps
    by (auto intro!: prog_spec_rules prog_spec_conseq [OF Suc.IH])
qed (simp add: prog_spec_def)

text \<open>The POSIX handler thread announces itself once, after storing its identifier,
  and then notifies once per timer signal it receives, in order and with that signal's overrun count,
  ignoring failed waits and signals from elsewhere; it ends at the first wake-up at which it finds
  the exit request, without notifying for it.\<close>

lemma posix_handler_notifies:
  assumes "timerlib_timer_thread_main t s = Inr ((evs, t'), s')"
  shows "evs = map of_nat (timer_signals (new_calls s s')) \<and> ready t' \<and>
    fst (hd (new_calls s s')) = Gettid \<and> tid t' = val (snd (hd (new_calls s s'))) \<and> fst (last (new_calls s s')) = Sigwaitinfo \<and>
    kill_seen (snd (last (new_calls s s')))"
proof -
  have "prog_spec (timerlib_timer_thread_main t) (\<lambda>(evs, t') cs ws. evs = map of_nat (timer_signals cs) \<and> ready t' \<and>
      fst (hd cs) = Gettid \<and> tid t' = val (snd (hd cs)) \<and> fst (last cs) = Sigwaitinfo \<and> kill_seen (snd (last cs)))"
    unfolding timerlib_timer_thread_main_def timerlib_notify_ready_def Let_def
    by (auto intro!: prog_spec_rules prog_spec_lock prog_spec_unlock prog_spec_get_fuel
        prog_spec_conseq [OF signal_loop_spec])
  from prog_specD(2) [OF this assms] show ?thesis by simp
qed

text \<open>A timer signal with two overruns, a signal from elsewhere, an interrupted wait, then the exit request.\<close>

definition demo_signals :: os where
  "demo_signals = demo_os\<lparr>answers := \<lambda>n.
     \<lparr>err = (if n = 6 then 4 else 0), val = (if n = 4 then 2 else n + 10), time = zero_timespec,
      posted = (n = 4), kill_seen = (n = 7)\<rparr>, loop_fuel := 5\<rparr>"

end
