(* ===== verification/Timerlib_Kqueue.thy ===== *)
theory Timerlib_Kqueue
  imports Timer_Backend
begin

text \<open>
  The kqueue backend of timerlib (\<^verbatim>\<open>timerlib_kqueue.c\<close>, \<^verbatim>\<open>timerlib_kqueue.h\<close>): the calls of the
  application thread, and the handler thread as a program of its own that yields the overrun
  counts it passes to the notify function, in order. A variable the source leaves uninitialised is
  the parameter \<open>uninit\<close>.
\<close>

section \<open>The timer structure\<close>

record kqueue_timer =
  kq :: int
  kq_overrun_count :: c_int
  kq_period :: timespec
  kq_initial :: timespec
  kq_notify_data :: nat
  handler_thread_id :: nat
  last_fired_at :: timespec

definition EINTR :: nat where
  "EINTR = 4"

definition EBADF :: nat where
  "EBADF = 9"

section \<open>Clock\<close>

text \<open>The time is written to \<open>old\<close> only on success.\<close>

definition timerlib_clock_get_time_kqueue :: "timespec \<Rightarrow> ('z os_scheme, bool \<times> timespec) prog" where
  "timerlib_clock_get_time_kqueue old = pbind (syscall (Clock_gettime CLOCK_MONOTONIC)) (\<lambda>a.
     if err a \<noteq> 0 then pbind (timerlib_report_errno ''clock_gettime'' (err a)) (\<lambda>_. pret (False, old))
     else pret (True, time a))"

section \<open>The handler thread\<close>

definition timerlib_handle_timer_event ::
  "kqueue_timer \<Rightarrow> ('z os_scheme, bool \<times> c_int list \<times> kqueue_timer) prog" where
  "timerlib_handle_timer_event t = pbind (syscall (Kevent_wait (kq t))) (\<lambda>a.
     if err a \<noteq> 0 then
       if err a \<noteq> EINTR then
         if err a \<noteq> EBADF then timerlib_abort_func ''timerlib_handle_timer_event'' ''kevent'' (err a)
         else pret (False, [], t)
       else pret (True, [], t)
     else if posted a then
       pbind (timerlib_mutex_lock_func Timer_Mutex ''timerlib_handle_timer_event'') (\<lambda>_.
       pbind (timerlib_clock_get_time_kqueue (last_fired_at t)) (\<lambda>(_, now).
       pbind (timerlib_mutex_unlock_func Timer_Mutex ''timerlib_handle_timer_event'') (\<lambda>_.
       pret (True, [of_nat (val a) - 1], t\<lparr>last_fired_at := now\<rparr>))))
     else pret (True, [], t))"

definition timerlib_setup_kqueue_timer ::
  "kqueue_timer \<Rightarrow> bool \<Rightarrow> timespec \<Rightarrow> ('z os_scheme, bool) prog" where
  "timerlib_setup_kqueue_timer t oneshot period =
     pbind (syscall (Kevent_add (kq t) oneshot (timerlib_timespec_to_ns period))) (\<lambda>a.
     if err a \<noteq> 0 then pbind (timerlib_report_errno ''kevent'' (err a)) (\<lambda>_. pret False) else pret True)"

text \<open>The event loop; it ends in \<open>Diverges\<close> when \<open>n\<close> rounds were not enough.\<close>

fun kqueue_event_loop :: "nat \<Rightarrow> kqueue_timer \<Rightarrow> ('z os_scheme, c_int list \<times> kqueue_timer) prog" where
  "kqueue_event_loop 0 t = pfail Diverges"
| "kqueue_event_loop (Suc n) t = pbind (timerlib_handle_timer_event t) (\<lambda>(ok, evs, t).
     if ok then pbind (kqueue_event_loop n t) (\<lambda>(evs', t'). pret (evs @ evs', t'))
     else pret (evs, t))"

definition timerlib_kqueue_handle :: "kqueue_timer \<Rightarrow> ('z os_scheme, c_int list \<times> kqueue_timer) prog" where
  "timerlib_kqueue_handle t = pbind get_fuel (\<lambda>n.
     if \<not> timerlib_timespec_is_zero (kq_initial t) then
       pbind (timerlib_handle_timer_event t) (\<lambda>(ok, evs, t).
       if \<not> ok then pret (evs, t)
       else if timerlib_timespec_is_zero (kq_period t) then pret (evs, t)
       else pbind (timerlib_setup_kqueue_timer t False (kq_period t)) (\<lambda>ok.
         if \<not> ok then pret (evs, t)
         else pbind (kqueue_event_loop n t) (\<lambda>(evs', t'). pret (evs @ evs', t'))))
     else kqueue_event_loop n t)"

section \<open>The application thread\<close>

definition timerlib_timer_init_kqueue :: "c_int \<Rightarrow> nat \<Rightarrow> ('z os_scheme, bool \<times> kqueue_timer) prog" where
  "timerlib_timer_init_kqueue clk data =
     pret (True, \<lparr>kq = -1, kq_overrun_count = 0, kq_period = \<lparr>tv_sec = 0, tv_nsec = 0\<rparr>,
       kq_initial = \<lparr>tv_sec = 0, tv_nsec = 0\<rparr>, kq_notify_data = data, handler_thread_id = 0,
       last_fired_at = \<lparr>tv_sec = 0, tv_nsec = 0\<rparr>\<rparr>)"

definition timerlib_timer_start_kqueue ::
  "kqueue_timer \<Rightarrow> timespec \<Rightarrow> timespec \<Rightarrow> ('z os_scheme, bool \<times> kqueue_timer) prog" where
  "timerlib_timer_start_kqueue t period initial =
     (let t = t\<lparr>kq_period := period, kq_initial := initial\<rparr>
      in pbind (syscall Kqueue) (\<lambda>a.
         if err a \<noteq> 0 then pbind (timerlib_report_errno ''kqueue'' (err a)) (\<lambda>_. pret (False, t))
         else
           let t = t\<lparr>kq := int (val a)\<rparr>
           in pbind (timerlib_clock_get_time_kqueue (last_fired_at t)) (\<lambda>(_, now).
              let t = t\<lparr>last_fired_at := now\<rparr>
              in pbind
                   (if \<not> timerlib_timespec_is_zero initial
                    then timerlib_setup_kqueue_timer t True initial
                    else timerlib_setup_kqueue_timer t False period) (\<lambda>ok.
                 if \<not> ok then pret (False, t)
                 else pbind (syscall Pthread_create) (\<lambda>a.
                   if err a \<noteq> 0 then
                     pbind (timerlib_report_errno ''pthread_create'' (err a)) (\<lambda>_. pret (False, t))
                   else pret (True, t\<lparr>handler_thread_id := val a\<rparr>))))))"

definition timerlib_timer_stop_kqueue :: "kqueue_timer \<Rightarrow> ('z os_scheme, bool \<times> kqueue_timer) prog" where
  "timerlib_timer_stop_kqueue t =
     (if kq t \<noteq> -1 then
        let t = t\<lparr>kq_period := \<lparr>tv_sec = 0, tv_nsec = 0\<rparr>\<rparr>
        in pbind (syscall (Close (kq t))) (\<lambda>a.
           if err a \<noteq> 0 then pbind (timerlib_report_errno ''close'' (err a)) (\<lambda>_. pret (False, t))
           else pbind (syscall (Pthread_join (handler_thread_id t))) (\<lambda>a.
             if err a \<noteq> 0 then pbind (timerlib_report_errno ''pthread_join'' (err a)) (\<lambda>_. pret (False, t))
             else pret (True, t)))
      else pret (True, t))"

definition timerlib_timer_destroy_kqueue :: "kqueue_timer \<Rightarrow> ('z os_scheme, kqueue_timer) prog" where
  "timerlib_timer_destroy_kqueue t = pbind (syscall (Mutex_destroy Timer_Mutex)) (\<lambda>a.
     if err a \<noteq> 0 then pbind (timerlib_report_errno ''pthread_mutex_destroy'' (err a)) (\<lambda>_. pret t)
     else pret t)"

definition timerlib_timer_get_time_kqueue ::
  "timespec \<Rightarrow> kqueue_timer \<Rightarrow> ('z os_scheme, bool \<times> timespec) prog" where
  "timerlib_timer_get_time_kqueue uninit t =
     pbind (timerlib_mutex_lock_func Timer_Mutex ''timerlib_timer_get_time'') (\<lambda>_.
     pbind (timerlib_mutex_unlock_func Timer_Mutex ''timerlib_timer_get_time'') (\<lambda>_.
     let will_fire_at = timerlib_timespec_add (kq_period t) (last_fired_at t)
     in pbind (timerlib_clock_get_time_kqueue uninit) (\<lambda>(_, now).
        pret (True, timerlib_timespec_subtract will_fire_at now))))"

definition kqueue_timerlib :: "timespec \<Rightarrow> (kqueue_timer, 'z) timerlib" where
  "kqueue_timerlib uninit =
     \<lparr>tl_init = timerlib_timer_init_kqueue, tl_start = timerlib_timer_start_kqueue,
      tl_stop = timerlib_timer_stop_kqueue, tl_destroy = timerlib_timer_destroy_kqueue,
      tl_get_time = timerlib_timer_get_time_kqueue uninit,
      tl_clock_get_time = \<lambda>_. timerlib_clock_get_time_kqueue uninit\<rparr>"

section \<open>The contract\<close>

lemma clock_spec_kqueue: "prog_spec (timerlib_clock_get_time_kqueue old) (\<lambda>(ok, now) cs ws.
    \<exists>a. cs = [(Clock_gettime CLOCK_MONOTONIC, a)] \<and> ok = (err a = 0) \<and> now = (if err a = 0 then time a else old))"
  unfolding timerlib_clock_get_time_kqueue_def by (auto intro!: prog_spec_rules)

lemma start_spec_kqueue:
  "prog_spec (timerlib_timer_start_kqueue t p i) (\<lambda>(ok, t') cs ws.
     (\<not> ok \<longrightarrow> ws \<noteq> []) \<and> kq_period t' = p \<and> kq_initial t' = i)"
  unfolding timerlib_timer_start_kqueue_def timerlib_setup_kqueue_timer_def Let_def
  by (auto intro!: prog_spec_rules prog_spec_conseq [OF clock_spec_kqueue])

lemma stop_spec_kqueue:
  "prog_spec (timerlib_timer_stop_kqueue t) (\<lambda>(ok, t') cs ws. \<not> ok \<longrightarrow> ws \<noteq> [])"
  unfolding timerlib_timer_stop_kqueue_def Let_def by (auto intro!: prog_spec_rules)

lemma get_time_spec_kqueue: "prog_spec (timerlib_timer_get_time_kqueue uninit t) (\<lambda>r cs ws. True)"
  unfolding timerlib_timer_get_time_kqueue_def Let_def
  by (auto intro!: prog_spec_rules prog_spec_lock prog_spec_unlock prog_spec_conseq [OF clock_spec_kqueue])

lemma total_kqueue:
  "prog_total (timerlib_timer_start_kqueue t p i)" "prog_total (timerlib_timer_stop_kqueue t)"
  "prog_total (timerlib_timer_destroy_kqueue t)" "prog_total (timerlib_clock_get_time_kqueue uninit)"
  unfolding timerlib_timer_start_kqueue_def timerlib_timer_stop_kqueue_def timerlib_timer_destroy_kqueue_def
    timerlib_setup_kqueue_timer_def timerlib_clock_get_time_kqueue_def Let_def
  by (auto intro!: prog_total_bind prog_total_if split: prod.splits)

interpretation kqueue: timer_backend "kqueue_timerlib uninit" "\<lambda>_. True" for uninit
proof
  fix clk :: c_int and data :: nat and t :: kqueue_timer and p i :: timespec
  show "prog_spec (tl_init (kqueue_timerlib uninit) clk data) (\<lambda>(ok, t) cs ws. (ok \<longrightarrow> True) \<and> (\<not> ok \<longrightarrow> ws \<noteq> []))"
    by (simp add: kqueue_timerlib_def timerlib_timer_init_kqueue_def prog_spec_pret)
  show "prog_spec (tl_start (kqueue_timerlib uninit) t p i) (\<lambda>(ok, t') cs ws. True \<and> (\<not> ok \<longrightarrow> ws \<noteq> []))"
    unfolding kqueue_timerlib_def timerlib.simps by (rule prog_spec_conseq [OF start_spec_kqueue]) auto
  show "prog_spec (tl_stop (kqueue_timerlib uninit) t) (\<lambda>(ok, t') cs ws. True \<and> (\<not> ok \<longrightarrow> ws \<noteq> []))"
    unfolding kqueue_timerlib_def timerlib.simps by (rule prog_spec_conseq [OF stop_spec_kqueue]) auto
  show "prog_spec (tl_destroy (kqueue_timerlib uninit) t) (\<lambda>t' cs ws. True)"
    unfolding kqueue_timerlib_def timerlib.simps timerlib_timer_destroy_kqueue_def
    by (auto intro!: prog_spec_rules)
  show "prog_spec (tl_get_time (kqueue_timerlib uninit) t) (\<lambda>r cs ws. True)"
    unfolding kqueue_timerlib_def timerlib.simps by (rule get_time_spec_kqueue)
  show "prog_total (tl_start (kqueue_timerlib uninit) t p i)" "prog_total (tl_stop (kqueue_timerlib uninit) t)"
    "prog_total (tl_destroy (kqueue_timerlib uninit) t)"
    by (simp_all add: kqueue_timerlib_def total_kqueue)
  show "prog_spec (tl_clock_get_time (kqueue_timerlib uninit) clk) (\<lambda>r cs ws. True)"
    "prog_total (tl_clock_get_time (kqueue_timerlib uninit) clk)"
    by (auto simp: kqueue_timerlib_def total_kqueue intro: prog_spec_conseq [OF clock_spec_kqueue])
  show "fault_free (tl_init (kqueue_timerlib uninit) clk data)" "fault_free (tl_get_time (kqueue_timerlib uninit) t)"
    unfolding kqueue_timerlib_def timerlib.simps timerlib_timer_init_kqueue_def timerlib_timer_get_time_kqueue_def
      timerlib_clock_get_time_kqueue_def Let_def
    by (auto intro!: fault_free_bind fault_free_if split: prod.split)
  show "prog_spec (tl_start (kqueue_timerlib uninit) t p i) (\<lambda>r cs ws. True)"
    "prog_spec (tl_stop (kqueue_timerlib uninit) t) (\<lambda>r cs ws. True)"
    unfolding kqueue_timerlib_def timerlib.simps
    by (rule prog_spec_conseq [OF start_spec_kqueue], rule TrueI) (rule prog_spec_conseq [OF stop_spec_kqueue], rule TrueI)
qed

section \<open>Events and notifications\<close>

text \<open>The timer events a trace of calls received, with the number of expirations of each.\<close>

fun timer_events :: "(os_call \<times> os_answer) list \<Rightarrow> nat list" where
  "timer_events [] = []"
| "timer_events ((Kevent_wait fd, a) # cs) =
     (if err a = 0 \<and> posted a then val a # timer_events cs else timer_events cs)"
| "timer_events (_ # cs) = timer_events cs"

lemma timer_events_append [simp]: "timer_events (cs @ ds) = timer_events cs @ timer_events ds"
  by (induction cs rule: timer_events.induct) auto

definition overruns :: "nat list \<Rightarrow> c_int list" where
  "overruns ns = map (\<lambda>n. of_nat n - 1) ns"

lemma overruns_append [simp]: "overruns (ms @ ns) = overruns ms @ overruns ns"
  by (simp add: overruns_def)

lemma handle_event_spec:
  "prog_spec (timerlib_handle_timer_event t) (\<lambda>(ok, evs, t') cs ws.
     evs = overruns (timer_events cs) \<and> kq t' = kq t \<and> kq_period t' = kq_period t \<and>
     (\<not> ok \<longrightarrow> (\<exists>a. (Kevent_wait (kq t), a) \<in> set cs \<and> err a = EBADF)))"
  unfolding timerlib_handle_timer_event_def
  by (auto intro!: prog_spec_rules prog_spec_lock prog_spec_unlock prog_spec_conseq [OF clock_spec_kqueue]
      simp: overruns_def EINTR_def EBADF_def)

lemma event_loop_spec:
  "prog_spec (kqueue_event_loop n t) (\<lambda>(evs, t') cs ws. evs = overruns (timer_events cs) \<and>
     (\<exists>a. (Kevent_wait (kq t), a) \<in> set cs \<and> err a = EBADF))"
proof (induction n arbitrary: t)
  case (Suc n)
  show ?case unfolding kqueue_event_loop.simps
    by (auto intro!: prog_spec_rules prog_spec_conseq [OF handle_event_spec] prog_spec_conseq [OF Suc.IH])
qed (simp add: prog_spec_pfail)

section \<open>Properties\<close>

text \<open>The kqueue handler thread notifies once per timer event it receives, in order,
  with an overrun count of one less than the event's expirations (at the width of \<^verbatim>\<open>int\<close>), and in
  particular gives none for an interrupted wait. With a period it ends only when its descriptor is
  closed or the timer cannot be set up.\<close>

lemma kqueue_handler_notifies:
  assumes "timerlib_kqueue_handle t s = Inr ((evs, t'), s')"
  shows "evs = map (\<lambda>n. of_nat n - 1) (timer_events (new_calls s s')) \<and>
    (timerlib_timespec_is_zero (kq_period t) \<or> new_warnings s s' \<noteq> [] \<or>
     (\<exists>a. (Kevent_wait (kq t), a) \<in> set (new_calls s s') \<and> err a = EBADF))"
proof -
  have "prog_spec (timerlib_kqueue_handle t) (\<lambda>(evs, t') cs ws. evs = overruns (timer_events cs) \<and>
      (timerlib_timespec_is_zero (kq_period t) \<or> ws \<noteq> [] \<or>
       (\<exists>a. (Kevent_wait (kq t), a) \<in> set cs \<and> err a = EBADF)))"
    unfolding timerlib_kqueue_handle_def timerlib_setup_kqueue_timer_def
    by (auto intro!: prog_spec_rules prog_spec_get_fuel prog_spec_conseq [OF handle_event_spec]
        prog_spec_conseq [OF event_loop_spec])
  from prog_specD(2) [OF this assms] show ?thesis by (simp add: overruns_def)
qed

definition demo_kqueue_timer :: kqueue_timer where
  "demo_kqueue_timer = \<lparr>kq = 3, kq_overrun_count = 0, kq_period = \<lparr>tv_sec = 1, tv_nsec = 0\<rparr>,
     kq_initial = \<lparr>tv_sec = 0, tv_nsec = 0\<rparr>, kq_notify_data = 1, handler_thread_id = 4,
     last_fired_at = \<lparr>tv_sec = 5, tv_nsec = 600000000\<rparr>\<rparr>"

text \<open>An environment with one event of three expirations and then a closed descriptor.\<close>

definition demo_kq_os :: os where
  "demo_kq_os = \<lparr>answers = \<lambda>n. \<lparr>err = (if n = 4 then EBADF else 0), val = 3,
       time = \<lparr>tv_sec = 6, tv_nsec = 700000000\<rparr>, posted = True, kill_seen = False\<rparr>,
     os_calls = [], warnings = [], loop_fuel = 2\<rparr>"

text \<open>With the mutex and the clock available, the kqueue emulation of
  \<^verbatim>\<open>timer_gettime\<close> returns the time from now to one period after the last firing, for normalised times
  whose seconds stay in range; for a stopped or one-shot timer the period is zero, so the result is
  the negated time since the last firing.\<close>

lemma kqueue_get_time_value:
  assumes ok: "\<And>n. err (answers s n) = 0"
    and normal: "ts_normal (kq_period t)" "ts_normal (last_fired_at t)" "\<And>n. ts_normal (time (answers s n))"
    and range: "ts_bounded (kq_period t)" "ts_bounded (last_fired_at t)" "\<And>n. ts_bounded (time (answers s n))"
  shows "\<exists>remaining s'. timerlib_timer_get_time_kqueue uninit t s = Inr ((True, remaining), s') \<and>
    ts_value remaining = ts_value (last_fired_at t) + ts_value (kq_period t)
      - ts_value (time (answers s (length (os_calls s) + 2)))"
proof -
  let ?w = "timerlib_timespec_add (kq_period t) (last_fired_at t)" and ?n = "time (answers s (length (os_calls s) + 2))"
  have w: "ts_value ?w = ts_value (kq_period t) + ts_value (last_fired_at t)" "ts_near ?w"
    using add_value [OF normal(1,2)] range(1,2) by (auto simp: ts_bounded_def)
  have "- 1 \<le> sint (tv_sec ?w) \<and> sint (tv_sec ?w) < 2 ^ 62 + 2"
    using w normal(1,2) range(1,2) by (simp add: ts_bounded_def ts_value_def ts_near_def ts_normal_def)
  then have "ts_value (timerlib_timespec_subtract ?w ?n) = ts_value ?w - ts_value ?n"
    using subtract_value [OF w(2) normal(3)] range(3) [of "length (os_calls s) + 2"]
    by (auto simp: ts_bounded_def)
  moreover have "\<exists>s'. timerlib_timer_get_time_kqueue uninit t s = Inr ((True, timerlib_timespec_subtract ?w ?n), s')"
    using ok by (simp add: timerlib_timer_get_time_kqueue_def timerlib_clock_get_time_kqueue_def prog_defs
        next_answer_def)
  ultimately show ?thesis using w(1) by auto
qed

end
