(* ===== verification/Timer_Registry.thy ===== *)
theory Timer_Registry
  imports Excimer_Timer Timerlib_Posix Timerlib_Kqueue
begin

text \<open>
  The life of the timers of a PHP thread: which sequences of timer operations and posted events are
  possible, and the invariant all of them keep. The proofs use a backend only through the contract
  \<open>timer_backend\<close>, so they hold for both.
\<close>

section \<open>Reachable states\<close>

text \<open>
  \<open>timer_reachable lib me D s\<close>: from a freshly initialised thread, the PHP thread \<open>me\<close> has initialised,
  started, stopped and destroyed timers of \<open>D\<close>, handler threads have posted events for timers that
  were then valid (timerlib promises none after destruction), and events have been taken, in any
  order, with any outcome of the library calls. A timer is initialised only when it is not in use.
\<close>

inductive timer_reachable ::
  "('tl, ('tl, 'z) tstate_ext) timerlib \<Rightarrow> thread \<Rightarrow> addr set \<Rightarrow> ('tl, 'z) tstate_scheme \<Rightarrow> bool"
  for lib me D where
  start_thread: "excimer_timer_thread_init me s = Inr ((), s') \<Longrightarrow> finite D \<Longrightarrow>
    \<forall>t \<in> D. \<not> is_valid (timers s t) \<and> \<not> is_running (timers s t) \<and> nx s t = None \<and> pv s t = None \<Longrightarrow>
    timer_reachable lib me D s'"
| init: "timer_reachable lib me D s \<Longrightarrow> t \<in> D \<Longrightarrow> \<not> is_valid (timers s t) \<Longrightarrow>
    excimer_timer_init lib me t clk cb data s = Inr (ok, s') \<Longrightarrow> timer_reachable lib me D s'"
| start: "timer_reachable lib me D s \<Longrightarrow> t \<in> D \<Longrightarrow>
    excimer_timer_start lib t period initial s = Inr ((), s') \<Longrightarrow> timer_reachable lib me D s'"
| stop: "timer_reachable lib me D s \<Longrightarrow> t \<in> D \<Longrightarrow>
    excimer_timer_stop lib t s = Inr ((), s') \<Longrightarrow> timer_reachable lib me D s'"
| destroy: "timer_reachable lib me D s \<Longrightarrow> t \<in> D \<Longrightarrow>
    excimer_timer_destroy lib me t s = Inr ((), s') \<Longrightarrow> timer_reachable lib me D s'"
| post: "timer_reachable lib me D s \<Longrightarrow> t \<in> D \<Longrightarrow> is_valid (timers s t) \<Longrightarrow>
    excimer_timer_handle me t ov s = Inr ((), s') \<Longrightarrow> timer_reachable lib me D s'"
| take: "timer_reachable lib me D s \<Longrightarrow>
    excimer_timer_pending_dequeue me s = Inr (r, s') \<Longrightarrow> timer_reachable lib me D s'"

section \<open>The invariant\<close>

definition valid_timers :: "addr set \<Rightarrow> ('tl, 'z) tstate_scheme \<Rightarrow> addr set" where
  "valid_timers D s = {t \<in> D. is_valid (timers s t)}"

definition timer_ok :: "('tl \<Rightarrow> bool) \<Rightarrow> thread \<Rightarrow> 'tl excimer_timer \<Rightarrow> bool" where
  "timer_ok live me t \<longleftrightarrow> (is_running t \<longrightarrow> is_valid t) \<and>
     (is_valid t \<longrightarrow> timer_tls t = Some me \<and> vm_interrupt_ptr t = me \<and> live (tl_timer t))"

definition timer_inv :: "('tl \<Rightarrow> bool) \<Rightarrow> thread \<Rightarrow> addr set \<Rightarrow> ('tl, 'z) tstate_scheme \<Rightarrow> bool" where
  "timer_inv live me D s \<longleftrightarrow> finite D \<and> (\<exists>q. pending_ring me D s q \<and> set q \<subseteq> valid_timers D s) \<and>
     (\<forall>t \<in> D. timer_ok live me (timers s t)) \<and>
     timers_active (tls_of s me) = of_nat (card (valid_timers D s))"

text \<open>Rules for the steps an operation is made of.\<close>

lemma os_more_eq:
  assumes "os.more s' = os.more s"
  shows "timers s' = timers s" "tls_of s' = tls_of s" "vm_interrupt s' = vm_interrupt s"
  using assms by (cases s; cases s'; simp)+

lemma os_frame_timers:
  assumes "os_frame s s'"
  shows "timers s' = timers s" "tls_of s' = tls_of s" "vm_interrupt s' = vm_interrupt s"
    "length (warnings s') = length (warnings s) + length (new_warnings s s')"
proof -
  show "timers s' = timers s" "tls_of s' = tls_of s" "vm_interrupt s' = vm_interrupt s"
    using assms by (auto simp: os_frame_def intro: os_more_eq)
  have "warnings s' = warnings s @ new_warnings s s'" using assms by (simp add: os_frame_def)
  then show "length (warnings s') = length (warnings s) + length (new_warnings s s')"
    by (metis length_append)
qed

lemma timer_inv_os: "os.more s' = os.more s \<Longrightarrow> timer_inv live me D s' = timer_inv live me D s"
  using pending_ring_cong [of s' s me D] os_more_eq [of s' s] by (simp add: timer_inv_def valid_timers_def)

lemma timer_inv_logged [simp]: "timer_inv live me D (logged c s) = timer_inv live me D s"
  by (rule timer_inv_os) simp

lemma timer_inv_frame: "os_frame s s' \<Longrightarrow> timer_inv live me D s' = timer_inv live me D s"
  by (rule timer_inv_os) (simp add: os_frame_def)

lemma timer_inv_warn [simp]: "timer_inv live me D (s\<lparr>warnings := w\<rparr>) = timer_inv live me D s"
  by (rule timer_inv_os) simp

lemma lock_run:
  "excimer_mutex_lock m s = Inr (u, s') \<Longrightarrow> s' = logged (Mutex_lock m) s"
  "excimer_mutex_unlock m s = Inr (u, s') \<Longrightarrow> s' = logged (Mutex_unlock m) s"
  by (simp_all add: prog_defs split: if_splits)

text \<open>Updating a timer's fields other than the links and the validity.\<close>

lemma timer_inv_upd:
  assumes "timer_inv live me D s"
    and "pending_next (f (timers s t)) = nx s t" "pending_prev (f (timers s t)) = pv s t"
    and "is_valid (f (timers s t)) = is_valid (timers s t)"
    and "timer_ok live me (timers s t) \<Longrightarrow> timer_ok live me (f (timers s t))"
  shows "timer_inv live me D (upd_timer t f s)"
proof -
  have "valid_timers D (upd_timer t f s) = valid_timers D s" using assms(4) by (auto simp: valid_timers_def)
  moreover have "pending_ring me D (upd_timer t f s) q = pending_ring me D s q" for q
    using assms(2,3) by (intro pending_ring_cong) simp_all
  ultimately show ?thesis using assms(1,5) by (auto simp: timer_inv_def)
qed

lemma timer_inv_list:
  assumes inv: "timer_inv live me D s" and f: "list_frame me D s s'"
    and r: "pending_ring me D s' q'" and q': "set q' \<subseteq> valid_timers D s"
  shows "timer_inv live me D s'"
proof -
  have "valid_timers D s' = valid_timers D s" using list_frameD(1) [OF f] by (simp add: valid_timers_def)
  moreover have "timer_ok live me (timers s' t) = timer_ok live me (timers s t)" for t
    using list_frameD [OF f] by (simp add: timer_ok_def)
  ultimately show ?thesis using inv list_frameD(9) [OF f] r q' by (auto simp: timer_inv_def)
qed

lemma post_inv:
  assumes inv: "timer_inv live me D s" and t: "t \<in> D" "is_valid (timers s t)"
    and run: "excimer_timer_handle me t ov s = Inr ((), s')"
  shows "timer_inv live me D s'"
proof -
  let ?f = "timer_event_count_update (\<lambda>n. n + scast (ov + 1))"
  let ?s1 = "upd_timer t ?f (logged (Mutex_lock (Tls_Mutex me)) s)"
  have i1: "timer_inv live me D ?s1" using inv by (intro timer_inv_upd) (simp_all add: timer_ok_def)
  then obtain q where q: "pending_ring me D ?s1 q" "set q \<subseteq> valid_timers D ?s1" by (auto simp: timer_inv_def)
  from enqueue_ring [OF q(1) t(1)] obtain s2 where s2: "excimer_timer_list_enqueue me t ?s1 = Inr s2"
    "pending_ring me D s2 (add_key q t)" "list_frame me D ?s1 s2" .
  have "timer_inv live me D s2"
    by (rule timer_inv_list [OF i1 s2(3,2)]) (use q(2) t in \<open>auto simp: valid_timers_def\<close>)
  moreover have "s' = (logged (Mutex_unlock (Tls_Mutex me)) s2)
      \<lparr>vm_interrupt := (vm_interrupt s2)(vm_interrupt_ptr (timers s2 t) := True)\<rparr>"
    using run s2(1) by (simp add: excimer_timer_handle_def prog_defs state_defs split: if_splits)
  ultimately show ?thesis using pending_ring_interrupt by (simp add: timer_inv_def valid_timers_def)
qed

lemma take_inv:
  assumes inv: "timer_inv live me D s" and run: "excimer_timer_pending_dequeue me s = Inr (r, s')"
  shows "timer_inv live me D s'"
proof -
  let ?s1 = "logged (Mutex_lock (Tls_Mutex me)) s"
  have i1: "timer_inv live me D ?s1" using inv by simp
  then obtain q where q: "pending_ring me D ?s1 q" "set q \<subseteq> valid_timers D ?s1" by (auto simp: timer_inv_def)
  show ?thesis
  proof (cases q)
    case Nil
    with dequeue_ring_empty q(1) have "excimer_timer_list_dequeue me ?s1 = Inr (None, ?s1)" by metis
    with run inv show ?thesis
      by (auto simp: excimer_timer_pending_dequeue_def prog_defs split: if_splits)
  next
    case (Cons h w)
    with q(1) have "pending_ring me D ?s1 (h # w)" by simp
    from dequeue_ring [OF this] obtain s2 where s2: "excimer_timer_list_dequeue me ?s1 = Inr (Some h, s2)"
      "pending_ring me D s2 w" "list_frame me D ?s1 s2" .
    have "timer_inv live me D s2"
      by (rule timer_inv_list [OF i1 s2(3,2)]) (use q(2) Cons in auto)
    then have "timer_inv live me D (upd_timer h (timer_event_count_update (\<lambda>_. 0)) s2)"
      by (intro timer_inv_upd) (simp_all add: timer_ok_def)
    moreover have "s' = logged (Mutex_unlock (Tls_Mutex me)) (upd_timer h (timer_event_count_update (\<lambda>_. 0)) s2)"
      using run s2(1) by (simp add: excimer_timer_pending_dequeue_def prog_defs state_defs split: if_splits)
    ultimately show ?thesis by simp
  qed
qed

text \<open>
  The invariant while timer \<open>t\<close> is being set up or torn down: \<open>t\<close> itself is exempt, and the count of
  active timers is \<open>k\<close> above the other valid ones.
\<close>

definition timer_inv_but ::
  "addr \<Rightarrow> uint64_t \<Rightarrow> ('tl \<Rightarrow> bool) \<Rightarrow> thread \<Rightarrow> addr set \<Rightarrow> ('tl, 'z) tstate_scheme \<Rightarrow> bool" where
  "timer_inv_but t k live me D s \<longleftrightarrow> finite D \<and> t \<in> D \<and>
     (\<exists>q. pending_ring me D s q \<and> set q \<subseteq> insert t (valid_timers D s)) \<and>
     (\<forall>x \<in> D - {t}. timer_ok live me (timers s x)) \<and>
     timers_active (tls_of s me) = of_nat (card (valid_timers D s - {t})) + k"

lemma card_valid:
  assumes "finite D" "t \<in> D"
  shows "of_nat (card (valid_timers D s)) =
    of_nat (card (valid_timers D s - {t})) + (if is_valid (timers s t) then 1 else 0 :: uint64_t)"
proof (cases "is_valid (timers s t)")
  case True
  then have "t \<in> valid_timers D s" "finite (valid_timers D s)" using assms by (simp_all add: valid_timers_def)
  then have "card (valid_timers D s) = Suc (card (valid_timers D s - {t}))" by (metis card_Suc_Diff1)
  with True show ?thesis by simp
next
  case False
  then have "valid_timers D s - {t} = valid_timers D s" by (auto simp: valid_timers_def)
  with False show ?thesis by simp
qed

lemma timer_inv_but_of:
  assumes "timer_inv live me D s" "t \<in> D"
  shows "timer_inv_but t (if is_valid (timers s t) then 1 else 0) live me D s"
  using assms card_valid [of D t s] by (auto simp: timer_inv_def timer_inv_but_def)

lemma timer_inv_but_to:
  assumes "timer_inv_but t (if is_valid (timers s t) then 1 else 0) live me D s"
    and "timer_ok live me (timers s t)" and "\<not> is_valid (timers s t) \<Longrightarrow> nx s t = None"
  shows "timer_inv live me D s"
proof -
  obtain q where q: "pending_ring me D s q" "set q \<subseteq> insert t (valid_timers D s)" and t: "t \<in> D" "finite D"
    using assms(1) by (auto simp: timer_inv_but_def)
  have "set q \<subseteq> valid_timers D s"
    using q t assms(3) ring_nx_iff [OF q(1) t(1)] by (cases "is_valid (timers s t)") (auto simp: valid_timers_def)
  moreover have "timers_active (tls_of s me) = of_nat (card (valid_timers D s))"
    using card_valid [OF t(2,1), of s] assms(1) by (simp add: timer_inv_but_def)
  ultimately show ?thesis using q t assms(1,2) by (auto simp: timer_inv_def timer_inv_but_def)
qed

lemma timer_inv_but_os: "os.more s' = os.more s \<Longrightarrow> timer_inv_but t k live me D s' = timer_inv_but t k live me D s"
  using pending_ring_cong [of s' s me D] os_more_eq [of s' s] by (simp add: timer_inv_but_def valid_timers_def)

lemma timer_inv_but_logged [simp]: "timer_inv_but t k live me D (logged c s) = timer_inv_but t k live me D s"
  by (rule timer_inv_but_os) simp

lemma timer_inv_but_frame: "os_frame s s' \<Longrightarrow> timer_inv_but t k live me D s' = timer_inv_but t k live me D s"
  by (rule timer_inv_but_os) (simp add: os_frame_def)

lemma timer_inv_but_upd:
  assumes "timer_inv_but t k live me D s"
    and "pending_next (f (timers s t)) = nx s t" "pending_prev (f (timers s t)) = pv s t"
  shows "timer_inv_but t k live me D (upd_timer t f s)"
proof -
  have v: "valid_timers D (upd_timer t f s) - {t} = valid_timers D s - {t}"
    "insert t (valid_timers D (upd_timer t f s)) = insert t (valid_timers D s)" by (auto simp: valid_timers_def)
  have "pending_ring me D (upd_timer t f s) q = pending_ring me D s q" for q
    using assms(2,3) by (intro pending_ring_cong) simp_all
  then show ?thesis using assms(1) unfolding timer_inv_but_def v by simp
qed

lemma timer_inv_but_active:
  assumes "timer_inv_but t k live me D s"
  shows "timer_inv_but t (k + d) live me D (s\<lparr>tls_of := (tls_of s)(me := (tls_of s me)
    \<lparr>timers_active := timers_active (tls_of s me) + d\<rparr>)\<rparr>)" (is "timer_inv_but _ _ _ _ _ ?s")
proof -
  have "valid_timers D ?s = valid_timers D s" by (simp add: valid_timers_def)
  moreover have "pending_ring me D ?s q = pending_ring me D s q" for q
    by (intro pending_ring_cong) simp_all
  ultimately show ?thesis using assms by (simp add: timer_inv_but_def)
qed

lemma timer_inv_but_remove:
  assumes "timer_inv_but t k live me D s" and "excimer_timer_list_remove me t s = Inr s'"
  shows "timer_inv_but t k live me D s'" "nx s' t = None" "pv s' t = None" "list_frame me D s s'"
proof -
  obtain q where q: "pending_ring me D s q" "set q \<subseteq> insert t (valid_timers D s)" and t: "t \<in> D"
    using assms(1) by (auto simp: timer_inv_but_def)
  obtain s2 where s2: "excimer_timer_list_remove me t s = Inr s2" "pending_ring me D s2 (remove1 t q)"
    "list_frame me D s s2" using remove_ring [OF q(1) t] .
  then have s': "s2 = s'" using assms(2) by simp
  note r = s2(2,3) [unfolded s'] and f = list_frameD [OF s2(3) [unfolded s']]
  show "list_frame me D s s'" by (rule r)
  have notin: "t \<notin> set (remove1 t q)" using pending_ringD(1) [OF q(1)] by simp
  then show "nx s' t = None" "pv s' t = None" using pending_ringD(5,6) [OF r(1) t] by simp_all
  have "valid_timers D s' = valid_timers D s" using f(1) by (simp add: valid_timers_def)
  moreover have "timer_ok live me (timers s' x) = timer_ok live me (timers s x)" for x
    using f by (simp add: timer_ok_def)
  moreover have "set (remove1 t q) \<subseteq> insert t (valid_timers D s)"
    using q(2) set_remove1_subset [of t q] by blast
  ultimately show "timer_inv_but t k live me D s'"
    using assms(1) r f(9) by (auto simp: timer_inv_but_def)
qed

section \<open>The operations keep the invariant\<close>

text \<open>The destructor up to the point where the timer is taken off the pending list.\<close>

definition destroy_tail :: "thread \<Rightarrow> addr \<Rightarrow> (('tl, 'z) tstate_scheme, unit) prog" where
  "destroy_tail me t = pbind (excimer_mutex_lock (Tls_Mutex me)) (\<lambda>_.
     pbind (lift_st (excimer_timer_list_remove me t)) (\<lambda>_.
     pbind (excimer_mutex_unlock (Tls_Mutex me)) (\<lambda>_.
     modify (upd_timer t (is_valid_update (\<lambda>_. False) \<circ> timer_tls_update (\<lambda>_. None))))))"

text \<open>The contract, for a backend that runs on the state of the timer layer.\<close>

locale excimer_backend = timer_backend lib live
  for lib :: "('tl, ('tl, 'z) tstate_ext) timerlib" and live
begin

lemma init_inv:
  assumes inv: "timer_inv live me D s" and t: "t \<in> D" "\<not> is_valid (timers s t)"
    and run: "excimer_timer_init lib me t clk cb data s = Inr (ok, s')"
  shows "timer_inv live me D s' \<and> (is_valid (timers s' t) \<longleftrightarrow> ok) \<and>
    (\<not> ok \<longrightarrow> length (warnings s) < length (warnings s'))"
proof -
  obtain q where q: "pending_ring me D s q" "set q \<subseteq> valid_timers D s" using inv by (auto simp: timer_inv_def)
  have notin: "t \<notin> set q" using q(2) t(2) by (auto simp: valid_timers_def)
  have nil: "nx s t = None" "pv s t = None" using pending_ringD(5,6) [OF q(1) t(1) notin] by simp_all
  let ?fresh = "\<lambda>old. \<lparr>is_valid = False, is_running = False, vm_interrupt_ptr = me, tl_timer = tl_timer old,
    callback = cb, user_data = data, pending_next = None, pending_prev = None, timer_event_count = 0, timer_tls = Some me\<rparr>"
  let ?s1 = "upd_timer t ?fresh s"
  have i1: "timer_inv_but t 0 live me D ?s1"
    using timer_inv_but_of [OF inv t(1)] t(2) nil by (intro timer_inv_but_upd) simp_all
  from run obtain k tl s2 where init: "tl_init lib clk t ?s1 = Inr ((k, tl), s2)"
    by (auto simp: excimer_timer_init_def state_defs pbind_def rbind_Inr_iff)
  note ir = init_run [OF init]
  note f2 = os_frame_timers [OF ir(1)]
  let ?s3 = "upd_timer t (tl_timer_update (\<lambda>_. tl)) s2"
  have i3: "timer_inv_but t 0 live me D ?s3"
    using i1 timer_inv_but_frame [OF ir(1)] by (intro timer_inv_but_upd) simp_all
  show ?thesis
  proof (cases k)
    case True
    let ?s4 = "?s3\<lparr>tls_of := (tls_of ?s3)(me := (tls_of ?s3 me)\<lparr>timers_active := timers_active (tls_of ?s3 me) + 1\<rparr>)\<rparr>"
    let ?s5 = "upd_timer t (is_valid_update (\<lambda>_. True) \<circ> is_running_update (\<lambda>_. False)) ?s4"
    have s': "s' = ?s5" "ok" using run init True by (simp_all add: excimer_timer_init_def state_defs pbind_def)
    have "timer_inv_but t (0 + 1) live me D ?s5"
      by (intro timer_inv_but_upd timer_inv_but_active i3) simp_all
    then have "timer_inv live me D ?s5" using ir(2) True f2(1)
      by (intro timer_inv_but_to [where t = t]) (simp_all add: timer_ok_def)
    then show ?thesis using s' by simp
  next
    case False
    obtain tl' s4 where d: "tl_destroy lib tl ?s3 = Inr (tl', s4)" "os_frame ?s3 s4" by (rule destroy_run)
    note f4 = os_frame_timers [OF d(2)]
    have s': "s' = upd_timer t (tl_timer_update (\<lambda>_. tl')) s4" "\<not> ok"
      using run init False d(1) by (simp_all add: excimer_timer_init_def state_defs pbind_def)
    have "timer_inv_but t 0 live me D s'" unfolding s'(1)
      using i3 timer_inv_but_frame [OF d(2)] by (intro timer_inv_but_upd) simp_all
    then have "timer_inv live me D s'" using f2(1) f4(1) unfolding s'(1)
      by (intro timer_inv_but_to [where t = t]) (simp_all add: timer_ok_def)
    moreover have "length (warnings s) < length (warnings s')"
      using f2(4) f4(4) ir(3) False s'(1) by simp
    ultimately show ?thesis using s' f2(1) f4(1) by simp
  qed
qed

text \<open>The backend's structure is replaced by a live one, and \<open>is_running\<close> set, on a valid timer.\<close>

lemma store_inv:
  assumes "timer_inv live me D s" "os_frame s s1" "live x" "is_valid (timers s t)"
  shows "timer_inv live me D (upd_timer t (tl_timer_update (\<lambda>_. x)) s1)"
    and "timer_inv live me D (upd_timer t (is_running_update (\<lambda>_. r))
      (upd_timer t (tl_timer_update (\<lambda>_. x)) s1))"
proof -
  have v: "is_valid (timers s1 t)" using assms(4) os_frame_timers(1) [OF assms(2)] by simp
  show i: "timer_inv live me D (upd_timer t (tl_timer_update (\<lambda>_. x)) s1)"
    using assms timer_inv_frame [OF assms(2)] by (intro timer_inv_upd) (simp_all add: timer_ok_def)
  show "timer_inv live me D (upd_timer t (is_running_update (\<lambda>_. r))
      (upd_timer t (tl_timer_update (\<lambda>_. x)) s1))"
    by (rule timer_inv_upd [OF i]) (use v in \<open>simp_all add: timer_ok_def\<close>)
qed

lemma start_inv:
  assumes inv: "timer_inv live me D s" and t: "t \<in> D"
    and run: "excimer_timer_start lib t period initial s = Inr ((), s')"
  shows "timer_inv live me D s'"
proof (cases "is_valid (timers s t) \<and> \<not> (timerlib_timespec_is_zero initial \<and> timerlib_timespec_is_zero period)")
  case True
  let ?i = "if timerlib_timespec_is_zero initial then period else initial"
  have "live (tl_timer (timers s t))" using inv t True by (auto simp: timer_inv_def timer_ok_def)
  then obtain ok tl s1 where st: "tl_start lib (tl_timer (timers s t)) period ?i s = Inr ((ok, tl), s1)"
    "os_frame s s1" "live tl" by (rule start_run)
  have "s' = (if ok then upd_timer t (is_running_update (\<lambda>_. True)) (upd_timer t (tl_timer_update (\<lambda>_. tl)) s1)
      else upd_timer t (tl_timer_update (\<lambda>_. tl)) s1)"
    using run True st(1) by (auto simp: excimer_timer_start_def state_defs pbind_def Let_def split: if_splits)
  then show ?thesis using store_inv [OF inv st(2,3)] True by auto
next
  case False
  with run inv show ?thesis
    by (auto simp: excimer_timer_start_def state_defs prog_defs Let_def split: if_splits)
qed

lemma stop_inv:
  assumes inv: "timer_inv live me D s" and t: "t \<in> D" and run: "excimer_timer_stop lib t s = Inr ((), s')"
  shows "timer_inv live me D s'"
proof (cases "is_valid (timers s t) \<and> is_running (timers s t)")
  case True
  have "live (tl_timer (timers s t))" using inv t True by (auto simp: timer_inv_def timer_ok_def)
  then obtain ok tl s1 where st: "tl_stop lib (tl_timer (timers s t)) s = Inr ((ok, tl), s1)"
    "os_frame s s1" "live tl" by (rule stop_run)
  have "s' = (if ok then upd_timer t (is_running_update (\<lambda>_. False)) (upd_timer t (tl_timer_update (\<lambda>_. tl)) s1)
      else upd_timer t (tl_timer_update (\<lambda>_. tl)) s1)"
    using run True st(1) by (auto simp: excimer_timer_stop_def state_defs pbind_def split: if_splits)
  then show ?thesis using store_inv [OF inv st(2,3)] True by auto
next
  case False
  with run inv show ?thesis by (auto simp: excimer_timer_stop_def state_defs prog_defs split: if_splits)
qed

lemma destroy_prefix:
  assumes inv: "timer_inv live me D s" and t: "t \<in> D" "is_valid (timers s t)"
  obtains s' where "excimer_timer_destroy lib me t s = destroy_tail me t s'" "timer_inv_but t 0 live me D s'"
    "\<not> is_running (timers s' t)"
proof -
  have tls: "timer_tls (timers s t) = Some me" and live: "live (tl_timer (timers s t))"
    using inv t by (auto simp: timer_inv_def timer_ok_def)
  let ?r = "upd_timer t (is_running_update (\<lambda>_. False)) s"
  have b: "timer_inv_but t 1 live me D s" using timer_inv_but_of [OF inv t(1)] t(2) by simp
  obtain s1 where s1: "(if is_running (timers s t) then
        pbind (modify (upd_timer t (is_running_update (\<lambda>_. False)))) (\<lambda>_.
        pbind (tl_stop lib (tl_timer (timers s t))) (\<lambda>(ok, tl). modify (upd_timer t (tl_timer_update (\<lambda>_. tl)))))
      else pret ()) s = Inr ((), s1)" and i1: "timer_inv_but t 1 live me D s1" and nr: "\<not> is_running (timers s1 t)"
  proof (cases "is_running (timers s t)")
    case True
    obtain ok tl s0 where st: "tl_stop lib (tl_timer (timers s t)) ?r = Inr ((ok, tl), s0)" "os_frame ?r s0"
      using stop_run [OF live] by metis
    have "timer_inv_but t 1 live me D ?r" using b by (intro timer_inv_but_upd) simp_all
    then have "timer_inv_but t 1 live me D (upd_timer t (tl_timer_update (\<lambda>_. tl)) s0)"
      using timer_inv_but_frame [OF st(2)] by (intro timer_inv_but_upd) simp_all
    then show thesis using that True st(1) os_frame_timers(1) [OF st(2)] by (simp add: state_defs pbind_def)
  next
    case False
    with b that [of s] show thesis by simp
  qed
  obtain tl' s2 where d: "tl_destroy lib (tl_timer (timers s1 t)) s1 = Inr (tl', s2)" "os_frame s1 s2" by (rule destroy_run)
  let ?s3 = "upd_timer t (tl_timer_update (\<lambda>_. tl')) s2"
  let ?s4 = "?s3\<lparr>tls_of := (tls_of ?s3)(me := (tls_of ?s3 me)\<lparr>timers_active := timers_active (tls_of ?s3 me) + (- 1)\<rparr>)\<rparr>"
  have "timer_inv_but t 1 live me D ?s3"
    using i1 timer_inv_but_frame [OF d(2)] by (intro timer_inv_but_upd) simp_all
  then have "timer_inv_but t (1 + (- 1)) live me D ?s4" by (rule timer_inv_but_active)
  moreover have "excimer_timer_destroy lib me t s = destroy_tail me t ?s4"
    using t(2) tls s1 d(1)
    by (simp add: excimer_timer_destroy_def destroy_tail_def gets_def modify_def pbind_def [of "gets f" for f] pbind_Inr)
  moreover have "\<not> is_running (timers ?s4 t)" using nr os_frame_timers(1) [OF d(2)] by simp
  ultimately show thesis using that [of ?s4] by simp
qed

lemma destroy_inv:
  assumes inv: "timer_inv live me D s" and t: "t \<in> D"
    and run: "excimer_timer_destroy lib me t s = Inr ((), s')"
  shows "timer_inv live me D s' \<and> \<not> is_valid (timers s' t) \<and> nx s' t = None"
proof (cases "is_valid (timers s t)")
  case False
  obtain q where q: "pending_ring me D s q" "set q \<subseteq> valid_timers D s" using inv by (auto simp: timer_inv_def)
  then have "nx s t = None" using False ring_nx_iff [OF q(1) t] by (auto simp: valid_timers_def)
  with False run inv show ?thesis by (auto simp: excimer_timer_destroy_def state_defs pbind_def)
next
  case True
  obtain s4 where pre: "excimer_timer_destroy lib me t s = destroy_tail me t s4" "timer_inv_but t 0 live me D s4"
    "\<not> is_running (timers s4 t)" by (rule destroy_prefix [OF inv t True])
  from run obtain s6 where s6: "excimer_timer_list_remove me t (logged (Mutex_lock (Tls_Mutex me)) s4) = Inr s6"
    and s': "s' = upd_timer t (is_valid_update (\<lambda>_. False) \<circ> timer_tls_update (\<lambda>_. None))
      (logged (Mutex_unlock (Tls_Mutex me)) s6)"
    by (auto simp: pre(1) destroy_tail_def lift_st_def modify_def pbind_def excimer_mutex_lock_def
        excimer_mutex_unlock_def syscall_def rbind_Inr_iff split: if_splits)
  have "timer_inv_but t 0 live me D (logged (Mutex_lock (Tls_Mutex me)) s4)" using pre(2) by simp
  note r = timer_inv_but_remove [OF this s6]
  have "timer_inv_but t 0 live me D s'" unfolding s' using r(1) by (intro timer_inv_but_upd) simp_all
  moreover have "\<not> is_running (timers s' t)" using pre(3) list_frameD(2) [OF r(4), of t] by (simp add: s')
  ultimately show ?thesis using r(2) s' timer_inv_but_to [of t s' live me D]
    by (simp add: timer_ok_def)
qed

lemma reachable_inv: "timer_reachable lib me D s \<Longrightarrow> timer_inv live me D s"
proof (induction rule: timer_reachable.induct)
  case (start_thread s s')
  have s': "s' = s\<lparr>tls_of := (tls_of s)(me := \<lparr>pending_head = None, timers_active = 0\<rparr>)\<rparr>"
    using start_thread(1) by (simp add: excimer_timer_thread_init_def modify_def)
  have v: "valid_timers D s' = {}" using start_thread(3) by (auto simp: s' valid_timers_def)
  moreover have "pending_ring me D s' []" using start_thread(3) by (simp add: pending_ring_def s')
  ultimately show ?case using start_thread(2,3) by (auto simp: timer_inv_def timer_ok_def s')
next
  case (init s t clk cb data ok s')
  then show ?case using init_inv by blast
next
  case (start s t period initial s')
  then show ?case using start_inv by blast
next
  case (stop s t s')
  then show ?case using stop_inv by blast
next
  case (destroy s t s')
  then show ?case using destroy_inv by blast
next
  case (post s t ov s')
  then show ?case using post_inv by blast
next
  case (take s r s')
  then show ?case using take_inv by blast
qed

end

interpretation posix_layer: excimer_backend "posix_timerlib np" posix_live for np
  by unfold_locales

interpretation kqueue_layer: excimer_backend "kqueue_timerlib uninit" "\<lambda>_. True" for uninit
  by unfold_locales

section \<open>A timer that is not pending and gets no events is not taken\<close>

lemma enqueue_ring_mem:
  assumes "pending_ring me D s q" "x \<in> D" "excimer_timer_handle me x ov s = Inr ((), s')"
  shows "pending_ring me D s' (add_key q x)"
proof -
  let ?s1 = "upd_timer x (timer_event_count_update (\<lambda>n. n + scast (ov + 1))) (logged (Mutex_lock (Tls_Mutex me)) s)"
  have "pending_ring me D ?s1 q" using assms(1) by (subst pending_ring_cong [where s = s]) simp_all
  from enqueue_ring [OF this assms(2)] obtain s2 where s2: "excimer_timer_list_enqueue me x ?s1 = Inr s2"
    "pending_ring me D s2 (add_key q x)" "list_frame me D ?s1 s2" .
  have s': "s' = (logged (Mutex_unlock (Tls_Mutex me)) s2)
      \<lparr>vm_interrupt := (vm_interrupt s2)(vm_interrupt_ptr (timers s2 x) := True)\<rparr>"
    using assms(3) s2(1) by (simp add: excimer_timer_handle_def prog_defs state_defs split: if_splits)
  show ?thesis unfolding s' using s2(2) by simp
qed

lemma dequeue_ring_mem:
  assumes "pending_ring me D s q" "excimer_timer_pending_dequeue me s = Inr (r, s')"
  shows "case q of [] \<Rightarrow> r = None \<and> pending_ring me D s' []
    | h # w \<Rightarrow> (\<exists>n. r = Some (h, n)) \<and> pending_ring me D s' w"
proof (cases q)
  case Nil
  then have "excimer_timer_list_dequeue me (logged (Mutex_lock (Tls_Mutex me)) s) =
      Inr (None, logged (Mutex_lock (Tls_Mutex me)) s)"
    using assms(1) by (intro dequeue_ring_empty [where D = D]) simp
  with assms Nil show ?thesis
    by (auto simp: excimer_timer_pending_dequeue_def prog_defs split: if_splits)
next
  case (Cons h w)
  then have "pending_ring me D (logged (Mutex_lock (Tls_Mutex me)) s) (h # w)" using assms(1) by simp
  from dequeue_ring [OF this] obtain s2 where
    s2: "excimer_timer_list_dequeue me (logged (Mutex_lock (Tls_Mutex me)) s) = Inr (Some h, s2)" "pending_ring me D s2 w" .
  have s': "s' = logged (Mutex_unlock (Tls_Mutex me)) (upd_timer h (timer_event_count_update (\<lambda>_. 0)) s2)"
    "r = Some (h, timer_event_count (timers s2 h))"
    using assms(2) s2(1) by (simp_all add: excimer_timer_pending_dequeue_def prog_defs state_defs split: if_splits)
  show ?thesis unfolding s' using s2(2) Cons by simp
qed

lemma never_taken:
  assumes "event_steps me s ls s'" "pending_ring me D s q" "t \<notin> set q" "t \<notin> targets ls" "targets ls \<subseteq> D"
  shows "Take (Some (t, n)) \<notin> set ls"
  using assms
proof (induction arbitrary: q rule: event_steps.induct)
  case (fire me x ov s s' ls s'')
  have "pending_ring me D s' (add_key q x)" by (rule enqueue_ring_mem) (use fire in auto)
  from fire.IH [OF this] fire.prems show ?case by auto
next
  case (take me s r s' ls s'')
  note d = dequeue_ring_mem [OF take.prems(1) take.hyps(1)]
  show ?case
  proof (cases q)
    case Nil
    with d take.IH [of "[]"] take.prems show ?thesis by auto
  next
    case (Cons h w)
    with d take.IH [of w] take.prems show ?thesis by auto
  qed
qed simp

section \<open>A concrete run\<close>

definition demo_thread :: "posix_timer tstate" where
  "demo_thread =
     \<lparr>answers = answers demo_os, os_calls = [], warnings = [], loop_fuel = 3,
      timers = \<lambda>_. (idle_timer demo_posix_timer)\<lparr>is_valid := False, is_running := False\<rparr>,
      tls_of = \<lambda>_. \<lparr>pending_head = None, timers_active = 0\<rparr>, vm_interrupt = \<lambda>_. False\<rparr>"

lemma demo_init_destroy:
  "\<exists>s s' s''. excimer_timer_init (posix_timerlib True) 0 1 TIMERLIB_REAL Profiler_callback 5 demo_thread = Inr (True, s) \<and>
     is_valid (timers s 1) \<and> excimer_timer_destroy (posix_timerlib True) 0 1 s = Inr ((), s') \<and>
     excimer_timer_pending_dequeue 0 s' = Inr (None, s'')"
  by (simp add: excimer_timer_init_def excimer_timer_destroy_def excimer_timer_list_remove_def
      excimer_timer_pending_dequeue_def excimer_timer_list_dequeue_def state_defs
      demo_thread_def idle_timer_def demo_posix_timer_def numeral_3_eq_3 posix_eval)

lemma demo_reachable: "timer_reachable (posix_timerlib True) 0 {1, 2} demo_thread"
  by (rule timer_reachable.start_thread [of _ demo_thread])
    (auto simp: excimer_timer_thread_init_def modify_def demo_thread_def idle_timer_def)

section \<open>Properties\<close>

text \<open>C9 (invariant): with either backend, and whatever the library calls answer, in every state the
  timer operations and events can reach: the pending list is a well-linked ring holding only valid
  timers of the thread, a running timer is valid, a valid timer belongs to the thread, and the count of active
  timers is the number of valid timers. With the POSIX backend a valid timer moreover holds a live backend timer; a kqueue
  timer has nothing of its own before it is started, and nothing is claimed there.\<close>

theorem timer_registry_invariant:
  "(timer_reachable (posix_timerlib np) me D s \<longrightarrow> timer_inv posix_live me D s) \<and>
   (timer_reachable (kqueue_timerlib uninit) me D s' \<longrightarrow> timer_inv (\<lambda>_. True) me D s')"
  using posix_layer.reachable_inv kqueue_layer.reachable_inv by blast

theorem timer_registry_invariant_witness:
  "\<exists>s :: posix_timer tstate. timer_reachable (posix_timerlib True) 0 {1, 2} s \<and> is_valid (timers s 1) \<and> timer_inv posix_live 0 {1, 2} s"
proof -
  obtain s where s: "excimer_timer_init (posix_timerlib True) 0 1 TIMERLIB_REAL Profiler_callback 5 demo_thread =
      Inr (True, s)" "is_valid (timers s 1)" using demo_init_destroy by blast
  have "timer_reachable (posix_timerlib True) 0 {1, 2} s"
    by (rule timer_reachable.init [OF demo_reachable _ _ s(1)]) (simp_all add: demo_thread_def)
  moreover from this have "timer_inv posix_live 0 {1, 2} s"
    by (rule timer_registry_invariant [THEN conjunct1, THEN mp])
  ultimately show ?thesis using s(2) by blast
qed

text \<open>At thread shutdown the check of the active count is exact.\<close>

lemma thread_shutdown_exact:
  assumes inv: "timer_inv live me D s" and "card D < 2 ^ 64"
  shows "excimer_timer_thread_shutdown me s =
    (if \<forall>t \<in> D. \<not> is_valid (timers s t) then excimer_mutex_destroy (Tls_Mutex me) s
     else warn (Warning ''Timer still active at thread termination'') s)"
proof -
  have sub: "valid_timers D s \<subseteq> D" "finite D" using inv by (auto simp: timer_inv_def valid_timers_def)
  have "card (valid_timers D s) < 2 ^ 64" using card_mono [OF sub(2,1)] assms(2) by simp
  then have "timers_active (tls_of s me) = 0 \<longleftrightarrow> card (valid_timers D s) = 0"
    using inv by (simp add: timer_inv_def word_of_nat_eq_0_iff nat_dvd_not_less)
      (metis dvd_imp_le not_gr0 not_less dvd_0_right)
  also have "\<dots> \<longleftrightarrow> (\<forall>t \<in> D. \<not> is_valid (timers s t))"
    using finite_subset [OF sub] by (auto simp: valid_timers_def)
  finally show ?thesis by (simp add: excimer_timer_thread_shutdown_def gets_def pbind_def)
qed

text \<open>C25 (safety): once a timer has been destroyed it is invalid and off the pending list, and as long
  as no further event is posted for it, which the backend rules out, no interleaving of posting and
  taking events delivers it again.\<close>

theorem destroyed_timer_not_delivered:
  assumes "timer_reachable (posix_timerlib np) me D s" and "t \<in> D"
    and "excimer_timer_destroy (posix_timerlib np) me t s = Inr ((), s')"
    and "event_steps me s' ls s''" and "t \<notin> targets ls" and "targets ls \<subseteq> D"
  shows "\<not> is_valid (timers s' t) \<and> (\<exists>q. pending_ring me D s' q \<and> t \<notin> set q) \<and> Take (Some (t, n)) \<notin> set ls"
proof -
  have d: "timer_inv posix_live me D s'" "\<not> is_valid (timers s' t)"
    using posix_layer.destroy_inv [OF posix_layer.reachable_inv [OF assms(1)] assms(2,3)] by simp_all
  obtain q where q: "pending_ring me D s' q" "set q \<subseteq> valid_timers D s'" using d(1) by (auto simp: timer_inv_def)
  then have "t \<notin> set q" using d(2) by (auto simp: valid_timers_def)
  with never_taken [OF assms(4) q(1)] assms(5,6) d(2) q(1) show ?thesis by blast
qed

theorem destroyed_timer_not_delivered_witness:
  "\<exists>(s :: posix_timer tstate) s' s''. timer_reachable (posix_timerlib True) 0 {1, 2} s \<and> is_valid (timers s 1) \<and>
     excimer_timer_destroy (posix_timerlib True) 0 1 s = Inr ((), s') \<and> event_steps 0 s' [Take None] s'' \<and>
     \<not> is_valid (timers s' 1)"
proof -
  obtain s s' s'' where s: "excimer_timer_init (posix_timerlib True) 0 1 TIMERLIB_REAL Profiler_callback 5 demo_thread =
      Inr (True, s)" "is_valid (timers s 1)" "excimer_timer_destroy (posix_timerlib True) 0 1 s = Inr ((), s')"
    "excimer_timer_pending_dequeue 0 s' = Inr (None, s'')" using demo_init_destroy by blast
  have r: "timer_reachable (posix_timerlib True) 0 {1, 2} s"
    by (rule timer_reachable.init [OF demo_reachable _ _ s(1)]) (simp_all add: demo_thread_def)
  have e: "event_steps 0 s' [Take None] s''" by (rule event_steps.take [OF s(4) event_steps.finished])
  have "\<not> is_valid (timers s' 1)" using destroyed_timer_not_delivered [OF r _ s(3) e] by simp
  with r s(2,3) e show ?thesis by blast
qed

text \<open>C38 (safety): in a thread-safe build the handler thread has its own pending list, and the notify function
  uses the list of the thread it runs in: the owner of the timer is interrupted, but finds its own list
  empty, so that the event is not delivered.\<close>

theorem event_on_wrong_list:
  assumes "excimer_timer_handle handler t ov s = Inr ((), s')" and "handler \<noteq> me"
    and "vm_interrupt_ptr (timers s t) = me" and "pending_head (tls_of s me) = None"
    and "excimer_timer_pending_dequeue me s' = Inr (r, s'')"
  shows "vm_interrupt s' me \<and> r = None"
proof -
  let ?s1 = "upd_timer t (timer_event_count_update (\<lambda>n. n + scast (ov + 1))) (logged (Mutex_lock (Tls_Mutex handler)) s)"
  obtain s2 where s2: "excimer_timer_list_enqueue handler t ?s1 = Inr s2"
    and s': "s' = (logged (Mutex_unlock (Tls_Mutex handler)) s2)\<lparr>vm_interrupt := (vm_interrupt s2)(vm_interrupt_ptr (timers s2 t) := True)\<rparr>"
    using assms(1) by (auto simp: excimer_timer_handle_def prog_defs state_defs excimer_mutex_lock_def excimer_mutex_unlock_def
        rbind_Inr_iff split: if_splits)
  have "hd_ptr s2 me = hd_ptr ?s1 me" "vm_interrupt_ptr (timers s2 t) = vm_interrupt_ptr (timers ?s1 t)"
    using s2 assms(2)
    by (auto simp: excimer_timer_list_enqueue_def Let_def rbind_Inr_iff set_next_def set_prev_def set_head_def split: if_splits option.splits)
  then have "hd_ptr s' me = None" "vm_interrupt s' me" using assms(3,4) by (simp_all add: s')
  then show ?thesis using assms(5)
    by (auto simp: excimer_timer_pending_dequeue_def excimer_timer_list_dequeue_def prog_defs state_defs split: if_splits)
qed

theorem event_on_wrong_list_witness:
  "\<exists>s' s''. excimer_timer_handle 9 1 0 demo_thread = Inr ((), s') \<and> excimer_timer_pending_dequeue 0 s' = Inr (None, s'') \<and>
    vm_interrupt s' 0"
proof -
  have "\<exists>s' r s''. excimer_timer_handle 9 1 0 demo_thread = Inr ((), s') \<and> excimer_timer_pending_dequeue 0 s' = Inr (r, s'')"
    by (simp add: excimer_timer_handle_def excimer_timer_list_enqueue_def excimer_timer_pending_dequeue_def
        excimer_timer_list_dequeue_def state_defs set_next_def set_prev_def set_head_def demo_thread_def idle_timer_def posix_eval)
  then obtain s' r s'' where s: "excimer_timer_handle 9 1 0 demo_thread = Inr ((), s')"
    "excimer_timer_pending_dequeue 0 s' = Inr (r, s'')" by blast
  from event_on_wrong_list [OF s(1) _ _ _ s(2)] s show ?thesis by (simp add: demo_thread_def idle_timer_def)
qed

end
