(* ===== verification/Php_Profiler.thy ===== *)
theory Php_Profiler
  imports Php_Objects Timer_Registry
begin

text \<open>
  The profiler at work: what an event does to the current log, the rotation of logs at the flush
  threshold, what sequences of events add up to, and what the interrupt hook delivers to timer objects. The proofs use the log through its laws
  (\<open>elog\<close>) and the timer backend through its contract.
\<close>

section \<open>The state of a profiler\<close>

text \<open>
  \<open>profiler_at s p pr lo\<close>: object \<open>p\<close> is the profiler \<open>pr\<close> and its current log, to which it holds a
  reference, is the well-formed \<open>lo\<close>; addresses from \<open>next_object\<close> on are unused.
\<close>

definition heap_ok :: "('tl, 'z) php_scheme \<Rightarrow> bool" where
  "heap_ok s \<longleftrightarrow> (\<forall>a. next_object s \<le> a \<longrightarrow> objects s a = None)"

definition profiler_at :: "('tl, 'z) php_scheme \<Rightarrow> addr \<Rightarrow> profiler_obj \<Rightarrow> log_obj \<Rightarrow> bool" where
  "profiler_at s p pr lo \<longleftrightarrow> heap_ok s \<and> objects s p = Some (Obj_Profiler pr) \<and>
     objects s (pr_z_log pr) = Some (Obj_Log lo) \<and> log_wf (obj_log lo) \<and> 0 < refcount s (pr_z_log pr)"

text \<open>
  What is asked of a flush callback: it is callable, it returns, it leaves the existing objects alone
  and drops no reference it did not take, and it makes no flushes of its own.
\<close>

definition callback_frame :: "('tl, 'z) php_scheme \<Rightarrow> ('tl, 'z) php_scheme \<Rightarrow> bool" where
  "callback_frame s s' \<longleftrightarrow> (\<forall>a ob. objects s a = Some ob \<longrightarrow> objects s' a = Some ob) \<and>
     (\<forall>a. refcount s a \<le> refcount s' a) \<and> (heap_ok s \<longrightarrow> heap_ok s') \<and> user_calls s' = user_calls s"

definition quiet_callback :: "('tl, 'z) php_scheme engine \<Rightarrow> nat \<Rightarrow> bool" where
  "quiet_callback eng v \<longleftrightarrow> (\<forall>s. is_callable eng s v) \<and>
     (\<forall>arg s. \<exists>s'. call_user eng v arg s = Inr ((), s') \<and> callback_frame s s')"

text \<open>The parts of the state that only this layer writes.\<close>

lemma php_more_eq:
  assumes "os.more s' = os.more s"
  shows "objects s' = objects s" "refcount s' = refcount s" "next_object s' = next_object s"
    "current_execute_data s' = current_execute_data s" "user_calls s' = user_calls s" "php_refs s' = php_refs s"
    "ents s' = ents s"
  using assms by (cases s; cases s'; simp)+

lemma os_frame_php:
  assumes "os_frame s s'"
  shows "objects s' = objects s" "refcount s' = refcount s" "next_object s' = next_object s"
    "current_execute_data s' = current_execute_data s" "user_calls s' = user_calls s" "php_refs s' = php_refs s"
    "ents s' = ents s"
  using assms php_more_eq [of s' s] by (auto simp: os_frame_def)

lemma profiler_at_os: "os_frame s s' \<Longrightarrow> profiler_at s' p pr lo = profiler_at s p pr lo"
  using os_frame_php [of s s'] by (simp add: profiler_at_def heap_ok_def)

lemmas php_defs = pbind_def state_defs check_object_def put_object_def set_profiler_def set_log_def set_timer_obj_def
  addref_def delref_def free_storage_def release_log_def excimer_object_alloc_init_def

section \<open>Rotating the log\<close>

text \<open>The log a rotation installs: empty, with the options of the old one.\<close>

definition fresh_log :: "excimer_log \<Rightarrow> excimer_log" where
  "fresh_log lg = excimer_log_copy_options (excimer_log_init zero_log) lg"

lemma fresh_log_facts [simp]:
  "log_wf (fresh_log lg)" "log_samples (fresh_log lg) = []" "entries (fresh_log lg) = []"
  "length (frames (fresh_log lg)) = 1" "max_depth (fresh_log lg) = max_depth lg"
  "period (fresh_log lg) = period lg" "epoch (fresh_log lg) = epoch lg"
proof -
  show "log_wf (fresh_log lg)" unfolding fresh_log_def by (intro log_wf_options log_wf_init)
qed (simp_all add: fresh_log_def log_samples_def excimer_log_copy_options_def excimer_log_init_def)

lemma rotate_log_exact:
  assumes "objects s p = Some (Obj_Profiler pr)" "objects s (pr_z_log pr) = Some (Obj_Log lo)"
    and "next_object s \<noteq> pr_z_log pr" "next_object s \<noteq> p" "p \<noteq> pr_z_log pr"
  obtains s' where "rotate_log p s = Inr (pr_z_log pr, s')"
    "objects s' = (objects s)(next_object s \<mapsto> Obj_Log ((ExcimerLog_new zero_log)\<lparr>obj_log := fresh_log (obj_log lo)\<rparr>),
       p \<mapsto> Obj_Profiler (pr\<lparr>pr_z_log := next_object s\<rparr>))"
    "refcount s' = (refcount s)(next_object s := 1)" "next_object s' = Suc (next_object s)" "user_calls s' = user_calls s"
    "timers s' = (timers s)(next_object s := zeroed (timers s (next_object s)))" "tls_of s' = tls_of s" "php_refs s' = php_refs s"
    "ents s' = ents s"
  using assms by (auto simp: rotate_log_def php_defs Let_def fresh_log_def ExcimerLog_new_def fun_eq_iff)

lemma rotate_log_run:
  assumes at: "profiler_at s p pr lo"
  obtains s' lo' where "rotate_log p s = Inr (pr_z_log pr, s')"
    "profiler_at s' p (pr\<lparr>pr_z_log := next_object s\<rparr>) lo'" "obj_log lo' = fresh_log (obj_log lo)"
    "objects s' (pr_z_log pr) = Some (Obj_Log lo)" "refcount s' (pr_z_log pr) = refcount s (pr_z_log pr)"
    "next_object s \<noteq> pr_z_log pr" "user_calls s' = user_calls s"
proof -
  let ?l = "pr_z_log pr" and ?n = "next_object s"
  have o: "objects s p = Some (Obj_Profiler pr)" "objects s ?l = Some (Obj_Log lo)" "0 < refcount s ?l"
    using at by (simp_all add: profiler_at_def)
  have ne: "?n \<noteq> ?l" "?n \<noteq> p" "p \<noteq> ?l" using at o by (auto simp: profiler_at_def heap_ok_def)
  let ?lo = "(ExcimerLog_new zero_log)\<lparr>obj_log := fresh_log (obj_log lo)\<rparr>"
  obtain s' where s': "rotate_log p s = Inr (?l, s')"
    "objects s' = (objects s)(?n \<mapsto> Obj_Log ?lo, p \<mapsto> Obj_Profiler (pr\<lparr>pr_z_log := ?n\<rparr>))"
    "refcount s' = (refcount s)(?n := 1)" "next_object s' = Suc ?n" "user_calls s' = user_calls s"
    by (rule rotate_log_exact [OF o(1,2) ne])
  show thesis
  proof (rule that [OF s'(1), of ?lo])
    show "profiler_at s' p (pr\<lparr>pr_z_log := ?n\<rparr>) ?lo"
      using at ne o s'(2-4) by (auto simp: profiler_at_def heap_ok_def ExcimerLog_new_def)
  qed (use ne o s' in simp_all)
qed

section \<open>Flushing\<close>

text \<open>A release that is not the last one only counts down.\<close>

lemma release_log_run:
  assumes "objects s a = Some (Obj_Log lo)" "0 < refcount s a"
  shows "release_log a s = Inr ((), s\<lparr>refcount := (refcount s)(a := refcount s a - 1),
    objects := (if refcount s a = 1 then (objects s)(a := None) else objects s)\<rparr>)"
  using assms by (auto simp: php_defs)

lemma profiler_at_release:
  assumes "profiler_at s p pr lo" "a \<noteq> pr_z_log pr" "objects s a = Some (Obj_Log lo')"
  shows "profiler_at (s\<lparr>refcount := (refcount s)(a := n),
    objects := (if b then (objects s)(a := None) else objects s)\<rparr>) p pr lo"
  using assms by (auto simp: profiler_at_def heap_ok_def)

lemma profiler_at_callback: "profiler_at s p pr lo \<Longrightarrow> callback_frame s s' \<Longrightarrow> profiler_at s' p pr lo"
  unfolding profiler_at_def callback_frame_def by (meson le_trans less_le_trans)

text \<open>
  With a quiet callback a flush always returns the old log. The callback is called once, with that
  log; the profiler goes on with a fresh one; the caller owns a reference to the old log.
\<close>

lemma flush_run:
  assumes at: "profiler_at s p pr lo" and cb: "pr_z_callback pr = Z_VALUE v" "quiet_callback eng v"
  obtains s' lo' where "ExcimerProfiler_flush lib eng p s = Inr (pr_z_log pr, s')"
    "profiler_at s' p (pr\<lparr>pr_z_log := next_object s\<rparr>) lo'" "obj_log lo' = fresh_log (obj_log lo)"
    "objects s' (pr_z_log pr) = Some (Obj_Log lo)" "0 < refcount s' (pr_z_log pr)"
    "next_object s \<noteq> pr_z_log pr"
    "user_calls s' = user_calls s @ [(Z_VALUE v, Arg_Log (pr_z_log pr) (obj_log lo))]"
proof -
  let ?l = "pr_z_log pr" and ?pr = "pr\<lparr>pr_z_log := next_object s\<rparr>"
  obtain s1 lo' where s1: "rotate_log p s = Inr (?l, s1)" "profiler_at s1 p ?pr lo'" "obj_log lo' = fresh_log (obj_log lo)"
    "objects s1 ?l = Some (Obj_Log lo)" "refcount s1 ?l = refcount s ?l" "next_object s \<noteq> ?l"
    "user_calls s1 = user_calls s" by (rule rotate_log_run [OF at])
  let ?s2 = "s1\<lparr>refcount := (refcount s1)(?l := Suc (refcount s1 ?l)),
    user_calls := user_calls s1 @ [(Z_VALUE v, Arg_Log ?l (obj_log lo))]\<rparr>"
  obtain s3 where s3: "call_user eng v (Arg_Log ?l (obj_log lo)) ?s2 = Inr ((), s3)" "callback_frame ?s2 s3"
    using cb(2) unfolding quiet_callback_def by blast
  have r: "Suc (Suc 0) \<le> refcount s3 ?l" "objects s3 ?l = Some (Obj_Log lo)"
    using s3(2) s1(4,5) at by (auto simp: callback_frame_def profiler_at_def dest: spec [of _ ?l])
  let ?s' = "s3\<lparr>refcount := (refcount s3)(?l := refcount s3 ?l - 1)\<rparr>"
  have "release_log ?l s3 = Inr ((), ?s')" using release_log_run [OF r(2)] r(1) by simp
  moreover have "get_profiler p s1 = Inr (?pr, s1)" "callable eng s1 (Z_VALUE v)" "get_log ?l s1 = Inr (lo, s1)"
    using s1(2,4) cb(2) by (simp_all add: check_object_def profiler_at_def callable_def quiet_callback_def)
  ultimately have "ExcimerProfiler_flush lib eng p s = Inr (?l, ?s')"
    using s1(1) s3(1) cb(1) by (simp add: ExcimerProfiler_flush_def pbind_def gets_def addref_def modify_def call_function_def)
  moreover have "profiler_at ?s2 p ?pr lo'" using s1(2) by (simp add: profiler_at_def heap_ok_def)
  then have "profiler_at ?s' p ?pr lo'"
    using profiler_at_release [OF profiler_at_callback [OF _ s3(2)], where a = ?l and b = False] s1(6) r(2) by simp
  moreover have "user_calls ?s' = user_calls s @ [(Z_VALUE v, Arg_Log ?l (obj_log lo))]"
    using s3(2) s1(7) by (simp add: callback_frame_def)
  ultimately show thesis using that [of ?s' lo'] s1(3,6) r by simp
qed

section \<open>Events\<close>

text \<open>Room for \<open>n\<close> samples of stacks with at most \<open>m\<close> frames altogether.\<close>

definition log_room :: "excimer_log \<Rightarrow> nat \<Rightarrow> nat \<Rightarrow> bool" where
  "log_room lg n m \<longleftrightarrow> length (frames lg) + m \<le> 2 ^ 32 \<and> (length (entries lg) + n) * sizeof_entry < 2 ^ 64"

lemma log_room_fresh: "log_room lg n m \<Longrightarrow> log_wf lg \<Longrightarrow> log_room (fresh_log lg') n m"
proof -
  assume room: "log_room lg n m" and "log_wf lg"
  then have "1 \<le> length (frames lg)" by (auto simp: log_wf_def frames_wf_def Suc_le_eq)
  then show ?thesis using room by (simp add: log_room_def sizeof_entry_def)
qed

lemma log_add_room:
  assumes wf: "log_wf lg" and room: "log_room lg (Suc n) (length stk + m)"
  obtains lg' where "excimer_log_add lg stk k t = Inr lg'" "log_room lg' n m"
    "entries_size lg' = of_nat (Suc (length (entries lg)))" "length (entries lg') = Suc (length (entries lg))"
proof -
  have fwf: "frames_wf lg" using wf by (simp add: log_wf_def)
  have cap: "length (frames lg) + length stk \<le> 2 ^ 32" "Suc (length (entries lg)) * sizeof_entry < 2 ^ 64"
    using room by (simp_all add: log_room_def sizeof_entry_def)
  obtain lg' where add: "excimer_log_add lg stk k t = Inr lg'" using excimer_log_add_total [OF wf cap] by blast
  obtain i lg1 where rec: "excimer_log_find_or_add_frame lg stk 0 = Inr (i, lg1)"
    and lg': "lg' = lg1\<lparr>entries := entries lg1 @ [\<lparr>frame_index = i, entry_event_count = k, timestamp = t\<rparr>],
       entries_size := entries_size lg1 + 1, log_event_count := log_event_count lg1 + k\<rparr>"
    by (rule excimer_log_add_Inr [OF add]) 
  have fr: "length (frames lg1) \<le> length (frames lg) + length stk"
    using find_or_add_frame_total [OF fwf cap(1), of 0] rec by auto
  have "entries lg1 = entries lg"
    using find_or_add_frame_recorded [OF fwf rec] by (simp add: recorded_def log_extends_def)
  then have len: "length (entries lg') = Suc (length (entries lg))" by (simp add: lg')
  moreover have "entries_size lg' = of_nat (length (entries lg'))"
    using excimer_log_add_ok(1) [OF wf add] by (simp add: log_wf_def entries_wf_def)
  moreover have "log_room lg' n m"
    using room fr len by (simp add: log_room_def lg')
  ultimately show thesis using that [OF add] by simp
qed

text \<open>The configurations in which an event can be followed: no threshold, or a quiet flush callback.\<close>

definition flush_config :: "('tl, 'z) php_scheme engine \<Rightarrow> nat \<Rightarrow> profiler_obj \<Rightarrow> bool" where
  "flush_config eng v pr \<longleftrightarrow> pr_max_samples pr = 0 \<or> pr_z_callback pr = Z_VALUE v \<and> quiet_callback eng v"

text \<open>What an event makes of the log \<open>lg\<close> that the new sample has gone into.\<close>

definition event_outcome ::
  "profiler_obj \<Rightarrow> excimer_log \<Rightarrow> ('tl, 'z) php_scheme \<Rightarrow> ('tl, 'z) php_scheme \<Rightarrow> nat \<Rightarrow> excimer_log \<Rightarrow> bool" where
  "event_outcome pr lg s s' v cur \<longleftrightarrow>
     (if pr_max_samples pr \<noteq> 0 \<and> pr_max_samples pr \<le> entries_size lg
      then cur = fresh_log lg \<and> user_calls s' = user_calls s @ [(Z_VALUE v, Arg_Log (pr_z_log pr) lg)]
      else cur = lg \<and> user_calls s' = user_calls s)"

text \<open>A sequence of events, each with the PHP stack it finds and the number of timer events it stands for.\<close>

fun run_events ::
  "('tl, 'z) php_lib \<Rightarrow> ('tl, 'z) php_scheme engine \<Rightarrow> addr \<Rightarrow> (call_stack \<times> zend_long) list \<Rightarrow>
   (('tl, 'z) php_scheme, unit) prog" where
  "run_events lib eng p [] = pret ()"
| "run_events lib eng p ((stk, k) # evs) =
     pbind (modify (current_execute_data_update (\<lambda>_. stk))) (\<lambda>_.
     pbind (ExcimerProfiler_event lib eng k p) (\<lambda>_.
     run_events lib eng p evs))"

text \<open>The log a user callback was called with, and the samples of a log without their times.\<close>

fun arg_log :: "callback_zval \<times> php_arg \<Rightarrow> excimer_log" where
  "arg_log (z, Arg_Log a lg) = lg"
| "arg_log (z, Arg_Long n) = zero_log"
| "arg_log (z, Arg_None) = zero_log"

definition untimed :: "excimer_log \<Rightarrow> ((string option \<times> uint32_t) list \<times> zend_long) list" where
  "untimed lg = map (\<lambda>(c, n, u). (c, n)) (log_samples lg)"

lemma untimed_fresh [simp]: "untimed (fresh_log lg) = []"
  by (simp add: untimed_def)

lemma untimed_add:
  assumes "log_wf lg" "excimer_log_add lg stk k t = Inr lg'"
  shows "untimed lg' = untimed lg @ [(captured (max_depth lg) stk, k)]"
  using excimer_log_add_ok(2) [OF assms] by (simp add: untimed_def)

lemma length_entries: "length (entries lg) = length (log_samples lg)"
  by (simp add: log_samples_def)

text \<open>Every call was a flush of this profiler, made when the log had just reached the threshold.\<close>

definition full_flush :: "nat \<Rightarrow> profiler_obj \<Rightarrow> callback_zval \<times> php_arg \<Rightarrow> bool" where
  "full_flush v pr c \<longleftrightarrow> (\<exists>a lg. c = (Z_VALUE v, Arg_Log a lg) \<and> length (entries lg) = unat (pr_max_samples pr))"

definition below_threshold :: "profiler_obj \<Rightarrow> excimer_log \<Rightarrow> bool" where
  "below_threshold pr lg \<longleftrightarrow> pr_max_samples pr = 0 \<or> length (entries lg) < unat (pr_max_samples pr)"

lemma rotated_profiler [simp]:
  "below_threshold (pr\<lparr>pr_z_log := z\<rparr>) = below_threshold pr" "full_flush v (pr\<lparr>pr_z_log := z\<rparr>) = full_flush v pr"
  "flush_config eng v (pr\<lparr>pr_z_log := z\<rparr>) = flush_config eng v pr"
  by (simp_all add: fun_eq_iff below_threshold_def full_flush_def flush_config_def)

lemma event_outcome_steps:
  assumes wf: "log_wf lg" and add: "excimer_log_add lg stk k t = Inr lg'" and out: "event_outcome pr lg' s s' v cur"
  obtains cs where "user_calls s' = user_calls s @ cs"
    "concat (map (untimed \<circ> arg_log) cs) @ untimed cur = untimed lg @ [(captured (max_depth lg) stk, k)]"
    "max_depth cur = max_depth lg"
    "below_threshold pr lg \<Longrightarrow> below_threshold pr cur \<and> (\<forall>c \<in> set cs. full_flush v pr c)"
proof -
  note ok = excimer_log_add_ok [OF wf add]
  have len: "length (entries lg') = Suc (length (entries lg))" by (simp add: length_entries ok(2))
  have ewf: "entries_wf lg'" using ok(1) by (simp add: log_wf_def)
  have size: "pr_max_samples pr \<le> entries_size lg' \<longleftrightarrow> unat (pr_max_samples pr) \<le> length (entries lg')"
    using entries_size_eq(1) [OF ewf, of "pr_max_samples pr"] entries_size_eq(2) [OF ewf] ewf
    by (simp add: word_le_nat_alt entries_wf_def word_nat)
  have pos: "pr_max_samples pr \<noteq> 0 \<Longrightarrow> 0 < unat (pr_max_samples pr)" by (simp add: unat_gt_0)
  show thesis
  proof (cases "pr_max_samples pr \<noteq> 0 \<and> pr_max_samples pr \<le> entries_size lg'")
    case True
    with out size len pos show thesis
      by (intro that [of "[(Z_VALUE v, Arg_Log (pr_z_log pr) lg')]"])
        (auto simp: event_outcome_def untimed_add [OF wf add] ok(3) below_threshold_def full_flush_def)
  next
    case False
    with out size len show thesis
      by (intro that [of "[]"])
        (auto simp: event_outcome_def untimed_add [OF wf add] ok(3) below_threshold_def)
  qed
qed

locale profiler_backend = excimer_backend lib live
  for lib :: "('tl, 'z) php_lib" and live
begin

lemma event_run:
  assumes at: "profiler_at s p pr lo" and conf: "flush_config eng v pr"
    and room: "log_room (obj_log lo) (Suc n) (length (current_execute_data s) + m)"
  obtains s' z lo' lg ts where "ExcimerProfiler_event lib eng k p s = Inr ((), s')"
    "excimer_log_add (obj_log lo) (current_execute_data s) k ts = Inr lg"
    "profiler_at s' p (pr\<lparr>pr_z_log := z\<rparr>) lo'" "log_room (obj_log lo') n m"
    "event_outcome pr lg s s' v (obj_log lo')"
proof -
  let ?l = "pr_z_log pr"
  have wf: "log_wf (obj_log lo)" using at by (simp add: profiler_at_def)
  obtain ok ts s1 where clk: "tl_clock_get_time lib TIMERLIB_REAL s = Inr ((ok, ts), s1)" "os_frame s s1" by (rule clock_run)
  note f = os_frame_php [OF clk(2)]
  obtain lg where add: "excimer_log_add (obj_log lo) (current_execute_data s) k (timerlib_timespec_to_ns ts) = Inr lg"
    "log_room lg n m" by (rule log_add_room [OF wf room])
  have wf': "log_wf lg" by (rule excimer_log_add_ok(1) [OF wf add(1)])
  let ?lo = "lo\<lparr>obj_log := lg\<rparr>" and ?s2 = "s1\<lparr>objects := (objects s1)(?l \<mapsto> Obj_Log (lo\<lparr>obj_log := lg\<rparr>))\<rparr>"
  have at2: "profiler_at ?s2 p pr ?lo" using at wf' f by (auto simp: profiler_at_def heap_ok_def)
  have run: "ExcimerProfiler_event lib eng k p s =
      (if pr_max_samples pr \<noteq> 0 \<and> pr_max_samples pr \<le> entries_size lg
       then pbind (ExcimerProfiler_flush lib eng p) (\<lambda>old. release_log old) ?s2 else Inr ((), ?s2))"
    using at clk(1) add(1) f
    by (simp add: ExcimerProfiler_event_def pbind_def gets_def check_object_def put_object_def modify_def profiler_at_def Let_def)
  show thesis
  proof (cases "pr_max_samples pr \<noteq> 0 \<and> pr_max_samples pr \<le> entries_size lg")
    case True
    then have cb: "pr_z_callback pr = Z_VALUE v" "quiet_callback eng v" using conf by (auto simp: flush_config_def)
    obtain s3 lo' where s3: "ExcimerProfiler_flush lib eng p ?s2 = Inr (?l, s3)"
      "profiler_at s3 p (pr\<lparr>pr_z_log := next_object ?s2\<rparr>) lo'" "obj_log lo' = fresh_log (obj_log ?lo)"
      "objects s3 ?l = Some (Obj_Log ?lo)" "0 < refcount s3 ?l" "next_object ?s2 \<noteq> ?l"
      "user_calls s3 = user_calls ?s2 @ [(Z_VALUE v, Arg_Log ?l (obj_log ?lo))]"
      by (rule flush_run [OF at2 cb])
    let ?s' = "s3\<lparr>refcount := (refcount s3)(?l := refcount s3 ?l - 1),
      objects := (if refcount s3 ?l = 1 then (objects s3)(?l := None) else objects s3)\<rparr>"
    have "ExcimerProfiler_event lib eng k p s = Inr ((), ?s')"
      unfolding run using True s3(1) release_log_run [OF s3(4,5)] by (simp add: pbind_def)
    moreover have "profiler_at ?s' p (pr\<lparr>pr_z_log := next_object ?s2\<rparr>) lo'"
      by (rule profiler_at_release [OF s3(2) _ s3(4)]) (use s3(6) in simp)
    moreover have "event_outcome pr lg s ?s' v (obj_log lo')" using True s3(3,7) f by (simp add: event_outcome_def)
    moreover have "log_room (obj_log lo') n m" using s3(3) log_room_fresh [OF add(2) wf'] by simp
    ultimately show thesis using that add(1) by blast
  next
    case False
    then have "ExcimerProfiler_event lib eng k p s = Inr ((), ?s2)" using run by auto
    moreover have "event_outcome pr lg s ?s2 v (obj_log ?lo)" using False f by (auto simp: event_outcome_def)
    ultimately show thesis using that [of ?s2 "timerlib_timespec_to_ns ts" lg ?l ?lo] add at2 by simp
  qed
qed

lemma events_run:
  assumes "profiler_at s p pr lo" and "flush_config eng v pr"
    and "log_room (obj_log lo) (length evs) (\<Sum>(stk, k) \<leftarrow> evs. length stk)"
  shows "\<exists>s' z lo' cs. run_events lib eng p evs s = Inr ((), s') \<and> profiler_at s' p (pr\<lparr>pr_z_log := z\<rparr>) lo' \<and>
    user_calls s' = user_calls s @ cs \<and>
    concat (map (untimed \<circ> arg_log) cs) @ untimed (obj_log lo') =
      untimed (obj_log lo) @ map (\<lambda>(stk, k). (captured (max_depth (obj_log lo)) stk, k)) evs \<and>
    (below_threshold pr (obj_log lo) \<longrightarrow> below_threshold pr (obj_log lo') \<and> (\<forall>c \<in> set cs. full_flush v pr c))"
  using assms
proof (induction evs arbitrary: s pr lo)
  case Nil
  then show ?case by (intro exI [of _ s] exI [of _ "pr_z_log pr"] exI [of _ lo] exI [of _ "[]"]) simp
next
  case (Cons e evs)
  obtain stk k where e: "e = (stk, k)" by (cases e)
  let ?s = "s\<lparr>current_execute_data := stk\<rparr>"
  have at: "profiler_at ?s p pr lo" using Cons.prems(1) by (simp add: profiler_at_def heap_ok_def)
  have wf: "log_wf (obj_log lo)" using at by (simp add: profiler_at_def)
  have "log_room (obj_log lo) (Suc (length evs)) (length (current_execute_data ?s) + (\<Sum>(stk, k) \<leftarrow> evs. length stk))"
    using Cons.prems(3) by (simp add: e)
  from event_run [OF at Cons.prems(2) this] obtain s1 z lo1 lg ts where
    ev: "ExcimerProfiler_event lib eng k p ?s = Inr ((), s1)"
    "excimer_log_add (obj_log lo) (current_execute_data ?s) k ts = Inr lg" "profiler_at s1 p (pr\<lparr>pr_z_log := z\<rparr>) lo1"
    "log_room (obj_log lo1) (length evs) (\<Sum>(stk, k) \<leftarrow> evs. length stk)" "event_outcome pr lg ?s s1 v (obj_log lo1)" .
  obtain cs where cs: "user_calls s1 = user_calls s @ cs"
    "concat (map (untimed \<circ> arg_log) cs) @ untimed (obj_log lo1) =
      untimed (obj_log lo) @ [(captured (max_depth (obj_log lo)) stk, k)]"
    "max_depth (obj_log lo1) = max_depth (obj_log lo)"
    "below_threshold pr (obj_log lo) \<Longrightarrow> below_threshold pr (obj_log lo1) \<and> (\<forall>c \<in> set cs. full_flush v pr c)"
    using event_outcome_steps [OF wf ev(2,5)] by auto
  have conf: "flush_config eng v (pr\<lparr>pr_z_log := z\<rparr>)" using Cons.prems(2) by simp
  have upd: "pr\<lparr>pr_z_log := z, pr_z_log := z'\<rparr> = pr\<lparr>pr_z_log := z'\<rparr>" for z' by simp
  from Cons.IH [OF ev(3) conf ev(4)] obtain s' z' lo' ds where
    s': "run_events lib eng p evs s1 = Inr ((), s')" "profiler_at s' p (pr\<lparr>pr_z_log := z'\<rparr>) lo'"
    "user_calls s' = user_calls s1 @ ds"
    "concat (map (untimed \<circ> arg_log) ds) @ untimed (obj_log lo') =
      untimed (obj_log lo1) @ map (\<lambda>(stk, k). (captured (max_depth (obj_log lo1)) stk, k)) evs"
    "below_threshold pr (obj_log lo1) \<longrightarrow> below_threshold pr (obj_log lo') \<and> (\<forall>c \<in> set ds. full_flush v pr c)"
    unfolding upd rotated_profiler by blast
  have "run_events lib eng p (e # evs) s = Inr ((), s')" using ev(1) s'(1) by (simp add: e pbind_def modify_def)
  moreover have "concat (map (untimed \<circ> arg_log) (cs @ ds)) @ untimed (obj_log lo') =
      untimed (obj_log lo) @ map (\<lambda>(stk, k). (captured (max_depth (obj_log lo)) stk, k)) (e # evs)"
    using s'(4) cs(2,3) by (simp add: e)
  moreover have "below_threshold pr (obj_log lo) \<Longrightarrow>
      below_threshold pr (obj_log lo') \<and> (\<forall>c \<in> set (cs @ ds). full_flush v pr c)"
    using cs(4) s'(5) by auto
  moreover have "user_calls s' = user_calls s @ cs @ ds" using s'(3) cs(1) by simp
  ultimately show ?case using s'(2) by blast
qed

end

interpretation posix_profiler: profiler_backend "posix_timerlib np" posix_live for np
  by unfold_locales

interpretation kqueue_profiler: profiler_backend "kqueue_timerlib uninit" "\<lambda>_. True" for uninit
  by unfold_locales

section \<open>A concrete profiler\<close>

text \<open>An engine that calls nothing, and a profiler at address 1 with an empty log at address 2 and threshold 2.\<close>

definition demo_engine :: "'s engine" where
  "demo_engine = \<lparr>fp_round = (\<lambda>x. x), out_of_range_uint64 = (\<lambda>_. 0), is_callable = (\<lambda>_ v. v = 7),
     call_user = (\<lambda>_ _. pret ()), release_value = (\<lambda>_. pret ())\<rparr>"

definition demo_profiler :: profiler_obj where
  "demo_profiler = zero_profiler\<lparr>pr_z_log := 2, pr_z_callback := Z_VALUE 7, pr_max_samples := 2, pr_need_reinit := True,
     pr_period := \<lparr>tv_sec = 1, tv_nsec = 0\<rparr>, pr_initial := \<lparr>tv_sec = 0, tv_nsec = 5\<rparr>\<rparr>"

definition no_entries :: entry_heap where
  "no_entries = \<lparr>entry_objs = (\<lambda>_. None), entry_count = (\<lambda>_. 0), next_entry = 0, log_current = (\<lambda>_. None),
     log_iterators = (\<lambda>_. None), next_iterator = 0, entry_vars = (\<lambda>_. 0)\<rparr>"

definition demo_php :: "posix_timer php" where
  "demo_php =
     \<lparr>answers = answers demo_os, os_calls = [], warnings = [], loop_fuel = 3, timers = timers demo_thread,
      tls_of = tls_of demo_thread, vm_interrupt = (\<lambda>_. False),
      zend_interrupt_function = None, old_zend_interrupt_function = None,
      objects = [1 \<mapsto> Obj_Profiler demo_profiler, 2 \<mapsto> Obj_Log (ExcimerLog_new zero_log)],
      refcount = (\<lambda>_. 1), next_object = 3, current_execute_data = [], user_calls = [], php_refs = (\<lambda>_. 0), ents = no_entries\<rparr>"

lemma demo_profiler_at: "profiler_at demo_php 1 demo_profiler (ExcimerLog_new zero_log)"
  by (auto simp: profiler_at_def heap_ok_def demo_php_def demo_profiler_def ExcimerLog_new_def log_wf_init)

lemma demo_quiet: "quiet_callback demo_engine 7"
  by (simp add: quiet_callback_def callback_frame_def demo_engine_def)

lemma demo_flush_config: "flush_config demo_engine 7 demo_profiler"
  by (simp add: flush_config_def demo_profiler_def demo_quiet)

lemma demo_room: "n \<le> 9 \<Longrightarrow> m \<le> 99 \<Longrightarrow> log_room (obj_log (ExcimerLog_new zero_log)) n m"
  by (simp add: log_room_def ExcimerLog_new_def excimer_log_init_def sizeof_entry_def)

lemma demo_empty:
  "untimed (obj_log (ExcimerLog_new zero_log)) = []" "max_depth (obj_log (ExcimerLog_new zero_log)) = 0"
  "entries (obj_log (ExcimerLog_new zero_log)) = []"
  by (simp_all add: ExcimerLog_new_def untimed_def log_samples_def excimer_log_init_def zero_log_def)

section \<open>Delivery by the interrupt hook\<close>

text \<open>
  A pending timer that is ready to be delivered: it is embedded in an \<^verbatim>\<open>ExcimerTimer\<close> whose callback is a user function that
  is callable, returns, and leaves the timers and objects of the extension alone.
\<close>

definition harmless_function :: "('tl, 'z) php_scheme engine \<Rightarrow> nat \<Rightarrow> bool" where
  "harmless_function eng v \<longleftrightarrow> (\<forall>s. is_callable eng s v) \<and> (\<forall>arg s. \<exists>s'. call_user eng v arg s = Inr ((), s') \<and>
     timers s' = timers s \<and> tls_of s' = tls_of s \<and> answers s' = answers s \<and> objects s' = objects s \<and> user_calls s' = user_calls s \<and>
     old_zend_interrupt_function s' = old_zend_interrupt_function s)"

definition timer_zval :: "('tl, 'z) php_scheme \<Rightarrow> addr \<Rightarrow> callback_zval" where
  "timer_zval s t = (case objects s t of Some (Obj_Timer to) \<Rightarrow> to_z_callback to | _ \<Rightarrow> Z_UNDEF)"

definition timer_ready :: "('tl, 'z) php_scheme engine \<Rightarrow> ('tl, 'z) php_scheme \<Rightarrow> addr \<Rightarrow> bool" where
  "timer_ready eng s t \<longleftrightarrow> callback (timers s t) = Timer_callback \<and> user_data (timers s t) = t \<and>
     (\<exists>to. objects s t = Some (Obj_Timer to)) \<and> (\<exists>v. timer_zval s t = Z_VALUE v \<and> harmless_function eng v)"

lemma php_of_tmore:
  assumes "tstate.more s' = tstate.more s"
  shows "objects s' = objects s" "user_calls s' = user_calls s" "old_zend_interrupt_function s' = old_zend_interrupt_function s"
  using assms by (cases s; cases s'; simp)+

lemma timer_event_run:
  assumes ready: "timer_ready eng s t" and q: "queued me D s q c"
  obtains s' where "event_callback lib eng (callback (timers s t)) n (user_data (timers s t)) s = Inr ((), s')" "queued me D s' q c"
    "timers s' = timers s" "objects s' = objects s" "user_calls s' = user_calls s @ [(timer_zval s t, Arg_Long n)]"
    "old_zend_interrupt_function s' = old_zend_interrupt_function s"
proof -
  obtain to v where to: "objects s t = Some (Obj_Timer to)" "to_z_callback to = Z_VALUE v" "harmless_function eng v"
    using ready by (auto simp: timer_ready_def timer_zval_def)
  let ?s = "s\<lparr>user_calls := user_calls s @ [(Z_VALUE v, Arg_Long n)]\<rparr>"
  obtain s' where s': "call_user eng v (Arg_Long n) ?s = Inr ((), s')" "timers s' = timers ?s" "tls_of s' = tls_of ?s"
    "answers s' = answers ?s" "objects s' = objects ?s" "user_calls s' = user_calls ?s"
    "old_zend_interrupt_function s' = old_zend_interrupt_function ?s"
    using to(3) unfolding harmless_function_def by blast
  have "event_callback lib eng (callback (timers s t)) n (user_data (timers s t)) s = Inr ((), s')"
    using ready to s'(1)
    by (simp add: timer_ready_def event_callback_def ExcimerTimer_event_def php_defs callable_def harmless_function_def call_function_def)
  moreover have "queued me D s' q c" using q s'(2-4) pending_ring_cong [of s' s me D q] by (simp add: queued_def)
  ultimately show thesis using that s' to by (simp add: timer_zval_def)
qed

lemma deliver_ready:
  assumes "queued me D s q c" and "length q < n" and "\<And>t. t \<in> set q \<Longrightarrow> timer_ready eng s t"
  shows "\<exists>s'. deliver_pending (event_callback lib eng) me n s = Inr ((), s') \<and>
    queued me D s' [] (\<lambda>t. if t \<in> set q then 0 else c t) \<and>
    user_calls s' = user_calls s @ map (\<lambda>t. (timer_zval s t, Arg_Long (c t))) q \<and>
    old_zend_interrupt_function s' = old_zend_interrupt_function s"
  using assms
proof (induction n arbitrary: s q c)
  case (Suc n)
  show ?case
  proof (cases q)
    case Nil
    then obtain s' where "excimer_timer_pending_dequeue me s = Inr (None, s')" "queued me D s' [] c" "event_frame s s'"
      using dequeue_queued_empty [of me D s c] Suc.prems(1) by metis
    then show ?thesis using Nil php_of_tmore [of s' s] by (auto simp: pbind_Inr event_frame_def)
  next
    case (Cons h r)
    then obtain s1 where s1: "excimer_timer_pending_dequeue me s = Inr (Some (h, c h), s1)"
      "queued me D s1 r (c(h := 0))" "event_frame s s1"
      using dequeue_queued [of me D s h r c] Suc.prems(1) by metis
    have core: "core (timers s1 x) = core (timers s x)" and more: "tstate.more s1 = tstate.more s" for x
      using s1(3) by (simp_all add: event_frame_def)
    note f = php_of_tmore [OF more]
    have ready1: "timer_ready eng s1 t \<longleftrightarrow> timer_ready eng s t" for t
      using arg_cong [OF core, of callback] arg_cong [OF core, of user_data] f by (simp add: timer_ready_def timer_zval_def)
    have h: "h \<notin> set r" using Suc.prems(1) Cons pending_ringD(1) [of me D s q] by (simp add: queued_def)
    have "timer_ready eng s1 h" using Suc.prems(3) [of h] Cons ready1 by simp
    from timer_event_run [OF this s1(2)] obtain s2 where s2:
      "event_callback lib eng (callback (timers s1 h)) (c h) (user_data (timers s1 h)) s1 = Inr ((), s2)" "queued me D s2 r (c(h := 0))"
      "timers s2 = timers s1" "objects s2 = objects s1" "user_calls s2 = user_calls s1 @ [(timer_zval s1 h, Arg_Long (c h))]"
      "old_zend_interrupt_function s2 = old_zend_interrupt_function s1" by metis
    have step: "deliver_pending (event_callback lib eng) me (Suc n) s = deliver_pending (event_callback lib eng) me n s2"
      using s1(1) s2(1) by (simp add: pbind_def state_defs)
    have ready2: "timer_ready eng s2 t" if "t \<in> set r" for t
      using Suc.prems(3) [of t] that Cons ready1 [of t] s2(3,4) by (simp add: timer_ready_def timer_zval_def)
    have zv: "timer_zval s2 t = timer_zval s t" "timer_zval s1 t = timer_zval s t" for t using s2(4) f(1) by (simp_all add: timer_zval_def)
    from Suc.IH [OF s2(2) _ ready2] Suc.prems(2) Cons
    obtain s' where s': "deliver_pending (event_callback lib eng) me n s2 = Inr ((), s')"
      "queued me D s' [] (\<lambda>t. if t \<in> set r then 0 else (c(h := 0)) t)"
      "user_calls s' = user_calls s2 @ map (\<lambda>t. (timer_zval s2 t, Arg_Long ((c(h := 0)) t))) r"
      "old_zend_interrupt_function s' = old_zend_interrupt_function s2" by auto
    have "(\<lambda>t. if t \<in> set r then 0 else (c(h := 0)) t) = (\<lambda>t. if t \<in> set q then 0 else c t)"
      using Cons by auto
    moreover have "user_calls s' = user_calls s @ map (\<lambda>t. (timer_zval s t, Arg_Long (c t))) q"
      using s'(3) s2(5) h Cons zv f(2) by auto
    ultimately show ?thesis unfolding step using s' s2(6) f(3) by auto
  qed
qed simp

section \<open>Properties\<close>

text \<open>C3 (safety): no sample is lost or duplicated by flushing, under these conditions: the profiler has no threshold, or it has a
  flush callback that is callable in every state, returns, leaves the existing objects and the references to them alone and
  makes no flushes of its own (\<open>flush_config\<close>); and frames and entries of the log have room for the events (\<open>log_room\<close>). Then a
  sequence of calls of the event function returns; the samples of the logs handed to the callback, in order, followed by
  those of the current log are the samples there were, followed by one per event with the stack that event
  found, cut at the depth limit, and its number of timer events. Without such a callback the samples can be lost: when the
  value is no longer callable at the threshold, the code rotates the log, warns and releases the old one.\<close>

theorem profiler_samples_conserved:
  assumes "profiler_at s p pr lo" and "flush_config eng v pr"
    and "log_room (obj_log lo) (length evs) (\<Sum>(stk, k) \<leftarrow> evs. length stk)"
  shows "\<exists>s' z lo' cs. run_events (posix_timerlib np) eng p evs s = Inr ((), s') \<and>
    profiler_at s' p (pr\<lparr>pr_z_log := z\<rparr>) lo' \<and> user_calls s' = user_calls s @ cs \<and>
    concat (map (untimed \<circ> arg_log) cs) @ untimed (obj_log lo') =
      untimed (obj_log lo) @ map (\<lambda>(stk, k). (captured (max_depth (obj_log lo)) stk, k)) evs"
  using posix_profiler.events_run [OF assms] by blast

theorem profiler_samples_conserved_witness:
  "\<exists>s' z lo' cs. run_events (posix_timerlib True) demo_engine 1 [(demo_stack, 1), (demo_stack, 4)] demo_php = Inr ((), s') \<and>
    profiler_at s' 1 (demo_profiler\<lparr>pr_z_log := z\<rparr>) lo' \<and> user_calls s' = user_calls demo_php @ cs \<and>
    concat (map (untimed \<circ> arg_log) cs) @ untimed (obj_log lo') = [(captured 0 demo_stack, 1), (captured 0 demo_stack, 4)]"
proof -
  have "log_room (obj_log (ExcimerLog_new zero_log)) 2 (\<Sum>(stk, k) \<leftarrow> [(demo_stack, 1 :: zend_long), (demo_stack, 4)]. length stk)"
    by (rule demo_room) (simp_all add: demo_stack_def)
  with profiler_samples_conserved [OF demo_profiler_at demo_flush_config,
      where evs = "[(demo_stack, 1), (demo_stack, 4)]" and np = True]
  show ?thesis by (simp add: demo_empty eval_nat_numeral del: run_events.simps)
qed

text \<open>C23 (bounds): the event function flushes exactly at the threshold. Let the current log have fewer than \<^verbatim>\<open>max_samples\<close> entries
  and room for the events, and let the flush callback be callable in every state, return, leave the existing
  objects and the references to them alone and make no flushes of its own (\<open>quiet_callback\<close>). Then a sequence of calls of
  the event function returns, the current log is below the threshold again, and the callback was called by these events
  only with logs of exactly \<^verbatim>\<open>max_samples\<close> entries. Events are the only calls it speaks of: \<^verbatim>\<open>flush()\<close> and the destructor
  of the profiler call the callback with the entries there are.\<close>

theorem flush_exactly_at_threshold:
  assumes "profiler_at s p pr lo" and "pr_z_callback pr = Z_VALUE v" and "quiet_callback eng v"
    and "length (entries (obj_log lo)) < unat (pr_max_samples pr)"
    and "log_room (obj_log lo) (length evs) (\<Sum>(stk, k) \<leftarrow> evs. length stk)"
  shows "\<exists>s' z lo' cs. run_events (posix_timerlib np) eng p evs s = Inr ((), s') \<and>
    profiler_at s' p (pr\<lparr>pr_z_log := z\<rparr>) lo' \<and> user_calls s' = user_calls s @ cs \<and>
    length (entries (obj_log lo')) < unat (pr_max_samples pr) \<and>
    (\<forall>c \<in> set cs. length (entries (arg_log c)) = unat (pr_max_samples pr))"
proof -
  have conf: "flush_config eng v pr" "below_threshold pr (obj_log lo)" "pr_max_samples pr \<noteq> 0"
    using assms by (auto simp: flush_config_def below_threshold_def)
  from posix_profiler.events_run [OF assms(1) conf(1) assms(5), of np] conf(2,3) show ?thesis
    unfolding below_threshold_def full_flush_def by fastforce
qed

theorem flush_exactly_at_threshold_witness:
  "\<exists>s' z lo' cs. run_events (posix_timerlib True) demo_engine 1 [(demo_stack, 1), (demo_stack, 4), (demo_stack, 1)] demo_php = Inr ((), s') \<and>
    profiler_at s' 1 (demo_profiler\<lparr>pr_z_log := z\<rparr>) lo' \<and> user_calls s' = user_calls demo_php @ cs \<and>
    length (entries (obj_log lo')) < 2 \<and> (\<forall>c \<in> set cs. length (entries (arg_log c)) = 2)"
proof -
  have room: "log_room (obj_log (ExcimerLog_new zero_log)) 3
      (\<Sum>(stk, k) \<leftarrow> [(demo_stack, 1 :: zend_long), (demo_stack, 4), (demo_stack, 1)]. length stk)"
    by (rule demo_room) (simp_all add: demo_stack_def)
  have "pr_z_callback demo_profiler = Z_VALUE 7" "unat (pr_max_samples demo_profiler) = 2"
    by (simp_all add: demo_profiler_def)
  with flush_exactly_at_threshold [OF demo_profiler_at _ demo_quiet,
      where evs = "[(demo_stack, 1), (demo_stack, 4), (demo_stack, 1)]" and np = True] room
  show ?thesis by (simp add: demo_empty eval_nat_numeral del: run_events.simps)
qed

text \<open>C22 (liveness): the interrupt hook delivers all that is pending. When the pending timers are those of \<^verbatim>\<open>ExcimerTimer\<close> objects,
  whose callbacks are user functions that are callable, return and leave the timers and objects of the extension alone, and no
  library call fails, the hook returns within one round of its loop more than there are pending timers (the bound the model puts
  on the loop has to allow that many); it calls the function of each pending timer once, in the order the timers became
  pending, with the number of events counted for it; then the list is empty, the counts are zero, and the previously
  installed interrupt hook, if any, is called.\<close>

theorem interrupt_delivers_all:
  assumes "queued me D s q c" and "length q < loop_fuel s" and "\<And>t. t \<in> set q \<Longrightarrow> timer_ready eng s t"
  shows "\<exists>s'. excimer_timer_interrupt (event_callback lib eng) hook me s =
      (case old_zend_interrupt_function s of Some h \<Rightarrow> hook h s' | None \<Rightarrow> Inr ((), s')) \<and>
    user_calls s' = user_calls s @ map (\<lambda>t. (timer_zval s t, Arg_Long (c t))) q \<and>
    hd_ptr s' me = None \<and> (\<forall>t \<in> set q. timer_event_count (timers s' t) = 0)"
proof -
  obtain s' where s': "deliver_pending (event_callback lib eng) me (loop_fuel s) s = Inr ((), s')"
    "queued me D s' [] (\<lambda>t. if t \<in> set q then 0 else c t)"
    "user_calls s' = user_calls s @ map (\<lambda>t. (timer_zval s t, Arg_Long (c t))) q"
    "old_zend_interrupt_function s' = old_zend_interrupt_function s"
    using deliver_ready [OF assms] by blast
  then have "excimer_timer_interrupt (event_callback lib eng) hook me s =
      (case old_zend_interrupt_function s of Some h \<Rightarrow> hook h s' | None \<Rightarrow> Inr ((), s'))"
    by (auto simp: excimer_timer_interrupt_def pbind_def get_fuel_def gets_def split: option.split)
  moreover have "hd_ptr s' me = None" using s'(2) pending_ringD(3) [of me D s' "[]"] by (simp add: queued_def)
  ultimately show ?thesis using s' by (auto simp: queued_def)
qed

text \<open>Two timer objects pending with 3 and 5 events.\<close>

definition demo_timers_pending :: "unit php" where
  "demo_timers_pending =
     \<lparr>answers = answers demo_pending, os_calls = [], warnings = [], loop_fuel = 3,
      timers = (timers demo_pending)
        (1 := (timers demo_pending 1)\<lparr>timer_event_count := 3, callback := Timer_callback, user_data := 1\<rparr>,
         2 := (timers demo_pending 2)\<lparr>timer_event_count := 5, callback := Timer_callback, user_data := 2\<rparr>),
      tls_of = tls_of demo_pending, vm_interrupt = vm_interrupt demo_pending,
      zend_interrupt_function = Some Hook_excimer_timer_interrupt, old_zend_interrupt_function = Some (Hook_foreign 9),
      objects = [1 \<mapsto> Obj_Timer (zero_timer_obj\<lparr>to_z_callback := Z_VALUE 7\<rparr>), 2 \<mapsto> Obj_Timer (zero_timer_obj\<lparr>to_z_callback := Z_VALUE 7\<rparr>)],
      refcount = (\<lambda>_. 1), next_object = 3, current_execute_data = [], user_calls = [], php_refs = (\<lambda>_. 0), ents = no_entries\<rparr>"

theorem interrupt_delivers_all_witness:
  "\<forall>lib :: (unit, unit) php_lib. \<exists>s'.
     excimer_timer_interrupt (event_callback lib demo_engine) (\<lambda>h s. Inr ((), s)) 0 demo_timers_pending = Inr ((), s') \<and>
     user_calls s' = [(Z_VALUE 7, Arg_Long 3), (Z_VALUE 7, Arg_Long 5)]"
proof
  fix lib :: "(unit, unit) php_lib"
  have q: "queued 0 {1, 2, 3} demo_timers_pending [1, 2] (\<lambda>t. timer_event_count (timers demo_timers_pending t))"
    using demo_ring by (simp add: queued_def pending_ring_def demo_timers_pending_def demo_pending_def idle_timer_def)
  have "harmless_function demo_engine 7" by (simp add: harmless_function_def demo_engine_def)
  then have r: "timer_ready demo_engine demo_timers_pending t" if "t \<in> set [1, 2]" for t
    using that by (auto simp: timer_ready_def timer_zval_def demo_timers_pending_def)
  have sel: "loop_fuel demo_timers_pending = 3" "old_zend_interrupt_function demo_timers_pending = Some (Hook_foreign 9)"
    "user_calls demo_timers_pending = []" "timer_zval demo_timers_pending 1 = Z_VALUE 7" "timer_zval demo_timers_pending 2 = Z_VALUE 7"
    "timer_event_count (timers demo_timers_pending 1) = 3" "timer_event_count (timers demo_timers_pending 2) = 5"
    by (simp_all add: demo_timers_pending_def timer_zval_def)
  have "length [1, 2 :: nat] < loop_fuel demo_timers_pending" by (simp add: sel)
  from interrupt_delivers_all [OF q this r, of lib "\<lambda>h s. Inr ((), s)"]
  show "\<exists>s'. excimer_timer_interrupt (event_callback lib demo_engine) (\<lambda>h s. Inr ((), s)) 0 demo_timers_pending = Inr ((), s') \<and>
      user_calls s' = [(Z_VALUE 7, Arg_Long 3), (Z_VALUE 7, Arg_Long 5)]" by (simp only: sel list.map append_Nil option.case) blast
qed

end
