(* ===== verification/Php_Entries.thy ===== *)
theory Php_Entries
  imports Php_Profiler
begin

text \<open>
  The objects of class \<^verbatim>\<open>ExcimerLogEntry\<close> and the iterators of \<^verbatim>\<open>foreach\<close> in the heap (\<^verbatim>\<open>excimer.c\<close>): an entry holds
  a reference to its log, an iterator too, and both a log and an iterator cache the entry they last made. The
  operations are those of \<open>Php_Log\<close>, with the references they take and drop.
\<close>

section \<open>Entries\<close>

definition upd_ents :: "(entry_heap \<Rightarrow> entry_heap) \<Rightarrow> (('tl, 'z) php_scheme, unit) prog" where
  "upd_ents f = modify (\<lambda>s. s\<lparr>ents := f (ents s)\<rparr>)"

definition get_entry :: "addr \<Rightarrow> (('tl, 'z) php_scheme, log_entry_obj) prog" where
  "get_entry e s = (case entry_objs (ents s) e of None \<Rightarrow> Inl Use_After_Free | Some x \<Rightarrow> Inr (x, s))"

definition set_entry :: "addr \<Rightarrow> (log_entry_obj \<Rightarrow> log_entry_obj) \<Rightarrow> (('tl, 'z) php_scheme, unit) prog" where
  "set_entry e f = pbind (get_entry e) (\<lambda>x. upd_ents (\<lambda>h. h\<lparr>entry_objs := (entry_objs h)(e \<mapsto> f x)\<rparr>))"

definition ExcimerLogEntry_new :: "(('tl, 'z) php_scheme, addr) prog" where
  "ExcimerLogEntry_new =
     pbind (gets (\<lambda>s. next_entry (ents s))) (\<lambda>e.
     pbind (upd_ents (\<lambda>h. h\<lparr>entry_objs := (entry_objs h)(e \<mapsto> \<lparr>en_z_log = None, en_index = 0\<rparr>),
       entry_count := (entry_count h)(e := 1), next_entry := Suc e\<rparr>)) (\<lambda>_.
     pret e))"

definition entry_addref :: "addr \<Rightarrow> (('tl, 'z) php_scheme, unit) prog" where
  "entry_addref e = upd_ents (\<lambda>h. h\<lparr>entry_count := (entry_count h)(e := Suc (entry_count h e))\<rparr>)"

definition entry_delref :: "addr \<Rightarrow> (('tl, 'z) php_scheme, unit) prog" where
  "entry_delref e = upd_ents (\<lambda>h. h\<lparr>entry_count := (entry_count h)(e := entry_count h e - 1)\<rparr>)"

definition free_entry :: "addr \<Rightarrow> (('tl, 'z) php_scheme, unit) prog" where
  "free_entry e = upd_ents (\<lambda>h. h\<lparr>entry_objs := (entry_objs h)(e := None)\<rparr>)"

text \<open>A reference to an entry that goes to a variable of PHP code, and one that is given back.\<close>

definition entry_hand_over :: "addr \<Rightarrow> (('tl, 'z) php_scheme, unit) prog" where
  "entry_hand_over e = upd_ents (\<lambda>h. h\<lparr>entry_vars := (entry_vars h)(e := Suc (entry_vars h e))\<rparr>)"

definition entry_take_back :: "addr \<Rightarrow> (('tl, 'z) php_scheme, unit) prog" where
  "entry_take_back e = upd_ents (\<lambda>h. h\<lparr>entry_vars := (entry_vars h)(e := entry_vars h e - 1)\<rparr>)"

definition ExcimerLogEntry_free_object :: "addr \<Rightarrow> (('tl, 'z) php_scheme, unit) prog" where
  "ExcimerLogEntry_free_object e =
     pbind (get_entry e) (\<lambda>eo.
     pbind (case en_z_log eo of Some l \<Rightarrow> pbind (take_back l) (\<lambda>_. release_log l) | None \<Rightarrow> pret ()) (\<lambda>_.
     set_entry e (en_z_log_update (\<lambda>_. None))))"

text \<open>\<^verbatim>\<open>zval_ptr_dtor\<close> on an entry, and on a field that is an entry or null.\<close>

definition release_entry :: "addr \<Rightarrow> (('tl, 'z) php_scheme, unit) prog" where
  "release_entry e =
     pbind (get_entry e) (\<lambda>_.
     pbind (entry_delref e) (\<lambda>_.
     pbind (gets (\<lambda>s. entry_count (ents s) e)) (\<lambda>n.
     if n = 0 then pbind (ExcimerLogEntry_free_object e) (\<lambda>_. free_entry e) else pret ())))"

definition release_current :: "addr option \<Rightarrow> (('tl, 'z) php_scheme, unit) prog" where
  "release_current z = (case z of Some e \<Rightarrow> release_entry e | None \<Rightarrow> pret ())"

definition ExcimerLog_init_entry_obj :: "addr \<Rightarrow> zend_long \<Rightarrow> (('tl, 'z) php_scheme, addr option) prog" where
  "ExcimerLog_init_entry_obj l index =
     pbind (get_log l) (\<lambda>lo. case excimer_log_get_entry (obj_log lo) index of
       None \<Rightarrow> pret None
     | Some _ \<Rightarrow>
         pbind ExcimerLogEntry_new (\<lambda>e.
         pbind (addref l) (\<lambda>_.
         pbind (hand_over l) (\<lambda>_.
         pbind (set_entry e (en_z_log_update (\<lambda>_. Some l))) (\<lambda>_.
         pbind (set_entry e (en_index_update (\<lambda>_. index))) (\<lambda>_.
         pret (Some e)))))))"

text \<open>The accessors: the entry reads its log and an element of it, neither of which is checked.\<close>

definition with_entry :: "addr \<Rightarrow> (excimer_log \<Rightarrow> zend_long \<Rightarrow> 'a res) \<Rightarrow> (('tl, 'z) php_scheme, 'a) prog" where
  "with_entry e f =
     pbind (get_entry e) (\<lambda>eo. case en_z_log eo of
       None \<Rightarrow> pfail Null_Deref
     | Some l \<Rightarrow> pbind (get_log l) (\<lambda>lo s. rbind (f (obj_log lo) (en_index eo)) (\<lambda>x. Inr (x, s))))"

definition zim_ExcimerLogEntry_getTimestamp :: "(real \<Rightarrow> real) \<Rightarrow> addr \<Rightarrow> (('tl, 'z) php_scheme, real) prog" where
  "zim_ExcimerLogEntry_getTimestamp fl e = with_entry e (ExcimerLogEntry_getTimestamp fl)"

definition zim_ExcimerLogEntry_getEventCount :: "addr \<Rightarrow> (('tl, 'z) php_scheme, zend_long) prog" where
  "zim_ExcimerLogEntry_getEventCount e = with_entry e ExcimerLogEntry_getEventCount"

definition zim_ExcimerLogEntry_getTrace :: "addr \<Rightarrow> (('tl, 'z) php_scheme, (zkey, zval) ztable) prog" where
  "zim_ExcimerLogEntry_getTrace e = with_entry e ExcimerLogEntry_getTrace"

section \<open>Methods of a log that make or drop entries\<close>

definition set_current :: "addr \<Rightarrow> addr option \<Rightarrow> (('tl, 'z) php_scheme, unit) prog" where
  "set_current l z = pbind (get_log l) (\<lambda>_. upd_ents (\<lambda>h. h\<lparr>log_current := (log_current h)(l := z)\<rparr>))"

definition set_iter_index :: "addr \<Rightarrow> (zend_long \<Rightarrow> zend_long) \<Rightarrow> (('tl, 'z) php_scheme, unit) prog" where
  "set_iter_index l f = pbind (get_log l) (\<lambda>lo. put_object l (Obj_Log (lo\<lparr>iter_entry_index := f (iter_entry_index lo)\<rparr>)))"

text \<open>The value a method returns is one more reference to the cached entry.\<close>

definition zim_ExcimerLog_current :: "addr \<Rightarrow> (('tl, 'z) php_scheme, addr option) prog" where
  "zim_ExcimerLog_current l =
     pbind (get_log l) (\<lambda>lo.
     pbind (gets (\<lambda>s. log_current (ents s) l)) (\<lambda>cur.
     pbind (if cur = None \<and> iter_entry_index lo < entries_size (obj_log lo)
         then pbind (ExcimerLog_init_entry_obj l (iter_entry_index lo)) (set_current l) else pret ()) (\<lambda>_.
     pbind (gets (\<lambda>s. log_current (ents s) l)) (\<lambda>cur.
     case cur of None \<Rightarrow> pret None | Some e \<Rightarrow> pbind (entry_addref e) (\<lambda>_. pret (Some e))))))"

definition zim_ExcimerLog_next :: "addr \<Rightarrow> (('tl, 'z) php_scheme, unit) prog" where
  "zim_ExcimerLog_next l =
     pbind (get_log l) (\<lambda>_.
     pbind (gets (\<lambda>s. log_current (ents s) l)) (\<lambda>cur.
     pbind (release_current cur) (\<lambda>_.
     pbind (set_current l None) (\<lambda>_.
     pbind (get_log l) (\<lambda>lo.
     if iter_entry_index lo < entries_size (obj_log lo) then set_iter_index l (\<lambda>i. i + 1) else pret ())))))"

definition zim_ExcimerLog_rewind :: "addr \<Rightarrow> (('tl, 'z) php_scheme, unit) prog" where
  "zim_ExcimerLog_rewind l =
     pbind (set_iter_index l (\<lambda>_. 0)) (\<lambda>_.
     pbind (gets (\<lambda>s. log_current (ents s) l)) (\<lambda>cur.
     pbind (release_current cur) (\<lambda>_.
     set_current l None)))"

definition zim_ExcimerLog_offsetGet :: "addr \<Rightarrow> zend_long \<Rightarrow> (('tl, 'z) php_scheme, addr option) prog" where
  "zim_ExcimerLog_offsetGet l offset =
     pbind (get_log l) (\<lambda>lo.
     if offset <s 0 \<or> entries_size (obj_log lo) \<le> offset then pret None else ExcimerLog_init_entry_obj l offset)"

section \<open>Iterators\<close>

definition get_iterator :: "addr \<Rightarrow> (('tl, 'z) php_scheme, iterator_obj) prog" where
  "get_iterator i s = (case log_iterators (ents s) i of None \<Rightarrow> Inl Use_After_Free | Some x \<Rightarrow> Inr (x, s))"

definition set_iterator :: "addr \<Rightarrow> (iterator_obj \<Rightarrow> iterator_obj) \<Rightarrow> (('tl, 'z) php_scheme, unit) prog" where
  "set_iterator i f = pbind (get_iterator i) (\<lambda>x. upd_ents (\<lambda>h. h\<lparr>log_iterators := (log_iterators h)(i \<mapsto> f x)\<rparr>))"

text \<open>An iterator by reference is refused with an exception (\<open>None\<close>).\<close>

definition ExcimerLog_get_iterator_obj :: "addr \<Rightarrow> bool \<Rightarrow> (('tl, 'z) php_scheme, addr option) prog" where
  "ExcimerLog_get_iterator_obj l by_ref =
     (if by_ref then pret None
      else pbind (gets (\<lambda>s. next_iterator (ents s))) (\<lambda>i.
        pbind (addref l) (\<lambda>_.
        pbind (hand_over l) (\<lambda>_.
        pbind (upd_ents (\<lambda>h. h\<lparr>log_iterators := (log_iterators h)(i \<mapsto> \<lparr>io_log = l, io_current = None, io_index = 0\<rparr>),
          next_iterator := Suc i\<rparr>)) (\<lambda>_.
        pret (Some i))))))"

text \<open>The destructor; the engine frees the iterator's storage after it.\<close>

definition ExcimerLog_iterator_dtor :: "addr \<Rightarrow> (('tl, 'z) php_scheme, unit) prog" where
  "ExcimerLog_iterator_dtor i =
     pbind (get_iterator i) (\<lambda>it.
     pbind (release_current (io_current it)) (\<lambda>_.
     pbind (set_iterator i (io_current_update (\<lambda>_. None))) (\<lambda>_.
     pbind (take_back (io_log it)) (\<lambda>_.
     release_log (io_log it)))))"

definition free_iterator :: "addr \<Rightarrow> (('tl, 'z) php_scheme, unit) prog" where
  "free_iterator i = upd_ents (\<lambda>h. h\<lparr>log_iterators := (log_iterators h)(i := None)\<rparr>)"

text \<open>The entry stays the iterator's; the engine copies it into the loop variable.\<close>

definition iterator_get_current_data :: "addr \<Rightarrow> (('tl, 'z) php_scheme, addr option) prog" where
  "iterator_get_current_data i =
     pbind (get_iterator i) (\<lambda>it.
     pbind (get_log (io_log it)) (\<lambda>lo.
     if io_current it = None then
       if io_index it < entries_size (obj_log lo) then
         pbind (ExcimerLog_init_entry_obj (io_log it) (io_index it)) (\<lambda>e.
         pbind (set_iterator i (io_current_update (\<lambda>_. e))) (\<lambda>_. pret e))
       else pret None
     else pret (io_current it)))"

definition iterator_invalidate_current :: "addr \<Rightarrow> (('tl, 'z) php_scheme, unit) prog" where
  "iterator_invalidate_current i =
     pbind (get_iterator i) (\<lambda>it.
     pbind (release_current (io_current it)) (\<lambda>_.
     set_iterator i (io_current_update (\<lambda>_. None))))"

definition iterator_move_forward :: "addr \<Rightarrow> (('tl, 'z) php_scheme, unit) prog" where
  "iterator_move_forward i =
     pbind (get_iterator i) (\<lambda>it.
     pbind (get_log (io_log it)) (\<lambda>_.
     pbind (release_current (io_current it)) (\<lambda>_.
     pbind (set_iterator i (io_current_update (\<lambda>_. None))) (\<lambda>_.
     pbind (get_log (io_log it)) (\<lambda>lo.
     if io_index it < entries_size (obj_log lo) then set_iterator i (io_index_update (\<lambda>n. n + 1)) else pret ())))))"

definition iterator_rewind :: "addr \<Rightarrow> (('tl, 'z) php_scheme, unit) prog" where
  "iterator_rewind i =
     pbind (get_iterator i) (\<lambda>it.
     pbind (release_current (io_current it)) (\<lambda>_.
     pbind (set_iterator i (io_current_update (\<lambda>_. None))) (\<lambda>_.
     set_iterator i (io_index_update (\<lambda>_. 0)))))"

lemma entry_reads_at:
  assumes wf: "log_wf lg" and i: "unat i < length (entries lg)"
  shows "\<exists>x. ExcimerLogEntry_getTimestamp fl lg i = Inr x" "\<exists>x. ExcimerLogEntry_getEventCount lg i = Inr x"
    "\<exists>x. ExcimerLogEntry_getTrace lg i = Inr x"
proof -
  let ?ob = "\<lparr>obj_log = lg, z_current = None, iter_entry_index = 0\<rparr>"
  have ewf: "entries_wf lg" using wf by (simp add: log_wf_def)
  have get: "excimer_log_get_entry lg i = Some (entries lg ! unat i)" by (rule init_entry_eq(2) [OF ewf i])
  then have "ExcimerLog_offsetExists ?ob i" by (auto simp: ExcimerLog_offsetExists_def excimer_log_get_entry_def split: if_splits)
  then show "\<exists>x. ExcimerLogEntry_getEventCount lg i = Inr x" "\<exists>x. ExcimerLogEntry_getTrace lg i = Inr x"
    using entry_reads(2,3) [of ?ob i] wf by simp_all
  show "\<exists>x. ExcimerLogEntry_getTimestamp fl lg i = Inr x" using get by (simp add: ExcimerLogEntry_getTimestamp_def)
qed

section \<open>The invariant of entries\<close>

text \<open>The field that caches an entry: of a log (\<open>Inl\<close>) or of an iterator (\<open>Inr\<close>).\<close>

definition cached :: "entry_heap \<Rightarrow> addr + addr \<Rightarrow> addr option" where
  "cached h k = (case k of
     Inl l \<Rightarrow> log_current h l
   | Inr i \<Rightarrow> (case log_iterators h i of Some it \<Rightarrow> io_current it | None \<Rightarrow> None))"

definition live_count :: "(addr \<Rightarrow> 'a option) \<Rightarrow> ('a \<Rightarrow> bool) \<Rightarrow> nat" where
  "live_count f P = card {a. \<exists>x. f a = Some x \<and> P x}"

text \<open>How many references to a log entries and iterators hold.\<close>

definition entry_log_refs :: "entry_heap \<Rightarrow> addr \<Rightarrow> nat" where
  "entry_log_refs h l = live_count (entry_objs h) (\<lambda>eo. en_z_log eo = Some l) + live_count (log_iterators h) (\<lambda>it. io_log it = l)"

text \<open>
  Reference counting of entries is exact: one for each variable of PHP code, one for the field that
  caches the entry, if any, and \<open>G\<close> of them from the functions that are running.
\<close>

definition cache_ref :: "entry_heap \<Rightarrow> addr \<Rightarrow> nat" where
  "cache_ref h e = (if \<exists>k. cached h k = Some e then 1 else 0)"

definition entry_counted :: "(addr \<Rightarrow> nat) \<Rightarrow> entry_heap \<Rightarrow> addr \<Rightarrow> bool" where
  "entry_counted G h e \<longleftrightarrow> (let n = G e + entry_vars h e + cache_ref h e in
     if entry_objs h e = None then n = 0 else entry_count h e = n \<and> 0 < n)"

definition ents_ok :: "(addr \<Rightarrow> nat) \<Rightarrow> entry_heap \<Rightarrow> bool" where
  "ents_ok G h \<longleftrightarrow> (\<forall>e \<ge> next_entry h. entry_objs h e = None) \<and> (\<forall>i \<ge> next_iterator h. log_iterators h i = None) \<and>
     (\<forall>k k' e. cached h k = Some e \<longrightarrow> cached h k' = Some e \<longrightarrow> k' = k) \<and> (\<forall>e. entry_counted G h e) \<and>
     (\<forall>l e eo. log_current h l = Some e \<longrightarrow> entry_objs h e = Some eo \<longrightarrow> en_z_log eo = Some l)"

text \<open>The log of an entry has the element the entry stands for.\<close>

definition entry_at :: "('tl, 'z) php_scheme \<Rightarrow> log_entry_obj \<Rightarrow> bool" where
  "entry_at s eo \<longleftrightarrow> (\<exists>l. en_z_log eo = Some l \<and> l < next_object s \<and>
     (\<forall>lo. objects s l = Some (Obj_Log lo) \<longrightarrow> unat (en_index eo) < length (entries (obj_log lo))))"

definition ent_inv :: "(addr \<Rightarrow> nat) \<Rightarrow> ('tl, 'z) php_scheme \<Rightarrow> bool" where
  "ent_inv G s \<longleftrightarrow> ents_ok G (ents s) \<and> (\<forall>l. entry_log_refs (ents s) l \<le> php_refs s l) \<and>
     (\<forall>e eo. entry_objs (ents s) e = Some eo \<longrightarrow> entry_at s eo)"

text \<open>
  What the rest of the extension does to what entries rely on: logs in use only get longer, no reference of
  a holder outside the profilers is dropped, and the entries are left alone.
\<close>

definition log_grows :: "('tl, 'z) php_scheme \<Rightarrow> ('tl, 'z) php_scheme \<Rightarrow> bool" where
  "log_grows s s' \<longleftrightarrow> ents s' = ents s \<and> next_object s \<le> next_object s' \<and> (\<forall>l. php_refs s l \<le> php_refs s' l) \<and>
     (\<forall>l lo'. l < next_object s \<longrightarrow> objects s' l = Some (Obj_Log lo') \<longrightarrow>
       (\<exists>lo. objects s l = Some (Obj_Log lo) \<and> length (entries (obj_log lo)) \<le> length (entries (obj_log lo'))))"

lemma ent_inv_grows:
  assumes inv: "ent_inv G s" and g: "log_grows s s'"
  shows "ent_inv G s'"
proof -
  have "entry_at s' eo" if at: "entry_at s eo" for eo
  proof -
    obtain l where l: "en_z_log eo = Some l" "l < next_object s"
      "\<And>lo. objects s l = Some (Obj_Log lo) \<Longrightarrow> unat (en_index eo) < length (entries (obj_log lo))"
      using at by (auto simp: entry_at_def)
    have "unat (en_index eo) < length (entries (obj_log lo'))" if lo': "objects s' l = Some (Obj_Log lo')" for lo'
      using g l(2) lo' l(3) unfolding log_grows_def by (meson less_le_trans)
    then show ?thesis using l(1,2) g by (auto simp: entry_at_def log_grows_def)
  qed
  moreover have "entry_log_refs (ents s') l \<le> php_refs s' l" for l
    using inv g unfolding ent_inv_def log_grows_def by (metis order_trans)
  ultimately show ?thesis using inv g by (auto simp: ent_inv_def log_grows_def)
qed

lemma log_grows_refl [simp]: "log_grows s s"
  by (auto simp: log_grows_def)

lemma log_grows_objects:
  assumes "ents s' = ents s" "next_object s \<le> next_object s'" "\<And>l. php_refs s l \<le> php_refs s' l"
    "\<And>l lo'. l < next_object s \<Longrightarrow> objects s' l = Some (Obj_Log lo') \<Longrightarrow>
       \<exists>lo. objects s l = Some (Obj_Log lo) \<and> length (entries (obj_log lo)) \<le> length (entries (obj_log lo'))"
  shows "log_grows s s'"
  using assms by (simp add: log_grows_def)

section \<open>Counting\<close>

lemma live_count_none [simp]: "live_count (\<lambda>_. None) P = 0"
  by (simp add: live_count_def)

lemma live_count_single [simp]: "live_count [a \<mapsto> x] P = (if P x then 1 else 0)"
proof -
  have "{b. \<exists>y. [a \<mapsto> x] b = Some y \<and> P y} = (if P x then {a} else {})" by auto
  then show ?thesis by (simp add: live_count_def)
qed

lemma live_count_new:
  assumes "\<And>a. n \<le> a \<Longrightarrow> f a = None"
  shows "live_count (f(n \<mapsto> x)) P = live_count f P + (if P x then 1 else 0)"
proof -
  have "finite {a. \<exists>x. f a = Some x \<and> P x}" by (rule finite_subset [of _ "{..<n}"]) (use assms in \<open>auto simp: not_le [symmetric]\<close>)
  moreover have "{a. \<exists>y. (f(n \<mapsto> x)) a = Some y \<and> P y} = {a. \<exists>x. f a = Some x \<and> P x} \<union> (if P x then {n} else {})"
    using assms [of n] by auto
  moreover have "n \<notin> {a. \<exists>x. f a = Some x \<and> P x}" using assms [of n] by auto
  ultimately show ?thesis by (simp add: live_count_def)
qed

lemma live_count_same:
  assumes "f a = Some x" "P y = P x"
  shows "live_count (f(a \<mapsto> y)) P = live_count f P"
proof -
  have "{b. \<exists>z. (f(a \<mapsto> y)) b = Some z \<and> P z} = {b. \<exists>z. f b = Some z \<and> P z}" using assms by auto
  then show ?thesis by (simp add: live_count_def)
qed

lemma live_count_remove:
  assumes "\<And>a. n \<le> a \<Longrightarrow> f a = None" "f b = Some x"
  shows "live_count f P = live_count (f(b := None)) P + (if P x then 1 else 0)"
proof -
  have fin: "finite {a. \<exists>x. f a = Some x \<and> P x}" by (rule finite_subset [of _ "{..<n}"]) (use assms in \<open>auto simp: not_le [symmetric]\<close>)
  have eq: "{a. \<exists>z. (f(b := None)) a = Some z \<and> P z} = {a. \<exists>x. f a = Some x \<and> P x} - {b}" by auto
  have "b \<in> {a. \<exists>x. f a = Some x \<and> P x} \<longleftrightarrow> P x" using assms(2) by auto
  then show ?thesis using fin card_Suc_Diff1 [OF fin, of b] unfolding live_count_def eq by (cases "P x") simp_all
qed

end
