(* ===== verification/Timer_Safety.thy ===== *)
theory Timer_Safety
  imports Timer_Registry
begin

text \<open>
  What a client of the timer layer may rely on beside the invariant: the operations leave the
  client's part of the state alone, a timer becomes valid only by being initialised and keeps the
  callback it was initialised with, warnings are never taken back, and on a state that satisfies the
  invariant no operation ends in a memory error.
\<close>

section \<open>Frames\<close>

definition kept :: "('tl, 'z) tstate_scheme \<Rightarrow> ('tl, 'z) tstate_scheme \<Rightarrow> addr \<Rightarrow> bool" where
  "kept s s' a \<longleftrightarrow> (is_valid (timers s' a) \<longrightarrow> is_valid (timers s a) \<and>
     callback (timers s' a) = callback (timers s a) \<and> user_data (timers s' a) = user_data (timers s a))"

definition op_frame :: "addr set \<Rightarrow> ('tl, 'z) tstate_scheme \<Rightarrow> ('tl, 'z) tstate_scheme \<Rightarrow> bool" where
  "op_frame A s s' \<longleftrightarrow> tstate.more s' = tstate.more s \<and> length (warnings s) \<le> length (warnings s') \<and>
     (\<forall>a. a \<notin> A \<longrightarrow> kept s s' a)"

definition keeps :: "addr set \<Rightarrow> (('tl, 'z) tstate_scheme, 'a) prog \<Rightarrow> bool" where
  "keeps A m \<longleftrightarrow> (\<forall>s x s'. m s = Inr (x, s') \<longrightarrow> op_frame A s s')"

lemma op_frame_refl [simp]: "op_frame A s s"
  by (simp add: op_frame_def kept_def)

lemma op_frame_trans: "op_frame A a b \<Longrightarrow> op_frame A b c \<Longrightarrow> op_frame A a c"
  by (auto simp: op_frame_def kept_def)

lemma op_frame_upd:
  assumes "\<And>x. is_valid (f x) \<Longrightarrow> is_valid x" "\<And>x. callback (f x) = callback x" "\<And>x. user_data (f x) = user_data x"
  shows "op_frame A s (upd_timer t f s)"
  using assms by (simp add: op_frame_def kept_def)

lemma tstate_more_os: "os.more s' = os.more s \<Longrightarrow> tstate.more s' = tstate.more s"
  by (cases s; cases s') simp

lemma op_frame_os: "os_frame s s' \<Longrightarrow> op_frame A s s'"
  using tstate_more_os [of s' s] os_frame_timers [of s s'] by (simp add: op_frame_def kept_def os_frame_def)

lemma keepsD: "keeps A m \<Longrightarrow> m s = Inr (x, s') \<Longrightarrow> op_frame A s s'"
  by (simp add: keeps_def)

named_theorems keeps_intros

lemma keeps_pret [keeps_intros]: "keeps A (pret x)"
  by (simp add: keeps_def)

lemma keeps_bind [keeps_intros]:
  assumes "keeps A m" "\<And>x. keeps A (f x)"
  shows "keeps A (pbind m f)"
  unfolding keeps_def
proof (intro allI impI)
  fix s y s''
  assume "pbind m f s = Inr (y, s'')"
  then obtain x s' where "m s = Inr (x, s')" "f x s' = Inr (y, s'')" by (rule pbind_InrE)
  with assms show "op_frame A s s''" by (meson keepsD op_frame_trans)
qed

lemma keeps_if [keeps_intros]: "(b \<Longrightarrow> keeps A m) \<Longrightarrow> (\<not> b \<Longrightarrow> keeps A m') \<Longrightarrow> keeps A (if b then m else m')"
  by simp

lemma keeps_gets [keeps_intros]: "keeps A (gets f)"
  by (simp add: keeps_def gets_def)

lemma keeps_spec: "prog_spec m P \<Longrightarrow> keeps A m"
  by (auto simp: keeps_def prog_spec_def intro: op_frame_os)

lemma keeps_calls [keeps_intros]: "keeps A (warn w)" "keeps A (excimer_mutex_lock m)" "keeps A (excimer_mutex_unlock m)"
  by (auto simp: keeps_def prog_defs split: if_splits intro!: op_frame_os)

lemma keeps_upd [keeps_intros]:
  "(\<And>x. is_valid (f x) \<Longrightarrow> is_valid x) \<Longrightarrow> (\<And>x. callback (f x) = callback x) \<Longrightarrow>
   (\<And>x. user_data (f x) = user_data x) \<Longrightarrow> keeps A (modify (upd_timer t f))"
  by (auto simp: keeps_def modify_def intro: op_frame_upd)

lemma keeps_upd_exempt [keeps_intros]: "keeps {t} (modify (upd_timer t f))"
  by (auto simp: keeps_def modify_def op_frame_def kept_def)

lemma keeps_active [keeps_intros]:
  "keeps A (modify (\<lambda>st. st\<lparr>tls_of := (tls_of st)(me := (tls_of st me)\<lparr>timers_active := f (timers_active (tls_of st me))\<rparr>)\<rparr>))"
  by (simp add: keeps_def modify_def op_frame_def kept_def)

lemma op_frame_link [simp]:
  "op_frame A s (set_next t v s)" "op_frame A s (set_prev t v s)" "op_frame A s (set_head th h s)"
  by (simp_all add: op_frame_def kept_def set_next_def set_prev_def set_head_def)

lemmas op_frame_link_step = op_frame_link [THEN op_frame_trans [rotated]]

lemma op_frame_list:
  "excimer_timer_list_enqueue th t s = Inr s' \<Longrightarrow> op_frame A s s'"
  "excimer_timer_list_remove th t s = Inr s' \<Longrightarrow> op_frame A s s'"
  "excimer_timer_list_dequeue th s = Inr (r, s') \<Longrightarrow> op_frame A s s'"
  by (auto simp: excimer_timer_list_enqueue_def excimer_timer_list_remove_def excimer_timer_list_dequeue_def Let_def
      rbind_Inr_iff split: if_splits option.splits intro!: op_frame_link_step)

lemma keeps_list [keeps_intros]:
  "keeps A (lift_st (excimer_timer_list_enqueue th t))" "keeps A (lift_st (excimer_timer_list_remove th t))"
  "keeps A (excimer_timer_list_dequeue th)"
  by (auto simp: keeps_def lift_st_def rbind_Inr_iff intro: op_frame_list)

lemma keeps_dequeue: "keeps A (excimer_timer_pending_dequeue me)"
  unfolding excimer_timer_pending_dequeue_def by (auto intro!: keeps_intros split: option.split)

lemma keeps_handle: "keeps A (excimer_timer_handle me t ov)"
  unfolding excimer_timer_handle_def
  by (auto intro!: keeps_intros simp: keeps_def [of _ "modify f" for f] modify_def op_frame_def kept_def)

lemma fault_free_state: "fault_free (gets f)" "fault_free (modify g)"
  by (simp_all add: fault_free_def state_defs)

lemma total_fault_free:
  assumes "prog_total m"
  shows "fault_free m"
  unfolding fault_free_def
proof (intro allI impI)
  fix s e
  assume "m s = Inl e"
  moreover obtain x s' where "m s = Inr (x, s')" using assms by (rule prog_totalE)
  ultimately show "\<not> memory_fault e" by simp
qed

section \<open>The operations\<close>

context excimer_backend
begin

lemma keeps_lib [keeps_intros]:
  "keeps A (tl_init lib clk d)" "keeps A (tl_start lib x p i)" "keeps A (tl_stop lib x)" "keeps A (tl_destroy lib x)"
  "keeps A (tl_get_time lib x)"
  by (rule keeps_spec, rule init_spec start_frame stop_frame destroy_spec get_time_spec)+

lemma keeps_ops:
  "keeps A (excimer_timer_start lib t p i)" "keeps A (excimer_timer_stop lib t)"
  "keeps A (excimer_timer_destroy lib me t)" "keeps {t} (excimer_timer_init lib me t clk cb d)"
  "keeps A (excimer_timer_get_time lib t)"
  unfolding excimer_timer_start_def excimer_timer_stop_def excimer_timer_destroy_def excimer_timer_init_def
    excimer_timer_get_time_def Let_def
  by (auto intro!: keeps_intros split: prod.split)

lemma init_sets:
  assumes "excimer_timer_init lib me t clk cb d s = Inr (ok, s')"
  shows "callback (timers s' t) = cb" "user_data (timers s' t) = d"
proof -
  let ?fresh = "\<lambda>old. \<lparr>is_valid = False, is_running = False, vm_interrupt_ptr = me, tl_timer = tl_timer old,
    callback = cb, user_data = d, pending_next = None, pending_prev = None, timer_event_count = 0, timer_tls = Some me\<rparr>"
  obtain k tl s2 where init: "tl_init lib clk t (upd_timer t ?fresh s) = Inr ((k, tl), s2)"
    using assms by (auto simp: excimer_timer_init_def state_defs pbind_def rbind_Inr_iff)
  have f2: "timers s2 = timers (upd_timer t ?fresh s)" by (rule os_frame_timers(1) [OF init_run(1) [OF init]])
  obtain tl' s4 where d: "tl_destroy lib tl (upd_timer t (tl_timer_update (\<lambda>_. tl)) s2) = Inr (tl', s4)"
    "os_frame (upd_timer t (tl_timer_update (\<lambda>_. tl)) s2) s4" by (rule destroy_run)
  note f4 = os_frame_timers(1) [OF d(2)]
  show "callback (timers s' t) = cb" "user_data (timers s' t) = d"
    using assms init d(1) f2 f4
    by (auto simp: excimer_timer_init_def state_defs pbind_def split: if_splits)
qed

lemma fault_free_ops:
  "fault_free (excimer_timer_start lib t p i)" "fault_free (excimer_timer_stop lib t)"
  "fault_free (excimer_timer_init lib me t clk cb d)" "fault_free (excimer_timer_get_time lib t)"
  using total_fault_free [OF start_total] total_fault_free [OF stop_total] total_fault_free [OF destroy_total]
    init_safe get_time_safe
  unfolding excimer_timer_start_def excimer_timer_stop_def excimer_timer_init_def excimer_timer_get_time_def Let_def
  by (auto intro!: fault_free_bind fault_free_if fault_free_state split: prod.split)

lemma destroy_triple:
  assumes t: "t \<in> D"
  shows "triple (\<lambda>s. timer_inv live me D s) (excimer_timer_destroy lib me t)
    (\<lambda>_ s'. timer_inv live me D s' \<and> \<not> is_valid (timers s' t))"
proof (rule tripleI)
  fix s x s'
  assume "timer_inv live me D s" "excimer_timer_destroy lib me t s = Inr (x, s')"
  then show "timer_inv live me D s' \<and> \<not> is_valid (timers s' t)" using destroy_inv [OF _ t] by (cases x) blast
next
  fix s e
  assume inv: "timer_inv live me D s" and e: "excimer_timer_destroy lib me t s = Inl e"
  show "\<not> memory_fault e"
  proof (cases "is_valid (timers s t)")
    case False
    with e show ?thesis by (simp add: excimer_timer_destroy_def state_defs pbind_def)
  next
    case True
    obtain s4 where pre: "excimer_timer_destroy lib me t s = destroy_tail me t s4" "timer_inv_but t 0 live me D s4"
      by (rule destroy_prefix [OF inv t True])
    obtain q where "pending_ring me D (logged (Mutex_lock (Tls_Mutex me)) s4) q"
      using pre(2) by (auto simp: timer_inv_but_def)
    from remove_ring [OF this t] obtain s5 where
      "excimer_timer_list_remove me t (logged (Mutex_lock (Tls_Mutex me)) s4) = Inr s5" by blast
    with e show ?thesis
      by (auto simp: pre(1) destroy_tail_def lift_st_def modify_def pbind_def excimer_mutex_lock_def
          excimer_mutex_unlock_def syscall_def split: if_splits)
  qed
qed

end

section \<open>Posting and taking events\<close>

lemma handle_triple:
  assumes t: "t \<in> D"
  shows "triple (\<lambda>s. timer_inv live me D s \<and> is_valid (timers s t)) (excimer_timer_handle me t ov)
    (\<lambda>_. timer_inv live me D)"
proof (rule tripleI)
  fix s x s'
  assume "timer_inv live me D s \<and> is_valid (timers s t)" "excimer_timer_handle me t ov s = Inr (x, s')"
  then show "timer_inv live me D s'" using post_inv [OF _ t] by (cases x) blast
next
  fix s e
  assume inv: "timer_inv live me D s \<and> is_valid (timers s t)" and e: "excimer_timer_handle me t ov s = Inl e"
  let ?s1 = "upd_timer t (timer_event_count_update (\<lambda>n. n + scast (ov + 1))) (logged (Mutex_lock (Tls_Mutex me)) s)"
  obtain q where "pending_ring me D s q" using inv by (auto simp: timer_inv_def)
  then have "pending_ring me D ?s1 q" by (subst pending_ring_cong [where s = s]) simp_all
  from enqueue_ring [OF this t] obtain s2 where "excimer_timer_list_enqueue me t ?s1 = Inr s2" by blast
  with e show "\<not> memory_fault e"
    by (auto simp: excimer_timer_handle_def prog_defs state_defs split: if_splits)
qed

lemma dequeue_triple:
  "triple (timer_inv live me D) (excimer_timer_pending_dequeue me)
    (\<lambda>r s'. timer_inv live me D s' \<and> (\<forall>t n. r = Some (t, n) \<longrightarrow> t \<in> D \<and> is_valid (timers s' t)))"
proof (rule tripleI)
  fix s r s'
  assume inv: "timer_inv live me D s" and run: "excimer_timer_pending_dequeue me s = Inr (r, s')"
  obtain q where q: "pending_ring me D s q" "set q \<subseteq> valid_timers D s" using inv by (auto simp: timer_inv_def)
  have "t \<in> D \<and> is_valid (timers s' t)" if r: "r = Some (t, n)" for t n
  proof -
    obtain w where w: "q = t # w" using dequeue_ring_mem [OF q(1) run] r by (cases q) auto
    then have v: "t \<in> D" "is_valid (timers s t)" using q(2) by (auto simp: valid_timers_def)
    have "pending_ring me D (logged (Mutex_lock (Tls_Mutex me)) s) (t # w)" using q(1) w by simp
    from dequeue_ring [OF this] obtain s2 where
      s2: "excimer_timer_list_dequeue me (logged (Mutex_lock (Tls_Mutex me)) s) = Inr (Some t, s2)"
      "list_frame me D (logged (Mutex_lock (Tls_Mutex me)) s) s2" by blast
    have "is_valid (timers s' t) = is_valid (timers s2 t)"
      using run s2(1) by (auto simp: excimer_timer_pending_dequeue_def prog_defs state_defs split: if_splits)
    then show ?thesis using v list_frameD(1) [OF s2(2), of t] by simp
  qed
  then show "timer_inv live me D s' \<and> (\<forall>t n. r = Some (t, n) \<longrightarrow> t \<in> D \<and> is_valid (timers s' t))"
    using take_inv [OF inv run] by blast
next
  fix s e
  assume inv: "timer_inv live me D s" and e: "excimer_timer_pending_dequeue me s = Inl e"
  let ?s1 = "logged (Mutex_lock (Tls_Mutex me)) s"
  obtain q where q: "pending_ring me D ?s1 q" using inv by (auto simp: timer_inv_def)
  have "\<exists>r s2. excimer_timer_list_dequeue me ?s1 = Inr (r, s2)"
  proof (cases q)
    case Nil
    with q dequeue_ring_empty [of me D ?s1] show ?thesis by simp
  next
    case (Cons h w)
    with q have "pending_ring me D ?s1 (h # w)" by simp
    from dequeue_ring [OF this] show ?thesis by blast
  qed
  with e show "\<not> memory_fault e"
    by (auto simp: excimer_timer_pending_dequeue_def prog_defs state_defs split: if_splits option.splits)
qed

end
