(* ===== verification/Php_Invariant.thy ===== *)
theory Php_Invariant
  imports Php_Entries Timer_Safety
begin

text \<open>
  The extension as a whole, as PHP code sees it: calls of methods on live objects, events posted by
  handler threads and delivered by the interrupt hook, objects released by the engine. The invariant
  ties the object heap to the timer layer; every call keeps it and none ends in a memory error.
\<close>

section \<open>The invariant\<close>

text \<open>A profiler owns its current log: it holds one reference, and no other profiler has the same log.\<close>

definition holds :: "('tl, 'z) php_scheme \<Rightarrow> addr \<Rightarrow> addr \<Rightarrow> bool" where
  "holds s p l \<longleftrightarrow> (\<exists>pr. objects s p = Some (Obj_Profiler pr) \<and> pr_z_log pr = l)"

definition is_profiler :: "addr \<Rightarrow> ('tl, 'z) php_scheme \<Rightarrow> bool" where
  "is_profiler a s \<longleftrightarrow> (\<exists>x. objects s a = Some (Obj_Profiler x))"

definition is_log :: "addr \<Rightarrow> ('tl, 'z) php_scheme \<Rightarrow> bool" where
  "is_log a s \<longleftrightarrow> (\<exists>x. objects s a = Some (Obj_Log x))"

definition is_timer :: "addr \<Rightarrow> ('tl, 'z) php_scheme \<Rightarrow> bool" where
  "is_timer a s \<longleftrightarrow> (\<exists>x. objects s a = Some (Obj_Timer x))"

definition is_freeing :: "addr \<Rightarrow> ('tl, 'z) php_scheme \<Rightarrow> bool" where
  "is_freeing a s \<longleftrightarrow> (\<exists>x. objects s a = Some (Obj_Freeing x))"

lemmas kind_defs = is_profiler_def is_log_def is_timer_def is_freeing_def

text \<open>
  What the functions that are running hold while code is nested in them: references to logs, the reference to the object
  a method is called on, which the engine takes for the duration of the call, and the storage of an object whose free
  handler has not returned. How many of each is the parameter \<open>F\<close> of the invariant.
\<close>

datatype in_hand = Log_ref addr | Profiler_ref addr | Timer_ref addr | Storage addr

text \<open>
  Reference counting is exact: a live log has one reference from the profiler that owns it, if any, one
  for each variable of PHP code that holds it, and those that the functions of the extension
  that are running hold. A log without references is gone.
\<close>

definition held :: "('tl, 'z) php_scheme \<Rightarrow> addr \<Rightarrow> nat" where
  "held s l = (if \<exists>p. holds s p l then 1 else 0)"

definition counted :: "(in_hand \<Rightarrow> nat) \<Rightarrow> ('tl, 'z) php_scheme \<Rightarrow> addr \<Rightarrow> bool" where
  "counted F s l \<longleftrightarrow> (let n = F (Log_ref l) + php_refs s l + held s l in
     if is_log l s then refcount s l = n \<and> 0 < n else n = 0)"

text \<open>
  A profiler or timer has one reference from all that PHP code holds of it, and one for each method running on it. What
  is in hand is there, and of its class.
\<close>

definition pinned :: "(in_hand \<Rightarrow> nat) \<Rightarrow> ('tl, 'z) php_scheme \<Rightarrow> addr \<Rightarrow> bool" where
  "pinned F s a \<longleftrightarrow>
     (if is_profiler a s then refcount s a = Suc (F (Profiler_ref a)) else F (Profiler_ref a) = 0) \<and>
     (if is_timer a s then refcount s a = Suc (F (Timer_ref a)) else F (Timer_ref a) = 0) \<and>
     F (Storage a) = (if is_freeing a s then 1 else 0)"

definition heap_inv :: "(in_hand \<Rightarrow> nat) \<Rightarrow> ('tl, 'z) php_scheme \<Rightarrow> bool" where
  "heap_inv F s \<longleftrightarrow> heap_ok s \<and>
     (\<forall>a lo. objects s a = Some (Obj_Log lo) \<longrightarrow> log_wf (obj_log lo)) \<and>
     (\<forall>p p' l. holds s p l \<longrightarrow> holds s p' l \<longrightarrow> p' = p) \<and> (\<forall>l. counted F s l) \<and> (\<forall>a. pinned F s a)"

text \<open>
  A valid timer is embedded in a live object, its user data is that object, and its callback is the
  event function of the object's class.
\<close>

definition timer_owner_ok :: "('tl, 'z) php_scheme \<Rightarrow> addr \<Rightarrow> bool" where
  "timer_owner_ok s a \<longleftrightarrow> (is_valid (timers s a) \<longrightarrow> user_data (timers s a) = a \<and>
     (case callback (timers s a) of Profiler_callback \<Rightarrow> is_profiler a s | Timer_callback \<Rightarrow> is_timer a s))"

definition core_inv :: "(in_hand \<Rightarrow> nat) \<Rightarrow> ('tl \<Rightarrow> bool) \<Rightarrow> thread \<Rightarrow> ('tl, 'z) php_scheme \<Rightarrow> bool" where
  "core_inv F live me s \<longleftrightarrow> heap_inv F s \<and> (\<forall>a. timer_owner_ok s a) \<and> timer_inv live me {..<next_object s} s"

text \<open>The invariant of everything, with the entries between two operations on them.\<close>

definition php_inv :: "(in_hand \<Rightarrow> nat) \<Rightarrow> ('tl \<Rightarrow> bool) \<Rightarrow> thread \<Rightarrow> ('tl, 'z) php_scheme \<Rightarrow> bool" where
  "php_inv F live me s \<longleftrightarrow> core_inv F live me s \<and> ent_inv (\<lambda>_. 0) s"

lemma php_invI: "core_inv F live me s \<Longrightarrow> ent_inv (\<lambda>_. 0) s \<Longrightarrow> php_inv F live me s"
  by (simp add: php_inv_def)

lemma php_inv_grows: "core_inv F' live me s' \<Longrightarrow> php_inv F live me s \<Longrightarrow> log_grows s s' \<Longrightarrow> php_inv F' live me s'"
  by (auto simp: php_inv_def intro: ent_inv_grows)

lemmas inv_defs = php_inv_def core_inv_def

lemma counted_cong:
  assumes "is_log l s' = is_log l s" "holds s' = holds s" "refcount s' l = refcount s l" "php_refs s' l = php_refs s l"
  shows "counted F s' l = counted F s l"
  using assms by (simp add: counted_def held_def)

lemma pinned_cong:
  assumes "is_profiler a s' = is_profiler a s" "is_timer a s' = is_timer a s" "is_freeing a s' = is_freeing a s"
    "is_profiler a s \<or> is_timer a s \<Longrightarrow> refcount s' a = refcount s a"
    "F' (Profiler_ref a) = F (Profiler_ref a)" "F' (Timer_ref a) = F (Timer_ref a)" "F' (Storage a) = F (Storage a)"
  shows "pinned F' s' a = pinned F s a"
  using assms by (auto simp: pinned_def)

lemma held_log:
  assumes "heap_inv F s" "holds s p l"
  shows "is_log l s" "refcount s l = F (Log_ref l) + php_refs s l + 1"
proof -
  have "counted F s l" using assms(1) by (simp add: heap_inv_def)
  moreover have "held s l = 1" using assms(2) by (auto simp: held_def)
  ultimately show "is_log l s" "refcount s l = F (Log_ref l) + php_refs s l + 1" by (auto simp: counted_def split: if_splits)
qed

section \<open>Steps that keep it\<close>

lemma timer_inv_cong:
  assumes "timers s' = timers s" "tls_of s' = tls_of s"
  shows "timer_inv live me D s' = timer_inv live me D s"
  using pending_ring_cong [of s' s me D] assms by (simp add: timer_inv_def valid_timers_def)

text \<open>Steps of the timer layer.\<close>

lemma php_of_more:
  assumes "tstate.more s' = tstate.more s"
  shows "objects s' = objects s" "refcount s' = refcount s" "next_object s' = next_object s"
    "user_calls s' = user_calls s" "current_execute_data s' = current_execute_data s"
    "old_zend_interrupt_function s' = old_zend_interrupt_function s" "php_refs s' = php_refs s" "ents s' = ents s"
  using assms by (cases s; cases s'; simp)+

lemma heap_inv_cong:
  assumes "objects s' = objects s" "refcount s' = refcount s" "next_object s' = next_object s" "php_refs s' = php_refs s"
  shows "heap_inv F s' = heap_inv F s" "is_profiler a s' = is_profiler a s" "is_timer a s' = is_timer a s"
    "is_log a s' = is_log a s" "holds s' = holds s"
proof -
  show h: "holds s' = holds s" and l: "is_log a s' = is_log a s" for a
    using assms by (simp_all add: kind_defs holds_def fun_eq_iff)
  show "is_profiler a s' = is_profiler a s" "is_timer a s' = is_timer a s" using assms by (simp_all add: kind_defs)
  show "heap_inv F s' = heap_inv F s"
    using assms counted_cong [OF l h] pinned_cong [of _ s' s F F] by (simp add: heap_inv_def heap_ok_def h kind_defs)
qed

lemma php_inv_frame:
  assumes inv: "php_inv F live me s" and f: "op_frame {} s s'" and t: "timer_inv live me {..<next_object s} s'"
  shows "php_inv F live me s'" "is_profiler a s' = is_profiler a s" "is_timer a s' = is_timer a s"
    "is_log a s' = is_log a s"
proof -
  note m = php_of_more [of s' s]
  have more: "tstate.more s' = tstate.more s" using f by (simp add: op_frame_def)
  note h = heap_inv_cong [OF m(1-3,7) [OF more]]
  show "is_profiler a s' = is_profiler a s" "is_timer a s' = is_timer a s" "is_log a s' = is_log a s"
    by (rule h)+
  have "timer_owner_ok s' a" for a
    using inv f h(2,3) unfolding inv_defs op_frame_def kept_def timer_owner_ok_def
    by (auto split: timer_callback.split)
  then have "core_inv F live me s'" using inv h(1) m(3) [OF more] t by (simp add: inv_defs)
  then show "php_inv F live me s'" by (rule php_inv_grows [OF _ inv]) (auto simp: log_grows_def m [OF more])
qed

lemma php_inv_os:
  assumes "php_inv F live me s" "os_frame s s'"
  shows "php_inv F live me s'" "is_profiler a s' = is_profiler a s" "is_timer a s' = is_timer a s"
    "is_log a s' = is_log a s"
  using php_inv_frame [OF assms(1) op_frame_os [OF assms(2)]] timer_inv_frame [OF assms(2)] assms(1)
  by (auto simp: inv_defs)

text \<open>Writing to an object without changing its class or the log a profiler owns.\<close>

fun same_shape :: "php_object \<Rightarrow> php_object \<Rightarrow> bool" where
  "same_shape (Obj_Profiler x) (Obj_Profiler y) = (pr_z_log y = pr_z_log x)"
| "same_shape (Obj_Log x) (Obj_Log y) = (log_wf (obj_log y) \<and> length (entries (obj_log x)) \<le> length (entries (obj_log y)))"
| "same_shape (Obj_Timer x) (Obj_Timer y) = True"
| "same_shape (Obj_Freeing x) (Obj_Freeing y) = True"
| "same_shape _ _ = False"

lemma same_shape_kinds:
  assumes "objects s a = Some ob" "same_shape ob ob'"
  shows "holds (s\<lparr>objects := (objects s)(a \<mapsto> ob')\<rparr>) = holds s" "is_profiler x (s\<lparr>objects := (objects s)(a \<mapsto> ob')\<rparr>) = is_profiler x s"
    "is_log x (s\<lparr>objects := (objects s)(a \<mapsto> ob')\<rparr>) = is_log x s" "is_timer x (s\<lparr>objects := (objects s)(a \<mapsto> ob')\<rparr>) = is_timer x s"
    "is_freeing x (s\<lparr>objects := (objects s)(a \<mapsto> ob')\<rparr>) = is_freeing x s"
proof -
  show "holds (s\<lparr>objects := (objects s)(a \<mapsto> ob')\<rparr>) = holds s"
    using assms by (cases ob; cases ob') (auto simp: fun_eq_iff holds_def)
  show "is_log x (s\<lparr>objects := (objects s)(a \<mapsto> ob')\<rparr>) = is_log x s"
    and "is_profiler x (s\<lparr>objects := (objects s)(a \<mapsto> ob')\<rparr>) = is_profiler x s"
    and "is_timer x (s\<lparr>objects := (objects s)(a \<mapsto> ob')\<rparr>) = is_timer x s"
    and "is_freeing x (s\<lparr>objects := (objects s)(a \<mapsto> ob')\<rparr>) = is_freeing x s"
    using assms by (cases ob; cases ob'; auto simp: kind_defs)+
qed

lemma php_inv_put:
  assumes inv: "php_inv F live me s" and ob: "objects s a = Some ob" "same_shape ob ob'"
  shows "php_inv F live me (s\<lparr>objects := (objects s)(a \<mapsto> ob')\<rparr>)" (is "php_inv _ _ _ ?s")
proof -
  note k = same_shape_kinds [OF ob]
  have "heap_ok ?s" using inv ob by (auto simp: inv_defs heap_inv_def heap_ok_def)
  moreover have "log_wf (obj_log lo)" if "objects ?s x = Some (Obj_Log lo)" for x lo
    using that inv ob by (cases ob; cases ob'; auto simp: inv_defs heap_inv_def split: if_splits)
  moreover have "counted F ?s l = counted F s l" for l by (rule counted_cong) (simp_all add: k)
  moreover have "pinned F ?s x = pinned F s x" for x by (rule pinned_cong) (simp_all add: k)
  ultimately have "heap_inv F ?s" using inv by (simp add: inv_defs heap_inv_def k)
  moreover have "timer_owner_ok ?s x" for x using inv by (simp add: inv_defs timer_owner_ok_def k split: timer_callback.splits)
  moreover have "timer_inv live me {..<next_object ?s} ?s"
    using inv by (simp add: inv_defs timer_inv_cong [of ?s s])
  ultimately have "core_inv F live me ?s" by (simp add: core_inv_def)
  moreover have "log_grows s ?s" using ob by (cases ob; cases ob') (auto simp: log_grows_def)
  ultimately show ?thesis by (rule php_inv_grows [OF _ inv])
qed

section \<open>Operations that leave ownership alone\<close>

definition same_kinds :: "('tl, 'z) php_scheme \<Rightarrow> ('tl, 'z) php_scheme \<Rightarrow> bool" where
  "same_kinds s s' \<longleftrightarrow> (\<forall>a. is_profiler a s' = is_profiler a s \<and> is_timer a s' = is_timer a s \<and> is_log a s' = is_log a s) \<and>
     holds s' = holds s \<and> refcount s' = refcount s \<and> next_object s' = next_object s \<and> php_refs s' = php_refs s"

definition stable :: "(('tl, 'z) php_scheme \<Rightarrow> bool) \<Rightarrow> bool" where
  "stable K \<longleftrightarrow> (\<forall>s s'. same_kinds s s' \<longrightarrow> K s \<longrightarrow> K s')"

lemma same_kinds_refl [simp]: "same_kinds s s"
  by (simp add: same_kinds_def)

lemma same_kinds_trans: "same_kinds a b \<Longrightarrow> same_kinds b c \<Longrightarrow> same_kinds a c"
  by (simp add: same_kinds_def)

lemma same_kinds_php:
  assumes "objects s' = objects s" "refcount s' = refcount s" "next_object s' = next_object s" "php_refs s' = php_refs s"
  shows "same_kinds s s'"
  using assms by (simp add: same_kinds_def kind_defs fun_eq_iff holds_def)

lemma same_kinds_more: "tstate.more s' = tstate.more s \<Longrightarrow> same_kinds s s'"
  by (intro same_kinds_php php_of_more)

lemma stable_kinds [intro]:
  "stable (\<lambda>s. True)" "stable (is_profiler a)" "stable (is_timer a)" "stable (is_log a)" "stable (\<lambda>s. holds s p l)"
  "stable K \<Longrightarrow> stable K' \<Longrightarrow> stable (\<lambda>s. K s \<and> K' s)"
  unfolding stable_def same_kinds_def by auto

text \<open>
  \<open>safe_op F live me K m\<close>: from a state with the invariant and \<open>K\<close>, \<open>m\<close> has no memory error, keeps the invariant
  and changes neither classes nor ownership of objects.
\<close>

definition safe_op ::
  "(in_hand \<Rightarrow> nat) \<Rightarrow> ('tl \<Rightarrow> bool) \<Rightarrow> thread \<Rightarrow> (('tl, 'z) php_scheme \<Rightarrow> bool) \<Rightarrow> (('tl, 'z) php_scheme, 'a) prog \<Rightarrow> bool" where
  "safe_op F live me K m \<longleftrightarrow> (\<forall>s. php_inv F live me s \<and> K s \<longrightarrow>
     (case m s of Inl e \<Rightarrow> \<not> memory_fault e | Inr (x, s') \<Rightarrow> php_inv F live me s' \<and> same_kinds s s'))"

lemma safe_opI:
  assumes "\<And>s e. php_inv F live me s \<Longrightarrow> K s \<Longrightarrow> m s = Inl e \<Longrightarrow> \<not> memory_fault e"
    and "\<And>s x s'. php_inv F live me s \<Longrightarrow> K s \<Longrightarrow> m s = Inr (x, s') \<Longrightarrow> php_inv F live me s' \<and> same_kinds s s'"
  shows "safe_op F live me K m"
  using assms by (auto simp: safe_op_def split: sum.split)

lemma safe_opD:
  assumes "safe_op F live me K m" "php_inv F live me s" "K s"
  shows "m s = Inl e \<Longrightarrow> \<not> memory_fault e" "m s = Inr (x, s') \<Longrightarrow> php_inv F live me s' \<and> same_kinds s s'"
  using assms unfolding safe_op_def by force+

lemma safe_op_triple:
  assumes "safe_op F live me K m" "stable K"
  shows "triple (\<lambda>s. php_inv F live me s \<and> K s) m (\<lambda>_ s. php_inv F live me s \<and> K s)"
proof (rule tripleI)
  fix s x s'
  assume "php_inv F live me s \<and> K s" "m s = Inr (x, s')"
  with safe_opD(2) [OF assms(1)] assms(2) show "php_inv F live me s' \<and> K s'" unfolding stable_def by blast
qed (use safe_opD(1) [OF assms(1)] in blast)

named_theorems safe_intros

lemma safe_bind [safe_intros]:
  assumes "stable K" "safe_op F live me K m" "\<And>x. safe_op F live me K (f x)"
  shows "safe_op F live me K (pbind m f)"
  unfolding safe_op_def
proof (intro allI impI)
  fix s
  assume s: "php_inv F live me s \<and> K s"
  show "case pbind m f s of Inl e \<Rightarrow> \<not> memory_fault e | Inr (x, s') \<Rightarrow> php_inv F live me s' \<and> same_kinds s s'"
  proof (cases "m s")
    case (Inl e)
    with safe_opD(1) [OF assms(2) conjunct1 [OF s] conjunct2 [OF s] Inl] show ?thesis by (simp add: pbind_def)
  next
    case (Inr r)
    obtain x s' where r: "m s = Inr (x, s')" using Inr by (cases r) simp
    have s': "php_inv F live me s'" "same_kinds s s'" "K s'"
      using safe_opD(2) [OF assms(2)] s r assms(1) unfolding stable_def by blast+
    with assms(3) [of x] r show ?thesis
      by (auto simp: safe_op_def pbind_def split: sum.splits intro: same_kinds_trans)
  qed
qed

lemma safe_pret [safe_intros]: "safe_op F live me K (pret x)"
  by (simp add: safe_op_def)

lemma safe_if [safe_intros]:
  "(b \<Longrightarrow> safe_op F live me K m) \<Longrightarrow> (\<not> b \<Longrightarrow> safe_op F live me K m') \<Longrightarrow> safe_op F live me K (if b then m else m')"
  by simp

lemma safe_gets [safe_intros]: "safe_op F live me K (gets f)"
  by (simp add: safe_op_def gets_def)

lemma safe_frame:
  assumes "fault_free m" "\<And>s x s'. m s = Inr (x, s') \<Longrightarrow> os_frame s s'"
  shows "safe_op F live me K m"
proof (rule safe_opI)
  fix s x s'
  assume "php_inv F live me s" and r: "m s = Inr (x, s')"
  then show "php_inv F live me s' \<and> same_kinds s s'"
    using php_inv_os(1) assms(2) [OF r] tstate_more_os same_kinds_more by (metis os_frame_def)
qed (use assms(1) in \<open>simp add: fault_free_def\<close>)

lemma safe_warn [safe_intros]: "safe_op F live me K (warn w)"
  by (rule safe_frame) (auto simp: warn_def)

lemma safe_get [safe_intros]:
  "(\<And>s. K s \<Longrightarrow> is_profiler a s) \<Longrightarrow> safe_op F live me K (get_profiler a)"
  "(\<And>s. K s \<Longrightarrow> is_timer a s) \<Longrightarrow> safe_op F live me K (get_timer_obj a)"
  by (fastforce simp: safe_op_def check_object_def kind_defs)+

lemma safe_put:
  assumes "\<And>s. php_inv F live me s \<Longrightarrow> K s \<Longrightarrow> \<exists>ob. objects s a = Some ob \<and> same_shape ob (g ob) \<and> m s = put_object a (g ob) s"
  shows "safe_op F live me K m"
proof (rule safe_opI)
  fix s x s'
  assume inv: "php_inv F live me s" "K s" and r: "m s = Inr (x, s')"
  obtain ob where ob: "objects s a = Some ob" "same_shape ob (g ob)" "m s = put_object a (g ob) s" using assms [OF inv] by blast
  then have s': "s' = s\<lparr>objects := (objects s)(a \<mapsto> g ob)\<rparr>" using r by (simp add: put_object_def modify_def)
  show "php_inv F live me s' \<and> same_kinds s s'"
    unfolding s' using php_inv_put [OF inv(1) ob(1,2)] same_shape_kinds [OF ob(1,2)] by (simp add: same_kinds_def)
next
  fix s e
  assume "php_inv F live me s" "K s" "m s = Inl e"
  with assms [of s] show "\<not> memory_fault e" by (auto simp: put_object_def modify_def)
qed

lemma safe_set_profiler [safe_intros]:
  assumes "\<And>s. K s \<Longrightarrow> is_profiler a s" "\<And>x. pr_z_log (f x) = pr_z_log x"
  shows "safe_op F live me K (set_profiler a f)"
proof (rule safe_put [where g = "\<lambda>ob. case ob of Obj_Profiler x \<Rightarrow> Obj_Profiler (f x)" and a = a])
  fix s assume "K s"
  then obtain x where "objects s a = Some (Obj_Profiler x)" using assms(1) by (auto simp: is_profiler_def)
  then show "\<exists>ob. objects s a = Some ob \<and> same_shape ob (case ob of Obj_Profiler x \<Rightarrow> Obj_Profiler (f x)) \<and>
      set_profiler a f s = put_object a (case ob of Obj_Profiler x \<Rightarrow> Obj_Profiler (f x)) s"
    using assms(2) by (simp add: set_profiler_def pbind_def check_object_def)
qed

lemma safe_set_timer [safe_intros]:
  assumes "\<And>s. K s \<Longrightarrow> is_timer a s"
  shows "safe_op F live me K (set_timer_obj a f)"
proof (rule safe_put [where g = "\<lambda>ob. case ob of Obj_Timer x \<Rightarrow> Obj_Timer (f x)" and a = a])
  fix s assume "K s"
  then obtain x where "objects s a = Some (Obj_Timer x)" using assms(1) by (auto simp: is_timer_def)
  then show "\<exists>ob. objects s a = Some ob \<and> same_shape ob (case ob of Obj_Timer x \<Rightarrow> Obj_Timer (f x)) \<and>
      set_timer_obj a f s = put_object a (case ob of Obj_Timer x \<Rightarrow> Obj_Timer (f x)) s"
    by (simp add: set_timer_obj_def pbind_def check_object_def)
qed

lemma safe_set_log [safe_intros]:
  assumes "\<And>s. K s \<Longrightarrow> holds s p a" "\<And>lg. log_wf lg \<Longrightarrow> log_wf (f lg)" "\<And>lg. entries (f lg) = entries lg"
  shows "safe_op F live me K (set_log a f)"
proof (rule safe_put [where g = "\<lambda>ob. case ob of Obj_Log x \<Rightarrow> Obj_Log (x\<lparr>obj_log := f (obj_log x)\<rparr>)" and a = a])
  fix s assume "php_inv F live me s" "K s"
  then have h: "heap_inv F s" "holds s p a" using assms(1) by (simp_all add: inv_defs)
  then obtain x where "objects s a = Some (Obj_Log x)" using held_log(1) [OF h] by (auto simp: is_log_def)
  then have x: "objects s a = Some (Obj_Log x)" "log_wf (obj_log x)" using h(1) by (auto simp: heap_inv_def)
  then show "\<exists>ob. objects s a = Some ob \<and> same_shape ob (case ob of Obj_Log x \<Rightarrow> Obj_Log (x\<lparr>obj_log := f (obj_log x)\<rparr>)) \<and>
      set_log a f s = put_object a (case ob of Obj_Log x \<Rightarrow> Obj_Log (x\<lparr>obj_log := f (obj_log x)\<rparr>)) s"
    using assms(2,3) by (simp add: set_log_def pbind_def check_object_def)
qed

lemma safe_bind_profiler:
  assumes "\<And>s. K s \<Longrightarrow> is_profiler p s" "\<And>pr. safe_op F live me (\<lambda>s. K s \<and> holds s p (pr_z_log pr)) (f pr)"
  shows "safe_op F live me K (pbind (get_profiler p) f)"
  unfolding safe_op_def
proof (intro allI impI)
  fix s
  assume s: "php_inv F live me s \<and> K s"
  then obtain pr where pr: "objects s p = Some (Obj_Profiler pr)" using assms(1) by (auto simp: is_profiler_def)
  then have "holds s p (pr_z_log pr)" by (simp add: holds_def)
  moreover have "pbind (get_profiler p) f s = f pr s" using pr by (simp add: pbind_def check_object_def)
  ultimately show "case pbind (get_profiler p) f s of Inl e \<Rightarrow> \<not> memory_fault e
      | Inr (x, s') \<Rightarrow> php_inv F live me s' \<and> same_kinds s s'"
    using assms(2) [of pr] s by (simp add: safe_op_def)
qed

section \<open>Methods that leave ownership alone\<close>

lemma is_object_below:
  assumes "php_inv F live me s" "is_profiler a s \<or> is_timer a s"
  shows "a \<in> {..<next_object s}"
  using assms by (auto simp: inv_defs heap_inv_def heap_ok_def kind_defs) (metis leI option.distinct(1))+

context profiler_backend
begin

lemma safe_timer_op:
  assumes "fault_free m" "keeps {} m"
    and "\<And>s x s'. timer_inv live me {..<next_object s} s \<Longrightarrow> K s \<Longrightarrow> php_inv F live me s \<Longrightarrow> m s = Inr (x, s') \<Longrightarrow>
      timer_inv live me {..<next_object s} s'"
  shows "safe_op F live me K m"
proof (rule safe_opI)
  fix s x s'
  assume inv: "php_inv F live me s" "K s" and r: "m s = Inr (x, s')"
  have f: "op_frame {} s s'" by (rule keepsD [OF assms(2) r])
  have "timer_inv live me {..<next_object s} s'" using assms(3) [OF _ inv(2,1) r] inv(1) by (simp add: inv_defs)
  then show "php_inv F live me s' \<and> same_kinds s s'"
    using php_inv_frame(1) [OF inv(1) f] f same_kinds_more [of s' s] by (simp add: op_frame_def)
qed (use assms(1) in \<open>simp add: fault_free_def\<close>)

lemma safe_timer_ops [safe_intros]:
  assumes "\<And>s. K s \<Longrightarrow> is_profiler t s \<or> is_timer t s"
  shows "safe_op F live me K (excimer_timer_start lib t p i)" "safe_op F live me K (excimer_timer_stop lib t)"
    "safe_op F live me K (excimer_timer_get_time lib t)"
proof -
  have D: "t \<in> {..<next_object s}" if "php_inv F live me s" "K s" for s
    by (rule is_object_below [OF that(1) assms [OF that(2)]])
  show "safe_op F live me K (excimer_timer_start lib t p i)"
    by (rule safe_timer_op [OF fault_free_ops(1) keeps_ops(1)]) (rule start_inv [OF _ D]; simp)
  show "safe_op F live me K (excimer_timer_stop lib t)"
    by (rule safe_timer_op [OF fault_free_ops(2) keeps_ops(2)]) (rule stop_inv [OF _ D]; simp)
  show "safe_op F live me K (excimer_timer_get_time lib t)"
  proof (rule safe_frame [OF fault_free_ops(4)])
    fix s x s'
    assume "excimer_timer_get_time lib t s = Inr (x, s')"
    then show "os_frame s s'" using prog_specD(1) [OF get_time_spec]
      by (auto simp: excimer_timer_get_time_def state_defs pbind_def rbind_Inr_iff split: if_splits)
  qed
qed

lemma destroy_safe:
  assumes inv: "php_inv F live me s" and k: "is_profiler t s \<or> is_timer t s"
  shows "excimer_timer_destroy lib me t s = Inl e \<Longrightarrow> \<not> memory_fault e"
    and "excimer_timer_destroy lib me t s = Inr (x, s') \<Longrightarrow>
      php_inv F live me s' \<and> same_kinds s s' \<and> \<not> is_valid (timers s' t)"
proof -
  note tr = destroy_triple [OF is_object_below [OF inv k], of me]
  have tinv: "timer_inv live me {..<next_object s} s" using inv by (simp add: inv_defs)
  show "\<not> memory_fault e" if "excimer_timer_destroy lib me t s = Inl e"
    using tripleD(1) [OF tr, of s e] tinv that by simp
  assume r: "excimer_timer_destroy lib me t s = Inr (x, s')"
  have f: "op_frame {} s s'" by (rule keepsD [OF keeps_ops(3) r])
  have "timer_inv live me {..<next_object s} s' \<and> \<not> is_valid (timers s' t)"
    using tripleD(2) [OF tr, of s x s'] tinv r by simp
  then show "php_inv F live me s' \<and> same_kinds s s' \<and> \<not> is_valid (timers s' t)"
    using php_inv_frame(1) [OF inv f] f same_kinds_more [of s' s] by (simp add: op_frame_def)
qed

text \<open>Initialising a timer that is not in use, inside an object of the class its callback is for.\<close>

lemma init_safe_op:
  assumes inv: "php_inv F live me s" and v: "\<not> is_valid (timers s t)"
    and k: "case cb of Profiler_callback \<Rightarrow> is_profiler t s | Timer_callback \<Rightarrow> is_timer t s"
    and r: "excimer_timer_init lib me t clk cb t s = Inr (ok, s')"
  shows "php_inv F live me s' \<and> same_kinds s s'"
proof -
  have D: "t \<in> {..<next_object s}" by (rule is_object_below [OF inv]) (use k in \<open>simp split: timer_callback.splits\<close>)
  have tinv: "timer_inv live me {..<next_object s} s'" using init_inv [OF _ D v r] inv by (simp add: inv_defs)
  have f: "op_frame {t} s s'" by (rule keepsD [OF keeps_ops(4) r])
  have sk: "same_kinds s s'" using f same_kinds_more [of s' s] by (simp add: op_frame_def)
  have more: "tstate.more s' = tstate.more s" using f by (simp add: op_frame_def)
  note h = heap_inv_cong [OF php_of_more(1-3,7) [OF more]]
  have "timer_owner_ok s' a" for a
  proof (cases "a = t")
    case True
    then show ?thesis using init_sets [OF r] k h by (auto simp: timer_owner_ok_def split: timer_callback.splits)
  next
    case False
    then show ?thesis using inv f h unfolding inv_defs op_frame_def kept_def timer_owner_ok_def
      by (auto split: timer_callback.split)
  qed
  then have "core_inv F live me s'" using inv h(1) php_of_more(3) [OF more] tinv by (simp add: inv_defs)
  moreover have "log_grows s s'" by (auto simp: log_grows_def php_of_more [OF more])
  ultimately show ?thesis using sk php_inv_grows [OF _ inv] by blast
qed

text \<open>Initialising the timer anew, as both start functions do.\<close>

definition reinit :: "thread \<Rightarrow> addr \<Rightarrow> zend_long \<Rightarrow> timer_callback \<Rightarrow> (('tl, 'z) php_scheme, bool) prog" where
  "reinit me t event_type cb =
     pbind (gets (\<lambda>s. is_valid (timers s t))) (\<lambda>v.
     pbind (if v then excimer_timer_destroy lib me t else pret ()) (\<lambda>_.
     excimer_timer_init lib me t (ucast event_type) cb t))"

lemma safe_reinit:
  assumes k: "\<And>s. K s \<Longrightarrow> (case cb of Profiler_callback \<Rightarrow> is_profiler t s | Timer_callback \<Rightarrow> is_timer t s)"
  shows "safe_op F live me K (reinit me t et cb)"
  unfolding safe_op_def
proof (intro allI impI, elim conjE)
  fix s
  assume inv: "php_inv F live me s" and K: "K s"
  have kt: "is_profiler t s \<or> is_timer t s" using k [OF K] by (simp split: timer_callback.splits)
  let ?d = "if is_valid (timers s t) then excimer_timer_destroy lib me t else pret ()"
  let ?i = "excimer_timer_init lib me t (ucast et) cb t"
  have eq: "reinit me t et cb s = pbind ?d (\<lambda>_. ?i) s"
    by (simp add: reinit_def pbind_def [of "gets f" for f] gets_def)
  show "case reinit me t et cb s of Inl e \<Rightarrow> \<not> memory_fault e | Inr (x, s') \<Rightarrow> php_inv F live me s' \<and> same_kinds s s'"
  proof (cases "?d s")
    case (Inl e)
    then show ?thesis using destroy_safe(1) [OF inv kt, of e] by (auto simp: eq pbind_def split: if_splits)
  next
    case (Inr r)
    then obtain x s1 where d: "?d s = Inr (x, s1)" by (cases r) blast
    then have s1: "php_inv F live me s1" "same_kinds s s1" "\<not> is_valid (timers s1 t)"
      using destroy_safe(2) [OF inv kt, of x s1] inv by (auto split: if_splits)
    have k1: "case cb of Profiler_callback \<Rightarrow> is_profiler t s1 | Timer_callback \<Rightarrow> is_timer t s1"
      using k [OF K] s1(2) by (simp add: same_kinds_def split: timer_callback.splits)
    show ?thesis
    proof (cases "?i s1")
      case (Inl e)
      then show ?thesis using d fault_free_ops(3) by (simp add: eq pbind_def fault_free_def)
    next
      case (Inr r')
      then obtain ok s2 where i: "?i s1 = Inr (ok, s2)" by (cases r') blast
      from init_safe_op [OF s1(1,3) k1 i] same_kinds_trans [OF s1(2)] d i show ?thesis by (simp add: eq pbind_def)
    qed
  qed
qed

lemma safe_start_block:
  assumes k: "\<And>s. K s \<Longrightarrow> (case cb of Profiler_callback \<Rightarrow> is_profiler t s | Timer_callback \<Rightarrow> is_timer t s)"
    and "stable K" "\<And>ok. safe_op F live me K (g ok)" "\<And>ok. safe_op F live me K (h ok)"
  shows "safe_op F live me K (pbind (gets (\<lambda>s. is_valid (timers s t))) (\<lambda>v.
    pbind (if b \<or> \<not> v then pbind (if v then excimer_timer_destroy lib me t else pret ()) (\<lambda>_.
      pbind (excimer_timer_init lib me t (ucast (et :: zend_long)) cb t) g) else pret True) h))" (is "safe_op _ _ _ _ ?m")
proof -
  have eq: "?m s = (if b \<or> \<not> is_valid (timers s t) then pbind (reinit me t et cb) (\<lambda>ok. pbind (g ok) h) s else h True s)" for s
    by (auto simp: reinit_def pbind_def gets_def rbind_def split: sum.split prod.split)
  have "safe_op F live me K (pbind (reinit me t et cb) (\<lambda>ok. pbind (g ok) h))"
    using assms by (intro safe_bind safe_reinit) auto
  then show ?thesis using assms(4) [of True] by (simp add: safe_op_def eq)
qed

lemma safe_profiler_start [safe_intros]: "safe_op F live me (is_profiler p) (ExcimerProfiler_start lib me p)"
  unfolding ExcimerProfiler_start_def
  by (intro safe_intros safe_start_block stable_kinds) (auto intro: safe_intros stable_kinds)

lemma safe_profiler_stop [safe_intros]: "(\<And>s. K s \<Longrightarrow> is_profiler p s) \<Longrightarrow> stable K \<Longrightarrow> safe_op F live me K (ExcimerProfiler_stop lib p)"
  unfolding ExcimerProfiler_stop_def by (intro safe_intros) auto

lemma safe_timer_start [safe_intros]: "safe_op F live me (is_timer a) (ExcimerTimer_start lib me a)"
  unfolding ExcimerTimer_start_def
  by (intro safe_intros safe_start_block stable_kinds) (auto intro: safe_intros stable_kinds)

lemma safe_timer_stop [safe_intros]: "(\<And>s. K s \<Longrightarrow> is_timer a s) \<Longrightarrow> stable K \<Longrightarrow> safe_op F live me K (ExcimerTimer_stop lib a)"
  unfolding ExcimerTimer_stop_def by (intro safe_intros) auto

lemma safe_profiler_methods:
  "safe_op F live me (is_profiler p) (zim_ExcimerProfiler_setPeriod eng rnd p per)"
  "safe_op F live me (is_profiler p) (zim_ExcimerProfiler_setEventType p et)"
  "safe_op F live me (is_profiler p) (zim_ExcimerProfiler_setMaxDepth p depth)"
  "safe_op F live me (is_profiler p) (zim_ExcimerProfiler_setFlushCallback eng p z n)"
  "safe_op F live me (is_profiler p) (zim_ExcimerProfiler_start lib me p)"
  "safe_op F live me (is_profiler p) (zim_ExcimerProfiler_stop lib p)"
  unfolding zim_ExcimerProfiler_setPeriod_def zim_ExcimerProfiler_setEventType_def zim_ExcimerProfiler_setMaxDepth_def
    zim_ExcimerProfiler_setFlushCallback_def zim_ExcimerProfiler_start_def
    zim_ExcimerProfiler_stop_def
  by (intro safe_bind_profiler safe_intros stable_kinds; auto simp: log_wf_options excimer_log_set_max_depth_def)+

lemma safe_timer_methods:
  "safe_op F live me (is_timer a) (zim_ExcimerTimer_setEventType a et)"
  "safe_op F live me (is_timer a) (zim_ExcimerTimer_setInterval eng a x)"
  "safe_op F live me (is_timer a) (zim_ExcimerTimer_setPeriod eng a x)"
  "safe_op F live me (is_timer a) (zim_ExcimerTimer_start lib me a)"
  "safe_op F live me (is_timer a) (zim_ExcimerTimer_stop lib a)"
  "safe_op F live me (is_timer a) (zim_ExcimerTimer_getTime lib eng a)"
  unfolding zim_ExcimerTimer_setEventType_def zim_ExcimerTimer_setInterval_def zim_ExcimerTimer_setPeriod_def
    zim_ExcimerTimer_start_def zim_ExcimerTimer_stop_def zim_ExcimerTimer_getTime_def
  by (intro safe_intros stable_kinds; auto)+

end

end
