(* ===== verification/Php_Safety.thy ===== *)
theory Php_Safety
  imports Php_Invariant
begin

text \<open>
  References to logs are created, handed over and dropped: allocating, rotating, flushing, taking a
  sample, delivering events, creating and freeing objects. Each step keeps the invariant with the
  references the running code holds, and none ends in a memory error.
\<close>

section \<open>New objects\<close>

text \<open>The state after \<^verbatim>\<open>excimer_object_alloc_init\<close>.\<close>

definition with_object :: "php_object \<Rightarrow> ('tl, 'z) php_scheme \<Rightarrow> ('tl, 'z) php_scheme" where
  "with_object ob s = s\<lparr>objects := (objects s)(next_object s \<mapsto> ob), refcount := (refcount s)(next_object s := 1),
     next_object := Suc (next_object s), timers := (timers s)(next_object s := zeroed (timers s (next_object s)))\<rparr>"

lemma alloc_run: "excimer_object_alloc_init ob s = Inr (next_object s, with_object ob s)"
  by (simp add: excimer_object_alloc_init_def pbind_def state_defs with_object_def)

lemma with_object_sel [simp]:
  "objects (with_object ob s) = (objects s)(next_object s \<mapsto> ob)"
  "refcount (with_object ob s) = (refcount s)(next_object s := 1)" "next_object (with_object ob s) = Suc (next_object s)"
  "user_calls (with_object ob s) = user_calls s" "php_refs (with_object ob s) = php_refs s" "ents (with_object ob s) = ents s" "tls_of (with_object ob s) = tls_of s"
  "timers (with_object ob s) = (timers s)(next_object s := zeroed (timers s (next_object s)))"
  by (simp_all add: with_object_def)

lemma timer_inv_new:
  assumes inv: "timer_inv live me {..<n} s" and s': "timers s' = (timers s)(n := zeroed (timers s n))" "tls_of s' = tls_of s"
  shows "timer_inv live me {..<Suc n} s'"
proof -
  have valid: "valid_timers {..<Suc n} s' = valid_timers {..<n} s"
    by (auto simp: valid_timers_def s' zeroed_def less_Suc_eq)
  obtain q where q: "pending_ring me {..<n} s q" "set q \<subseteq> valid_timers {..<n} s" using inv by (auto simp: timer_inv_def)
  note r = pending_ringD [OF q(1)]
  have old: "nx s' x = nx s x \<and> pv s' x = pv s x" if "x \<in> set q" for x using that r(2) by (auto simp: s')
  have "linked (nx s') (pv s') (q @ [hd q])" if "q \<noteq> []"
    by (rule linked_cong [OF r(4) [OF that]]) (use that old in \<open>auto dest: in_set_tl\<close>)
  then have "pending_ring me {..<Suc n} s' q"
    using r(1-3) pending_ringD(5,6) [OF q(1)] by (intro pending_ringI) (auto simp: s' zeroed_def less_Suc_eq split: list.splits)
  moreover have "timer_ok live me (timers s' t)" if "t \<in> {..<Suc n}" for t
    using that inv by (auto simp: s' zeroed_def timer_ok_def timer_inv_def less_Suc_eq)
  ultimately show ?thesis using inv q(2) unfolding timer_inv_def valid by (auto simp: s')
qed

text \<open>One more of something in the hands of the running code.\<close>

abbreviation one_more :: "('a \<Rightarrow> nat) \<Rightarrow> 'a \<Rightarrow> 'a \<Rightarrow> nat" where
  "one_more F x \<equiv> F(x := Suc (F x))"

lemma php_inv_core: "php_inv F live me s \<Longrightarrow> core_inv F live me s"
  by (simp add: php_inv_def)

lemma core_invD:
  assumes "core_inv F live me s"
  shows "heap_inv F s" "heap_ok s" "counted F s l" "timer_owner_ok s a" "timer_inv live me {..<next_object s} s"
    "objects s a = Some (Obj_Log lo) \<Longrightarrow> log_wf (obj_log lo)" "holds s p l \<Longrightarrow> holds s p' l \<Longrightarrow> p' = p"
    "objects s (next_object s) = None" "pinned F s a"
  using assms by (auto simp: core_inv_def heap_inv_def heap_ok_def)

lemma core_none:
  assumes "core_inv F live me s" "\<not> is_log l s"
  shows "F (Log_ref l) = 0" "php_refs s l = 0" "\<not> holds s p l"
  using core_invD(3) [OF assms(1), of l] assms(2) by (auto simp: counted_def held_def split: if_splits)

lemma pinnedD:
  assumes "pinned F s a"
  shows "0 < F (Profiler_ref a) \<Longrightarrow> is_profiler a s" "0 < F (Timer_ref a) \<Longrightarrow> is_timer a s" "0 < F (Storage a) \<Longrightarrow> is_freeing a s"
    "is_profiler a s \<Longrightarrow> refcount s a = Suc (F (Profiler_ref a))" "is_timer a s \<Longrightarrow> refcount s a = Suc (F (Timer_ref a))"
  using assms by (auto simp: pinned_def split: if_splits)

lemma pinned_new:
  assumes "pinned F s a" "objects s a = None"
  shows "F (Profiler_ref a) = 0" "F (Timer_ref a) = 0" "F (Storage a) = 0"
  using assms by (auto simp: pinned_def kind_defs)

lemmas php_invD = core_invD [OF php_inv_core]

lemmas counted_none = core_none [OF php_inv_core]

lemma counted_sum:
  assumes "is_log l s' = is_log l s" "refcount s' l = refcount s l"
    "F' (Log_ref l) + php_refs s' l + held s' l = F (Log_ref l) + php_refs s l + held s l"
  shows "counted F' s' l = counted F s l"
  by (simp only: counted_def Let_def assms)

lemma unheld: "(\<And>p. \<not> holds s p l) \<Longrightarrow> held s l = 0"
  by (simp add: held_def)

lemma core_inv_cong:
  assumes "objects s' = objects s" "refcount s' = refcount s" "next_object s' = next_object s"
    "timers s' = timers s" "tls_of s' = tls_of s" "php_refs s' = php_refs s"
  shows "core_inv F live me s' = core_inv F live me s"
proof -
  note h = heap_inv_cong [OF assms(1-3,6)]
  have "timer_owner_ok s' a = timer_owner_ok s a" for a
    using h(2,3) assms(4) by (cases "callback (timers s a)") (simp_all add: timer_owner_ok_def)
  then show ?thesis using h(1) timer_inv_cong [OF assms(4,5)] assms(3) by (simp add: core_inv_def)
qed

lemma php_inv_cong:
  assumes "objects s' = objects s" "refcount s' = refcount s" "next_object s' = next_object s"
    "timers s' = timers s" "tls_of s' = tls_of s" "php_refs s' = php_refs s" "ents s' = ents s"
  shows "php_inv F live me s' = php_inv F live me s"
  using core_inv_cong [OF assms(1-6)] assms by (simp add: php_inv_def ent_inv_def entry_at_def)

lemma timer_owner_cong:
  assumes "timers s' a = timers s a" "is_profiler a s' = is_profiler a s" "is_timer a s' = is_timer a s"
  shows "timer_owner_ok s' a = timer_owner_ok s a"
  using assms by (cases "callback (timers s a)") (simp_all add: timer_owner_ok_def)

text \<open>A new object keeps the invariant; the reference to a new log is in the hands of the running code.\<close>

lemma php_inv_new:
  assumes inv: "php_inv F live me s"
    and ob: "case ob of Obj_Log lo \<Rightarrow> log_wf (obj_log lo) \<and> F' = one_more F (Log_ref (next_object s)) | Obj_Timer _ \<Rightarrow> F' = F | _ \<Rightarrow> False"
  shows "php_inv F' live me (with_object ob s)" (is "php_inv _ _ _ ?s")
proof -
  let ?n = "next_object s"
  have none: "objects s ?n = None" by (rule php_invD(8) [OF inv])
  then have n: "\<not> is_log ?n s" by (simp add: is_log_def)
  have h: "holds ?s = holds s" using ob none by (auto simp: fun_eq_iff holds_def split: php_object.splits)
  have hd: "held ?s l = held s l" for l by (simp add: held_def h)
  have k: "is_profiler a ?s = is_profiler a s" "a \<noteq> ?n \<Longrightarrow> is_timer a ?s = is_timer a s" "a \<noteq> ?n \<Longrightarrow> is_log a ?s = is_log a s" for a
    using ob none by (auto simp: kind_defs split: php_object.splits)
  have "counted F' ?s a" for a
  proof (cases "a = ?n")
    case True
    then show ?thesis using ob counted_none(1,2) [OF inv n] hd [of ?n] unheld [of s ?n, OF counted_none(3) [OF inv n]]
      by (cases ob) (simp_all add: counted_def is_log_def)
  next
    case False
    then have "counted F' ?s a = counted F s a"
      using ob k(3) [OF False] hd [of a] by (cases ob) (simp_all add: counted_def)
    then show ?thesis using php_invD(3) [OF inv] by simp
  qed
  moreover have "pinned F' ?s a" for a
  proof (cases "a = ?n")
    case True
    then show ?thesis using ob pinned_new [OF php_invD(9) [OF inv] none] by (cases ob) (simp_all add: pinned_def kind_defs)
  next
    case False
    then have "pinned F' ?s a = pinned F s a" using ob k by (intro pinned_cong) (auto simp: is_freeing_def split: php_object.splits)
    then show ?thesis using php_invD(9) [OF inv] by simp
  qed
  moreover have "heap_ok ?s" using php_invD(2) [OF inv] by (simp add: heap_ok_def)
  moreover have "log_wf (obj_log lo)" if "objects ?s a = Some (Obj_Log lo)" for a lo
    using that php_invD(6) [OF inv] ob by (auto split: if_splits)
  ultimately have "heap_inv F' ?s" using php_invD(7) [OF inv] by (simp add: heap_inv_def h)
  moreover have "timer_owner_ok ?s a" for a
  proof (cases "a = ?n")
    case False
    then have "timer_owner_ok ?s a = timer_owner_ok s a" by (intro timer_owner_cong k) simp_all
    then show ?thesis using php_invD(4) [OF inv] by simp
  qed (simp add: timer_owner_ok_def zeroed_def)
  moreover have "timer_inv live me {..<next_object ?s} ?s"
    using timer_inv_new [of live me ?n s ?s] php_invD(5) [OF inv] by simp
  ultimately have "core_inv F' live me ?s" by (simp add: core_inv_def)
  moreover have "log_grows s ?s" using none by (auto simp: log_grows_def)
  ultimately show ?thesis by (rule php_inv_grows [OF _ inv])
qed

lemma new_log_wf: "log_wf (obj_log (ExcimerLog_new mem))"
  by (simp add: ExcimerLog_new_def log_wf_init)

text \<open>
  A profiler takes over a reference to a log nobody owns: a new profiler, or a profiler that gives up its
  reference to another log.
\<close>

lemma php_inv_own:
  assumes inv: "php_inv (one_more F (Log_ref l)) live me s" and l: "\<And>q. \<not> holds s q l" "is_log l s" and p: "p < next_object s"
    and old: "objects s p = None \<and> refcount s p = 1 \<and> \<not> is_valid (timers s p) \<and> F' = F \<or> (\<exists>m. holds s p m \<and> F' = one_more F (Log_ref m))"
    and pr: "pr_z_log pr = l"
  shows "php_inv F' live me (s\<lparr>objects := (objects s)(p \<mapsto> Obj_Profiler pr)\<rparr>)" (is "php_inv _ _ _ ?s")
proof -
  have kp: "objects s p = None \<or> is_profiler p s" using old by (auto simp: holds_def is_profiler_def)
  have h: "holds ?s q m \<longleftrightarrow> (if q = p then m = l else holds s q m)" for q m using pr by (auto simp: holds_def)
  have k: "is_log a ?s = is_log a s" "a \<noteq> p \<Longrightarrow> is_profiler a ?s = is_profiler a s" "is_timer a ?s = is_timer a s" "is_profiler p ?s" for a
    using kp by (auto simp: kind_defs)
  have one: "holds s p m \<Longrightarrow> holds s q m \<Longrightarrow> q = p" for m q by (rule php_invD(7) [OF inv])
  have hl: "held ?s l = 1" "held s l = 0" using l(1) by (auto simp: held_def h)
  have hm: "held ?s m = (if holds s p m then 0 else held s m)" if "m \<noteq> l" for m
    using that by (cases "holds s p m") (auto simp: held_def h dest: one)
  have F': "m \<noteq> l \<Longrightarrow> F' (Log_ref m) = F (Log_ref m) + (if holds s p m then 1 else 0)" "F' (Log_ref l) = F (Log_ref l)" for m
  proof -
    show "F' (Log_ref m) = F (Log_ref m) + (if holds s p m then 1 else 0)" if "m \<noteq> l"
    proof (cases "\<exists>m'. holds s p m'")
      case True
      then obtain m' where m': "holds s p m'" "F' = one_more F (Log_ref m')" using old by (auto simp: holds_def)
      then have "holds s p m \<longleftrightarrow> m = m'" by (auto simp: holds_def)
      then show ?thesis using m'(2) by simp
    next
      case False
      then have "F' = F" "\<not> holds s p m" using old by blast+
      then show ?thesis by simp
    qed
    show "F' (Log_ref l) = F (Log_ref l)" using old l(1) by auto
  qed
  have "counted F' ?s m" for m
  proof (cases "m = l")
    case True
    then show ?thesis using php_invD(3) [OF inv, of l] l(2) by (simp add: counted_def k hl F'(2))
  next
    case False
    have "holds s p m \<Longrightarrow> held s m = 1" by (auto simp: held_def)
    then show ?thesis using False php_invD(3) [OF inv, of m] by (auto simp: counted_def k hm F'(1) split: if_splits)
  qed
  moreover have "pinned F' ?s a" for a
  proof (cases "objects s p = None \<and> a = p")
    case True
    then have "F' = F" "refcount s p = 1" using old by (auto simp: holds_def)
    then show ?thesis using True pinned_new [OF php_invD(9) [OF inv], of p] by (simp add: pinned_def kind_defs)
  next
    case False
    then have "pinned F' ?s a = pinned (one_more F (Log_ref l)) s a" using old kp by (intro pinned_cong) (auto simp: kind_defs)
    then show ?thesis using php_invD(9) [OF inv] by simp
  qed
  moreover have "heap_ok ?s" using php_invD(2) [OF inv] p by (simp add: heap_ok_def)
  moreover have "log_wf (obj_log lo)" if "objects ?s a = Some (Obj_Log lo)" for a lo
    using that php_invD(6) [OF inv] by (auto split: if_splits)
  moreover have "q' = q" if "holds ?s q m" "holds ?s q' m" for q q' m
    using that l(1) php_invD(7) [OF inv] unfolding h by (auto split: if_splits)
  ultimately have "heap_inv F' ?s" unfolding heap_inv_def by blast
  moreover have "timer_owner_ok ?s a" for a
    using php_invD(4) [OF inv, of a] k kp old
    by (cases "a = p") (auto simp: timer_owner_ok_def kind_defs split: timer_callback.splits)
  moreover have "timer_inv live me {..<next_object ?s} ?s"
    by (rule timer_inv_cong [THEN iffD2, of _ s]) (use php_invD(5) [OF inv] in simp_all)
  ultimately have "core_inv F' live me ?s" by (simp add: core_inv_def)
  moreover have "log_grows s ?s" using kp by (auto simp: log_grows_def split: if_splits)
  ultimately show ?thesis by (rule php_inv_grows [OF _ inv])
qed

section \<open>Rotating, releasing and flushing\<close>

lemma php_inv_profiler:
  assumes "php_inv F live me s" "is_profiler p s"
  obtains pr lo where "profiler_at s p pr lo"
proof -
  obtain pr where pr: "objects s p = Some (Obj_Profiler pr)" using assms(2) by (auto simp: is_profiler_def)
  then have h: "holds s p (pr_z_log pr)" by (simp add: holds_def)
  obtain lo where "objects s (pr_z_log pr) = Some (Obj_Log lo)" "0 < refcount s (pr_z_log pr)"
    using held_log [OF php_invD(1) [OF assms(1)] h] by (auto simp: is_log_def)
  with that pr php_invD(2,6) [OF assms(1)] show thesis by (auto simp: profiler_at_def)
qed

lemma rotate_triple:
  "triple (\<lambda>s. php_inv F live me s \<and> is_profiler p s) (rotate_log p)
    (\<lambda>old s. php_inv (one_more F (Log_ref old)) live me s \<and> is_profiler p s)"
  unfolding triple_def
proof (intro allI impI, elim conjE)
  fix s
  assume inv: "php_inv F live me s" and "is_profiler p s"
  then obtain pr lo where at: "profiler_at s p pr lo" by (rule php_inv_profiler)
  let ?l = "pr_z_log pr" and ?n = "next_object s" and ?pr = "pr\<lparr>pr_z_log := next_object s\<rparr>"
  let ?lo = "(ExcimerLog_new zero_log)\<lparr>obj_log := fresh_log (obj_log lo)\<rparr>"
  have o: "objects s p = Some (Obj_Profiler pr)" "objects s ?l = Some (Obj_Log lo)" "0 < refcount s ?l"
    using at by (simp_all add: profiler_at_def)
  have none: "objects s a = None" if "?n \<le> a" for a using at that by (simp add: profiler_at_def heap_ok_def)
  have ne: "?n \<noteq> ?l" "?n \<noteq> p" "p \<noteq> ?l" using none [of ?n] o by auto
  have less: "p < ?n" using none [of p] o by (cases "p < ?n") simp_all
  let ?s1 = "with_object (Obj_Log (ExcimerLog_new zero_log)) s"
  let ?s2 = "?s1\<lparr>objects := (objects ?s1)(p \<mapsto> Obj_Profiler ?pr)\<rparr>"
  let ?s3 = "?s2\<lparr>objects := (objects ?s2)(?n \<mapsto> Obj_Log ?lo)\<rparr>"
  from rotate_log_exact [OF o(1,2) ne(1-3)] obtain s' where raw: "rotate_log p s = Inr (?l, s')"
    "objects s' = (objects s)(?n \<mapsto> Obj_Log ?lo, p \<mapsto> Obj_Profiler ?pr)" "refcount s' = (refcount s)(?n := 1)"
    "next_object s' = Suc ?n" "timers s' = (timers s)(?n := zeroed (timers s ?n))" "tls_of s' = tls_of s"
    "php_refs s' = php_refs s" "ents s' = ents s" by blast
  have obs: "objects s' = objects ?s3" using ne(2) by (simp add: raw(2) fun_eq_iff)
  have rest: "refcount s' = refcount ?s3" "next_object s' = next_object ?s3" "timers s' = timers ?s3" "tls_of s' = tls_of ?s3"
    "php_refs s' = php_refs ?s3" "ents s' = ents ?s3"
    by (simp_all add: raw)
  have i1: "php_inv (one_more F (Log_ref ?n)) live me ?s1" by (rule php_inv_new [OF inv]) (simp add: new_log_wf)
  have h1: "holds ?s1 = holds s" using none [of ?n] by (auto simp: fun_eq_iff holds_def)
  have i2: "php_inv (one_more F (Log_ref ?l)) live me ?s2"
  proof (rule php_inv_own [OF i1])
    show "\<not> holds ?s1 q ?n" for q using counted_none(3) [OF inv] none [of ?n] by (simp add: h1 is_log_def)
    have "holds ?s1 p ?l" using o(1) by (simp add: h1) (simp add: holds_def)
    then show "objects ?s1 p = None \<and> refcount ?s1 p = 1 \<and> \<not> is_valid (timers ?s1 p) \<and> one_more F (Log_ref ?l) = F \<or>
        (\<exists>m. holds ?s1 p m \<and> one_more F (Log_ref ?l) = one_more F (Log_ref m))" by blast
  qed (use less in \<open>simp_all add: is_log_def\<close>)
  have i3: "php_inv (one_more F (Log_ref ?l)) live me ?s3"
    by (rule php_inv_put [OF i2, of _ "Obj_Log (ExcimerLog_new zero_log)"]) (use ne in \<open>simp_all add: ExcimerLog_new_def excimer_log_init_def\<close>)
  have "is_profiler p ?s3" using ne by (simp add: is_profiler_def)
  then show "case rotate_log p s of Inl e \<Rightarrow> \<not> memory_fault e
      | Inr (old, s) \<Rightarrow> php_inv (one_more F (Log_ref old)) live me s \<and> is_profiler p s"
    using raw(1) php_inv_cong [OF obs rest] heap_inv_cong [OF obs rest(1,2,5)] i3 by simp
qed

text \<open>Dropping a reference in the hands of the running code.\<close>

lemma core_one_more:
  assumes inv: "core_inv (one_more F (Log_ref a)) live me s"
  obtains lo where "objects s a = Some (Obj_Log lo)" "refcount s a = Suc (F (Log_ref a)) + php_refs s a + held s a"
proof -
  have "is_log a s" using core_none(1) [OF inv, of a] by auto
  then show thesis using that core_invD(3) [OF inv, of a] by (auto simp: counted_def is_log_def)
qed

lemma core_release:
  assumes inv: "core_inv (one_more F (Log_ref a)) live me s"
  obtains s' where "release_log a s = Inr ((), s')" "core_inv F live me s'" "log_grows s s'"
proof -
  obtain lo where a: "objects s a = Some (Obj_Log lo)" and c: "refcount s a = Suc (F (Log_ref a)) + php_refs s a + held s a"
    by (rule core_one_more [OF inv])
  let ?s = "s\<lparr>refcount := (refcount s)(a := refcount s a - 1),
    objects := (if refcount s a = 1 then (objects s)(a := None) else objects s)\<rparr>"
  have run: "release_log a s = Inr ((), ?s)" by (rule release_log_run [OF a]) (simp add: c)
  have h: "holds ?s = holds s" using a by (auto simp: fun_eq_iff holds_def)
  have hd: "held ?s l = held s l" for l by (simp only: held_def h)
  have k: "is_profiler x ?s = is_profiler x s" "is_timer x ?s = is_timer x s"
    "is_log x ?s \<longleftrightarrow> is_log x s \<and> (x = a \<longrightarrow> refcount s a \<noteq> 1)" for x using a by (auto simp: kind_defs)
  have al: "is_log a s" using a by (simp add: is_log_def)
  have "counted F ?s l" for l
  proof (cases "l = a")
    case True
    then show ?thesis using c al unfolding counted_def hd k by auto
  next
    case False
    then have "counted F ?s l = counted (one_more F (Log_ref a)) s l" unfolding counted_def hd k by simp
    then show ?thesis using core_invD(3) [OF inv] by simp
  qed
  moreover have "pinned F ?s x = pinned (one_more F (Log_ref a)) s x" for x
    by (rule pinned_cong) (use a in \<open>auto simp: kind_defs\<close>)
  then have "pinned F ?s x" for x using core_invD(9) [OF inv] by simp
  moreover have "heap_ok ?s" using core_invD(2) [OF inv] by (simp add: heap_ok_def)
  moreover have "log_wf (obj_log x)" if "objects ?s b = Some (Obj_Log x)" for b x
    using that core_invD(6) [OF inv] by (auto split: if_splits)
  ultimately have "heap_inv F ?s" using core_invD(7) [OF inv] unfolding heap_inv_def h by blast
  moreover have "timer_owner_ok ?s x = timer_owner_ok s x" for x by (rule timer_owner_cong) (simp, (rule k)+)
  then have "timer_owner_ok ?s x" for x using core_invD(4) [OF inv] by simp
  moreover have "timer_inv live me {..<next_object ?s} ?s"
    by (rule timer_inv_cong [THEN iffD2, of _ s]) (use core_invD(5) [OF inv] in simp_all)
  ultimately have "core_inv F live me ?s" by (simp add: core_inv_def)
  moreover have "log_grows s ?s" using a by (auto simp: log_grows_def split: if_splits)
  ultimately show thesis using run that by blast
qed

lemma release_inv:
  assumes "php_inv (one_more F (Log_ref a)) live me s"
  obtains s' where "release_log a s = Inr ((), s')" "php_inv F live me s'"
  using core_release [OF php_inv_core [OF assms]] php_inv_grows [OF _ assms] by metis

lemma release_triple: "triple (php_inv (one_more F (Log_ref a)) live me) (release_log a) (\<lambda>_. php_inv F live me)"
  unfolding triple_def by (auto elim!: release_inv)

text \<open>Taking a reference, and passing references between PHP variables and the running code.\<close>

lemma core_recount:
  assumes inv: "core_inv F live me s" and F': "\<And>x. x \<noteq> Log_ref a \<Longrightarrow> F' x = F x"
    and f: "\<And>l. l \<noteq> a \<Longrightarrow> r l = refcount s l \<and> v l = php_refs s l"
    and a: "is_log a s" "r a = F' (Log_ref a) + v a + held s a" "0 < r a"
  shows "core_inv F' live me (s\<lparr>refcount := r, php_refs := v\<rparr>)" (is "core_inv _ _ _ ?s")
proof -
  have h: "holds ?s = holds s" by (simp add: fun_eq_iff holds_def)
  have hd: "held ?s l = held s l" for l by (simp only: held_def h)
  have k: "is_profiler x ?s = is_profiler x s" "is_timer x ?s = is_timer x s" "is_log x ?s = is_log x s" for x
    by (simp_all add: kind_defs)
  have "counted F' ?s l" for l
  proof (cases "l = a")
    case True
    then show ?thesis using a unfolding counted_def hd k by simp
  next
    case False
    then have "counted F' ?s l = counted F s l" using f [of l] F' unfolding counted_def hd k by simp
    then show ?thesis using core_invD(3) [OF inv] by simp
  qed
  moreover have "pinned F' ?s x = pinned F s x" for x
    by (rule pinned_cong) (use a(1) f [of x] F' in \<open>cases "x = a"; auto simp: kind_defs\<close>)+
  then have "pinned F' ?s x" for x using core_invD(9) [OF inv] by simp
  moreover have "heap_ok ?s" using core_invD(2) [OF inv] by (simp add: heap_ok_def)
  moreover have "\<forall>x lo. objects ?s x = Some (Obj_Log lo) \<longrightarrow> log_wf (obj_log lo)" using core_invD(6) [OF inv] by simp
  ultimately have "heap_inv F' ?s" using core_invD(7) [OF inv] unfolding heap_inv_def h by blast
  moreover have "timer_owner_ok ?s x = timer_owner_ok s x" for x by (rule timer_owner_cong) (simp, (rule k)+)
  then have "timer_owner_ok ?s x" for x using core_invD(4) [OF inv] by simp
  moreover have "timer_inv live me {..<next_object ?s} ?s"
    by (rule timer_inv_cong [THEN iffD2, of _ s]) (use core_invD(5) [OF inv] in simp_all)
  ultimately show ?thesis by (simp add: core_inv_def)
qed

lemma core_addref:
  assumes "core_inv F live me s" "is_log a s"
  shows "core_inv (one_more F (Log_ref a)) live me (s\<lparr>refcount := (refcount s)(a := Suc (refcount s a))\<rparr>)"
  using core_recount [OF assms(1), of a "one_more F (Log_ref a)" "(refcount s)(a := Suc (refcount s a))" "php_refs s"]
    assms(2) core_invD(3) [OF assms(1), of a] by (simp add: counted_def)

lemma core_hand_over:
  assumes "core_inv (one_more F (Log_ref a)) live me s"
  shows "core_inv F live me (s\<lparr>php_refs := (php_refs s)(a := Suc (php_refs s a))\<rparr>)"
proof -
  obtain lo where lo: "objects s a = Some (Obj_Log lo)" "refcount s a = Suc (F (Log_ref a)) + php_refs s a + held s a"
    by (rule core_one_more [OF assms])
  then show ?thesis
    using core_recount [OF assms, of a F "refcount s" "(php_refs s)(a := Suc (php_refs s a))"] by (simp add: is_log_def)
qed

lemma core_take_back:
  assumes "core_inv F live me s" "0 < php_refs s a"
  shows "core_inv (one_more F (Log_ref a)) live me (s\<lparr>php_refs := (php_refs s)(a := php_refs s a - 1)\<rparr>)"
proof -
  have a: "is_log a s" using core_none(2) [OF assms(1), of a] assms(2) by auto
  then have "refcount s a = F (Log_ref a) + php_refs s a + held s a" using core_invD(3) [OF assms(1), of a] by (simp add: counted_def)
  then show ?thesis
    using core_recount [OF assms(1) _ _ a, of "one_more F (Log_ref a)" "refcount s" "(php_refs s)(a := php_refs s a - 1)"] assms(2) by simp
qed

lemma addref_triple:
  "triple (\<lambda>s. php_inv F live me s \<and> is_log a s) (addref a) (\<lambda>_. php_inv (one_more F (Log_ref a)) live me)"
proof -
  have "php_inv (one_more F (Log_ref a)) live me (s\<lparr>refcount := (refcount s)(a := Suc (refcount s a))\<rparr>)"
    if s: "php_inv F live me s" "is_log a s" for s
    by (rule php_inv_grows [OF core_addref [OF php_inv_core [OF s(1)] s(2)] s(1)]) (auto simp: log_grows_def)
  then show ?thesis by (auto simp: triple_def addref_def modify_def)
qed

lemma hand_over_inv:
  assumes "php_inv (one_more F (Log_ref a)) live me s"
  shows "php_inv F live me (s\<lparr>php_refs := (php_refs s)(a := Suc (php_refs s a))\<rparr>)"
  by (rule php_inv_grows [OF core_hand_over [OF php_inv_core [OF assms]] assms]) (auto simp: log_grows_def)

text \<open>Only a reference that neither an entry nor an iterator holds can be given back by itself.\<close>

lemma take_back_inv:
  assumes "php_inv F live me s" "entry_log_refs (ents s) a < php_refs s a"
  shows "php_inv (one_more F (Log_ref a)) live me (s\<lparr>php_refs := (php_refs s)(a := php_refs s a - 1)\<rparr>)"
proof (rule php_invI)
  show "core_inv (one_more F (Log_ref a)) live me (s\<lparr>php_refs := (php_refs s)(a := php_refs s a - 1)\<rparr>)"
    using assms(2) by (intro core_take_back [OF php_inv_core [OF assms(1)]]) simp
  show "ent_inv (\<lambda>_. 0) (s\<lparr>php_refs := (php_refs s)(a := php_refs s a - 1)\<rparr>)"
    using assms by (auto simp: php_inv_def ent_inv_def entry_at_def)
qed

text \<open>
  What is asked of the engine: a user function it calls, and the destructors it runs when a reference to a value is
  given up, make no memory error and keep the invariant with what the functions that are running have in hand, as
  every call of the extension does.
\<close>

definition safe_engine :: "('tl \<Rightarrow> bool) \<Rightarrow> thread \<Rightarrow> ('tl, 'z) php_scheme engine \<Rightarrow> bool" where
  "safe_engine live me eng \<longleftrightarrow>
     (\<forall>F v arg. triple (php_inv F live me) (call_user eng v arg) (\<lambda>_. php_inv F live me)) \<and>
     (\<forall>F v. triple (php_inv F live me) (release_value eng v) (\<lambda>_. php_inv F live me))"

lemma call_triple:
  assumes "safe_engine live me eng"
  shows "triple (php_inv F live me) (call_function eng z arg) (\<lambda>_. php_inv F live me)"
proof -
  have log: "triple (php_inv F live me) (modify (\<lambda>s. s\<lparr>user_calls := user_calls s @ [c]\<rparr>)) (\<lambda>_. php_inv F live me)" for c
    by (auto simp: triple_def modify_def intro: php_inv_cong [THEN iffD2])
  show ?thesis
    unfolding call_function_def
    by (rule triple_bind [OF log]) (use assms in \<open>auto simp: safe_engine_def intro: triple_pret split: callback_zval.split\<close>)
qed

lemma release_callback_triple:
  assumes "safe_engine live me eng"
  shows "triple (php_inv F live me) (release_callback eng z) (\<lambda>_. php_inv F live me)"
  using assms by (auto simp: release_callback_def safe_engine_def intro: triple_pret split: callback_zval.split)

lemma add_fault:
  assumes wf: "log_wf lg" and e: "excimer_log_add lg stk n t = Inl e"
  shows "\<not> memory_fault e"
proof (cases "excimer_log_find_or_add_frame lg stk 0")
  case (Inl e')
  have "frames_wf lg" using wf by (simp add: log_wf_def)
  then show ?thesis using find_or_add_frame_fault [OF _ Inl] e Inl by (auto simp: excimer_log_add_def)
next
  case (Inr r)
  then show ?thesis using e by (cases r) (auto simp: excimer_log_add_def safe_erealloc_def split: if_splits)
qed

lemma get_log_triple:
  "(\<And>s. P s \<Longrightarrow> is_log a s) \<Longrightarrow> triple P (get_log a) (\<lambda>_. P)"
  "(\<And>s. P s \<Longrightarrow> is_profiler a s) \<Longrightarrow> triple P (get_profiler a) (\<lambda>_. P)"
  "(\<And>s. P s \<Longrightarrow> is_timer a s) \<Longrightarrow> triple P (get_timer_obj a) (\<lambda>_. P)"
  by (fastforce simp: triple_def check_object_def kind_defs)+

lemma gets_triple: "triple P (gets f) (\<lambda>_. P)"
  by (simp add: triple_def gets_def)

context profiler_backend
begin

lemma flush_triple:
  assumes eng: "safe_engine live me eng"
  shows "triple (\<lambda>s. php_inv F live me s \<and> is_profiler p s) (ExcimerProfiler_flush lib eng p)
    (\<lambda>old. php_inv (one_more F (Log_ref old)) live me)"
  unfolding ExcimerProfiler_flush_def
proof (rule triple_bind [OF rotate_triple], rule triple_bind [OF get_log_triple(2)])
  fix old pr
  let ?Q = "\<lambda>old. php_inv (one_more F (Log_ref old)) live me"
  let ?P = "\<lambda>s. ?Q old s \<and> is_profiler p s"
  have stop: "triple ?P (pbind (warn w) (\<lambda>_. pbind (ExcimerProfiler_stop lib p) (\<lambda>_. pret old))) ?Q" for w
  proof (rule triple_bind, rule safe_op_triple [OF safe_warn], blast)
    show "triple ?P (pbind (ExcimerProfiler_stop lib p) (\<lambda>_. pret old)) ?Q"
      by (rule triple_bind, rule safe_op_triple [OF safe_profiler_stop]) (auto intro: triple_pret)
  qed
  have log: "is_log old s" if "?Q old s" for s using core_one_more [OF php_inv_core [OF that]] by (auto simp: is_log_def)
  have body: "triple (?Q old) (pbind (addref old) (\<lambda>_. pbind (call_function eng z arg) (\<lambda>_.
      pbind (release_log old) (\<lambda>_. pret old)))) ?Q" for z arg
  proof (rule triple_bind)
    show "triple (?Q old) (addref old) (\<lambda>_. php_inv (one_more (one_more F (Log_ref old)) (Log_ref old)) live me)"
      by (rule triple_conseq [OF addref_triple]) (use log in auto)
    show "triple (php_inv (one_more (one_more F (Log_ref old)) (Log_ref old)) live me) (pbind (call_function eng z arg) (\<lambda>_.
        pbind (release_log old) (\<lambda>_. pret old))) ?Q"
      by (rule triple_bind [OF call_triple [OF eng]], rule triple_bind [OF release_triple], rule triple_pret)
  qed
  have call: "triple ?P (pbind (get_log old) (\<lambda>lo. pbind (addref old) (\<lambda>_.
      pbind (call_function eng (pr_z_callback pr) (Arg_Log old (obj_log lo))) (\<lambda>_.
      pbind (release_log old) (\<lambda>_. pret old))))) ?Q"
    by (rule triple_bind [OF get_log_triple(1)]) (use log in \<open>auto intro: triple_conseq [OF body]\<close>)
  show "triple ?P (if pr_z_callback pr = Z_NULL then pret old
      else pbind (gets (\<lambda>s. callable eng s (pr_z_callback pr))) (\<lambda>c.
        if \<not> c then pbind (warn (Warning ''ExcimerProfiler callback is not callable (during event)'')) (\<lambda>_.
          pbind (ExcimerProfiler_stop lib p) (\<lambda>_. pret old))
        else pbind (get_log old) (\<lambda>lo. pbind (addref old) (\<lambda>_.
          pbind (call_function eng (pr_z_callback pr) (Arg_Log old (obj_log lo))) (\<lambda>_.
          pbind (release_log old) (\<lambda>_. pret old)))))) ?Q"
    by (intro triple_if triple_pret triple_bind [OF gets_triple] stop call) auto
qed auto

lemma event_triple:
  assumes eng: "safe_engine live me eng"
  shows "triple (\<lambda>s. php_inv F live me s \<and> is_profiler p s) (ExcimerProfiler_event lib eng n p) (\<lambda>_. php_inv F live me)"
  unfolding triple_def
proof (intro allI impI, elim conjE)
  fix s :: "('tl, 'z) php_scheme"
  assume inv: "php_inv F live me s" and p: "is_profiler p s"
  then obtain pr lo where at: "profiler_at s p pr lo" by (rule php_inv_profiler)
  let ?l = "pr_z_log pr"
  obtain ok ts s1 where clk: "tl_clock_get_time lib TIMERLIB_REAL s = Inr ((ok, ts), s1)" "os_frame s s1" by (rule clock_run)
  note f = os_frame_php [OF clk(2)]
  let ?add = "excimer_log_add (obj_log lo) (current_execute_data s) n (timerlib_timespec_to_ns ts)"
  have start: "ExcimerProfiler_event lib eng n p s = (case ?add of Inl e \<Rightarrow> Inl e
      | Inr lg \<Rightarrow> pbind (put_object ?l (Obj_Log (lo\<lparr>obj_log := lg\<rparr>))) (\<lambda>_.
         if pr_max_samples pr \<noteq> 0 \<and> pr_max_samples pr \<le> entries_size lg then
           pbind (ExcimerProfiler_flush lib eng p) (\<lambda>old. release_log old) else pret ()) s1)"
    using at clk(1) f
    by (simp add: ExcimerProfiler_event_def pbind_def gets_def check_object_def profiler_at_def Let_def split: sum.split)
  show "case ExcimerProfiler_event lib eng n p s of Inl e \<Rightarrow> \<not> memory_fault e | Inr (x, s') \<Rightarrow> php_inv F live me s'"
  proof (cases ?add)
    case (Inl e)
    then show ?thesis using add_fault [OF _ Inl] at by (simp add: start profiler_at_def)
  next
    case (Inr lg)
    have wf: "log_wf lg" using excimer_log_add_ok(1) [OF _ Inr] at by (simp add: profiler_at_def)
    have "length (log_samples lg) = Suc (length (log_samples (obj_log lo)))"
      using excimer_log_add_ok(2) [OF _ Inr] at by (simp add: profiler_at_def)
    then have len: "length (entries (obj_log lo)) \<le> length (entries lg)" by (simp add: log_samples_def)
    let ?s2 = "s1\<lparr>objects := (objects s1)(?l \<mapsto> Obj_Log (lo\<lparr>obj_log := lg\<rparr>))\<rparr>"
    have ob: "objects s1 ?l = Some (Obj_Log lo)" "same_shape (Obj_Log lo) (Obj_Log (lo\<lparr>obj_log := lg\<rparr>))"
      using at f wf len by (simp_all add: profiler_at_def)
    have i2: "php_inv F live me ?s2" "is_profiler p ?s2"
      using php_inv_put [OF php_inv_os(1) [OF inv clk(2)] ob] same_shape_kinds(2) [OF ob] php_inv_os(2) [OF inv clk(2)] p
      by simp_all
    have "triple (\<lambda>s. php_inv F live me s \<and> is_profiler p s) (if pr_max_samples pr \<noteq> 0 \<and> pr_max_samples pr \<le> entries_size lg then
        pbind (ExcimerProfiler_flush lib eng p) (\<lambda>old. release_log old) else pret ()) (\<lambda>_. php_inv F live me)"
      by (intro triple_if triple_pret triple_bind [OF flush_triple [OF eng]] release_triple) auto
    then show ?thesis using i2 by (auto simp: start Inr triple_def pbind_def put_object_def modify_def)
  qed
qed

lemma timer_event_triple:
  assumes eng: "safe_engine live me eng"
  shows "triple (\<lambda>s. php_inv F live me s \<and> is_timer a s) (ExcimerTimer_event lib eng n a) (\<lambda>_. php_inv F live me)"
  unfolding ExcimerTimer_event_def
proof (rule triple_bind [OF get_log_triple(3)])
  fix to
  have "triple (\<lambda>s. php_inv F live me s \<and> is_timer a s) (pbind (warn w) (\<lambda>_. ExcimerTimer_stop lib a)) (\<lambda>_. php_inv F live me)" for w
    by (rule triple_bind, rule safe_op_triple [OF safe_warn], blast,
        rule triple_conseq [OF safe_op_triple [OF safe_timer_stop]]) auto
  moreover have "triple (\<lambda>s. php_inv F live me s \<and> is_timer a s)
      (call_function eng (to_z_callback to) (Arg_Long n)) (\<lambda>_. php_inv F live me)"
    by (rule triple_conseq [OF call_triple [OF eng]]) auto
  ultimately show "triple (\<lambda>s. php_inv F live me s \<and> is_timer a s)
      (if to_z_callback to = Z_NULL \<or> to_z_callback to = Z_UNDEF then pret ()
       else pbind (gets (\<lambda>s. callable eng s (to_z_callback to))) (\<lambda>c.
         if \<not> c then pbind (warn (Warning ''ExcimerTimer callback is not callable (during event)'')) (\<lambda>_. ExcimerTimer_stop lib a)
         else call_function eng (to_z_callback to) (Arg_Long n))) (\<lambda>_. php_inv F live me)"
    by (intro triple_if triple_pret triple_bind [OF gets_triple]) auto
qed auto

text \<open>The interrupt hook: every timer taken from the list is valid, so its callback gets a live object.\<close>

lemma dequeue_php_triple:
  "triple (php_inv F live me) (excimer_timer_pending_dequeue me)
    (\<lambda>r s. php_inv F live me s \<and> (\<forall>t n. r = Some (t, n) \<longrightarrow> is_valid (timers s t)))"
proof (rule tripleI)
  fix s r s'
  assume inv: "php_inv F live me s" and run: "excimer_timer_pending_dequeue me s = Inr (r, s')"
  have t: "timer_inv live me {..<next_object s} s' \<and> (\<forall>t n. r = Some (t, n) \<longrightarrow> t \<in> {..<next_object s} \<and> is_valid (timers s' t))"
    using tripleD(2) [OF dequeue_triple [of live me "{..<next_object s}"] _ run] inv by (simp add: inv_defs)
  then show "php_inv F live me s' \<and> (\<forall>t n. r = Some (t, n) \<longrightarrow> is_valid (timers s' t))"
    using php_inv_frame(1) [OF inv keepsD [OF keeps_dequeue run]] by blast
next
  fix s e
  assume inv: "php_inv F live me s" and "excimer_timer_pending_dequeue me s = Inl e"
  then show "\<not> memory_fault e"
    using tripleD(1) [OF dequeue_triple, of live me "{..<next_object s}" s e] by (simp add: inv_defs)
qed

lemma deliver_triple:
  assumes eng: "safe_engine live me eng"
  shows "triple (php_inv F live me) (deliver_pending (event_callback lib eng) me n) (\<lambda>_. php_inv F live me)"
proof (induction n)
  case 0
  show ?case by (simp add: triple_def)
next
  case (Suc n)
  show ?case unfolding deliver_pending.simps
  proof (rule triple_bind [OF dequeue_php_triple])
    fix r
    have call: "triple (\<lambda>s. php_inv F live me s \<and> is_valid (timers s t))
        (pbind (gets (\<lambda>st. timers st t)) (\<lambda>tm. pbind (event_callback lib eng (callback tm) k (user_data tm)) (\<lambda>_.
          deliver_pending (event_callback lib eng) me n))) (\<lambda>_. php_inv F live me)" for t k
      unfolding triple_def
    proof (intro allI impI, elim conjE)
      fix s :: "('tl, 'z) php_scheme"
      assume inv: "php_inv F live me s" and v: "is_valid (timers s t)"
      let ?tm = "timers s t"
      have own: "user_data ?tm = t" "case callback ?tm of Profiler_callback \<Rightarrow> is_profiler t s | Timer_callback \<Rightarrow> is_timer t s"
        using inv v by (simp_all add: inv_defs timer_owner_ok_def)
      have "triple (\<lambda>s. php_inv F live me s \<and> (case callback ?tm of Profiler_callback \<Rightarrow> is_profiler t s | Timer_callback \<Rightarrow> is_timer t s))
          (event_callback lib eng (callback ?tm) k t) (\<lambda>_. php_inv F live me)"
        using event_triple [OF eng] timer_event_triple [OF eng]
        by (cases "callback ?tm") (simp_all add: event_callback_def)
      from tripleD [OF triple_bind [OF this Suc.IH]] inv own
      show "case pbind (gets (\<lambda>st. timers st t)) (\<lambda>tm. pbind (event_callback lib eng (callback tm) k (user_data tm)) (\<lambda>_.
          deliver_pending (event_callback lib eng) me n)) s of
          Inl e \<Rightarrow> \<not> memory_fault e | Inr (x, s') \<Rightarrow> php_inv F live me s'"
        by (auto simp: pbind_def [of "gets f" for f] gets_def split: sum.split)
    qed
    show "triple (\<lambda>s. php_inv F live me s \<and> (\<forall>t n. r = Some (t, n) \<longrightarrow> is_valid (timers s t)))
        (case r of None \<Rightarrow> pret () | Some (t, event_count) \<Rightarrow>
          pbind (gets (\<lambda>st. timers st t)) (\<lambda>tm. pbind (event_callback lib eng (callback tm) event_count (user_data tm)) (\<lambda>_.
          deliver_pending (event_callback lib eng) me n))) (\<lambda>_. php_inv F live me)"
      by (auto split: option.split prod.split intro!: triple_pret triple_conseq [OF call])
  qed
qed

lemma interrupt_triple:
  assumes eng: "safe_engine live me eng" and hook: "\<And>h. triple (php_inv F live me) (hook h) (\<lambda>_. php_inv F live me)"
  shows "triple (php_inv F live me) (excimer_timer_interrupt (event_callback lib eng) hook me) (\<lambda>_. php_inv F live me)"
proof -
  have "triple (php_inv F live me) get_fuel (\<lambda>_. php_inv F live me)" by (simp add: triple_def get_fuel_def)
  then show ?thesis unfolding excimer_timer_interrupt_def
    by (intro triple_bind [OF _ triple_bind [OF deliver_triple [OF eng] triple_bind [OF gets_triple]]])
      (auto split: option.split intro: hook triple_pret)
qed

end

section \<open>Creating and freeing objects\<close>

text \<open>Space for an object that is not there yet.\<close>

lemma php_inv_space:
  assumes inv: "php_inv F live me s"
  shows "php_inv F live me (s\<lparr>refcount := (refcount s)(next_object s := 1), next_object := Suc (next_object s),
    timers := (timers s)(next_object s := zeroed (timers s (next_object s)))\<rparr>)" (is "php_inv _ _ _ ?s")
proof -
  have k: "holds ?s = holds s" "is_profiler a ?s = is_profiler a s" "is_timer a ?s = is_timer a s" "is_log a ?s = is_log a s" for a
    by (simp_all add: kind_defs fun_eq_iff holds_def)
  have n: "\<not> is_log (next_object s) s" using php_invD(8) [OF inv] by (simp add: is_log_def)
  have "counted F ?s l" for l
  proof (cases "l = next_object s")
    case True
    then show ?thesis using counted_none [OF inv n] n unfolding counted_def held_def k by simp
  next
    case False
    then have "counted F ?s l = counted F s l" by (intro counted_cong k) simp_all
    then show ?thesis using php_invD(3) [OF inv] by simp
  qed
  moreover have "pinned F ?s a = pinned F s a" for a
    by (rule pinned_cong) (use php_invD(8) [OF inv] in \<open>auto simp: kind_defs\<close>)
  then have "pinned F ?s a" for a using php_invD(9) [OF inv] by simp
  moreover have "heap_ok ?s" using php_invD(2) [OF inv] by (simp add: heap_ok_def)
  moreover have "\<forall>a lo. objects ?s a = Some (Obj_Log lo) \<longrightarrow> log_wf (obj_log lo)" using php_invD(6) [OF inv] by simp
  ultimately have "heap_inv F ?s" using php_invD(7) [OF inv] unfolding heap_inv_def k by blast
  moreover have "timer_owner_ok ?s a" for a
  proof (cases "a = next_object s")
    case False
    then have "timer_owner_ok ?s a = timer_owner_ok s a" by (intro timer_owner_cong k) simp
    then show ?thesis using php_invD(4) [OF inv] by simp
  qed (simp add: timer_owner_ok_def zeroed_def)
  moreover have "timer_inv live me {..<next_object ?s} ?s"
    using timer_inv_new [of live me "next_object s" s ?s] php_invD(5) [OF inv] by simp
  ultimately have "core_inv F live me ?s" by (simp add: core_inv_def)
  moreover have "log_grows s ?s" by (auto simp: log_grows_def)
  ultimately show ?thesis by (rule php_inv_grows [OF _ inv])
qed

text \<open>
  An object that no method is running on and whose timer is not in use can be taken apart: what is left is the callback
  and the storage, which are then in the hands of the running code, as is the reference of a profiler to its log.
\<close>

lemma php_inv_remove:
  assumes inv: "php_inv F live me s" and k: "holds s p l \<and> F' = one_more F (Log_ref l) \<or> is_timer p s \<and> F' = F"
    and v: "\<not> is_valid (timers s p)" and r: "refcount s p = 1"
  shows "php_inv (one_more F' (Storage p)) live me (s\<lparr>objects := (objects s)(p \<mapsto> Obj_Freeing z)\<rparr>)" (is "php_inv ?F _ _ ?s")
proof -
  have h: "holds ?s q m \<longleftrightarrow> q \<noteq> p \<and> holds s q m" for q m by (simp add: holds_def)
  have log: "is_log a ?s = is_log a s" for a using k by (auto simp: kind_defs holds_def)
  have others: "is_profiler a ?s = is_profiler a s" "is_timer a ?s = is_timer a s" if "a \<noteq> p" for a
    using that by (simp_all add: kind_defs)
  have one: "holds s p m \<Longrightarrow> holds s q m \<Longrightarrow> q = p" for m q by (rule php_invD(7) [OF inv])
  have c: "F' (Log_ref m) + held ?s m = F (Log_ref m) + held s m" for m
  proof (cases "holds s p m")
    case True
    then have "F' = one_more F (Log_ref m)" using k by (auto simp: holds_def is_timer_def)
    moreover have "held s m = 1" "held ?s m = 0" using True one by (auto simp: held_def h)
    ultimately show ?thesis by simp
  next
    case False
    then have "F' (Log_ref m) = F (Log_ref m)" using k by auto
    moreover have "held ?s m = held s m" using False by (auto simp: held_def h)
    ultimately show ?thesis by simp
  qed
  have "F' (Log_ref m) + php_refs ?s m + held ?s m = F (Log_ref m) + php_refs s m + held s m" for m using c [of m] by simp
  then have "counted ?F ?s m = counted F s m" for m by (intro counted_sum log) simp_all
  then have "counted ?F ?s m" for m using php_invD(3) [OF inv] by simp
  moreover have "pinned ?F ?s a" for a
  proof (cases "a = p")
    case True
    have "F (Profiler_ref p) = 0 \<and> F (Timer_ref p) = 0 \<and> F (Storage p) = 0" using php_invD(9) [OF inv, of p] k r
      by (auto simp: pinned_def kind_defs holds_def split: if_splits)
    then show ?thesis using True k by (auto simp: pinned_def kind_defs)
  next
    case False
    then have "pinned ?F ?s a = pinned F s a" using k by (intro pinned_cong) (auto simp: kind_defs)
    then show ?thesis using php_invD(9) [OF inv] by simp
  qed
  moreover have "heap_ok ?s" using php_invD(2) [OF inv] k by (auto simp: heap_ok_def holds_def is_timer_def)
  moreover have "\<forall>a lo. objects ?s a = Some (Obj_Log lo) \<longrightarrow> log_wf (obj_log lo)" using php_invD(6) [OF inv] by simp
  ultimately have "heap_inv ?F ?s" using php_invD(7) [OF inv] unfolding heap_inv_def h by blast
  moreover have "timer_owner_ok ?s a" for a
  proof (cases "a = p")
    case False
    then have "timer_owner_ok ?s a = timer_owner_ok s a" by (intro timer_owner_cong others) simp_all
    then show ?thesis using php_invD(4) [OF inv] by simp
  qed (use v in \<open>simp add: timer_owner_ok_def\<close>)
  moreover have "timer_inv live me {..<next_object ?s} ?s"
    by (rule timer_inv_cong [THEN iffD2, of _ s]) (use php_invD(5) [OF inv] in simp_all)
  ultimately have "core_inv ?F live me ?s" by (simp add: core_inv_def)
  moreover have "log_grows s ?s" by (auto simp: log_grows_def split: if_splits)
  ultimately show ?thesis by (rule php_inv_grows [OF _ inv])
qed

text \<open>At the end the storage goes.\<close>

lemma php_inv_gone:
  assumes inv: "php_inv (one_more F (Storage p)) live me s"
  shows "php_inv F live me (s\<lparr>objects := (objects s)(p := None)\<rparr>)" (is "php_inv _ _ _ ?s")
proof -
  have p: "F (Storage p) = 0" "is_freeing p s" using php_invD(9) [OF inv, of p] by (auto simp: pinned_def split: if_splits)
  have h: "holds ?s = holds s" and k: "is_log a ?s = is_log a s" "is_profiler a ?s = is_profiler a s" "is_timer a ?s = is_timer a s" for a
    using p(2) by (auto simp: kind_defs holds_def fun_eq_iff)
  have "counted F ?s m = counted (one_more F (Storage p)) s m" for m by (intro counted_sum k) (simp_all add: held_def h)
  then have "counted F ?s m" for m using php_invD(3) [OF inv] by simp
  moreover have "pinned F ?s a" for a
  proof (cases "a = p")
    case True
    then show ?thesis using php_invD(9) [OF inv, of p] p by (auto simp: pinned_def kind_defs)
  next
    case False
    then have "pinned F ?s a = pinned (one_more F (Storage p)) s a" by (intro pinned_cong k) (simp_all add: kind_defs)
    then show ?thesis using php_invD(9) [OF inv] by simp
  qed
  moreover have "heap_ok ?s" using php_invD(2) [OF inv] by (simp add: heap_ok_def)
  moreover have "\<forall>a lo. objects ?s a = Some (Obj_Log lo) \<longrightarrow> log_wf (obj_log lo)" using php_invD(6) [OF inv] by simp
  ultimately have "heap_inv F ?s" using php_invD(7) [OF inv] unfolding heap_inv_def h by blast
  moreover have "timer_owner_ok ?s a = timer_owner_ok s a" for a by (intro timer_owner_cong k) simp
  then have "timer_owner_ok ?s a" for a using php_invD(4) [OF inv] by simp
  moreover have "timer_inv live me {..<next_object ?s} ?s"
    by (rule timer_inv_cong [THEN iffD2, of _ s]) (use php_invD(5) [OF inv] in simp_all)
  ultimately have "core_inv F live me ?s" by (simp add: core_inv_def)
  moreover have "log_grows s ?s" by (auto simp: log_grows_def split: if_splits)
  ultimately show ?thesis by (rule php_inv_grows [OF _ inv])
qed

context profiler_backend
begin

lemma new_run:
  obtains s' pr lo where "ExcimerProfiler_new lib eng d rnd s = Inr (next_object s, s')" "pr_z_log pr = Suc (next_object s)"
    "log_wf (obj_log lo)" "objects s' = (objects s)(next_object s \<mapsto> Obj_Profiler pr, Suc (next_object s) \<mapsto> Obj_Log lo)"
    "refcount s' = (refcount s)(next_object s := 1, Suc (next_object s) := 1)" "next_object s' = Suc (Suc (next_object s))"
    "timers s' = (timers s)(next_object s := zeroed (timers s (next_object s)),
       Suc (next_object s) := zeroed (timers s (Suc (next_object s))))" "tls_of s' = tls_of s"
    "php_refs s' = php_refs s" "ents s' = ents s"
proof -
  let ?s1 = "with_object (Obj_Profiler zero_profiler) s"
  obtain ok ts s2 where clk: "tl_clock_get_time lib TIMERLIB_REAL ?s1 = Inr ((ok, ts), s2)" "os_frame ?s1 s2" by (rule clock_run)
  note f = os_frame_php [OF clk(2)] and ft = os_frame_timers [OF clk(2)]
  let ?per = "fp_round eng (1 / 10)"
  let ?pr = "zero_profiler\<lparr>pr_z_log := Suc (next_object s), pr_z_callback := Z_NULL, pr_event_type := EXCIMER_REAL, pr_need_reinit := True,
       pr_initial := timerlib_timespec_from_double (fp_round eng) (staggered eng rnd ?per),
       pr_period := timerlib_timespec_from_double (fp_round eng) ?per\<rparr>"
  let ?lg = "(obj_log (ExcimerLog_new zero_log))\<lparr>max_depth := d, epoch := timerlib_timespec_to_ns ts, period := period_ns eng ?per\<rparr>"
  let ?lo = "(ExcimerLog_new zero_log)\<lparr>obj_log := ?lg\<rparr>"
  have "log_wf ?lg" by (intro log_wf_options new_log_wf)
  moreover obtain s' where "ExcimerProfiler_new lib eng d rnd s = Inr (next_object s, s')"
    "objects s' = (objects s)(next_object s \<mapsto> Obj_Profiler ?pr, Suc (next_object s) \<mapsto> Obj_Log ?lo)"
    "refcount s' = (refcount s)(next_object s := 1, Suc (next_object s) := 1)" "next_object s' = Suc (Suc (next_object s))"
    "timers s' = (timers s)(next_object s := zeroed (timers s (next_object s)),
       Suc (next_object s) := zeroed (timers s (Suc (next_object s))))" "tls_of s' = tls_of s" "php_refs s' = php_refs s"
    "ents s' = ents s"
    using clk(1) f ft
    by (auto simp: ExcimerProfiler_new_def alloc_run pbind_def set_profiler_def set_log_def check_object_def put_object_def
        modify_def Let_def ExcimerLog_new_def fun_eq_iff)
  ultimately show thesis using that [of s' ?pr ?lo] by simp
qed

lemma new_triple: "triple (php_inv F live me) (ExcimerProfiler_new lib eng d rnd) (\<lambda>_. php_inv F live me)"
  unfolding triple_def
proof (intro allI impI)
  fix s :: "('tl, 'z) php_scheme"
  assume inv: "php_inv F live me s"
  let ?n = "next_object s"
  obtain s' pr lo where r: "ExcimerProfiler_new lib eng d rnd s = Inr (?n, s')" "pr_z_log pr = Suc ?n"
    "log_wf (obj_log lo)" "objects s' = (objects s)(?n \<mapsto> Obj_Profiler pr, Suc ?n \<mapsto> Obj_Log lo)"
    "refcount s' = (refcount s)(?n := 1, Suc ?n := 1)" "next_object s' = Suc (Suc ?n)"
    "timers s' = (timers s)(?n := zeroed (timers s ?n), Suc ?n := zeroed (timers s (Suc ?n)))" "tls_of s' = tls_of s"
    "php_refs s' = php_refs s" "ents s' = ents s"
    by (rule new_run)
  let ?a = "s\<lparr>refcount := (refcount s)(?n := 1), next_object := Suc ?n, timers := (timers s)(?n := zeroed (timers s ?n))\<rparr>"
  let ?b = "with_object (Obj_Log lo) ?a"
  let ?c = "?b\<lparr>objects := (objects ?b)(?n \<mapsto> Obj_Profiler pr)\<rparr>"
  have none: "objects s ?n = None" by (rule php_invD(8) [OF inv])
  have a: "php_inv F live me ?a" by (rule php_inv_space [OF inv])
  have b: "php_inv (one_more F (Log_ref (Suc ?n))) live me ?b" by (rule php_inv_new [OF a]) (use r(3) in simp)
  have unowned: "\<not> holds ?b q (Suc ?n)" for q
  proof -
    have "\<not> is_log (Suc ?n) ?a" using php_invD(8) [OF a] by (simp add: is_log_def)
    then have "\<not> holds ?a q (Suc ?n)" by (rule counted_none(3) [OF a])
    then show ?thesis by (auto simp: holds_def)
  qed
  have "php_inv F live me ?c"
    by (rule php_inv_own [OF b unowned]) (use none r(2) in \<open>simp_all add: is_log_def zeroed_def\<close>)
  moreover have "php_inv F live me s' = php_inv F live me ?c"
    by (rule php_inv_cong) (simp_all add: r fun_eq_iff)
  ultimately show "case ExcimerProfiler_new lib eng d rnd s of Inl e \<Rightarrow> \<not> memory_fault e | Inr (x, s') \<Rightarrow> php_inv F live me s'"
    using r(1) by simp
qed

end

end
