(* ===== verification/Entry_Safety.thy ===== *)
theory Entry_Safety
  imports Php_Safety
begin

text \<open>
  Operations on entries and iterators keep the invariant and make no memory error: the log of a live entry
  is alive and has the element the entry stands for, and what a log or an iterator caches is alive.
\<close>

section \<open>Steps on the entry heap\<close>

lemma triple_runI: "(\<And>s. P s \<Longrightarrow> \<exists>x s'. m s = Inr (x, s') \<and> Q x s') \<Longrightarrow> triple P m Q"
  by (fastforce simp: triple_def)

lemma pbind_assoc: "pbind (pbind m f) g = pbind m (\<lambda>x. pbind (f x) g)"
  by (auto simp: fun_eq_iff pbind_def rbind_def split: sum.split prod.split)

lemma ents_okD:
  assumes "ents_ok G h"
  shows "next_entry h \<le> e \<Longrightarrow> entry_objs h e = None" "next_iterator h \<le> i \<Longrightarrow> log_iterators h i = None"
    "cached h k = Some e \<Longrightarrow> cached h k' = Some e \<Longrightarrow> k' = k" "entry_counted G h e"
    "log_current h l = Some e \<Longrightarrow> entry_objs h e = Some eo \<Longrightarrow> en_z_log eo = Some l"
  using assms unfolding ents_ok_def by blast+

lemma entry_none:
  assumes "ents_ok G h" "entry_objs h e = None"
  shows "G e = 0" "entry_vars h e = 0" "cached h k \<noteq> Some e"
  using ents_okD(4) [OF assms(1), of e] assms(2) by (auto simp: entry_counted_def cache_ref_def split: if_splits)

lemma cache_ref_iff: "0 < cache_ref h e \<longleftrightarrow> (\<exists>k. cached h k = Some e)" "cache_ref h e \<le> 1"
  by (simp_all add: cache_ref_def)

lemma entry_alive:
  assumes "ents_ok G h" "0 < G e \<or> 0 < entry_vars h e \<or> cached h k = Some e"
  obtains eo where "entry_objs h e = Some eo"
  using entry_none [OF assms(1), of e] assms(2) by (cases "entry_objs h e") auto

lemma cached_sel:
  "cached (h\<lparr>entry_objs := x\<rparr>) = cached h" "cached (h\<lparr>entry_count := c\<rparr>) = cached h" "cached (h\<lparr>entry_vars := v\<rparr>) = cached h"
  "cached (h\<lparr>next_entry := n\<rparr>) = cached h" "cached (h\<lparr>next_iterator := n\<rparr>) = cached h"
  by (auto simp: fun_eq_iff cached_def split: sum.split option.split)

lemma ents_new:
  assumes ok: "ents_ok G h" and e: "e = next_entry h"
  shows "ents_ok (one_more G e) (h\<lparr>entry_objs := (entry_objs h)(e \<mapsto> eo), entry_count := (entry_count h)(e := 1), next_entry := Suc e\<rparr>)"
    (is "ents_ok _ ?h")
proof -
  have none: "entry_objs h e = None" using ents_okD(1) [OF ok, of e] e by simp
  note z = entry_none [OF ok none]
  have c: "cached ?h = cached h" "cache_ref ?h = cache_ref h" by (simp_all add: cached_sel cache_ref_def fun_eq_iff)
  have "entry_counted (one_more G e) ?h x" for x
    using ents_okD(4) [OF ok, of x] z cache_ref_iff [of h e] unfolding entry_counted_def c Let_def by (cases "x = e") (auto split: if_splits)
  moreover have "log_current ?h l \<noteq> Some e" for l using z(3) [of "Inl l"] by (simp add: cached_def)
  ultimately show ?thesis using ok e unfolding ents_ok_def c by auto
qed

lemma ents_recount:
  assumes ok: "ents_ok G h" and f: "\<And>x. x \<noteq> e \<Longrightarrow> G' x = G x \<and> c x = entry_count h x \<and> v x = entry_vars h x"
    and e: "entry_objs h e \<noteq> None" "c e + G e + entry_vars h e = entry_count h e + G' e + v e" "0 < c e"
  shows "ents_ok G' (h\<lparr>entry_count := c, entry_vars := v\<rparr>)" (is "ents_ok _ ?h")
proof -
  have ch: "cached ?h = cached h" "cache_ref ?h = cache_ref h" by (simp_all add: cached_sel cache_ref_def fun_eq_iff)
  have "entry_counted G' ?h x" for x
    using ents_okD(4) [OF ok, of x] f [of x] e unfolding entry_counted_def ch Let_def by (cases "x = e") auto
  then show ?thesis using ok unfolding ents_ok_def ch by auto
qed

lemma ents_cache:
  assumes ok: "ents_ok (one_more G e) h" and k: "cached h k = None" "cached h' = (cached h)(k := Some e)"
    and same: "entry_objs h' = entry_objs h" "entry_count h' = entry_count h" "entry_vars h' = entry_vars h" "next_entry h' = next_entry h"
    and it: "\<And>i. next_iterator h' \<le> i \<Longrightarrow> log_iterators h' i = None"
    and log: "\<And>l eo. k = Inl l \<Longrightarrow> entry_objs h e = Some eo \<Longrightarrow> en_z_log eo = Some l"
    and fresh: "\<And>k'. cached h k' \<noteq> Some e"
  shows "ents_ok G h'"
proof -
  have cur: "log_current h' l = (if k = Inl l then Some e else log_current h l)" for l
    using fun_cong [OF k(2), of "Inl l"] by (auto simp: cached_def split: if_splits)
  have "(\<exists>k'. cached h' k' = Some x) \<longleftrightarrow> x = e \<or> (\<exists>k'. cached h k' = Some x)" for x
    using k(1) unfolding k(2) by (auto simp: fun_upd_apply, metis option.distinct(1))
  then have ex: "cache_ref h' x = (if x = e then 1 else cache_ref h x)" for x by (simp add: cache_ref_def)
  have e0: "cache_ref h e = 0" using fresh by (simp add: cache_ref_def)
  have "entry_counted G h' x" for x
    using ents_okD(4) [OF ok, of x] e0 unfolding entry_counted_def same ex Let_def by (cases "x = e") (auto split: if_splits)
  moreover have "k2 = k1" if "cached h' k1 = Some x" "cached h' k2 = Some x" for k1 k2 x
    using that ents_okD(3) [OF ok] fresh unfolding k(2) by (auto simp: fun_upd_apply split: if_splits)
  ultimately show ?thesis using ok log it unfolding ents_ok_def same cur by (auto split: if_splits)
qed

lemma ents_uncache:
  assumes ok: "ents_ok G h" and k: "cached h k = Some e" "cached h' = (cached h)(k := None)"
    and same: "entry_objs h' = entry_objs h" "entry_count h' = entry_count h" "entry_vars h' = entry_vars h" "next_entry h' = next_entry h"
    and it: "\<And>i. next_iterator h' \<le> i \<Longrightarrow> log_iterators h' i = None"
  shows "ents_ok (one_more G e) h'"
proof -
  have cur: "log_current h' l = (if k = Inl l then None else log_current h l)" for l
    using fun_cong [OF k(2), of "Inl l"] by (auto simp: cached_def split: if_splits)
  have one: "cached h k' = Some e \<longleftrightarrow> k' = k" for k' using ents_okD(3) [OF ok k(1)] k(1) by blast
  have "(\<exists>k'. cached h' k' = Some x) \<longleftrightarrow> x \<noteq> e \<and> (\<exists>k'. cached h k' = Some x)" for x
    unfolding k(2) fun_upd_apply by (metis one option.distinct(1) k(1) option.inject)
  then have ex: "cache_ref h' x = (if x = e then 0 else cache_ref h x)" for x by (simp add: cache_ref_def)
  have e1: "cache_ref h e = 1" using k(1) by (auto simp: cache_ref_def)
  have "entry_counted (one_more G e) h' x" for x
    using ents_okD(4) [OF ok, of x] e1 unfolding entry_counted_def same ex Let_def by (cases "x = e") (auto split: if_splits)
  moreover have "k2 = k1" if "cached h' k1 = Some x" "cached h' k2 = Some x" for k1 k2 x
    using that ents_okD(3) [OF ok] unfolding k(2) by (auto simp: fun_upd_apply split: if_splits)
  ultimately show ?thesis using ok it unfolding ents_ok_def same cur by (auto split: if_splits)
qed

lemma ents_remove:
  assumes ok: "ents_ok (one_more G e) h" and e: "entry_count h e = 1"
  shows "ents_ok G (h\<lparr>entry_objs := (entry_objs h)(e := None), entry_count := (entry_count h)(e := 0)\<rparr>)" (is "ents_ok _ ?h")
proof -
  have c: "cached ?h = cached h" "cache_ref ?h = cache_ref h" by (simp_all add: cached_sel cache_ref_def fun_eq_iff)
  have "entry_objs h e \<noteq> None" using entry_none(1) [OF ok, of e] by auto
  then have z: "G e = 0" "entry_vars h e = 0" "\<And>k. cached h k \<noteq> Some e"
    using ents_okD(4) [OF ok, of e] e cache_ref_iff(1) [of h e] by (auto simp: entry_counted_def Let_def split: if_splits)
  have "entry_counted G ?h x" for x
    using ents_okD(4) [OF ok, of x] z cache_ref_iff [of h e] unfolding entry_counted_def c Let_def by (cases "x = e") (auto split: if_splits)
  then show ?thesis using ok unfolding ents_ok_def c by auto
qed

lemma ents_same:
  assumes ok: "ents_ok G h" and c: "cached h' = cached h"
    and same: "entry_objs h' = entry_objs h" "entry_count h' = entry_count h" "entry_vars h' = entry_vars h" "next_entry h' = next_entry h"
    and it: "\<And>i. next_iterator h' \<le> i \<Longrightarrow> log_iterators h' i = None"
  shows "ents_ok G h'"
proof -
  have "log_current h' l = log_current h l" for l using fun_cong [OF c, of "Inl l"] by (simp add: cached_def)
  then show ?thesis using ok it unfolding ents_ok_def entry_counted_def cache_ref_def same c by auto
qed

section \<open>Entries and the rest of the state\<close>

lemma core_inv_ents [simp]: "core_inv F live me (s\<lparr>ents := h\<rparr>) = core_inv F live me s"
  by (rule core_inv_cong) simp_all

lemma ent_inv_ents: "ent_inv G (s\<lparr>ents := h\<rparr>) \<longleftrightarrow> ents_ok G h \<and> (\<forall>l. entry_log_refs h l \<le> php_refs s l) \<and>
    (\<forall>e eo. entry_objs h e = Some eo \<longrightarrow> entry_at s eo)"
  by (simp add: ent_inv_def entry_at_def)

lemma ent_invD:
  assumes "ent_inv G s"
  shows "ents_ok G (ents s)" "entry_log_refs (ents s) l \<le> php_refs s l" "entry_objs (ents s) e = Some eo \<Longrightarrow> entry_at s eo"
  using assms by (auto simp: ent_inv_def)

text \<open>Entries and iterators counted by log, when one is made, changed or removed.\<close>

lemma entry_log_refs_upd:
  assumes "ents_ok G h"
  shows "entry_log_refs (h\<lparr>entry_objs := (entry_objs h)(next_entry h \<mapsto> eo)\<rparr>) l =
      entry_log_refs h l + (if en_z_log eo = Some l then 1 else 0)"
    and "entry_objs h e = Some eo' \<Longrightarrow> entry_log_refs h l =
      entry_log_refs (h\<lparr>entry_objs := (entry_objs h)(e := None)\<rparr>) l + (if en_z_log eo' = Some l then 1 else 0)"
    and "entry_log_refs (h\<lparr>log_iterators := (log_iterators h)(next_iterator h \<mapsto> it)\<rparr>) l =
      entry_log_refs h l + (if io_log it = l then 1 else 0)"
    and "log_iterators h i = Some it' \<Longrightarrow> entry_log_refs h l =
      entry_log_refs (h\<lparr>log_iterators := (log_iterators h)(i := None)\<rparr>) l + (if io_log it' = l then 1 else 0)"
    and "log_iterators h i = Some it' \<Longrightarrow> io_log it = io_log it' \<Longrightarrow>
      entry_log_refs (h\<lparr>log_iterators := (log_iterators h)(i \<mapsto> it)\<rparr>) l = entry_log_refs h l"
  using live_count_new [OF ents_okD(1) [OF assms]] live_count_new [OF ents_okD(2) [OF assms]]
    live_count_remove [OF ents_okD(1) [OF assms]] live_count_remove [OF ents_okD(2) [OF assms]]
    live_count_same [of "log_iterators h" i it' "\<lambda>it. io_log it = l" it]
  by (simp_all add: entry_log_refs_def)

lemma entry_log_refs_sel [simp]:
  "entry_log_refs (h\<lparr>entry_count := c\<rparr>) = entry_log_refs h" "entry_log_refs (h\<lparr>entry_vars := v\<rparr>) = entry_log_refs h"
  "entry_log_refs (h\<lparr>next_entry := n\<rparr>) = entry_log_refs h" "entry_log_refs (h\<lparr>next_iterator := n\<rparr>) = entry_log_refs h"
  "entry_log_refs (log_current_update g h) = entry_log_refs h"
  by (simp_all add: entry_log_refs_def fun_eq_iff)

text \<open>The log of a live entry or iterator is alive.\<close>

lemma referenced_log:
  assumes core: "core_inv F live me s" and inv: "ent_inv G s"
    and ref: "entry_objs (ents s) e = Some eo \<and> en_z_log eo = Some l \<or> log_iterators (ents s) i = Some it \<and> io_log it = l"
  shows "0 < entry_log_refs (ents s) l" "0 < php_refs s l" "is_log l s"
proof -
  note ok = ent_invD(1) [OF inv]
  show p: "0 < entry_log_refs (ents s) l"
    using ref entry_log_refs_upd(2) [OF ok, of e eo l] entry_log_refs_upd(4) [OF ok, of i it l] by auto
  then show q: "0 < php_refs s l" using ent_invD(2) [OF inv, of l] by simp
  then show "is_log l s" using core_none(2) [OF core, of l] by auto
qed

section \<open>Making an entry\<close>

text \<open>The state after \<^verbatim>\<open>ExcimerLog_init_entry\<close> made the entry for an element of the log.\<close>

definition with_entry_obj :: "addr \<Rightarrow> zend_long \<Rightarrow> ('tl, 'z) php_scheme \<Rightarrow> ('tl, 'z) php_scheme" where
  "with_entry_obj l index s = s\<lparr>refcount := (refcount s)(l := Suc (refcount s l)), php_refs := (php_refs s)(l := Suc (php_refs s l)),
     ents := (ents s)\<lparr>entry_objs := (entry_objs (ents s))(next_entry (ents s) \<mapsto> \<lparr>en_z_log = Some l, en_index = index\<rparr>),
       entry_count := (entry_count (ents s))(next_entry (ents s) := 1), next_entry := Suc (next_entry (ents s))\<rparr>\<rparr>"

lemma init_entry_run:
  assumes "objects s l = Some (Obj_Log lo)"
  shows "ExcimerLog_init_entry_obj l index s = (if excimer_log_get_entry (obj_log lo) index = None then Inr (None, s)
    else Inr (Some (next_entry (ents s)), with_entry_obj l index s))"
  using assms by (auto simp: ExcimerLog_init_entry_obj_def pbind_def check_object_def ExcimerLogEntry_new_def gets_def upd_ents_def modify_def
    addref_def hand_over_def set_entry_def get_entry_def with_entry_obj_def split: option.splits)

lemma core_new_ref:
  assumes "core_inv F live me s" "is_log l s"
  shows "core_inv F live me (s\<lparr>refcount := (refcount s)(l := Suc (refcount s l)), php_refs := (php_refs s)(l := Suc (php_refs s l))\<rparr>)"
  using core_hand_over [OF core_addref [OF assms]] by simp

lemma with_entry_obj_inv:
  assumes core: "core_inv F live me s" and inv: "ent_inv G s"
    and l: "objects s l = Some (Obj_Log lo)" "excimer_log_get_entry (obj_log lo) index \<noteq> None"
  shows "core_inv F live me (with_entry_obj l index s)" "ent_inv (one_more G (next_entry (ents s))) (with_entry_obj l index s)"
proof -
  have log: "is_log l s" using l by (simp add: is_log_def)
  show "core_inv F live me (with_entry_obj l index s)"
    using core_inv_ents [THEN iffD2, OF core_new_ref [OF core log]] by (simp add: with_entry_obj_def)
  note ok = ent_invD(1) [OF inv]
  let ?h = "ents (with_entry_obj l index s)"
  let ?s = "s\<lparr>refcount := (refcount s)(l := Suc (refcount s l)), php_refs := (php_refs s)(l := Suc (php_refs s l))\<rparr>"
  have wf: "log_wf (obj_log lo)" using core_invD(6) [OF core l(1)] .
  have idx: "unat index < length (entries (obj_log lo))"
    using l(2) wf entries_size_eq(1) [of "obj_log lo" index] by (auto simp: log_wf_def excimer_log_get_entry_def split: if_splits)
  have below: "l < next_object s" using core_invD(2) [OF core] l(1) unfolding heap_ok_def by (metis leI option.distinct(1))
  have "ents_ok (one_more G (next_entry (ents s))) ?h" using ents_new [OF ok refl] by (simp add: with_entry_obj_def)
  moreover have "entry_log_refs ?h x \<le> php_refs ?s x" for x
    using ent_invD(2) [OF inv, of x] entry_log_refs_upd(1) [OF ok, of "\<lparr>en_z_log = Some l, en_index = index\<rparr>" x]
    by (auto simp: with_entry_obj_def)
  moreover have "entry_at ?s eo" if "entry_objs ?h e = Some eo" for e eo
    using that ent_invD(3) [OF inv, of e eo] idx below l(1) by (auto simp: with_entry_obj_def entry_at_def split: if_splits)
  ultimately have "ent_inv (one_more G (next_entry (ents s))) (?s\<lparr>ents := ?h\<rparr>)" unfolding ent_inv_ents by blast
  then show "ent_inv (one_more G (next_entry (ents s))) (with_entry_obj l index s)" by (simp add: with_entry_obj_def)
qed

section \<open>Dropping an entry\<close>

text \<open>Releasing an entry changes neither what is cached nor how many more references to a log there are than entries and iterators hold.\<close>

definition balanced :: "('tl, 'z) php_scheme \<Rightarrow> ('tl, 'z) php_scheme \<Rightarrow> bool" where
  "balanced s s' \<longleftrightarrow> log_current (ents s') = log_current (ents s) \<and> log_iterators (ents s') = log_iterators (ents s) \<and>
     (\<forall>l. php_refs s' l + entry_log_refs (ents s) l = php_refs s l + entry_log_refs (ents s') l)"

lemma release_entry_inv:
  assumes core: "core_inv F live me s" and inv: "ent_inv (one_more G e) s"
  obtains s' where "release_entry e s = Inr ((), s')" "core_inv F live me s'" "ent_inv G s'" "balanced s s'"
proof -
  note ok = ent_invD(1) [OF inv]
  obtain eo where eo: "entry_objs (ents s) e = Some eo" by (rule entry_alive [OF ok, of e]) auto
  obtain l where l: "en_z_log eo = Some l" using ent_invD(3) [OF inv eo] by (auto simp: entry_at_def)
  have c: "entry_count (ents s) e = Suc (G e) + entry_vars (ents s) e + cache_ref (ents s) e"
    using ents_okD(4) [OF ok, of e] eo by (simp add: entry_counted_def)
  let ?cnt = "(entry_count (ents s))(e := entry_count (ents s) e - 1)"
  show thesis
  proof (cases "entry_count (ents s) e = 1")
    case False
    let ?s = "s\<lparr>ents := (ents s)\<lparr>entry_count := ?cnt\<rparr>\<rparr>"
    have "release_entry e s = Inr ((), ?s)" using eo c False
      by (auto simp: release_entry_def pbind_def get_entry_def entry_delref_def upd_ents_def modify_def gets_def)
    moreover have "ents_ok G ((ents s)\<lparr>entry_count := ?cnt\<rparr>)"
      using ents_recount [OF ok, of e G ?cnt "entry_vars (ents s)"] eo c False by simp
    then have "ent_inv G ?s" using inv unfolding ent_inv_ents by (simp add: ent_inv_def)
    moreover have "balanced s ?s" by (simp add: balanced_def)
    ultimately show thesis using that core by simp
  next
    case True
    let ?h = "(ents s)\<lparr>entry_objs := (entry_objs (ents s))(e := None), entry_count := (entry_count (ents s))(e := 0)\<rparr>"
    let ?s1 = "s\<lparr>php_refs := (php_refs s)(l := php_refs s l - 1)\<rparr>"
    have ref: "0 < entry_log_refs (ents s) l" "0 < php_refs s l" "is_log l s"
      using referenced_log [OF core inv disjI1 [OF conjI [OF eo l]]] by blast+
    have refs: "entry_log_refs (ents s) x = entry_log_refs ?h x + (if x = l then 1 else 0)" for x
      using entry_log_refs_upd(2) [OF ok eo, of x] l by simp
    have i1: "core_inv (one_more F (Log_ref l)) live me ?s1" by (rule core_take_back [OF core ref(2)])
    obtain s2 where s2: "release_log l ?s1 = Inr ((), s2)" "core_inv F live me s2" "log_grows ?s1 s2" by (rule core_release [OF i1])
    obtain lo where lo': "objects ?s1 l = Some (Obj_Log lo)" "refcount ?s1 l = Suc (F (Log_ref l)) + php_refs ?s1 l + held ?s1 l"
      by (rule core_one_more [OF i1])
    have "0 < refcount ?s1 l" using lo'(2) by simp
    note lo = lo'(1) this
    have s2_eq: "s2 = ?s1\<lparr>refcount := (refcount ?s1)(l := refcount ?s1 l - 1),
        objects := (if refcount ?s1 l = 1 then (objects ?s1)(l := None) else objects ?s1)\<rparr>"
      using release_log_run [OF lo] s2(1) by simp
    have run: "release_entry e s = Inr ((), s2\<lparr>ents := ?h\<rparr>)"
      using eo l True lo unfolding s2_eq
      by (simp add: release_entry_def pbind_def get_entry_def entry_delref_def upd_ents_def modify_def gets_def ExcimerLogEntry_free_object_def
        take_back_def set_entry_def free_entry_def release_log_def check_object_def delref_def free_storage_def)
    have "ent_inv G (?s1\<lparr>ents := ?h\<rparr>)" unfolding ent_inv_ents
    proof (intro conjI allI impI)
      show "ents_ok G ?h" by (rule ents_remove [OF ok True])
      show "entry_log_refs ?h x \<le> php_refs ?s1 x" for x using refs [of x] ent_invD(2) [OF inv, of x] by (simp split: if_splits)
      show "entry_at ?s1 x" if "entry_objs ?h a = Some x" for a x
        using that ent_invD(3) [OF inv, of a x] by (auto simp: entry_at_def split: if_splits)
    qed
    moreover have "log_grows (?s1\<lparr>ents := ?h\<rparr>) (s2\<lparr>ents := ?h\<rparr>)" using s2(3) by (simp add: log_grows_def)
    ultimately have "ent_inv G (s2\<lparr>ents := ?h\<rparr>)" by (rule ent_inv_grows)
    moreover have "balanced s (s2\<lparr>ents := ?h\<rparr>)" using refs ref(2) unfolding s2_eq by (simp add: balanced_def)
    ultimately show thesis using that run s2(2) by simp
  qed
qed

text \<open>
  The source releases a cached entry first and then clears the field. It does not matter: releasing reads no cache.
\<close>

lemma release_entry_cache:
  "release_entry e (ents_update (log_current_update g) s) = map_sum id (map_prod id (ents_update (log_current_update g))) (release_entry e s)"
  "release_entry e (ents_update (log_iterators_update k) s) = map_sum id (map_prod id (ents_update (log_iterators_update k))) (release_entry e s)"
  by (auto simp: release_entry_def pbind_def get_entry_def entry_delref_def upd_ents_def modify_def gets_def ExcimerLogEntry_free_object_def
    take_back_def set_entry_def free_entry_def release_log_def check_object_def delref_def free_storage_def split: option.splits)

lemma release_entry_iterators: "release_entry e s = Inr (x, s') \<Longrightarrow> log_iterators (ents s') = log_iterators (ents s)"
  by (auto simp: release_entry_def pbind_def get_entry_def entry_delref_def upd_ents_def modify_def gets_def ExcimerLogEntry_free_object_def
    take_back_def set_entry_def free_entry_def release_log_def check_object_def delref_def free_storage_def rbind_Inr_iff
    split: option.splits if_splits php_object.splits)

lemma clear_log_current:
  assumes core: "core_inv F live me s" and inv: "ent_inv G s" and l: "is_log l s" "entry_log_refs (ents s) l < php_refs s l"
  obtains s' where "pbind (release_current (log_current (ents s) l)) (\<lambda>_. set_current l None) s = Inr ((), s')"
    "core_inv F live me s'" "ent_inv G s'" "entry_log_refs (ents s') l < php_refs s' l" "log_current (ents s') l = None"
proof (cases "log_current (ents s) l")
  case None
  let ?s = "s\<lparr>ents := (ents s)\<lparr>log_current := (log_current (ents s))(l := None)\<rparr>\<rparr>"
  have same: "?s = s" using None by (simp add: fun_upd_idem)
  have "set_current l None s = Inr ((), s)"
    using l(1) None by (auto simp: is_log_def set_current_def pbind_def check_object_def upd_ents_def modify_def fun_upd_idem)
  then show thesis using that [of s] None core inv l by (simp add: release_current_def pbind_def)
next
  case (Some e)
  note ok = ent_invD(1) [OF inv]
  let ?g = "\<lambda>c. c(l := None)"
  let ?h = "(ents s)\<lparr>log_current := ?g (log_current (ents s))\<rparr>"
  let ?s = "ents_update (log_current_update ?g) s"
  have s_eq: "?s = s\<lparr>ents := ?h\<rparr>" by simp
  have k: "cached (ents s) (Inl l) = Some e" "cached ?h = (cached (ents s))(Inl l := None)"
    using Some by (auto simp: cached_def fun_eq_iff split: sum.split)
  have "ents_ok (one_more G e) ?h" by (rule ents_uncache [OF ok k]) (use ents_okD(2) [OF ok] in simp_all)
  then have e1: "ent_inv (one_more G e) ?s" using inv unfolding s_eq ent_inv_ents by (simp add: ent_inv_def)
  have "core_inv F live me ?s" unfolding s_eq using core by simp
  then obtain s' where s': "release_entry e ?s = Inr ((), s')" "core_inv F live me s'" "ent_inv G s'" "balanced ?s s'"
    by (rule release_entry_inv [OF _ e1])
  obtain s1 where s1: "release_entry e s = Inr ((), s1)" "s' = ents_update (log_current_update ?g) s1"
    using s'(1) unfolding release_entry_cache by (cases "release_entry e s") auto
  have b: "php_refs s' l + entry_log_refs (ents s) l = php_refs s l + entry_log_refs (ents s') l"
    using s'(4) by (simp add: balanced_def)
  have v: "entry_log_refs (ents s') l < php_refs s' l" using b l(2) by simp
  have "is_log l s'" using core_none(2) [OF s'(2), of l] v by auto
  then have "set_current l None s1 = Inr ((), s')"
    unfolding s1(2) by (auto simp: is_log_def set_current_def pbind_def check_object_def upd_ents_def modify_def)
  then have "pbind (release_current (log_current (ents s) l)) (\<lambda>_. set_current l None) s = Inr ((), s')"
    using s1(1) Some by (simp add: release_current_def pbind_def)
  moreover have "log_current (ents s') l = None" using s1(2) by simp
  ultimately show thesis using that s'(2,3) v by blast
qed

lemma clear_iterator_current:
  assumes core: "core_inv F live me s" and inv: "ent_inv G s" and i: "log_iterators (ents s) i = Some it"
  obtains s' where "pbind (release_current (io_current it)) (\<lambda>_. set_iterator i (io_current_update (\<lambda>_. None))) s = Inr ((), s')"
    "core_inv F live me s'" "ent_inv G s'" "log_iterators (ents s') i = Some (it\<lparr>io_current := None\<rparr>)"
proof (cases "io_current it")
  case None
  have it: "it\<lparr>io_current := None\<rparr> = it" using None by simp
  have "set_iterator i (io_current_update (\<lambda>_. None)) s = Inr ((), s)"
    using i it by (auto simp: set_iterator_def pbind_def get_iterator_def upd_ents_def modify_def fun_upd_idem)
  then show thesis using that [of s] None core inv i it by (simp add: release_current_def pbind_def)
next
  case (Some e)
  note ok = ent_invD(1) [OF inv]
  let ?g = "\<lambda>m. m(i \<mapsto> it\<lparr>io_current := None\<rparr>)"
  let ?h = "(ents s)\<lparr>log_iterators := ?g (log_iterators (ents s))\<rparr>"
  let ?s = "ents_update (log_iterators_update ?g) s"
  have s_eq: "?s = s\<lparr>ents := ?h\<rparr>" by simp
  have k: "cached (ents s) (Inr i) = Some e" "cached ?h = (cached (ents s))(Inr i := None)"
    using Some i by (auto simp: cached_def fun_eq_iff split: sum.split)
  have "ents_ok (one_more G e) ?h" by (rule ents_uncache [OF ok k]) (use ents_okD(2) [OF ok] i in \<open>auto split: if_splits\<close>)
  moreover have "entry_log_refs ?h x = entry_log_refs (ents s) x" for x using entry_log_refs_upd(5) [OF ok i] by simp
  ultimately have e1: "ent_inv (one_more G e) ?s" using inv unfolding s_eq ent_inv_ents by (simp add: ent_inv_def)
  have "core_inv F live me ?s" unfolding s_eq using core by simp
  then obtain s' where s': "release_entry e ?s = Inr ((), s')" "core_inv F live me s'" "ent_inv G s'" "balanced ?s s'"
    by (rule release_entry_inv [OF _ e1])
  obtain s1 where s1: "release_entry e s = Inr ((), s1)" "s' = ents_update (log_iterators_update ?g) s1"
    using s'(1) unfolding release_entry_cache by (cases "release_entry e s") auto
  have "log_iterators (ents s1) i = Some it" using release_entry_iterators [OF s1(1)] i by simp
  then have "set_iterator i (io_current_update (\<lambda>_. None)) s1 = Inr ((), s')"
    unfolding s1(2) by (simp add: set_iterator_def pbind_def get_iterator_def upd_ents_def modify_def)
  then have "pbind (release_current (io_current it)) (\<lambda>_. set_iterator i (io_current_update (\<lambda>_. None))) s = Inr ((), s')"
    using s1(1) Some by (simp add: release_current_def pbind_def)
  moreover have "log_iterators (ents s') i = Some (it\<lparr>io_current := None\<rparr>)" using s1(2) by simp
  ultimately show thesis using that s'(2,3) by blast
qed

section \<open>References in the hands of the running code\<close>

lemma ent_recount:
  assumes inv: "ent_inv G s" and f: "\<And>x. x \<noteq> e \<Longrightarrow> G' x = G x \<and> c x = entry_count (ents s) x \<and> v x = entry_vars (ents s) x"
    and e: "entry_objs (ents s) e \<noteq> None" "c e + G e + entry_vars (ents s) e = entry_count (ents s) e + G' e + v e" "0 < c e"
  shows "ent_inv G' (s\<lparr>ents := (ents s)\<lparr>entry_count := c, entry_vars := v\<rparr>\<rparr>)"
  using ents_recount [OF ent_invD(1) [OF inv] f e] inv unfolding ent_inv_ents by (simp add: ent_inv_def)

lemma entry_count_pos: "ents_ok G h \<Longrightarrow> entry_objs h e \<noteq> None \<Longrightarrow> 0 < entry_count h e"
  using ents_okD(4) [of G h e] by (auto simp: entry_counted_def Let_def split: if_splits)

lemma entry_moves:
  assumes inv: "ent_inv G s"
  shows "entry_objs (ents s) e \<noteq> None \<Longrightarrow> \<exists>s'. entry_addref e s = Inr ((), s') \<and> (core_inv F live me s \<longrightarrow> core_inv F live me s') \<and>
      ent_inv (one_more G e) s'"
    and "0 < entry_vars (ents s) e \<Longrightarrow> \<exists>s'. entry_take_back e s = Inr ((), s') \<and> (core_inv F live me s \<longrightarrow> core_inv F live me s') \<and>
      ent_inv (one_more G e) s'"
    and "G = one_more G' e \<Longrightarrow> \<exists>s'. entry_hand_over e s = Inr ((), s') \<and> (core_inv F live me s \<longrightarrow> core_inv F live me s') \<and>
      ent_inv G' s'"
proof -
  note ok = ent_invD(1) [OF inv]
  let ?c = "entry_count (ents s)" and ?v = "entry_vars (ents s)"
  have up: "s\<lparr>ents := (ents s)\<lparr>entry_count := ?c, entry_vars := v\<rparr>\<rparr> = s\<lparr>ents := (ents s)\<lparr>entry_vars := v\<rparr>\<rparr>"
    "s\<lparr>ents := (ents s)\<lparr>entry_count := c, entry_vars := ?v\<rparr>\<rparr> = s\<lparr>ents := (ents s)\<lparr>entry_count := c\<rparr>\<rparr>" for c v by simp_all
  { assume "entry_objs (ents s) e \<noteq> None"
    then have "ent_inv (one_more G e) (s\<lparr>ents := (ents s)\<lparr>entry_count := ?c(e := Suc (?c e))\<rparr>\<rparr>)"
      using ent_recount [OF inv, of e "one_more G e" "?c(e := Suc (?c e))" ?v] unfolding up by simp
    then show "\<exists>s'. entry_addref e s = Inr ((), s') \<and> (core_inv F live me s \<longrightarrow> core_inv F live me s') \<and> ent_inv (one_more G e) s'"
      by (simp add: entry_addref_def upd_ents_def modify_def) }
  { assume v: "0 < ?v e"
    then have a: "entry_objs (ents s) e \<noteq> None" using entry_none(2) [OF ok, of e] by auto
    then have "ent_inv (one_more G e) (s\<lparr>ents := (ents s)\<lparr>entry_vars := ?v(e := ?v e - 1)\<rparr>\<rparr>)"
      using ent_recount [OF inv, of e "one_more G e" ?c "?v(e := ?v e - 1)"] v entry_count_pos [OF ok a] unfolding up by simp
    then show "\<exists>s'. entry_take_back e s = Inr ((), s') \<and> (core_inv F live me s \<longrightarrow> core_inv F live me s') \<and> ent_inv (one_more G e) s'"
      by (simp add: entry_take_back_def upd_ents_def modify_def) }
  { assume G: "G = one_more G' e"
    then have a: "entry_objs (ents s) e \<noteq> None" using entry_none(1) [OF ok, of e] by auto
    then have "ent_inv G' (s\<lparr>ents := (ents s)\<lparr>entry_vars := ?v(e := Suc (?v e))\<rparr>\<rparr>)"
      using ent_recount [OF inv, of e G' ?c "?v(e := Suc (?v e))"] G entry_count_pos [OF ok a] unfolding up by simp
    then show "\<exists>s'. entry_hand_over e s = Inr ((), s') \<and> (core_inv F live me s \<longrightarrow> core_inv F live me s') \<and> ent_inv G' s'"
      by (simp add: entry_hand_over_def upd_ents_def modify_def) }
qed

text \<open>The invariant with one entry in the hands of the running code, or none.\<close>

definition with_result :: "(in_hand \<Rightarrow> nat) \<Rightarrow> ('tl \<Rightarrow> bool) \<Rightarrow> thread \<Rightarrow> addr option \<Rightarrow> ('tl, 'z) php_scheme \<Rightarrow> bool" where
  "with_result F live me r s \<longleftrightarrow> core_inv F live me s \<and>
     ent_inv (case r of Some e \<Rightarrow> one_more (\<lambda>_. 0) e | None \<Rightarrow> (\<lambda>_. 0)) s"

text \<open>The result goes to a variable.\<close>

definition hand_result :: "addr option \<Rightarrow> (('tl, 'z) php_scheme, unit) prog" where
  "hand_result r = (case r of Some e \<Rightarrow> entry_hand_over e | None \<Rightarrow> pret ())"

lemma hand_result_triple:
  fixes live :: "'tl \<Rightarrow> bool"
  shows "triple (with_result F live me r :: ('tl, 'z) php_scheme \<Rightarrow> bool) (hand_result r) (\<lambda>_. php_inv F live me)"
  unfolding triple_def
proof (intro allI impI)
  fix s :: "('tl, 'z) php_scheme"
  assume s: "with_result F live me r s"
  show "case hand_result r s of Inl e \<Rightarrow> \<not> memory_fault e | Inr (x, s') \<Rightarrow> php_inv F live me s'"
  proof (cases r)
    case None
    then show ?thesis using s by (simp add: with_result_def hand_result_def php_inv_def)
  next
    case (Some e)
    then have s': "core_inv F live me s" "ent_inv (one_more (\<lambda>_. 0) e) s" using s by (simp_all add: with_result_def)
    then show ?thesis using entry_moves(3) [OF s'(2) refl, of F live me] Some by (auto simp: hand_result_def php_inv_def)
  qed
qed

section \<open>Methods of logs\<close>

text \<open>A variable of PHP code holds the log: not all references outside the profilers are those of entries and iterators.\<close>

definition log_var :: "addr \<Rightarrow> ('tl, 'z) php_scheme \<Rightarrow> bool" where
  "log_var l s \<longleftrightarrow> entry_log_refs (ents s) l < php_refs s l"

text \<open>How many variables hold it.\<close>

definition log_vars :: "('tl, 'z) php_scheme \<Rightarrow> addr \<Rightarrow> nat" where
  "log_vars s l = php_refs s l - entry_log_refs (ents s) l"

lemma log_var_log:
  assumes "core_inv F live me s" "log_var l s"
  obtains lo where "objects s l = Some (Obj_Log lo)"
  using core_none(2) [OF assms(1), of l] assms(2) by (auto simp: log_var_def is_log_def)

lemma php_inv_parts: "php_inv F live me s \<Longrightarrow> core_inv F live me s" "php_inv F live me s \<Longrightarrow> ent_inv (\<lambda>_. 0) s"
  by (simp_all add: php_inv_def)

lemma init_entry_triple:
  fixes live :: "'tl \<Rightarrow> bool"
  shows "triple (\<lambda>s :: ('tl, 'z) php_scheme. php_inv F live me s \<and> is_log l s) (ExcimerLog_init_entry_obj l index) (with_result F live me)"
  unfolding triple_def
proof (intro allI impI, elim conjE)
  fix s :: "('tl, 'z) php_scheme"
  assume inv: "php_inv F live me s" and "is_log l s"
  then obtain lo where lo: "objects s l = Some (Obj_Log lo)" by (auto simp: is_log_def)
  note p = php_inv_parts [OF inv]
  show "case ExcimerLog_init_entry_obj l index s of Inl e \<Rightarrow> \<not> memory_fault e | Inr (r, s') \<Rightarrow> with_result F live me r s'"
    using with_entry_obj_inv [OF p lo] p unfolding init_entry_run [OF lo] with_result_def by simp
qed

lemma offsetGet_triple:
  fixes live :: "'tl \<Rightarrow> bool"
  shows "triple (\<lambda>s :: ('tl, 'z) php_scheme. php_inv F live me s \<and> is_log l s) (zim_ExcimerLog_offsetGet l i) (with_result F live me)"
  unfolding zim_ExcimerLog_offsetGet_def
proof (rule triple_bind [OF get_log_triple(1)])
  fix lo
  show "triple (\<lambda>s :: ('tl, 'z) php_scheme. php_inv F live me s \<and> is_log l s)
      (if i <s 0 \<or> entries_size (obj_log lo) \<le> i then pret None else ExcimerLog_init_entry_obj l i) (with_result F live me)"
    by (rule triple_if [OF triple_pret init_entry_triple]) (simp add: with_result_def php_inv_def)
qed simp

lemma cache_log:
  assumes inv: "ent_inv (one_more (\<lambda>_. 0) e) s" and l: "log_current (ents s) l = None"
    and e: "entry_objs (ents s) e = Some eo" "en_z_log eo = Some l" "entry_count (ents s) e = 1"
  shows "ent_inv (\<lambda>_. 0) (s\<lparr>ents := (ents s)\<lparr>log_current := (log_current (ents s))(l := Some e)\<rparr>\<rparr>)"
proof -
  note ok = ent_invD(1) [OF inv]
  let ?h = "(ents s)\<lparr>log_current := (log_current (ents s))(l := Some e)\<rparr>"
  have "cache_ref (ents s) e = 0" using ents_okD(4) [OF ok, of e] e by (simp add: entry_counted_def)
  then have fresh: "cached (ents s) k \<noteq> Some e" for k using cache_ref_iff(1) [of "ents s" e] by auto
  have "ents_ok (\<lambda>_. 0) ?h"
  proof (rule ents_cache [OF ok])
    show "cached (ents s) (Inl l) = None" using l by (simp add: cached_def)
    show "cached ?h = (cached (ents s))(Inl l := Some e)" by (auto simp: cached_def fun_eq_iff split: sum.split)
  qed (use e fresh ents_okD(2) [OF ok] in auto)
  then show ?thesis using inv unfolding ent_inv_ents by (simp add: ent_inv_def)
qed

lemma entry_get_addref_triple:
  fixes live :: "'tl \<Rightarrow> bool"
  assumes "\<And>s :: ('tl, 'z) php_scheme. P s \<Longrightarrow> php_inv F live me s \<and> entry_objs (ents s) e \<noteq> None"
  shows "triple P (pbind (entry_addref e) (\<lambda>_. pret (Some e))) (with_result F live me)"
  unfolding triple_def
proof (intro allI impI)
  fix s :: "('tl, 'z) php_scheme"
  assume "P s"
  then have "php_inv F live me s" "entry_objs (ents s) e \<noteq> None" using assms by blast+
  then show "case pbind (entry_addref e) (\<lambda>_. pret (Some e)) s of Inl e \<Rightarrow> \<not> memory_fault e | Inr (r, s') \<Rightarrow> with_result F live me r s'"
    using entry_moves(1) [OF php_inv_parts(2), of F live me s e F live me] php_inv_parts(1)
    by (auto simp: pbind_def with_result_def)
qed

lemma current_run:
  assumes inv: "php_inv F live me s" and l: "objects s l = Some (Obj_Log lo)"
  obtains s' where "php_inv F live me s'" "zim_ExcimerLog_current l s = (case log_current (ents s') l of
      None \<Rightarrow> Inr (None, s') | Some e \<Rightarrow> pbind (entry_addref e) (\<lambda>_. pret (Some e)) s')"
proof (cases "log_current (ents s) l = None \<and> iter_entry_index lo < entries_size (obj_log lo) \<and>
    excimer_log_get_entry (obj_log lo) (iter_entry_index lo) \<noteq> None")
  case True
  note p = php_inv_parts [OF inv]
  let ?e = "next_entry (ents s)" and ?s1 = "with_entry_obj l (iter_entry_index lo) s"
  let ?s2 = "?s1\<lparr>ents := (ents ?s1)\<lparr>log_current := (log_current (ents ?s1))(l := Some ?e)\<rparr>\<rparr>"
  have i1: "core_inv F live me ?s1" "ent_inv (one_more (\<lambda>_. 0) ?e) ?s1" using with_entry_obj_inv [OF p l] True by blast+
  have "ent_inv (\<lambda>_. 0) ?s2" using True
    by (intro cache_log [OF i1(2), where eo = "\<lparr>en_z_log = Some l, en_index = iter_entry_index lo\<rparr>"]) (simp_all add: with_entry_obj_def)
  then have "php_inv F live me ?s2" using i1(1) by (simp add: php_inv_def)
  moreover have "objects ?s1 l = Some (Obj_Log lo)" using l by (simp add: with_entry_obj_def)
  then have "zim_ExcimerLog_current l s = pbind (entry_addref ?e) (\<lambda>_. pret (Some ?e)) ?s2"
    using True l by (auto simp: zim_ExcimerLog_current_def pbind_def check_object_def gets_def init_entry_run [OF l] set_current_def
      upd_ents_def modify_def)
  ultimately show thesis using that [of ?s2] by simp
next
  case False
  let ?s = "if log_current (ents s) l = None \<and> iter_entry_index lo < entries_size (obj_log lo)
    then s\<lparr>ents := (ents s)\<lparr>log_current := (log_current (ents s))(l := None)\<rparr>\<rparr> else s"
  have same: "?s = s" by (simp add: fun_upd_idem)
  have "zim_ExcimerLog_current l s = (case log_current (ents ?s) l of
      None \<Rightarrow> Inr (None, ?s) | Some e \<Rightarrow> pbind (entry_addref e) (\<lambda>_. pret (Some e)) ?s)"
    using False l by (auto simp: zim_ExcimerLog_current_def pbind_def check_object_def gets_def init_entry_run [OF l] set_current_def
      upd_ents_def modify_def split: option.split)
  then show thesis using that [of s] inv unfolding same by simp
qed

lemma current_triple:
  fixes live :: "'tl \<Rightarrow> bool"
  shows "triple (\<lambda>s :: ('tl, 'z) php_scheme. php_inv F live me s \<and> is_log l s) (zim_ExcimerLog_current l) (with_result F live me)"
  unfolding triple_def
proof (intro allI impI, elim conjE)
  fix s :: "('tl, 'z) php_scheme"
  assume inv: "php_inv F live me s" and "is_log l s"
  then obtain lo where lo: "objects s l = Some (Obj_Log lo)" by (auto simp: is_log_def)
  obtain s' where s': "php_inv F live me s'" "zim_ExcimerLog_current l s = (case log_current (ents s') l of
      None \<Rightarrow> Inr (None, s') | Some e \<Rightarrow> pbind (entry_addref e) (\<lambda>_. pret (Some e)) s')" by (rule current_run [OF inv lo])
  show "case zim_ExcimerLog_current l s of Inl e \<Rightarrow> \<not> memory_fault e | Inr (r, s') \<Rightarrow> with_result F live me r s'"
  proof (cases "log_current (ents s') l")
    case None
    then show ?thesis using s' by (simp add: with_result_def php_inv_def)
  next
    case (Some e)
    have "cached (ents s') (Inl l) = Some e" using Some by (simp add: cached_def)
    then have "entry_objs (ents s') e \<noteq> None" using entry_none(3) [OF ent_invD(1) [OF php_inv_parts(2) [OF s'(1)]]] by blast
    then have "triple (\<lambda>s. s = s') (pbind (entry_addref e) (\<lambda>_. pret (Some e))) (with_result F live me)"
      using s'(1) by (intro entry_get_addref_triple) simp
    then show ?thesis using s'(2) Some by (simp add: triple_def)
  qed
qed

lemma put_iter_index:
  assumes inv: "php_inv F live me s" and l: "objects s l = Some (Obj_Log lo)"
  obtains s' where "set_iter_index l f s = Inr ((), s')" "php_inv F live me s'" "ents s' = ents s" "php_refs s' = php_refs s"
    "is_log l s'"
proof -
  let ?ob = "Obj_Log (lo\<lparr>iter_entry_index := f (iter_entry_index lo)\<rparr>)"
  have "set_iter_index l f s = Inr ((), s\<lparr>objects := (objects s)(l \<mapsto> ?ob)\<rparr>)"
    using l by (simp add: set_iter_index_def pbind_def check_object_def put_object_def modify_def)
  moreover have "php_inv F live me (s\<lparr>objects := (objects s)(l \<mapsto> ?ob)\<rparr>)"
    by (rule php_inv_put [OF inv l]) (use php_invD(6) [OF inv l] in simp)
  ultimately show thesis using that by (simp add: is_log_def)
qed

text \<open>Clearing the cached entry of a log, as a program of its own.\<close>

definition clear_current :: "addr \<Rightarrow> (('tl, 'z) php_scheme, unit) prog" where
  "clear_current l = pbind (gets (\<lambda>s. log_current (ents s) l)) (\<lambda>cur. pbind (release_current cur) (\<lambda>_. set_current l None))"

lemma clear_current_triple:
  "triple (\<lambda>s. php_inv F live me s \<and> log_var l s) (clear_current l) (\<lambda>_ s. php_inv F live me s \<and> log_var l s)"
proof (rule triple_runI, elim conjE)
  fix s
  assume inv: "php_inv F live me s" and v: "log_var l s"
  note p = php_inv_parts [OF inv]
  have "is_log l s" by (rule log_var_log [OF p(1) v]) (simp add: is_log_def)
  then obtain s' where "pbind (release_current (log_current (ents s) l)) (\<lambda>_. set_current l None) s = Inr ((), s')"
    "core_inv F live me s'" "ent_inv (\<lambda>_. 0) s'" "entry_log_refs (ents s') l < php_refs s' l"
    using v by (auto simp: log_var_def intro: clear_log_current [OF p, of l])
  then show "\<exists>x s'. clear_current l s = Inr (x, s') \<and> php_inv F live me s' \<and> log_var l s'"
    by (simp add: clear_current_def pbind_def [of "gets f" for f] gets_def php_inv_def log_var_def)
qed

lemma get_log_var_triple: "triple (\<lambda>s. php_inv F live me s \<and> log_var l s) (get_log l) (\<lambda>_ s. php_inv F live me s \<and> log_var l s)"
  by (rule get_log_triple(1)) (auto simp: is_log_def elim: log_var_log [OF php_inv_parts(1)])

lemma set_iter_index_triple:
  "triple (\<lambda>s. php_inv F live me s \<and> log_var l s) (set_iter_index l f) (\<lambda>_ s. php_inv F live me s \<and> log_var l s)"
proof (rule triple_runI, elim conjE)
  fix s
  assume inv: "php_inv F live me s" and v: "log_var l s"
  obtain lo where lo: "objects s l = Some (Obj_Log lo)" by (rule log_var_log [OF php_inv_parts(1) [OF inv] v])
  show "\<exists>x s'. set_iter_index l f s = Inr (x, s') \<and> php_inv F live me s' \<and> log_var l s'"
    by (rule put_iter_index [OF inv lo, of f]) (use v in \<open>auto simp: log_var_def\<close>)
qed

lemma next_triple: "triple (\<lambda>s. php_inv F live me s \<and> log_var l s) (zim_ExcimerLog_next l) (\<lambda>_. php_inv F live me)"
proof -
  have eq: "zim_ExcimerLog_next l = pbind (get_log l) (\<lambda>_. pbind (clear_current l) (\<lambda>_. pbind (get_log l) (\<lambda>lo.
      if iter_entry_index lo < entries_size (obj_log lo) then set_iter_index l (\<lambda>i. i + 1) else pret ())))"
    unfolding zim_ExcimerLog_next_def clear_current_def pbind_assoc ..
  show ?thesis unfolding eq
    by (intro triple_bind [OF get_log_var_triple] triple_bind [OF clear_current_triple] triple_if triple_pret
      triple_conseq [OF set_iter_index_triple]) auto
qed

lemma rewind_triple: "triple (\<lambda>s. php_inv F live me s \<and> log_var l s) (zim_ExcimerLog_rewind l) (\<lambda>_. php_inv F live me)"
proof -
  have eq: "zim_ExcimerLog_rewind l = pbind (set_iter_index l (\<lambda>_. 0)) (\<lambda>_. clear_current l)"
    unfolding zim_ExcimerLog_rewind_def clear_current_def ..
  show ?thesis unfolding eq by (rule triple_bind [OF set_iter_index_triple triple_conseq [OF clear_current_triple]]) auto
qed

section \<open>Iterators\<close>

lemma cached_iterator:
  "cached (h\<lparr>log_iterators := (log_iterators h)(i := Some it)\<rparr>) = (cached h)(Inr i := io_current it)"
  "cached (h\<lparr>log_iterators := (log_iterators h)(i := None)\<rparr>) = (cached h)(Inr i := None)"
  by (auto simp: cached_def fun_eq_iff split: sum.split)

lemma get_iterator_obj_triple:
  fixes live :: "'tl \<Rightarrow> bool"
  shows "triple (\<lambda>s :: ('tl, 'z) php_scheme. php_inv F live me s \<and> is_log l s) (ExcimerLog_get_iterator_obj l by_ref) (\<lambda>_. php_inv F live me)"
proof (rule triple_runI, elim conjE)
  fix s :: "('tl, 'z) php_scheme"
  assume inv: "php_inv F live me s" and l: "is_log l s"
  note p = php_inv_parts [OF inv]
  note ok = ent_invD(1) [OF p(2)]
  let ?i = "next_iterator (ents s)" and ?it = "\<lparr>io_log = l, io_current = None, io_index = 0\<rparr>"
  let ?h0 = "(ents s)\<lparr>log_iterators := (log_iterators (ents s))(?i := Some ?it)\<rparr>" and ?h = "(ents s)\<lparr>log_iterators := (log_iterators (ents s))(?i := Some ?it), next_iterator := Suc ?i\<rparr>"
  let ?s = "s\<lparr>refcount := (refcount s)(l := Suc (refcount s l)), php_refs := (php_refs s)(l := Suc (php_refs s l))\<rparr>"
  have "cached (ents s) (Inr ?i) = None" using ents_okD(2) [OF ok, of ?i] by (simp add: cached_def)
  then have "cached ?h = cached (ents s)" by (simp add: cached_sel cached_iterator fun_upd_idem)
  then have "ents_ok (\<lambda>_. 0) ?h" by (rule ents_same [OF ok]) (use ents_okD(2) [OF ok] in simp_all)
  moreover have "entry_log_refs ?h x \<le> php_refs ?s x" for x
    using ent_invD(2) [OF p(2), of x] entry_log_refs_upd(3) [OF ok, of ?it x] by auto
  moreover have "entry_at ?s eo" if "entry_objs ?h e = Some eo" for e eo
    using that ent_invD(3) [OF p(2), of e eo] by (simp add: entry_at_def)
  ultimately have "ent_inv (\<lambda>_. 0) (?s\<lparr>ents := ?h\<rparr>)" unfolding ent_inv_ents by blast
  moreover have "core_inv F live me (?s\<lparr>ents := ?h\<rparr>)" unfolding core_inv_ents by (rule core_new_ref [OF p(1) l])
  ultimately have "php_inv F live me (?s\<lparr>ents := ?h\<rparr>)" by (simp only: php_inv_def)
  then show "\<exists>x s'. ExcimerLog_get_iterator_obj l by_ref s = Inr (x, s') \<and> php_inv F live me s'"
    using inv by (simp add: ExcimerLog_get_iterator_obj_def pbind_def gets_def addref_def hand_over_def upd_ents_def modify_def)
qed

lemma iterator_put:
  assumes inv: "php_inv F live me s" and i: "log_iterators (ents s) i = Some it" "io_log it' = io_log it" "io_current it' = io_current it"
  shows "php_inv F live me (s\<lparr>ents := (ents s)\<lparr>log_iterators := (log_iterators (ents s))(i \<mapsto> it')\<rparr>\<rparr>)" (is "php_inv _ _ _ (s\<lparr>ents := ?h\<rparr>)")
proof -
  note p = php_inv_parts [OF inv]
  note ok = ent_invD(1) [OF p(2)]
  have "cached ?h = cached (ents s)" unfolding cached_iterator using i by (simp add: cached_def fun_upd_idem)
  then have "ents_ok (\<lambda>_. 0) ?h" by (rule ents_same [OF ok]) (use ents_okD(2) [OF ok] i(1) in \<open>auto split: if_splits\<close>)
  moreover have "entry_log_refs ?h x = entry_log_refs (ents s) x" for x using entry_log_refs_upd(5) [OF ok i(1,2)] by simp
  ultimately show ?thesis using p unfolding php_inv_def core_inv_ents ent_inv_ents by (simp add: ent_inv_def)
qed

lemma iterator_log:
  assumes "php_inv F live me s" "log_iterators (ents s) i = Some it"
  obtains lo where "objects s (io_log it) = Some (Obj_Log lo)"
  using referenced_log(3) [OF php_inv_parts [OF assms(1)], of _ _ "io_log it" i it] assms(2) by (auto simp: is_log_def)

text \<open>An iterator at a position, with or without a cached entry.\<close>

definition iter_is :: "addr \<Rightarrow> iterator_obj \<Rightarrow> ('tl, 'z) php_scheme \<Rightarrow> bool" where
  "iter_is i it s \<longleftrightarrow> log_iterators (ents s) i = Some it"

lemma clear_iterator_triple:
  "triple (\<lambda>s. php_inv F live me s \<and> iter_is i it s)
    (pbind (release_current (io_current it)) (\<lambda>_. set_iterator i (io_current_update (\<lambda>_. None))))
    (\<lambda>_ s. php_inv F live me s \<and> iter_is i (it\<lparr>io_current := None\<rparr>) s)"
proof (rule triple_runI, elim conjE)
  fix s
  assume inv: "php_inv F live me s" and i: "iter_is i it s"
  show "\<exists>x s'. pbind (release_current (io_current it)) (\<lambda>_. set_iterator i (io_current_update (\<lambda>_. None))) s = Inr (x, s') \<and>
      php_inv F live me s' \<and> iter_is i (it\<lparr>io_current := None\<rparr>) s'"
    by (rule clear_iterator_current [OF php_inv_parts [OF inv] i [unfolded iter_is_def]]) (auto simp: php_inv_def iter_is_def)
qed

lemma set_index_triple:
  "triple (\<lambda>s. php_inv F live me s \<and> iter_is i it s) (set_iterator i (io_index_update f)) (\<lambda>_. php_inv F live me)"
  using iterator_put [of F live me _ i it "io_index_update f it"]
  by (auto simp: triple_def iter_is_def set_iterator_def pbind_def get_iterator_def upd_ents_def modify_def)

lemma iter_log_triple:
  "io_log it = l \<Longrightarrow> triple (\<lambda>s. php_inv F live me s \<and> iter_is i it s) (get_log l) (\<lambda>_ s. php_inv F live me s \<and> iter_is i it s)"
  by (rule get_log_triple(1)) (auto simp: is_log_def iter_is_def elim: iterator_log)

text \<open>Reading the iterator, and continuing with what was read.\<close>

lemma iterator_read:
  fixes f :: "iterator_obj \<Rightarrow> (('tl, 'z) php_scheme, 'a) prog"
  assumes "\<And>it. triple (\<lambda>s. php_inv F live me s \<and> iter_is i it s) (f it) Q"
  shows "triple (\<lambda>s. php_inv F live me s \<and> log_iterators (ents s) i \<noteq> None) (pbind (get_iterator i) f) Q"
  unfolding triple_def
proof (intro allI impI, elim conjE)
  fix s :: "('tl, 'z) php_scheme"
  assume "php_inv F live me s" "log_iterators (ents s) i \<noteq> None"
  then obtain it where "log_iterators (ents s) i = Some it" "php_inv F live me s \<and> iter_is i it s" by (auto simp: iter_is_def)
  then show "case pbind (get_iterator i) f s of Inl e \<Rightarrow> \<not> memory_fault e | Inr (x, s') \<Rightarrow> Q x s'"
    using assms [of it] by (simp add: pbind_def get_iterator_def triple_def)
qed

lemma iterator_move_triples:
  fixes live :: "'tl \<Rightarrow> bool" and i :: addr and me :: thread and F :: "in_hand \<Rightarrow> nat"
  defines "K \<equiv> \<lambda>s :: ('tl, 'z) php_scheme. php_inv F live me s \<and> log_iterators (ents s) i \<noteq> None"
  shows "triple K (iterator_invalidate_current i) (\<lambda>_. php_inv F live me)"
    and "triple K (iterator_rewind i) (\<lambda>_. php_inv F live me)"
    and "triple K (iterator_move_forward i) (\<lambda>_. php_inv F live me)"
proof -
  show "triple K (iterator_invalidate_current i) (\<lambda>_. php_inv F live me)"
    unfolding K_def iterator_invalidate_current_def by (intro iterator_read triple_conseq [OF clear_iterator_triple]) auto
  have rw: "iterator_rewind i = pbind (get_iterator i) (\<lambda>it. pbind (pbind (release_current (io_current it)) (\<lambda>_.
      set_iterator i (io_current_update (\<lambda>_. None)))) (\<lambda>_. set_iterator i (io_index_update (\<lambda>_. 0))))"
    unfolding iterator_rewind_def pbind_assoc ..
  show "triple K (iterator_rewind i) (\<lambda>_. php_inv F live me)"
    unfolding K_def rw by (intro iterator_read triple_bind [OF clear_iterator_triple set_index_triple])
  have mv: "iterator_move_forward i = pbind (get_iterator i) (\<lambda>it. pbind (get_log (io_log it)) (\<lambda>_. pbind (pbind (release_current (io_current it)) (\<lambda>_.
      set_iterator i (io_current_update (\<lambda>_. None)))) (\<lambda>_. pbind (get_log (io_log it)) (\<lambda>lo.
      if io_index it < entries_size (obj_log lo) then set_iterator i (io_index_update (\<lambda>n. n + 1)) else pret ()))))"
    unfolding iterator_move_forward_def pbind_assoc ..
  show "triple K (iterator_move_forward i) (\<lambda>_. php_inv F live me)"
    unfolding K_def mv
    by (intro iterator_read triple_bind [OF iter_log_triple [OF refl]] triple_bind [OF clear_iterator_triple]
      triple_bind [OF iter_log_triple] triple_if set_index_triple triple_pret) auto
qed

lemma cache_iterator:
  assumes core: "core_inv F live me s" and inv: "ent_inv (one_more (\<lambda>_. 0) e) s" and i: "log_iterators (ents s) i = Some it" "io_current it = None"
    and e: "entry_objs (ents s) e \<noteq> None" "entry_count (ents s) e = 1"
  shows "php_inv F live me (s\<lparr>ents := (ents s)\<lparr>log_iterators := (log_iterators (ents s))(i \<mapsto> it\<lparr>io_current := Some e\<rparr>)\<rparr>\<rparr>)"
    (is "php_inv _ _ _ (s\<lparr>ents := ?h\<rparr>)")
proof -
  note ok = ent_invD(1) [OF inv]
  have "cache_ref (ents s) e = 0" using ents_okD(4) [OF ok, of e] e by (simp add: entry_counted_def)
  then have fresh: "cached (ents s) k \<noteq> Some e" for k using cache_ref_iff(1) [of "ents s" e] by auto
  have "ents_ok (\<lambda>_. 0) ?h"
  proof (rule ents_cache [OF ok])
    show "cached (ents s) (Inr i) = None" using i by (simp add: cached_def)
    show "cached ?h = (cached (ents s))(Inr i := Some e)" unfolding cached_iterator by simp
    show "log_iterators ?h x = None" if "next_iterator ?h \<le> x" for x using that ents_okD(2) [OF ok, of x] i(1) by (auto split: if_splits)
  qed (use fresh in auto)
  moreover have "entry_log_refs ?h x = entry_log_refs (ents s) x" for x using entry_log_refs_upd(5) [OF ok i(1)] by simp
  ultimately show ?thesis using core inv unfolding php_inv_def core_inv_ents ent_inv_ents by (simp add: ent_inv_def)
qed

text \<open>What the iterator gives is alive; the reference stays with the iterator.\<close>

lemma current_data_triple:
  fixes live :: "'tl \<Rightarrow> bool"
  shows "triple (\<lambda>s :: ('tl, 'z) php_scheme. php_inv F live me s \<and> log_iterators (ents s) i \<noteq> None) (iterator_get_current_data i)
    (\<lambda>r s. php_inv F live me s \<and> (\<forall>e. r = Some e \<longrightarrow> entry_objs (ents s) e \<noteq> None))"
proof (rule triple_runI, elim conjE)
  fix s :: "('tl, 'z) php_scheme"
  assume inv: "php_inv F live me s" and "log_iterators (ents s) i \<noteq> None"
  then obtain it where it: "log_iterators (ents s) i = Some it" by blast
  obtain lo where lo: "objects s (io_log it) = Some (Obj_Log lo)" by (rule iterator_log [OF inv it])
  note p = php_inv_parts [OF inv]
  let ?l = "io_log it" and ?e = "next_entry (ents s)" and ?s1 = "with_entry_obj (io_log it) (io_index it) s"
  show "\<exists>r s'. iterator_get_current_data i s = Inr (r, s') \<and> php_inv F live me s' \<and> (\<forall>e. r = Some e \<longrightarrow> entry_objs (ents s') e \<noteq> None)"
  proof (cases "io_current it")
    case (Some e)
    then have "cached (ents s) (Inr i) = Some e" using it by (simp add: cached_def)
    then have "entry_objs (ents s) e \<noteq> None" using entry_none(3) [OF ent_invD(1) [OF p(2)]] by blast
    then show ?thesis using it lo Some inv by (simp add: iterator_get_current_data_def pbind_def get_iterator_def check_object_def)
  next
    case None
    show ?thesis
    proof (cases "io_index it < entries_size (obj_log lo) \<and> excimer_log_get_entry (obj_log lo) (io_index it) \<noteq> None")
      case True
      have i1: "core_inv F live me ?s1" "ent_inv (one_more (\<lambda>_. 0) ?e) ?s1" using with_entry_obj_inv [OF p lo] True by blast+
      have it1: "log_iterators (ents ?s1) i = Some it" using it by (simp add: with_entry_obj_def)
      have "php_inv F live me (?s1\<lparr>ents := (ents ?s1)\<lparr>log_iterators := (log_iterators (ents ?s1))(i \<mapsto> it\<lparr>io_current := Some ?e\<rparr>)\<rparr>\<rparr>)"
        by (rule cache_iterator [OF i1 it1 None]) (simp_all add: with_entry_obj_def)
      then show ?thesis using it lo None True it1
        by (auto simp: iterator_get_current_data_def pbind_def get_iterator_def check_object_def init_entry_run [OF lo] set_iterator_def
          upd_ents_def modify_def) (simp add: with_entry_obj_def)
    next
      case False
      have "(log_iterators (ents s))(i \<mapsto> it\<lparr>io_current := None\<rparr>) = log_iterators (ents s)" using it None by (simp add: fun_upd_idem)
      then show ?thesis using it lo None False inv
        by (auto simp: iterator_get_current_data_def pbind_def get_iterator_def check_object_def init_entry_run [OF lo] set_iterator_def
          upd_ents_def modify_def)
    qed
  qed
qed

text \<open>The destructor of an iterator and the release of its storage.\<close>

lemma remove_iterator_triple:
  fixes live :: "'tl \<Rightarrow> bool"
  assumes "io_log it = l" "io_current it = None"
  shows "triple (\<lambda>s :: ('tl, 'z) php_scheme. php_inv F live me s \<and> iter_is i it s)
    (pbind (take_back l) (\<lambda>_. pbind (release_log l) (\<lambda>_. free_iterator i))) (\<lambda>_. php_inv F live me)"
proof (rule triple_runI, elim conjE)
  fix s :: "('tl, 'z) php_scheme"
  assume inv: "php_inv F live me s" and "iter_is i it s"
  then have i: "log_iterators (ents s) i = Some it" by (simp add: iter_is_def)
  note p = php_inv_parts [OF inv]
  note ok = ent_invD(1) [OF p(2)]
  let ?h = "(ents s)\<lparr>log_iterators := (log_iterators (ents s))(i := None)\<rparr>"
  let ?s1 = "s\<lparr>php_refs := (php_refs s)(l := php_refs s l - 1)\<rparr>"
  have refs: "entry_log_refs (ents s) x = entry_log_refs ?h x + (if x = l then 1 else 0)" for x
    using entry_log_refs_upd(4) [OF ok i, of x] assms(1) by auto
  have "0 < php_refs s l" using referenced_log(2) [OF p, of _ _ l i it] i assms(1) by blast
  then have i1: "core_inv (one_more F (Log_ref l)) live me ?s1" by (rule core_take_back [OF p(1)])
  obtain s2 where s2: "release_log l ?s1 = Inr ((), s2)" "core_inv F live me s2" "log_grows ?s1 s2" by (rule core_release [OF i1])
  have "cached ?h = cached (ents s)" unfolding cached_iterator using i assms(2) by (simp add: cached_def fun_upd_idem)
  then have "ents_ok (\<lambda>_. 0) ?h" by (rule ents_same [OF ok]) (use ents_okD(2) [OF ok] in simp_all)
  moreover have "entry_log_refs ?h x \<le> php_refs ?s1 x" for x using refs [of x] ent_invD(2) [OF p(2), of x] by (simp split: if_splits)
  moreover have "entry_at ?s1 eo" if "entry_objs ?h e = Some eo" for e eo
    using that ent_invD(3) [OF p(2), of e eo] by (simp add: entry_at_def)
  ultimately have "ent_inv (\<lambda>_. 0) (?s1\<lparr>ents := ?h\<rparr>)" unfolding ent_inv_ents by blast
  moreover have "log_grows (?s1\<lparr>ents := ?h\<rparr>) (s2\<lparr>ents := ?h\<rparr>)" using s2(3) by (simp add: log_grows_def)
  ultimately have "ent_inv (\<lambda>_. 0) (s2\<lparr>ents := ?h\<rparr>)" by (rule ent_inv_grows)
  then have "php_inv F live me (s2\<lparr>ents := ?h\<rparr>)" using s2(2) by (simp add: php_inv_def)
  moreover have "ents s2 = ents s" using s2(3) by (simp add: log_grows_def)
  ultimately show "\<exists>x s'. pbind (take_back l) (\<lambda>_. pbind (release_log l) (\<lambda>_. free_iterator i)) s = Inr (x, s') \<and> php_inv F live me s'"
    using s2(1) by (simp add: pbind_def take_back_def modify_def free_iterator_def upd_ents_def)
qed

lemma iterator_free_triple:
  fixes live :: "'tl \<Rightarrow> bool"
  shows "triple (\<lambda>s :: ('tl, 'z) php_scheme. php_inv F live me s \<and> log_iterators (ents s) i \<noteq> None)
    (pbind (ExcimerLog_iterator_dtor i) (\<lambda>_. free_iterator i)) (\<lambda>_. php_inv F live me)"
proof -
  have eq: "pbind (ExcimerLog_iterator_dtor i) (\<lambda>_. free_iterator i) = (pbind (get_iterator i) (\<lambda>it. pbind (pbind (release_current (io_current it)) (\<lambda>_.
      set_iterator i (io_current_update (\<lambda>_. None)))) (\<lambda>_. pbind (take_back (io_log it)) (\<lambda>_. pbind (release_log (io_log it)) (\<lambda>_.
      free_iterator i)))) :: (('tl, 'z) php_scheme, unit) prog)"
    unfolding ExcimerLog_iterator_dtor_def pbind_assoc ..
  show ?thesis unfolding eq
    by (intro iterator_read triple_bind [OF clear_iterator_triple] remove_iterator_triple) simp_all
qed

section \<open>Variables that hold entries\<close>

lemma entry_var_triples:
  fixes live :: "'tl \<Rightarrow> bool" and e :: addr and me :: thread and F :: "in_hand \<Rightarrow> nat"
  defines "K \<equiv> \<lambda>s :: ('tl, 'z) php_scheme. php_inv F live me s \<and> 0 < entry_vars (ents s) e"
  shows "triple K (pbind (entry_take_back e) (\<lambda>_. release_entry e)) (\<lambda>_. php_inv F live me)"
    and "triple (\<lambda>s :: ('tl, 'z) php_scheme. php_inv F live me s \<and> entry_objs (ents s) e \<noteq> None)
      (pbind (entry_addref e) (\<lambda>_. entry_hand_over e)) (\<lambda>_. php_inv F live me)"
    and "(\<And>lg i. log_wf lg \<Longrightarrow> unat i < length (entries lg) \<Longrightarrow> \<exists>x. f lg i = Inr x) \<Longrightarrow>
      triple K (with_entry e f) (\<lambda>_. php_inv F live me)"
proof -
  show "triple K (pbind (entry_take_back e) (\<lambda>_. release_entry e)) (\<lambda>_. php_inv F live me)"
  proof (rule triple_runI)
    fix s assume "K s"
    then have inv: "php_inv F live me s" and v: "0 < entry_vars (ents s) e" by (simp_all add: K_def)
    note p = php_inv_parts [OF inv]
    obtain s1 where s1: "entry_take_back e s = Inr ((), s1)" "core_inv F live me s1" "ent_inv (one_more (\<lambda>_. 0) e) s1"
      using entry_moves(2) [OF p(2) v, of F live me] p(1) by blast
    obtain s2 where "release_entry e s1 = Inr ((), s2)" "core_inv F live me s2" "ent_inv (\<lambda>_. 0) s2" by (rule release_entry_inv [OF s1(2,3)])
    then show "\<exists>x s'. pbind (entry_take_back e) (\<lambda>_. release_entry e) s = Inr (x, s') \<and> php_inv F live me s'"
      using s1(1) by (simp add: pbind_def php_inv_def)
  qed
  have "pbind (pbind (entry_addref e) (\<lambda>_. pret (Some e))) hand_result = (pbind (entry_addref e) (\<lambda>_. entry_hand_over e)
      :: (('tl, 'z) php_scheme, unit) prog)"
    by (auto simp: fun_eq_iff pbind_def hand_result_def rbind_def split: sum.split)
  moreover have "triple (\<lambda>s :: ('tl, 'z) php_scheme. php_inv F live me s \<and> entry_objs (ents s) e \<noteq> None)
      (pbind (pbind (entry_addref e) (\<lambda>_. pret (Some e))) hand_result) (\<lambda>_. php_inv F live me)"
    by (rule triple_bind [OF entry_get_addref_triple hand_result_triple])
  ultimately show "triple (\<lambda>s :: ('tl, 'z) php_scheme. php_inv F live me s \<and> entry_objs (ents s) e \<noteq> None)
      (pbind (entry_addref e) (\<lambda>_. entry_hand_over e)) (\<lambda>_. php_inv F live me)" by simp
  assume f: "\<And>lg i. log_wf lg \<Longrightarrow> unat i < length (entries lg) \<Longrightarrow> \<exists>x. f lg i = Inr x"
  show "triple K (with_entry e f) (\<lambda>_. php_inv F live me)"
  proof (rule triple_runI)
    fix s assume "K s"
    then have inv: "php_inv F live me s" and v: "0 < entry_vars (ents s) e" by (simp_all add: K_def)
    note p = php_inv_parts [OF inv]
    obtain eo where eo: "entry_objs (ents s) e = Some eo" by (rule entry_alive [OF ent_invD(1) [OF p(2)], of e]) (use v in auto)
    obtain l where l: "en_z_log eo = Some l" "\<And>lo. objects s l = Some (Obj_Log lo) \<Longrightarrow> unat (en_index eo) < length (entries (obj_log lo))"
      using ent_invD(3) [OF p(2) eo] by (auto simp: entry_at_def)
    have "is_log l s" using referenced_log(3) [OF p, of e eo l] eo l(1) by blast
    then obtain lo where lo: "objects s l = Some (Obj_Log lo)" by (auto simp: is_log_def)
    obtain x where "f (obj_log lo) (en_index eo) = Inr x" using f [OF php_invD(6) [OF inv lo] l(2) [OF lo]] by blast
    then show "\<exists>x s'. with_entry e f s = Inr (x, s') \<and> php_inv F live me s'"
      using eo l(1) lo inv by (simp add: with_entry_def pbind_def get_entry_def check_object_def)
  qed
qed

end
