(* ===== verification/Php_Api.thy ===== *)
theory Php_Api
  imports Entry_Safety
begin

text \<open>
  Everything that can happen to the extension in a thread, as one step relation: the calls PHP code and
  the engine make, events posted by handler threads, and the interrupt hook. Memory safety and the
  invariant hold for every sequence of steps.
\<close>

section \<open>Freeing\<close>

text \<open>
  The end of both free handlers: whatever PHP code the destructor of the callback runs, the storage is still there when the
  field is overwritten, and is freed once.
\<close>

lemma free_callback_triple:
  fixes eng :: "('tl, 'z) php_scheme engine"
  assumes eng: "safe_engine live me eng"
  shows "triple (php_inv (one_more F (Storage a)) live me) (pbind (release_callback eng z) (\<lambda>_.
    pbind (check_object as_freeing a) (\<lambda>_. pbind (put_object a (Obj_Freeing Z_UNDEF)) (\<lambda>_. free_storage a)))) (\<lambda>_. php_inv F live me)"
proof (rule triple_bind [OF release_callback_triple [OF eng]], unfold triple_def, intro allI impI)
  fix s :: "('tl, 'z) php_scheme"
  assume inv: "php_inv (one_more F (Storage a)) live me s"
  have "is_freeing a s" using pinnedD(3) [OF php_invD(9) [OF inv]] by simp
  then have "pbind (check_object as_freeing a) (\<lambda>_. pbind (put_object a (Obj_Freeing Z_UNDEF)) (\<lambda>_. free_storage a)) s =
      Inr ((), s\<lparr>objects := (objects s)(a := None)\<rparr>)"
    by (auto simp: is_freeing_def pbind_def check_object_def put_object_def free_storage_def modify_def)
  then show "case pbind (check_object as_freeing a) (\<lambda>_. pbind (put_object a (Obj_Freeing Z_UNDEF)) (\<lambda>_. free_storage a)) s of
      Inl e \<Rightarrow> \<not> memory_fault e | Inr (x, s') \<Rightarrow> php_inv F live me s'"
    using php_inv_gone [OF inv] by simp
qed

lemma pbind_destroy_callback:
  "pbind (destroy_callback eng a z) (\<lambda>_. free_storage a) s =
     pbind (release_callback eng z) (\<lambda>_. pbind (check_object as_freeing a) (\<lambda>_.
       pbind (put_object a (Obj_Freeing Z_UNDEF)) (\<lambda>_. free_storage a))) (s\<lparr>objects := (objects s)(a \<mapsto> Obj_Freeing z)\<rparr>)"
  by (auto simp: destroy_callback_def pbind_def put_object_def modify_def rbind_def split: sum.split)

context profiler_backend
begin

lemma free_profiler_triple:
  assumes eng: "safe_engine live me eng"
  shows "triple (\<lambda>s. php_inv F live me s \<and> is_profiler p s \<and> refcount s p = 1)
    (pbind (ExcimerProfiler_free_object lib eng me p) (\<lambda>_. free_storage p)) (\<lambda>_. php_inv F live me)"
  unfolding triple_def
proof (intro allI impI, elim conjE)
  fix s :: "('tl, 'z) php_scheme"
  assume inv: "php_inv F live me s" and p: "is_profiler p s" and rc: "refcount s p = 1"
  obtain pr where pr: "objects s p = Some (Obj_Profiler pr)" using p by (auto simp: is_profiler_def)
  let ?l = "pr_z_log pr" and ?z = "pr_z_callback pr"
  let ?d = "if is_valid (timers s p) then excimer_timer_destroy lib me p else pret ()"
  let ?rest = "pbind (release_log ?l) (\<lambda>_. pbind (destroy_callback eng p ?z) (\<lambda>_. free_storage p))"
  have start: "pbind (ExcimerProfiler_free_object lib eng me p) (\<lambda>_. free_storage p) s = pbind ?d (\<lambda>_. ?rest) s"
    using pr by (auto simp: ExcimerProfiler_free_object_def pbind_def check_object_def gets_def rbind_def split: sum.split prod.split)
  show "case pbind (ExcimerProfiler_free_object lib eng me p) (\<lambda>_. free_storage p) s of
      Inl e \<Rightarrow> \<not> memory_fault e | Inr (x, s') \<Rightarrow> php_inv F live me s'"
  proof (cases "?d s")
    case (Inl e)
    then show ?thesis unfolding start using destroy_safe(1) [OF inv disjI1 [OF p], of e] by (auto simp: pbind_def split: if_splits)
  next
    case (Inr r)
    then obtain x s1 where d: "?d s = Inr (x, s1)" by (cases r) blast
    then have s1: "php_inv F live me s1" "same_kinds s s1" "\<not> is_valid (timers s1 p)"
      using destroy_safe(2) [OF inv disjI1 [OF p], of x s1] inv by (auto split: if_splits)
    have "holds s p ?l" using pr by (simp add: holds_def)
    then have h: "holds s1 p ?l" "is_profiler p s1" "refcount s1 p = 1" using s1(2) p rc by (simp_all add: same_kinds_def)
    obtain lo where lo: "objects s1 ?l = Some (Obj_Log lo)" "0 < refcount s1 ?l"
      using held_log [OF php_invD(1) [OF s1(1)] h(1)] by (auto simp: is_log_def)
    have ne: "p \<noteq> ?l" using h(2) lo by (auto simp: is_profiler_def)
    let ?s2 = "s1\<lparr>objects := (objects s1)(p \<mapsto> Obj_Freeing ?z)\<rparr>"
    have "php_inv (one_more (one_more F (Log_ref ?l)) (Storage p)) live me ?s2"
      by (rule php_inv_remove [OF s1(1) _ s1(3) h(3)]) (use h(1) in blast)
    then have i2: "php_inv (one_more (one_more F (Storage p)) (Log_ref ?l)) live me ?s2" by (simp add: fun_upd_twist)
    have lo2: "objects ?s2 ?l = Some (Obj_Log lo)" "0 < refcount ?s2 ?l" using lo ne by simp_all
    let ?s3 = "?s2\<lparr>refcount := (refcount ?s2)(?l := refcount ?s2 ?l - 1),
        objects := (if refcount ?s2 ?l = 1 then (objects ?s2)(?l := None) else objects ?s2)\<rparr>"
    have i3: "php_inv (one_more F (Storage p)) live me ?s3" by (rule tripleD(2) [OF release_triple i2 release_log_run [OF lo2]])
    have "?rest s1 = pbind (release_callback eng ?z) (\<lambda>_. pbind (check_object as_freeing p) (\<lambda>_.
        pbind (put_object p (Obj_Freeing Z_UNDEF)) (\<lambda>_. free_storage p))) ?s3"
      using ne by (simp add: pbind_Inr [of "release_log ?l", OF release_log_run [OF lo]] pbind_destroy_callback fun_upd_twist)
    then show ?thesis unfolding start pbind_Inr [of ?d, OF d] using free_callback_triple [OF eng] i3 by (simp add: triple_def)
  qed
qed

lemma free_timer_triple:
  assumes eng: "safe_engine live me eng"
  shows "triple (\<lambda>s. php_inv F live me s \<and> is_timer a s \<and> refcount s a = 1)
    (pbind (ExcimerTimer_free_object lib eng me a) (\<lambda>_. free_storage a)) (\<lambda>_. php_inv F live me)"
  unfolding triple_def
proof (intro allI impI, elim conjE)
  fix s :: "('tl, 'z) php_scheme"
  assume inv: "php_inv F live me s" and a: "is_timer a s" and rc: "refcount s a = 1"
  obtain to where to: "objects s a = Some (Obj_Timer to)" using a by (auto simp: is_timer_def)
  let ?d = "if is_valid (timers s a) then excimer_timer_destroy lib me a else pret ()"
  let ?rest = "pbind (destroy_callback eng a (to_z_callback to)) (\<lambda>_. free_storage a)"
  have start: "pbind (ExcimerTimer_free_object lib eng me a) (\<lambda>_. free_storage a) s = pbind ?d (\<lambda>_. ?rest) s"
    using to by (auto simp: ExcimerTimer_free_object_def pbind_def check_object_def gets_def rbind_def split: sum.split prod.split)
  show "case pbind (ExcimerTimer_free_object lib eng me a) (\<lambda>_. free_storage a) s of
      Inl e \<Rightarrow> \<not> memory_fault e | Inr (x, s') \<Rightarrow> php_inv F live me s'"
  proof (cases "?d s")
    case (Inl e)
    then show ?thesis unfolding start using destroy_safe(1) [OF inv disjI2 [OF a], of e] by (auto simp: pbind_def split: if_splits)
  next
    case (Inr r)
    then obtain x s1 where d: "?d s = Inr (x, s1)" by (cases r) blast
    then have s1: "php_inv F live me s1" "same_kinds s s1" "\<not> is_valid (timers s1 a)"
      using destroy_safe(2) [OF inv disjI2 [OF a], of x s1] inv by (auto split: if_splits)
    have t: "is_timer a s1" "refcount s1 a = 1" using s1(2) a rc by (simp_all add: same_kinds_def)
    have "php_inv (one_more F (Storage a)) live me (s1\<lparr>objects := (objects s1)(a \<mapsto> Obj_Freeing (to_z_callback to))\<rparr>)"
      by (rule php_inv_remove [OF s1(1) _ s1(3) t(2)]) (use t(1) in simp)
    then show ?thesis unfolding start pbind_Inr [of ?d, OF d] pbind_destroy_callback
      using free_callback_triple [OF eng] by (simp add: triple_def)
  qed
qed

end

section \<open>Methods\<close>

text \<open>The engine holds a reference to \<^verbatim>\<open>$this\<close> for as long as a method runs.\<close>

definition on_this :: "addr \<Rightarrow> (('tl, 'z) php_scheme, 'a) prog \<Rightarrow> (('tl, 'z) php_scheme, 'a) prog" where
  "on_this a m = pbind (addref a) (\<lambda>_. pbind m (\<lambda>r. pbind (delref a) (\<lambda>_. pret r)))"

lemma repin:
  assumes inv: "php_inv F live me s" and k: "is_profiler a s \<or> is_timer a s"
    and F': "\<And>x. x \<noteq> Profiler_ref a \<Longrightarrow> x \<noteq> Timer_ref a \<Longrightarrow> F' x = F x"
    and a: "pinned F' (s\<lparr>refcount := (refcount s)(a := n)\<rparr>) a"
  shows "php_inv F' live me (s\<lparr>refcount := (refcount s)(a := n)\<rparr>)" (is "php_inv _ _ _ ?s")
proof -
  have h: "holds ?s = holds s" and kd: "is_log x ?s = is_log x s" "is_profiler x ?s = is_profiler x s" "is_timer x ?s = is_timer x s" for x
    by (simp_all add: kind_defs holds_def fun_eq_iff)
  have hd: "held ?s l = held s l" for l by (simp only: held_def h)
  have nl: "\<not> is_log a s" using k by (auto simp: kind_defs)
  have "counted F' ?s l = counted F s l" for l
    using nl F' [of "Log_ref l"] unfolding counted_def hd kd by (cases "l = a") simp_all
  then have "counted F' ?s l" for l using php_invD(3) [OF inv] by simp
  moreover have "pinned F' ?s x" for x
  proof (cases "x = a")
    case False
    then have "pinned F' ?s x = pinned F s x" by (intro pinned_cong kd F') (simp_all add: is_freeing_def F')
    then show ?thesis using php_invD(9) [OF inv] by simp
  qed (use a in simp)
  moreover have "heap_ok ?s" using php_invD(2) [OF inv] by (simp add: heap_ok_def)
  moreover have "\<forall>x lo. objects ?s x = Some (Obj_Log lo) \<longrightarrow> log_wf (obj_log lo)" using php_invD(6) [OF inv] by simp
  ultimately have "heap_inv F' ?s" using php_invD(7) [OF inv] unfolding heap_inv_def h by blast
  moreover have "timer_owner_ok ?s x = timer_owner_ok s x" for x by (rule timer_owner_cong) (simp, (rule kd)+)
  then have "timer_owner_ok ?s x" for x using php_invD(4) [OF inv] by simp
  moreover have "timer_inv live me {..<next_object ?s} ?s"
    by (rule timer_inv_cong [THEN iffD2, of _ s]) (use php_invD(5) [OF inv] in simp_all)
  ultimately have "core_inv F' live me ?s" by (simp add: core_inv_def)
  then show ?thesis by (rule php_inv_grows [OF _ inv]) (auto simp: log_grows_def)
qed

lemma pin_profiler:
  assumes "php_inv F live me s" "is_profiler p s"
  shows "php_inv (one_more F (Profiler_ref p)) live me (s\<lparr>refcount := (refcount s)(p := Suc (refcount s p))\<rparr>)"
  by (rule repin [OF assms(1)]) (use php_invD(9) [OF assms(1), of p] assms(2) in \<open>auto simp: pinned_def kind_defs\<close>)

lemma unpin_profiler:
  assumes "php_inv (one_more F (Profiler_ref p)) live me s"
  shows "php_inv F live me (s\<lparr>refcount := (refcount s)(p := refcount s p - 1)\<rparr>)"
proof -
  have "is_profiler p s" using pinnedD(1) [OF php_invD(9) [OF assms]] by simp
  then show ?thesis by (intro repin [OF assms]) (use php_invD(9) [OF assms, of p] in \<open>auto simp: pinned_def kind_defs\<close>)
qed

lemma pin_timer:
  assumes "php_inv F live me s" "is_timer a s"
  shows "php_inv (one_more F (Timer_ref a)) live me (s\<lparr>refcount := (refcount s)(a := Suc (refcount s a))\<rparr>)"
  by (rule repin [OF assms(1)]) (use php_invD(9) [OF assms(1), of a] assms(2) in \<open>auto simp: pinned_def kind_defs\<close>)

lemma unpin_timer:
  assumes "php_inv (one_more F (Timer_ref a)) live me s"
  shows "php_inv F live me (s\<lparr>refcount := (refcount s)(a := refcount s a - 1)\<rparr>)"
proof -
  have "is_timer a s" using pinnedD(2) [OF php_invD(9) [OF assms]] by simp
  then show ?thesis by (intro repin [OF assms]) (use php_invD(9) [OF assms, of a] in \<open>auto simp: pinned_def kind_defs\<close>)
qed

lemma recount_kinds [simp]:
  "is_profiler p (s\<lparr>refcount := r\<rparr>) = is_profiler p s" "is_timer p (s\<lparr>refcount := r\<rparr>) = is_timer p s"
  by (simp_all add: kind_defs)

lemma on_this_profiler:
  assumes "\<And>F. triple (\<lambda>s. php_inv F live me s \<and> is_profiler p s \<and> 0 < F (Profiler_ref p)) m (\<lambda>r. php_inv (G F r) live me)"
    and "\<And>F r. G (one_more F (Profiler_ref p)) r = one_more (G F r) (Profiler_ref p)"
  shows "triple (\<lambda>s. php_inv F live me s \<and> is_profiler p s) (on_this p m) (\<lambda>r. php_inv (G F r) live me)"
  unfolding on_this_def
proof (rule triple_bind)
  show "triple (\<lambda>s. php_inv F live me s \<and> is_profiler p s) (addref p)
      (\<lambda>_ s. php_inv (one_more F (Profiler_ref p)) live me s \<and> is_profiler p s \<and> 0 < one_more F (Profiler_ref p) (Profiler_ref p))"
    by (auto simp: triple_def addref_def modify_def intro: pin_profiler)
  have "triple (php_inv (G (one_more F (Profiler_ref p)) r) live me) (pbind (delref p) (\<lambda>_. pret r)) (\<lambda>r. php_inv (G F r) live me)" for r
    by (auto simp: triple_def pbind_def delref_def modify_def assms(2) intro!: unpin_profiler [unfolded One_nat_def])
  then show "triple (\<lambda>s. php_inv (one_more F (Profiler_ref p)) live me s \<and> is_profiler p s \<and> 0 < one_more F (Profiler_ref p) (Profiler_ref p))
      (pbind m (\<lambda>r. pbind (delref p) (\<lambda>_. pret r))) (\<lambda>r. php_inv (G F r) live me)"
    by (rule triple_bind [OF assms(1)])
qed

lemma on_this_timer:
  assumes "\<And>F. triple (\<lambda>s. php_inv F live me s \<and> is_timer a s \<and> 0 < F (Timer_ref a)) m (\<lambda>_. php_inv F live me)"
  shows "triple (\<lambda>s. php_inv F live me s \<and> is_timer a s) (on_this a m) (\<lambda>_. php_inv F live me)"
  unfolding on_this_def
proof (rule triple_bind)
  show "triple (\<lambda>s. php_inv F live me s \<and> is_timer a s) (addref a)
      (\<lambda>_ s. php_inv (one_more F (Timer_ref a)) live me s \<and> is_timer a s \<and> 0 < one_more F (Timer_ref a) (Timer_ref a))"
    by (auto simp: triple_def addref_def modify_def intro: pin_timer)
  have "triple (php_inv (one_more F (Timer_ref a)) live me) (pbind (delref a) (\<lambda>_. pret r)) (\<lambda>_. php_inv F live me)" for r
    by (auto simp: triple_def pbind_def delref_def modify_def intro!: unpin_timer [unfolded One_nat_def])
  then show "triple (\<lambda>s. php_inv (one_more F (Timer_ref a)) live me s \<and> is_timer a s \<and> 0 < one_more F (Timer_ref a) (Timer_ref a))
      (pbind m (\<lambda>r. pbind (delref a) (\<lambda>_. pret r))) (\<lambda>_. php_inv F live me)"
    by (rule triple_bind [OF assms])
qed

text \<open>
  The methods that destroy the old callback: PHP code runs in between, and the object the method then writes to is
  still there because the engine holds it.
\<close>

context profiler_backend
begin

lemma held_profiler_write:
  assumes "0 < F (Profiler_ref p)" "\<And>x. pr_z_log (f x) = pr_z_log x"
  shows "triple (php_inv F live me) (set_profiler p f :: (('tl, 'z) php_scheme, unit) prog) (\<lambda>_. php_inv F live me)"
proof -
  have k: "is_profiler p s" if "php_inv F live me s" for s :: "('tl, 'z) php_scheme"
    by (rule pinnedD(1) [OF php_invD(9) [OF that] assms(1)])
  have "safe_op F live me (is_profiler p) (set_profiler p f)" by (rule safe_set_profiler [OF _ assms(2)])
  from safe_op_triple [OF this stable_kinds(2)] show ?thesis by (rule triple_conseq) (use k in auto)
qed

lemma held_timer_write:
  assumes "0 < F (Timer_ref a)"
  shows "triple (php_inv F live me) (set_timer_obj a f :: (('tl, 'z) php_scheme, unit) prog) (\<lambda>_. php_inv F live me)"
proof -
  have k: "is_timer a s" if "php_inv F live me s" for s :: "('tl, 'z) php_scheme"
    by (rule pinnedD(2) [OF php_invD(9) [OF that] assms])
  have "safe_op F live me (is_timer a) (set_timer_obj a f)" by (rule safe_set_timer)
  from safe_op_triple [OF this stable_kinds(3)] show ?thesis by (rule triple_conseq) (use k in auto)
qed

lemma replace_callback_triples:
  fixes eng :: "('tl, 'z) php_scheme engine"
  assumes eng: "safe_engine live me eng"
  shows "0 < F (Profiler_ref p) \<Longrightarrow> (\<And>x. pr_z_log (f x) = pr_z_log x) \<Longrightarrow>
      triple (\<lambda>s. php_inv F live me s \<and> is_profiler p s)
        (pbind (get_profiler p) (\<lambda>pr. pbind (release_callback eng (pr_z_callback pr)) (\<lambda>_. set_profiler p f))) (\<lambda>_. php_inv F live me)"
    and "0 < F (Timer_ref a) \<Longrightarrow> triple (\<lambda>s. php_inv F live me s \<and> is_timer a s)
        (pbind (get_timer_obj a) (\<lambda>to. pbind (release_callback eng (to_z_callback to)) (\<lambda>_. set_timer_obj a g))) (\<lambda>_. php_inv F live me)"
proof -
  have rel: "triple (\<lambda>s. php_inv F live me s \<and> K s) (release_callback eng z) (\<lambda>_. php_inv F live me)" for z K
    by (rule triple_conseq [OF release_callback_triple [OF eng]]) simp_all
  show "triple (\<lambda>s. php_inv F live me s \<and> is_profiler p s)
      (pbind (get_profiler p) (\<lambda>pr. pbind (release_callback eng (pr_z_callback pr)) (\<lambda>_. set_profiler p f))) (\<lambda>_. php_inv F live me)"
    if "0 < F (Profiler_ref p)" "\<And>x. pr_z_log (f x) = pr_z_log x"
    by (rule triple_bind [OF get_log_triple(2)], simp, rule triple_bind [OF rel], rule held_profiler_write [of F, OF that])
  show "triple (\<lambda>s. php_inv F live me s \<and> is_timer a s)
      (pbind (get_timer_obj a) (\<lambda>to. pbind (release_callback eng (to_z_callback to)) (\<lambda>_. set_timer_obj a g))) (\<lambda>_. php_inv F live me)"
    if "0 < F (Timer_ref a)"
    by (rule triple_bind [OF get_log_triple(3)], simp, rule triple_bind [OF rel], rule held_timer_write [of F, OF that])
qed

lemma clear_triple:
  fixes eng :: "('tl, 'z) php_scheme engine"
  assumes eng: "safe_engine live me eng"
  shows "triple (\<lambda>s. php_inv F live me s \<and> is_profiler p s \<and> 0 < F (Profiler_ref p)) (zim_ExcimerProfiler_clearFlushCallback eng p)
    (\<lambda>_. php_inv F live me)"
  unfolding zim_ExcimerProfiler_clearFlushCallback_def
  using replace_callback_triples(1) [OF eng, of F p "\<lambda>pr. pr\<lparr>pr_z_callback := Z_NULL, pr_max_samples := 0\<rparr>"]
  by (cases "0 < F (Profiler_ref p)") (simp_all add: triple_def)

lemma set_callback_triple:
  fixes eng :: "('tl, 'z) php_scheme engine"
  assumes eng: "safe_engine live me eng"
  shows "triple (\<lambda>s. php_inv F live me s \<and> is_timer a s \<and> 0 < F (Timer_ref a)) (zim_ExcimerTimer_setCallback eng a z)
    (\<lambda>_. php_inv F live me)"
proof (cases "0 < F (Timer_ref a)")
  case True
  let ?w = "\<lambda>z. pbind (get_timer_obj a) (\<lambda>to. pbind (release_callback eng (to_z_callback to)) (\<lambda>_. set_timer_obj a (to_z_callback_update (\<lambda>_. z))))"
  let ?P = "\<lambda>s. php_inv F live me s \<and> is_timer a s"
  have w: "triple ?P (?w z) (\<lambda>_. php_inv F live me)" for z by (rule replace_callback_triples(2) [of me eng F, OF eng True])
  have warn: "triple ?P (warn x) (\<lambda>_. php_inv F live me)" for x
    by (rule triple_conseq [OF safe_op_triple [OF safe_warn stable_kinds(3)]]) auto
  have eq: "zim_ExcimerTimer_setCallback eng a z = (if z = Z_NULL then ?w Z_NULL else pbind (gets (\<lambda>s. callable eng s z)) (\<lambda>c.
      if \<not> c then warn (Warning ''timer callback is not callable'') else ?w z))"
    by (auto simp: zim_ExcimerTimer_setCallback_def ExcimerTimer_set_callback_def fun_eq_iff pbind_def gets_def rbind_def split: sum.split prod.split)
  have "triple ?P (zim_ExcimerTimer_setCallback eng a z) (\<lambda>_. php_inv F live me)"
    unfolding eq by (intro triple_if triple_bind [OF gets_triple] w warn)
  with True show ?thesis by simp
qed (simp add: triple_def)

end

section \<open>The step relation\<close>

text \<open>Calls on logs, their entries and iterators.\<close>

datatype entry_call =
    Log_current addr
  | Log_next addr
  | Log_rewind addr
  | Log_offsetGet addr zend_long
  | Log_offsetSet addr
  | Log_offsetUnset addr
  | Iter_new addr bool
  | Iter_current addr
  | Iter_next addr
  | Iter_rewind addr
  | Iter_invalidate addr
  | Iter_free addr
  | Entry_keep addr
  | Entry_drop addr
  | Entry_getTimestamp addr
  | Entry_getEventCount addr
  | Entry_getTrace addr

text \<open>The engine copies the entry an iterator gives into the variable of the loop.\<close>

definition copy_entry :: "addr option \<Rightarrow> (('tl, 'z) php_scheme, unit) prog" where
  "copy_entry r = (case r of Some e \<Rightarrow> pbind (entry_addref e) (\<lambda>_. entry_hand_over e) | None \<Rightarrow> pret ())"

definition void :: "('s, 'a) prog \<Rightarrow> ('s, unit) prog" where
  "void m = pbind m (\<lambda>_. pret ())"

fun exec_entry :: "('tl, 'z) php_scheme engine \<Rightarrow> entry_call \<Rightarrow> (('tl, 'z) php_scheme, unit) prog" where
  "exec_entry eng (Log_current l) = pbind (zim_ExcimerLog_current l) hand_result"
| "exec_entry eng (Log_next l) = zim_ExcimerLog_next l"
| "exec_entry eng (Log_rewind l) = zim_ExcimerLog_rewind l"
| "exec_entry eng (Log_offsetGet l i) = pbind (zim_ExcimerLog_offsetGet l i) hand_result"
| "exec_entry eng (Log_offsetSet l) = ExcimerLog_offsetSet"
| "exec_entry eng (Log_offsetUnset l) = ExcimerLog_offsetUnset"
| "exec_entry eng (Iter_new l by_ref) = void (ExcimerLog_get_iterator_obj l by_ref)"
| "exec_entry eng (Iter_current i) = pbind (iterator_get_current_data i) copy_entry"
| "exec_entry eng (Iter_next i) = iterator_move_forward i"
| "exec_entry eng (Iter_rewind i) = iterator_rewind i"
| "exec_entry eng (Iter_invalidate i) = iterator_invalidate_current i"
| "exec_entry eng (Iter_free i) = pbind (ExcimerLog_iterator_dtor i) (\<lambda>_. free_iterator i)"
| "exec_entry eng (Entry_keep e) = pbind (entry_addref e) (\<lambda>_. entry_hand_over e)"
| "exec_entry eng (Entry_drop e) = pbind (entry_take_back e) (\<lambda>_. release_entry e)"
| "exec_entry eng (Entry_getTimestamp e) = void (zim_ExcimerLogEntry_getTimestamp (fp_round eng) e)"
| "exec_entry eng (Entry_getEventCount e) = void (zim_ExcimerLogEntry_getEventCount e)"
| "exec_entry eng (Entry_getTrace e) = void (zim_ExcimerLogEntry_getTrace e)"

text \<open>
  PHP code calls methods on what it holds a reference to, the engine uses an iterator until it has freed it.
\<close>

fun entry_ok :: "('tl, 'z) php_scheme \<Rightarrow> entry_call \<Rightarrow> bool" where
  "entry_ok s (Log_current l) \<longleftrightarrow> log_var l s"
| "entry_ok s (Log_next l) \<longleftrightarrow> log_var l s"
| "entry_ok s (Log_rewind l) \<longleftrightarrow> log_var l s"
| "entry_ok s (Log_offsetGet l i) \<longleftrightarrow> log_var l s"
| "entry_ok s (Log_offsetSet l) \<longleftrightarrow> log_var l s"
| "entry_ok s (Log_offsetUnset l) \<longleftrightarrow> log_var l s"
| "entry_ok s (Iter_new l by_ref) \<longleftrightarrow> log_var l s"
| "entry_ok s (Iter_current i) \<longleftrightarrow> log_iterators (ents s) i \<noteq> None"
| "entry_ok s (Iter_next i) \<longleftrightarrow> log_iterators (ents s) i \<noteq> None"
| "entry_ok s (Iter_rewind i) \<longleftrightarrow> log_iterators (ents s) i \<noteq> None"
| "entry_ok s (Iter_invalidate i) \<longleftrightarrow> log_iterators (ents s) i \<noteq> None"
| "entry_ok s (Iter_free i) \<longleftrightarrow> log_iterators (ents s) i \<noteq> None"
| "entry_ok s (Entry_keep e) \<longleftrightarrow> 0 < entry_vars (ents s) e"
| "entry_ok s (Entry_drop e) \<longleftrightarrow> 0 < entry_vars (ents s) e"
| "entry_ok s (Entry_getTimestamp e) \<longleftrightarrow> 0 < entry_vars (ents s) e"
| "entry_ok s (Entry_getEventCount e) \<longleftrightarrow> 0 < entry_vars (ents s) e"
| "entry_ok s (Entry_getTrace e) \<longleftrightarrow> 0 < entry_vars (ents s) e"

text \<open>
  A step: a method call, the last reference to a profiler or timer dropped (the destructor and the free handler are
  separate steps; all that PHP code holds of such an object counts as one reference), a reference to a log copied or dropped by PHP code (dropping the last one frees the
  log), an event posted for a timer by its handler thread, or the interrupt hook.
\<close>

datatype php_call =
    New_profiler zend_long uint32_t
  | Profiler_setPeriod addr uint32_t real
  | Profiler_setEventType addr zend_long
  | Profiler_setMaxDepth addr zend_long
  | Profiler_setFlushCallback addr callback_zval zend_long
  | Profiler_clearFlushCallback addr
  | Profiler_start addr
  | Profiler_stop addr
  | Profiler_getLog addr
  | Profiler_flush addr
  | Profiler_dtor addr
  | Profiler_free addr
  | Keep_log addr
  | Drop_log addr
  | New_timer
  | Timer_setEventType addr zend_long
  | Timer_setInterval addr real
  | Timer_setPeriod addr real
  | Timer_setCallback addr callback_zval
  | Timer_start addr
  | Timer_stop addr
  | Timer_getTime addr
  | Timer_free addr
  | Set_timeout callback_zval real
  | On_entries entry_call
  | Post_event addr c_int
  | Vm_interrupt

fun exec_call ::
  "('tl, 'z) php_lib \<Rightarrow> ('tl, 'z) php_scheme engine \<Rightarrow> (interrupt_hook \<Rightarrow> (('tl, 'z) php_scheme, unit) prog) \<Rightarrow>
   thread \<Rightarrow> php_call \<Rightarrow> (('tl, 'z) php_scheme, unit) prog" where
  "exec_call lib eng hook me (New_profiler d rnd) = void (ExcimerProfiler_new lib eng d rnd)"
| "exec_call lib eng hook me (Profiler_setPeriod p rnd x) = on_this p (zim_ExcimerProfiler_setPeriod eng rnd p x)"
| "exec_call lib eng hook me (Profiler_setEventType p n) = on_this p (zim_ExcimerProfiler_setEventType p n)"
| "exec_call lib eng hook me (Profiler_setMaxDepth p n) = on_this p (zim_ExcimerProfiler_setMaxDepth p n)"
| "exec_call lib eng hook me (Profiler_setFlushCallback p z n) = on_this p (zim_ExcimerProfiler_setFlushCallback eng p z n)"
| "exec_call lib eng hook me (Profiler_clearFlushCallback p) = on_this p (zim_ExcimerProfiler_clearFlushCallback eng p)"
| "exec_call lib eng hook me (Profiler_start p) = on_this p (zim_ExcimerProfiler_start lib me p)"
| "exec_call lib eng hook me (Profiler_stop p) = on_this p (zim_ExcimerProfiler_stop lib p)"
| "exec_call lib eng hook me (Profiler_getLog p) = pbind (on_this p (zim_ExcimerProfiler_getLog p)) hand_over"
| "exec_call lib eng hook me (Profiler_flush p) = pbind (on_this p (zim_ExcimerProfiler_flush lib eng p)) hand_over"
| "exec_call lib eng hook me (Profiler_dtor p) = ExcimerProfiler_dtor lib eng p"
| "exec_call lib eng hook me (Profiler_free p) = pbind (ExcimerProfiler_free_object lib eng me p) (\<lambda>_. free_storage p)"
| "exec_call lib eng hook me (Keep_log l) = pbind (addref l) (\<lambda>_. hand_over l)"
| "exec_call lib eng hook me (Drop_log l) = pbind (take_back l) (\<lambda>_. release_log l)"
| "exec_call lib eng hook me New_timer = void ExcimerTimer_new"
| "exec_call lib eng hook me (Timer_setEventType a n) = on_this a (zim_ExcimerTimer_setEventType a n)"
| "exec_call lib eng hook me (Timer_setInterval a x) = on_this a (zim_ExcimerTimer_setInterval eng a x)"
| "exec_call lib eng hook me (Timer_setPeriod a x) = on_this a (zim_ExcimerTimer_setPeriod eng a x)"
| "exec_call lib eng hook me (Timer_setCallback a z) = on_this a (zim_ExcimerTimer_setCallback eng a z)"
| "exec_call lib eng hook me (Timer_start a) = on_this a (zim_ExcimerTimer_start lib me a)"
| "exec_call lib eng hook me (Timer_stop a) = on_this a (zim_ExcimerTimer_stop lib a)"
| "exec_call lib eng hook me (Timer_getTime a) = void (on_this a (zim_ExcimerTimer_getTime lib eng a))"
| "exec_call lib eng hook me (Timer_free a) = pbind (ExcimerTimer_free_object lib eng me a) (\<lambda>_. free_storage a)"
| "exec_call lib eng hook me (Set_timeout z x) = void (excimer_set_timeout lib eng me z x)"
| "exec_call lib eng hook me (On_entries c) = exec_entry eng c"
| "exec_call lib eng hook me (Post_event t ov) = excimer_timer_handle me t ov"
| "exec_call lib eng hook me Vm_interrupt = excimer_timer_interrupt (event_callback lib eng) hook me"

text \<open>
  What the engine and timerlib guarantee for a step: methods are called on live objects of their
  class, PHP code calls methods on and drops only what it holds a reference to, no object is freed while one of its methods
  runs, iterators are used until they are freed, events are posted for valid timers. For
  \<^verbatim>\<open>excimer_set_timeout\<close> the value has to be callable when it is tested: otherwise see \<open>set_timeout_frees_then_writes\<close>.
\<close>

fun call_ok :: "('tl, 'z) php_scheme engine \<Rightarrow> ('tl, 'z) php_scheme \<Rightarrow> php_call \<Rightarrow> bool" where
  "call_ok eng s (New_profiler d rnd) \<longleftrightarrow> True"
| "call_ok eng s New_timer \<longleftrightarrow> True"
| "call_ok eng s Vm_interrupt \<longleftrightarrow> True"
| "call_ok eng s (Set_timeout z x) \<longleftrightarrow> (case ExcimerTimer_new s of Inl e \<Rightarrow> True | Inr (a, s') \<Rightarrow> callable eng s' z)"
| "call_ok eng s (Post_event t ov) \<longleftrightarrow> is_valid (timers s t)"
| "call_ok eng s (Keep_log l) \<longleftrightarrow> is_log l s"
| "call_ok eng s (Drop_log l) \<longleftrightarrow> log_var l s"
| "call_ok eng s (On_entries c) \<longleftrightarrow> entry_ok s c"
| "call_ok eng s (Timer_setEventType a n) \<longleftrightarrow> is_timer a s"
| "call_ok eng s (Timer_setInterval a x) \<longleftrightarrow> is_timer a s"
| "call_ok eng s (Timer_setPeriod a x) \<longleftrightarrow> is_timer a s"
| "call_ok eng s (Timer_setCallback a z) \<longleftrightarrow> is_timer a s"
| "call_ok eng s (Timer_start a) \<longleftrightarrow> is_timer a s"
| "call_ok eng s (Timer_stop a) \<longleftrightarrow> is_timer a s"
| "call_ok eng s (Timer_getTime a) \<longleftrightarrow> is_timer a s"
| "call_ok eng s (Timer_free a) \<longleftrightarrow> is_timer a s \<and> refcount s a = 1"
| "call_ok eng s (Profiler_setPeriod p rnd x) \<longleftrightarrow> is_profiler p s"
| "call_ok eng s (Profiler_setEventType p n) \<longleftrightarrow> is_profiler p s"
| "call_ok eng s (Profiler_setMaxDepth p n) \<longleftrightarrow> is_profiler p s"
| "call_ok eng s (Profiler_setFlushCallback p z n) \<longleftrightarrow> is_profiler p s"
| "call_ok eng s (Profiler_clearFlushCallback p) \<longleftrightarrow> is_profiler p s"
| "call_ok eng s (Profiler_start p) \<longleftrightarrow> is_profiler p s"
| "call_ok eng s (Profiler_stop p) \<longleftrightarrow> is_profiler p s"
| "call_ok eng s (Profiler_getLog p) \<longleftrightarrow> is_profiler p s"
| "call_ok eng s (Profiler_flush p) \<longleftrightarrow> is_profiler p s"
| "call_ok eng s (Profiler_dtor p) \<longleftrightarrow> is_profiler p s"
| "call_ok eng s (Profiler_free p) \<longleftrightarrow> is_profiler p s \<and> refcount s p = 1"

text \<open>
  Between two requests there are no objects, entries and iterators and no timer is in use. At the start of a
  request the thread's data are as \<^verbatim>\<open>excimer_timer_thread_init\<close> leaves them.
\<close>

definition entries_gone :: "entry_heap \<Rightarrow> bool" where
  "entries_gone h \<longleftrightarrow> (\<forall>a. entry_objs h a = None \<and> log_current h a = None \<and> log_iterators h a = None \<and> entry_vars h a = 0)"

definition request_idle :: "('tl, 'z) php_scheme \<Rightarrow> bool" where
  "request_idle s \<longleftrightarrow> (\<forall>a. objects s a = None \<and> php_refs s a = 0) \<and> entries_gone (ents s) \<and> (\<forall>t. \<not> is_valid (timers s t)) \<and>
     (\<forall>t < next_object s. \<not> is_running (timers s t) \<and> nx s t = None \<and> pv s t = None)"

inductive php_reachable ::
  "('tl, 'z) php_lib \<Rightarrow> ('tl, 'z) php_scheme engine \<Rightarrow> (interrupt_hook \<Rightarrow> (('tl, 'z) php_scheme, unit) prog) \<Rightarrow>
   thread \<Rightarrow> ('tl, 'z) php_scheme \<Rightarrow> bool"
  for lib eng hook me where
  request_start: "excimer_timer_thread_init me s = Inr ((), s') \<Longrightarrow> request_idle s \<Longrightarrow> php_reachable lib eng hook me s'"
| step: "php_reachable lib eng hook me s \<Longrightarrow> call_ok eng s c \<Longrightarrow> exec_call lib eng hook me c s = Inr ((), s') \<Longrightarrow>
    php_reachable lib eng hook me s'"

section \<open>Every step is safe\<close>

context profiler_backend
begin

lemma void_triple: "triple P m (\<lambda>_. Q) \<Longrightarrow> triple P (void m) (\<lambda>_. Q)"
  unfolding void_def by (rule triple_bind) (auto intro: triple_pret)

lemma method_triple: "safe_op F live me K m \<Longrightarrow> stable K \<Longrightarrow> triple (\<lambda>s. php_inv F live me s \<and> K s) m (\<lambda>_. php_inv F live me)"
  by (rule triple_conseq [OF safe_op_triple]) auto

lemma dtor_triple:
  assumes eng: "safe_engine live me eng"
  shows "triple (\<lambda>s. php_inv F live me s \<and> is_profiler p s) (ExcimerProfiler_dtor lib eng p) (\<lambda>_. php_inv F live me)"
proof -
  have flush: "triple (\<lambda>s. php_inv F live me s \<and> is_profiler p s)
      (pbind (ExcimerProfiler_flush lib eng p) (\<lambda>old. release_log old)) (\<lambda>_. php_inv F live me)"
    by (rule triple_bind [OF flush_triple [OF eng] release_triple])
  show ?thesis unfolding triple_def
  proof (intro allI impI, elim conjE)
    fix s :: "('tl, 'z) php_scheme"
    assume s: "php_inv F live me s" "is_profiler p s"
    then obtain pr lo where "profiler_at s p pr lo" by (rule php_inv_profiler)
    then have "ExcimerProfiler_dtor lib eng p s = (if entries_size (obj_log lo) \<noteq> 0
        then pbind (ExcimerProfiler_flush lib eng p) (\<lambda>old. release_log old) s else Inr ((), s))"
      by (simp add: ExcimerProfiler_dtor_def pbind_def [of "check_object f x" for f x] check_object_def profiler_at_def)
    then show "case ExcimerProfiler_dtor lib eng p s of Inl e \<Rightarrow> \<not> memory_fault e | Inr (x, s') \<Rightarrow> php_inv F live me s'"
      using flush s by (simp add: triple_def)
  qed
qed

lemma hand_over_triple: "triple (php_inv (one_more F (Log_ref a)) live me) (hand_over a) (\<lambda>_. php_inv F live me)"
  by (auto simp: triple_def hand_over_def modify_def intro: hand_over_inv)

lemma getLog_triple:
  "triple (\<lambda>s :: ('tl, 'z) php_scheme. php_inv F live me s \<and> is_profiler p s) (zim_ExcimerProfiler_getLog p) (\<lambda>a. php_inv (one_more F (Log_ref a)) live me)"
  unfolding triple_def
proof (intro allI impI, elim conjE)
  fix s :: "('tl, 'z) php_scheme"
  assume s: "php_inv F live me s" "is_profiler p s"
  then obtain pr lo where at: "profiler_at s p pr lo" by (rule php_inv_profiler)
  let ?s = "s\<lparr>refcount := (refcount s)(pr_z_log pr := Suc (refcount s (pr_z_log pr)))\<rparr>"
  have "is_log (pr_z_log pr) s" using at by (simp add: profiler_at_def is_log_def)
  then have "php_inv (one_more F (Log_ref (pr_z_log pr))) live me ?s"
    by (intro tripleD(2) [OF addref_triple]) (use s in \<open>simp_all add: addref_def modify_def\<close>)
  moreover have "zim_ExcimerProfiler_getLog p s = Inr (pr_z_log pr, ?s)"
    using at by (simp add: zim_ExcimerProfiler_getLog_def pbind_def check_object_def profiler_at_def addref_def modify_def)
  ultimately show "case zim_ExcimerProfiler_getLog p s of Inl e \<Rightarrow> \<not> memory_fault e
      | Inr (a, s') \<Rightarrow> php_inv (one_more F (Log_ref a)) live me s'" by simp
qed

lemma ref_triples:
  "triple (\<lambda>s. php_inv F live me s \<and> is_log a s) (pbind (addref a) (\<lambda>_. hand_over a)) (\<lambda>_. php_inv F live me)"
  "triple (\<lambda>s. php_inv F live me s \<and> log_var a s) (pbind (take_back a) (\<lambda>_. release_log a)) (\<lambda>_. php_inv F live me)"
proof -
  show "triple (\<lambda>s. php_inv F live me s \<and> is_log a s) (pbind (addref a) (\<lambda>_. hand_over a)) (\<lambda>_. php_inv F live me)"
    by (rule triple_bind [OF addref_triple hand_over_triple])
  have "triple (\<lambda>s. php_inv F live me s \<and> log_var a s) (take_back a) (\<lambda>_. php_inv (one_more F (Log_ref a)) live me)"
    using take_back_inv by (auto simp: triple_def take_back_def modify_def log_var_def)
  then show "triple (\<lambda>s. php_inv F live me s \<and> log_var a s) (pbind (take_back a) (\<lambda>_. release_log a)) (\<lambda>_. php_inv F live me)"
    by (rule triple_bind [OF _ release_triple])
qed

lemma new_timer_triple:
  "triple (php_inv F live me) ExcimerTimer_new (\<lambda>a s. php_inv F live me s \<and> is_timer a s)"
proof -
  have "triple (php_inv F live me) (excimer_object_alloc_init (Obj_Timer zero_timer_obj)) (\<lambda>a s. php_inv F live me s \<and> is_timer a s)"
    by (auto simp: triple_def alloc_run is_timer_def intro: php_inv_new)
  then show ?thesis unfolding ExcimerTimer_new_def
    by (rule triple_bind) (rule triple_bind [OF safe_op_triple [OF safe_set_timer]], auto intro: triple_pret)
qed

lemma set_timeout_triple:
  fixes eng :: "('tl, 'z) php_scheme engine"
  shows "triple (\<lambda>s. php_inv F live me s \<and> call_ok eng s (Set_timeout z x)) (excimer_set_timeout lib eng me z x)
    (\<lambda>_. php_inv F live me)"
proof -
  let ?K = "\<lambda>a s. php_inv F live me s \<and> is_timer a s"
  let ?new = "\<lambda>a s. ?K a s \<and> callable eng s z \<and> (\<exists>to. objects s a = Some (Obj_Timer to) \<and> to_z_callback to = Z_UNDEF)"
  have fresh: "\<exists>to. objects s' a = Some (Obj_Timer to) \<and> to_z_callback to = Z_UNDEF"
    if "ExcimerTimer_new s = Inr (a, s')" for s s' :: "('tl, 'z) php_scheme" and a
    using that by (auto simp: ExcimerTimer_new_def alloc_run pbind_def set_timer_obj_def check_object_def put_object_def modify_def)
  have new: "triple (\<lambda>s. php_inv F live me s \<and> call_ok eng s (Set_timeout z x)) ExcimerTimer_new ?new"
    using new_timer_triple [of F me] fresh by (fastforce simp: triple_def split: sum.splits)
  have cb: "triple (?new a) (ExcimerTimer_set_callback eng a z) (\<lambda>ok s. ?K a s \<and> ok)" for a
  proof -
    have set: "triple (?K a) (pbind (set_timer_obj a (to_z_callback_update (\<lambda>_. z))) (\<lambda>_. pret True)) (\<lambda>ok s. ?K a s \<and> ok)"
      by (intro triple_bind [OF safe_op_triple [OF safe_set_timer]] triple_pret) auto
    have "ExcimerTimer_set_callback eng a z s = pbind (set_timer_obj a (to_z_callback_update (\<lambda>_. z))) (\<lambda>_. pret True) s"
      if "?new a s" for s
      using that by (auto simp: ExcimerTimer_set_callback_def pbind_def [of "gets f" for f] gets_def pbind_def [of "check_object f x" for f x]
          check_object_def release_callback_def pbind_def [of "pret ()"])
    then show ?thesis using set by (auto simp: triple_def)
  qed
  have rest: "triple (?K a) (pbind (set_timer_obj a f) (\<lambda>_. pbind (ExcimerTimer_start lib me a) (\<lambda>_. pret r)))
      (\<lambda>_. php_inv F live me)" for a f r
    by (intro triple_bind [OF safe_op_triple [OF safe_set_timer]] triple_bind [OF safe_op_triple [OF safe_timer_start]]
        triple_pret) auto
  show ?thesis unfolding excimer_set_timeout_def
  proof (rule triple_bind [OF new], rule triple_bind [OF cb])
    fix a ok
    have "triple (\<lambda>s. ?K a s \<and> ok) (if ok then pret (Some a) else pbind (release_timer_obj lib eng me a) (\<lambda>_. pret None)) (\<lambda>_. ?K a)"
      by (cases ok) (auto intro: triple_pret simp: triple_def)
    then show "triple (\<lambda>s. ?K a s \<and> ok) (pbind (if ok then pret (Some a) else pbind (release_timer_obj lib eng me a) (\<lambda>_. pret None))
        (\<lambda>ret. pbind (set_timer_obj a (to_initial_update (\<lambda>_. timerlib_timespec_from_double (fp_round eng) x))) (\<lambda>_.
          pbind (ExcimerTimer_start lib me a) (\<lambda>_. pret ret)))) (\<lambda>_. php_inv F live me)"
      by (rule triple_bind) (rule rest)
  qed
qed

lemma valid_below:
  assumes "php_inv F live me s" "is_valid (timers s t)"
  shows "t \<in> {..<next_object s}"
proof -
  have "timer_owner_ok s t" by (rule php_invD(4) [OF assms(1)])
  then have "is_profiler t s \<or> is_timer t s"
    using assms by (cases "callback (timers s t)") (simp_all add: timer_owner_ok_def)
  then show ?thesis by (rule is_object_below [OF assms(1)])
qed

lemma post_triple:
  "triple (\<lambda>s. php_inv F live me s \<and> is_valid (timers s t)) (excimer_timer_handle me t ov) (\<lambda>_. php_inv F live me)"
proof (rule tripleI)
  fix s x s'
  assume s: "php_inv F live me s \<and> is_valid (timers s t)" and run: "excimer_timer_handle me t ov s = Inr (x, s')"
  have t: "t \<in> {..<next_object s}" using s by (intro valid_below) auto
  have "timer_inv live me {..<next_object s} s'"
    using tripleD(2) [OF handle_triple [OF t], of live me s ov x s'] s run by (simp add: inv_defs)
  then show "php_inv F live me s'" using php_inv_frame(1) [OF conjunct1 [OF s] keepsD [OF keeps_handle run]] by blast
next
  fix s e
  assume s: "php_inv F live me s \<and> is_valid (timers s t)" and run: "excimer_timer_handle me t ov s = Inl e"
  have t: "t \<in> {..<next_object s}" using s by (intro valid_below) auto
  show "\<not> memory_fault e" using tripleD(1) [OF handle_triple [OF t], of live me s ov e] s run by (simp add: inv_defs)
qed

lemma log_var_is_log: "php_inv F live me s \<Longrightarrow> log_var l s \<Longrightarrow> is_log l s"
  by (auto simp: is_log_def elim: log_var_log [OF php_inv_parts(1)])

lemma log_method_triples:
  "triple (\<lambda>s. php_inv F live me s \<and> log_var l s) (pbind (zim_ExcimerLog_current l) hand_result) (\<lambda>_. php_inv F live me)"
  "triple (\<lambda>s. php_inv F live me s \<and> log_var l s) (pbind (zim_ExcimerLog_offsetGet l i) hand_result) (\<lambda>_. php_inv F live me)"
  "triple (\<lambda>s. php_inv F live me s \<and> log_var l s) (void (ExcimerLog_get_iterator_obj l by_ref)) (\<lambda>_. php_inv F live me)"
  "triple (\<lambda>s. php_inv F live me s \<and> log_var l s) ExcimerLog_offsetSet (\<lambda>_. php_inv F live me)"
  "triple (\<lambda>s. php_inv F live me s \<and> log_var l s) ExcimerLog_offsetUnset (\<lambda>_. php_inv F live me)"
proof -
  show "triple (\<lambda>s. php_inv F live me s \<and> log_var l s) (pbind (zim_ExcimerLog_current l) hand_result) (\<lambda>_. php_inv F live me)"
    by (rule triple_conseq [OF triple_bind [OF current_triple hand_result_triple]]) (auto intro: log_var_is_log)
  show "triple (\<lambda>s. php_inv F live me s \<and> log_var l s) (pbind (zim_ExcimerLog_offsetGet l i) hand_result) (\<lambda>_. php_inv F live me)"
    by (rule triple_conseq [OF triple_bind [OF offsetGet_triple hand_result_triple]]) (auto intro: log_var_is_log)
  show "triple (\<lambda>s. php_inv F live me s \<and> log_var l s) (void (ExcimerLog_get_iterator_obj l by_ref)) (\<lambda>_. php_inv F live me)"
    by (rule triple_conseq [OF void_triple [OF get_iterator_obj_triple]]) (auto intro: log_var_is_log)
  have w: "triple (\<lambda>s. php_inv F live me s \<and> log_var l s) (warn w) (\<lambda>_. php_inv F live me)" for w
    by (rule triple_conseq [OF safe_op_triple [OF safe_warn stable_kinds(1)]]) auto
  show "triple (\<lambda>s. php_inv F live me s \<and> log_var l s) ExcimerLog_offsetSet (\<lambda>_. php_inv F live me)"
    and "triple (\<lambda>s. php_inv F live me s \<and> log_var l s) ExcimerLog_offsetUnset (\<lambda>_. php_inv F live me)"
    unfolding ExcimerLog_offsetSet_def ExcimerLog_offsetUnset_def by (rule w)+
qed

lemma copy_entry_triple:
  "triple (\<lambda>s. php_inv F live me s \<and> (\<forall>e. r = Some e \<longrightarrow> entry_objs (ents s) e \<noteq> None)) (copy_entry r) (\<lambda>_. php_inv F live me)"
  using entry_var_triples(2) by (cases r) (auto simp: copy_entry_def intro: triple_pret)

lemma entry_accessor_triples:
  "triple (\<lambda>s. php_inv F live me s \<and> 0 < entry_vars (ents s) e) (void (zim_ExcimerLogEntry_getTimestamp fl e)) (\<lambda>_. php_inv F live me)"
  "triple (\<lambda>s. php_inv F live me s \<and> 0 < entry_vars (ents s) e) (void (zim_ExcimerLogEntry_getEventCount e)) (\<lambda>_. php_inv F live me)"
  "triple (\<lambda>s. php_inv F live me s \<and> 0 < entry_vars (ents s) e) (void (zim_ExcimerLogEntry_getTrace e)) (\<lambda>_. php_inv F live me)"
  unfolding zim_ExcimerLogEntry_getTimestamp_def zim_ExcimerLogEntry_getEventCount_def zim_ExcimerLogEntry_getTrace_def
  by (intro void_triple entry_var_triples(3) entry_reads_at; assumption)+

lemma entry_keep_triple:
  "triple (\<lambda>s. php_inv F live me s \<and> 0 < entry_vars (ents s) e) (pbind (entry_addref e) (\<lambda>_. entry_hand_over e)) (\<lambda>_. php_inv F live me)"
  by (rule triple_conseq [OF entry_var_triples(2)]) (auto dest: entry_none(2) [OF ent_invD(1) [OF php_inv_parts(2)]])

lemmas entry_triples = log_method_triples next_triple rewind_triple iterator_move_triples iterator_free_triple
  triple_bind [OF current_data_triple copy_entry_triple] entry_accessor_triples entry_keep_triple entry_var_triples(1)

lemma exec_entry_triple:
  "triple (\<lambda>s. php_inv F live me s \<and> entry_ok s c) (exec_entry eng c) (\<lambda>_. php_inv F live me)"
  by (cases c) (simp_all del: not_None_eq add: entry_triples)

lemma on_this_op:
  "(\<And>F. safe_op F live me (is_profiler p) m) \<Longrightarrow> triple (\<lambda>s. php_inv F live me s \<and> is_profiler p s) (on_this p m) (\<lambda>_. php_inv F live me)"
  "(\<And>F. safe_op F live me (is_timer a) m) \<Longrightarrow> triple (\<lambda>s. php_inv F live me s \<and> is_timer a s) (on_this a m) (\<lambda>_. php_inv F live me)"
proof -
  show "triple (\<lambda>s. php_inv F live me s \<and> is_profiler p s) (on_this p m) (\<lambda>_. php_inv F live me)"
    if m: "\<And>F. safe_op F live me (is_profiler p) m"
    by (rule on_this_profiler [where G = "\<lambda>F r. F"], rule triple_conseq [OF safe_op_triple [OF m stable_kinds(2)]]) auto
  show "triple (\<lambda>s. php_inv F live me s \<and> is_timer a s) (on_this a m) (\<lambda>_. php_inv F live me)"
    if m: "\<And>F. safe_op F live me (is_timer a) m"
    by (rule on_this_timer, rule triple_conseq [OF safe_op_triple [OF m stable_kinds(3)]]) auto
qed

lemma on_this_log:
  assumes "\<And>F. triple (\<lambda>s. php_inv F live me s \<and> is_profiler p s) m (\<lambda>l. php_inv (one_more F (Log_ref l)) live me)"
  shows "triple (\<lambda>s. php_inv F live me s \<and> is_profiler p s) (on_this p m) (\<lambda>l. php_inv (one_more F (Log_ref l)) live me)"
  by (rule on_this_profiler [where G = "\<lambda>F l. one_more F (Log_ref l)"], rule triple_conseq [OF assms], auto simp: fun_upd_twist)

lemmas method_triples =
  safe_profiler_methods [THEN on_this_op(1)] safe_timer_methods [THEN on_this_op(2)]

lemma callback_method_triples:
  fixes eng :: "('tl, 'z) php_scheme engine"
  assumes "safe_engine live me eng"
  shows "triple (\<lambda>s. php_inv F live me s \<and> is_profiler p s) (on_this p (zim_ExcimerProfiler_clearFlushCallback eng p)) (\<lambda>_. php_inv F live me)"
    "triple (\<lambda>s. php_inv F live me s \<and> is_timer a s) (on_this a (zim_ExcimerTimer_setCallback eng a z)) (\<lambda>_. php_inv F live me)"
  using on_this_profiler [where G = "\<lambda>F r. F", OF clear_triple [OF assms]] on_this_timer [OF set_callback_triple [OF assms]] by simp_all

lemma exec_triple:
  fixes eng :: "('tl, 'z) php_scheme engine"
  assumes eng: "safe_engine live me eng" and hook: "\<And>F h. triple (php_inv F live me) (hook h) (\<lambda>_. php_inv F live me)"
  shows "triple (\<lambda>s. php_inv F live me s \<and> call_ok eng s c) (exec_call lib eng hook me c) (\<lambda>_. php_inv F live me)"
proof (cases c)
  case (Set_timeout z x)
  with void_triple [OF set_timeout_triple] show ?thesis by simp
qed (simp_all add: void_triple method_triples callback_method_triples [OF eng] dtor_triple [OF eng] free_profiler_triple [OF eng, unfolded One_nat_def]
    free_timer_triple [OF eng, unfolded One_nat_def] post_triple new_triple interrupt_triple [OF eng hook] triple_conseq [OF new_timer_triple]
    triple_bind [OF on_this_log [OF getLog_triple] hand_over_triple] triple_bind [OF on_this_log [OF flush_triple [OF eng]] hand_over_triple]
    ref_triples zim_ExcimerProfiler_flush_def exec_entry_triple)

lemma start_php_inv:
  fixes s :: "('tl, 'z) php_scheme"
  assumes "excimer_timer_thread_init me s = Inr ((), s')" and idle: "request_idle s"
  shows "php_inv (\<lambda>_. 0) live me s'"
proof -
  note o = conjunct1 [OF idle [unfolded request_idle_def]]
  have en: "entries_gone (ents s)" and v: "\<forall>t. \<not> is_valid (timers s t)"
    and t: "\<forall>t < next_object s. \<not> is_running (timers s t) \<and> nx s t = None \<and> pv s t = None"
    using idle by (simp_all add: request_idle_def)
  have s': "objects s' = objects s" "timers s' = timers s" "php_refs s' = php_refs s" "ents s' = ents s" "next_object s' = next_object s"
    using assms(1) by (auto simp: excimer_timer_thread_init_def modify_def)
  have "heap_inv (\<lambda>_. 0) s'" using o s' by (simp add: heap_inv_def heap_ok_def counted_def pinned_def held_def holds_def kind_defs)
  moreover have "timer_owner_ok s' a" for a using v s' by (simp add: timer_owner_ok_def)
  moreover have "timer_reachable lib me {..<next_object s'} s'"
    by (rule timer_reachable.start_thread [OF assms(1)]) (use v t s'(5) in auto)
  then have "timer_inv live me {..<next_object s'} s'" by (rule reachable_inv)
  ultimately have "core_inv (\<lambda>_. 0) live me s'" by (simp add: core_inv_def)
  moreover have "ent_inv (\<lambda>_. 0) s'"
    using en by (simp add: ent_inv_def s' entries_gone_def ents_ok_def entry_counted_def cache_ref_def cached_def entry_log_refs_def live_count_def
      split: sum.split)
  ultimately show ?thesis by (rule php_invI)
qed

lemma reachable_php_inv:
  assumes eng: "safe_engine live me eng" and hook: "\<And>F h. triple (php_inv F live me) (hook h) (\<lambda>_. php_inv F live me)"
    and r: "php_reachable lib eng hook me s"
  shows "php_inv (\<lambda>_. 0) live me s"
  using r
proof (induction rule: php_reachable.induct)
  case (step s c s')
  then show ?case using tripleD(2) [OF exec_triple [where hook = hook, OF eng hook]] by blast
qed (rule start_php_inv)

end

end
