(* ===== verification/Entry_Refinement.thy ===== *)
theory Entry_Refinement
  imports Entry_Safety
begin

text \<open>
  The operations on entry objects and iterators in the heap implement those of \<open>Php_Log\<close>, in which an entry
  is its index: the same cursor moves, the same entries, and nothing else of the log changes.
\<close>

section \<open>The views\<close>

definition entry_index :: "entry_heap \<Rightarrow> addr option \<Rightarrow> zend_long option" where
  "entry_index h z = (case z of None \<Rightarrow> None | Some e \<Rightarrow> map_option en_index (entry_objs h e))"

definition log_view :: "addr \<Rightarrow> ('tl, 'z) php_scheme \<Rightarrow> log_obj option" where
  "log_view l s = (case objects s l of
     Some (Obj_Log lo) \<Rightarrow> Some (lo\<lparr>z_current := entry_index (ents s) (log_current (ents s) l)\<rparr>)
   | _ \<Rightarrow> None)"

definition iterator_view :: "addr \<Rightarrow> ('tl, 'z) php_scheme \<Rightarrow> (excimer_log \<times> log_iterator) option" where
  "iterator_view i s = (case log_iterators (ents s) i of
     None \<Rightarrow> None
   | Some it \<Rightarrow> (case objects s (io_log it) of
       Some (Obj_Log lo) \<Rightarrow> Some (obj_log lo, \<lparr>it_current = entry_index (ents s) (io_current it), it_index = io_index it\<rparr>)
     | _ \<Rightarrow> None))"

text \<open>
  A program implements a function on what a view shows: it returns, its result read as \<open>res\<close> is the function's
  and the view of the state it leaves is the new value.
\<close>

definition implements ::
  "('s \<Rightarrow> 'v option) \<Rightarrow> ('s \<Rightarrow> 'a \<Rightarrow> 'r) \<Rightarrow> ('s, 'a) prog \<Rightarrow> ('v \<Rightarrow> 'r \<times> 'v) \<Rightarrow> 's \<Rightarrow> bool" where
  "implements view res m f s \<longleftrightarrow>
     (\<exists>v x s' v'. view s = Some v \<and> m s = Inr (x, s') \<and> view s' = Some v' \<and> f v = (res s' x, v'))"

lemma log_view_at: "objects s l = Some (Obj_Log lo) \<Longrightarrow>
    log_view l s = Some (lo\<lparr>z_current := entry_index (ents s) (log_current (ents s) l)\<rparr>)"
  by (simp add: log_view_def)

lemma entry_index_upd:
  "z \<noteq> Some e \<Longrightarrow> entry_index (h\<lparr>entry_objs := (entry_objs h)(e := x), entry_count := c, next_entry := n\<rparr>) z = entry_index h z"
  "entry_index (h\<lparr>log_current := cur\<rparr>) z = entry_index h z" "entry_index (h\<lparr>log_iterators := its\<rparr>) z = entry_index h z"
  "entry_index (h\<lparr>entry_count := c\<rparr>) z = entry_index h z"
  by (auto simp: entry_index_def split: option.split)

section \<open>What releasing an entry leaves alone\<close>

lemma release_entry_objects: "release_entry e s = Inr (x, s') \<Longrightarrow> objects s' l = objects s l \<or> objects s' l = None"
  by (auto simp: release_entry_def pbind_def get_entry_def entry_delref_def upd_ents_def modify_def gets_def ExcimerLogEntry_free_object_def
    take_back_def set_entry_def free_entry_def release_log_def check_object_def delref_def free_storage_def rbind_Inr_iff
    split: option.splits if_splits php_object.splits)

lemma release_current_objects: "release_current z s = Inr (x, s') \<Longrightarrow> objects s' l = objects s l \<or> objects s' l = None"
  by (cases z) (auto simp: release_current_def dest: release_entry_objects)

lemma clear_current_run:
  assumes inv: "php_inv F live me s" and v: "log_var l s" and lo: "objects s l = Some (Obj_Log lo)"
  obtains s' where "clear_current l s = Inr ((), s')" "php_inv F live me s'" "log_current (ents s') l = None"
    "objects s' l = Some (Obj_Log lo)"
proof -
  note p = php_inv_parts [OF inv]
  have l: "is_log l s" using lo by (simp add: is_log_def)
  obtain s' where s': "pbind (release_current (log_current (ents s) l)) (\<lambda>_. set_current l None) s = Inr ((), s')"
    "core_inv F live me s'" "ent_inv (\<lambda>_. 0) s'" "entry_log_refs (ents s') l < php_refs s' l" "log_current (ents s') l = None"
    by (rule clear_log_current [OF p l]) (use v in \<open>simp add: log_var_def\<close>)
  obtain s1 where s1: "release_current (log_current (ents s) l) s = Inr ((), s1)" "set_current l None s1 = Inr ((), s')"
    using s'(1) by (auto simp: pbind_def rbind_Inr_iff)
  have "objects s' = objects s1" using s1(2)
    by (auto simp: set_current_def pbind_def check_object_def upd_ents_def modify_def rbind_Inr_iff split: option.splits php_object.splits)
  moreover have "objects s' l \<noteq> None" using core_none(2) [OF s'(2), of l] s'(4) by (auto simp: is_log_def)
  ultimately have "objects s' l = Some (Obj_Log lo)" using release_current_objects [OF s1(1), of l] lo by auto
  moreover have "clear_current l s = Inr ((), s')"
    using s'(1) by (simp add: clear_current_def pbind_def [of "gets f" for f] gets_def)
  ultimately show thesis using that s'(2,3,5) by (simp add: php_inv_def)
qed

lemma clear_iterator_run:
  assumes inv: "php_inv F live me s" and i: "log_iterators (ents s) i = Some it" and lo: "objects s (io_log it) = Some (Obj_Log lo)"
  obtains s' where "pbind (release_current (io_current it)) (\<lambda>_. set_iterator i (io_current_update (\<lambda>_. None))) s = Inr ((), s')"
    "log_iterators (ents s') i = Some (it\<lparr>io_current := None\<rparr>)" "objects s' (io_log it) = Some (Obj_Log lo)"
proof -
  note p = php_inv_parts [OF inv]
  let ?m = "pbind (release_current (io_current it)) (\<lambda>_. set_iterator i (io_current_update (\<lambda>_. None)))"
  obtain s' where s': "?m s = Inr ((), s')" "core_inv F live me s'" "ent_inv (\<lambda>_. 0) s'"
    "log_iterators (ents s') i = Some (it\<lparr>io_current := None\<rparr>)" by (rule clear_iterator_current [OF p i])
  obtain s1 where s1: "release_current (io_current it) s = Inr ((), s1)" "set_iterator i (io_current_update (\<lambda>_. None)) s1 = Inr ((), s')"
    using s'(1) by (auto simp: pbind_def rbind_Inr_iff)
  have "objects s' = objects s1" using s1(2)
    by (auto simp: set_iterator_def pbind_def get_iterator_def upd_ents_def modify_def rbind_Inr_iff split: option.splits)
  moreover have "objects s' (io_log it) \<noteq> None"
    using referenced_log(3) [OF s'(2,3), of _ _ "io_log it" i "it\<lparr>io_current := None\<rparr>"] s'(4) by (auto simp: is_log_def)
  ultimately have "objects s' (io_log it) = Some (Obj_Log lo)" using release_current_objects [OF s1(1), of "io_log it"] lo by auto
  then show thesis using that s'(1,4) by blast
qed

section \<open>Methods of logs\<close>

text \<open>Making an entry changes neither the log nor what is cached, and gives an entry for the index.\<close>

lemma with_entry_obj_views:
  assumes inv: "php_inv F live me s"
  shows "cached (ents s) k = z \<Longrightarrow> entry_index (ents (with_entry_obj l index s)) z = entry_index (ents s) z"
    "entry_index (ents (with_entry_obj l index s)) (Some (next_entry (ents s))) = Some index"
    "objects (with_entry_obj l index s) = objects s" "log_current (ents (with_entry_obj l index s)) = log_current (ents s)"
    "log_iterators (ents (with_entry_obj l index s)) = log_iterators (ents s)"
proof -
  note ok = ent_invD(1) [OF php_inv_parts(2) [OF inv]]
  show "entry_index (ents (with_entry_obj l index s)) z = entry_index (ents s) z" if "cached (ents s) k = z"
    using that entry_none(3) [OF ok ents_okD(1) [OF ok order_refl], of k]
    by (auto simp: with_entry_obj_def intro!: entry_index_upd(1))
qed (simp_all add: with_entry_obj_def entry_index_def)

lemma init_entry_index:
  "ExcimerLog_init_entry lg i = (if excimer_log_get_entry lg i = None then None else Some i)"
  by (auto simp: ExcimerLog_init_entry_def split: option.split)

lemma offsetGet_implements:
  assumes inv: "php_inv F live me s" and lo: "objects s l = Some (Obj_Log lo)"
  shows "implements (log_view l) (\<lambda>s. entry_index (ents s)) (zim_ExcimerLog_offsetGet l i) (\<lambda>ob. (ExcimerLog_offsetGet ob i, ob)) s"
proof -
  let ?s = "with_entry_obj l i s"
  note v = with_entry_obj_views [OF inv, where l = l and index = i]
  have c: "entry_index (ents ?s) (log_current (ents s) l) = entry_index (ents s) (log_current (ents s) l)"
    by (rule v(1) [of "Inl l"]) (simp add: cached_def)
  have "log_view l ?s = log_view l s" using lo c v(3,4) by (simp add: log_view_at)
  then show ?thesis using lo v(2)
    by (auto simp: implements_def log_view_at zim_ExcimerLog_offsetGet_def pbind_def check_object_def init_entry_run [OF lo]
      ExcimerLog_offsetGet_def init_entry_index entry_index_def)
qed

lemma current_implements:
  assumes inv: "php_inv F live me s" and lo: "objects s l = Some (Obj_Log lo)"
  shows "implements (log_view l) (\<lambda>s. entry_index (ents s)) (zim_ExcimerLog_current l) ExcimerLog_current s"
proof -
  note ok = ent_invD(1) [OF php_inv_parts(2) [OF inv]]
  let ?i = "iter_entry_index lo" and ?e = "next_entry (ents s)"
  let ?s = "with_entry_obj l (iter_entry_index lo) s"
  note v = with_entry_obj_views [OF inv, where l = l and index = ?i]
  show ?thesis
  proof (cases "log_current (ents s) l")
    case None
    show ?thesis
    proof (cases "?i < entries_size (obj_log lo) \<and> excimer_log_get_entry (obj_log lo) ?i \<noteq> None")
      case True
      then show ?thesis using None lo v
        by (auto simp: implements_def log_view_at zim_ExcimerLog_current_def pbind_def check_object_def gets_def init_entry_run [OF lo]
          set_current_def upd_ents_def modify_def entry_addref_def ExcimerLog_current_def init_entry_index entry_index_upd entry_index_def)
    next
      case False
      then show ?thesis using None lo
        by (auto simp: implements_def log_view_at zim_ExcimerLog_current_def pbind_def check_object_def gets_def init_entry_run [OF lo]
          set_current_def upd_ents_def modify_def ExcimerLog_current_def init_entry_index entry_index_upd entry_index_def)
    qed
  next
    case (Some e)
    have "entry_objs (ents s) e \<noteq> None" using entry_none(3) [OF ok, of e "Inl l"] Some by (auto simp: cached_def)
    then show ?thesis using Some lo
      by (auto simp: implements_def log_view_at zim_ExcimerLog_current_def pbind_def check_object_def gets_def
        upd_ents_def modify_def entry_addref_def ExcimerLog_current_def entry_index_upd entry_index_def)
  qed
qed

lemma next_implements:
  assumes inv: "php_inv F live me s" and v: "log_var l s" and lo: "objects s l = Some (Obj_Log lo)"
  shows "implements (log_view l) (\<lambda>_ _. ()) (zim_ExcimerLog_next l) (\<lambda>ob. ((), ExcimerLog_next ob)) s"
proof -
  obtain s' where s': "clear_current l s = Inr ((), s')" "log_current (ents s') l = None" "objects s' l = Some (Obj_Log lo)"
    by (rule clear_current_run [OF inv v lo])
  have eq: "zim_ExcimerLog_next l = (pbind (get_log l) (\<lambda>_. pbind (clear_current l) (\<lambda>_. pbind (get_log l) (\<lambda>lo.
      if iter_entry_index lo < entries_size (obj_log lo) then set_iter_index l (\<lambda>i. i + 1) else pret ()))) :: (_, unit) prog)"
    unfolding zim_ExcimerLog_next_def clear_current_def pbind_assoc ..
  show ?thesis using lo s' unfolding eq
    by (auto simp: implements_def log_view_at pbind_def check_object_def set_iter_index_def put_object_def modify_def
      ExcimerLog_next_def entry_index_def Let_def)
qed

lemma rewind_implements:
  assumes inv: "php_inv F live me s" and v: "log_var l s" and lo: "objects s l = Some (Obj_Log lo)"
  shows "implements (log_view l) (\<lambda>_ _. ()) (zim_ExcimerLog_rewind l) (\<lambda>ob. ((), ExcimerLog_rewind ob)) s"
proof -
  let ?lo = "lo\<lparr>iter_entry_index := 0\<rparr>"
  let ?s = "s\<lparr>objects := (objects s)(l \<mapsto> Obj_Log ?lo)\<rparr>"
  have "php_inv F live me ?s" by (rule php_inv_put [OF inv lo]) (use php_invD(6) [OF inv lo] in simp)
  then obtain s' where s': "clear_current l ?s = Inr ((), s')" "log_current (ents s') l = None" "objects s' l = Some (Obj_Log ?lo)"
    using v by (auto simp: log_var_def elim: clear_current_run [of F live me ?s l ?lo])
  have eq: "zim_ExcimerLog_rewind l = (pbind (set_iter_index l (\<lambda>_. 0)) (\<lambda>_. clear_current l) :: (_, unit) prog)"
    unfolding zim_ExcimerLog_rewind_def clear_current_def ..
  show ?thesis using lo s' unfolding eq
    by (auto simp: implements_def log_view_at pbind_def check_object_def set_iter_index_def put_object_def modify_def
      ExcimerLog_rewind_def entry_index_def)
qed

section \<open>Iterators\<close>

lemma iterator_view_at:
  "log_iterators (ents s) i = Some it \<Longrightarrow> objects s (io_log it) = Some (Obj_Log lo) \<Longrightarrow>
    iterator_view i s = Some (obj_log lo, \<lparr>it_current = entry_index (ents s) (io_current it), it_index = io_index it\<rparr>)"
  by (simp add: iterator_view_def)

lemma get_current_data_implements:
  assumes inv: "php_inv F live me s" and i: "log_iterators (ents s) i = Some it"
  shows "implements (iterator_view i) (\<lambda>s. entry_index (ents s)) (iterator_get_current_data i)
    (\<lambda>(lg, it). let (r, it') = ExcimerLog_iterator_get_current_data lg it in (r, lg, it')) s"
proof -
  note ok = ent_invD(1) [OF php_inv_parts(2) [OF inv]]
  obtain lo where lo: "objects s (io_log it) = Some (Obj_Log lo)" by (rule iterator_log [OF inv i])
  note v = with_entry_obj_views [OF inv, where l = "io_log it" and index = "io_index it"]
  show ?thesis
  proof (cases "io_current it")
    case None
    show ?thesis
    proof (cases "io_index it < entries_size (obj_log lo) \<and> excimer_log_get_entry (obj_log lo) (io_index it) \<noteq> None")
      case True
      then show ?thesis using None i lo v
        by (auto simp: implements_def iterator_view_def iterator_get_current_data_def pbind_def get_iterator_def check_object_def
          init_entry_run [OF lo] set_iterator_def upd_ents_def modify_def ExcimerLog_iterator_get_current_data_def init_entry_index
          entry_index_upd entry_index_def)
    next
      case False
      then show ?thesis using None i lo
        by (auto simp: implements_def iterator_view_def iterator_get_current_data_def pbind_def get_iterator_def check_object_def
          init_entry_run [OF lo] set_iterator_def upd_ents_def modify_def ExcimerLog_iterator_get_current_data_def init_entry_index
          entry_index_upd entry_index_def)
    qed
  next
    case (Some e)
    have "entry_objs (ents s) e \<noteq> None" using entry_none(3) [OF ok, of e "Inr i"] Some i by (auto simp: cached_def)
    then show ?thesis using Some i lo
      by (auto simp: implements_def iterator_view_at iterator_get_current_data_def pbind_def get_iterator_def check_object_def
        ExcimerLog_iterator_get_current_data_def entry_index_def)
  qed
qed

lemma iterator_moves_implement:
  assumes inv: "php_inv F live me s" and i: "log_iterators (ents s) i = Some it"
  shows "implements (iterator_view i) (\<lambda>_ _. ()) (iterator_move_forward i)
      (\<lambda>(lg, it). ((), lg, ExcimerLog_iterator_move_forward lg it)) s"
    and "implements (iterator_view i) (\<lambda>_ _. ()) (iterator_rewind i) (\<lambda>(lg, it). ((), lg, ExcimerLog_iterator_rewind it)) s"
    and "implements (iterator_view i) (\<lambda>_ _. ()) (iterator_invalidate_current i)
      (\<lambda>(lg, it). ((), lg, ExcimerLog_iterator_invalidate_current it)) s"
proof -
  obtain lo where lo: "objects s (io_log it) = Some (Obj_Log lo)" by (rule iterator_log [OF inv i])
  let ?m = "pbind (release_current (io_current it)) (\<lambda>_. set_iterator i (io_current_update (\<lambda>_. None)))"
  obtain s' where s': "?m s = Inr ((), s')" "log_iterators (ents s') i = Some (it\<lparr>io_current := None\<rparr>)"
    "objects s' (io_log it) = Some (Obj_Log lo)" by (rule clear_iterator_run [OF inv i lo])
  have m: "pbind (release_current (io_current it)) (\<lambda>_. pbind (set_iterator i (io_current_update (\<lambda>_. None))) f) s = f () s'" for f :: "unit \<Rightarrow> (_, unit) prog"
    using pbind_Inr [of ?m, OF s'(1)] by (simp add: pbind_assoc)
  have start: "pbind (get_iterator i) f s = f it s" for f :: "iterator_obj \<Rightarrow> (_, unit) prog"
    using i by (simp add: pbind_def get_iterator_def)
  have log: "pbind (get_log (io_log it)) f s = f lo s" "pbind (get_log (io_log it)) f s' = f lo s'" for f :: "log_obj \<Rightarrow> (_, unit) prog"
    using lo s'(3) by (simp_all add: pbind_def check_object_def)
  have set: "set_iterator i (io_index_update f) s' =
      Inr ((), s'\<lparr>ents := (ents s')\<lparr>log_iterators := (log_iterators (ents s'))(i \<mapsto> io_index_update f (it\<lparr>io_current := None\<rparr>))\<rparr>\<rparr>)" for f
    using s'(2) by (simp add: set_iterator_def pbind_def get_iterator_def upd_ents_def modify_def)
  show "implements (iterator_view i) (\<lambda>_ _. ()) (iterator_move_forward i)
      (\<lambda>(lg, it). ((), lg, ExcimerLog_iterator_move_forward lg it)) s"
    using i lo s'(2,3) unfolding implements_def iterator_move_forward_def start log m
    by (auto simp: iterator_view_def set ExcimerLog_iterator_move_forward_def entry_index_def Let_def)
  show "implements (iterator_view i) (\<lambda>_ _. ()) (iterator_rewind i) (\<lambda>(lg, it). ((), lg, ExcimerLog_iterator_rewind it)) s"
    using i lo s'(2,3) unfolding implements_def iterator_rewind_def start m
    by (auto simp: iterator_view_def set ExcimerLog_iterator_rewind_def entry_index_def)
  show "implements (iterator_view i) (\<lambda>_ _. ()) (iterator_invalidate_current i)
      (\<lambda>(lg, it). ((), lg, ExcimerLog_iterator_invalidate_current it)) s"
    using i lo s' unfolding implements_def iterator_invalidate_current_def start
    by (auto simp: iterator_view_def ExcimerLog_iterator_invalidate_current_def entry_index_def)
qed

end
