(* ===== verification/Php_Script.thy ===== *)
theory Php_Script
  imports Php_Api Entry_Refinement
begin

text \<open>
  User functions as scripts of calls of the extension, and the theorems on the whole extension: for
  every behaviour of the callbacks, however nested, every sequence of calls from the start of a
  request keeps the invariant, counts references exactly and makes no memory error.
\<close>

section \<open>User functions\<close>

text \<open>
  What a user function does to the extension is a sequence of calls of it. A call the engine would not
  make in the state at hand is left out.
\<close>

fun run_calls ::
  "('tl, 'z) php_lib \<Rightarrow> ('tl, 'z) php_scheme engine \<Rightarrow> (interrupt_hook \<Rightarrow> (('tl, 'z) php_scheme, unit) prog) \<Rightarrow>
   thread \<Rightarrow> php_call list \<Rightarrow> (('tl, 'z) php_scheme, unit) prog" where
  "run_calls lib eng hook me [] = pret ()"
| "run_calls lib eng hook me (c # cs) =
     pbind (gets (\<lambda>s. call_ok eng s c)) (\<lambda>ok.
     pbind (if ok then exec_call lib eng hook me c else pret ()) (\<lambda>_.
     run_calls lib eng hook me cs))"

text \<open>
  An engine in which the value \<open>v\<close>, called with \<open>arg\<close> in state \<open>s\<close>, makes the calls \<open>scripts v arg s\<close>, and giving
  up a reference to it in state \<open>s\<close> makes the calls \<open>scripts v Arg_None s\<close>: those of the destructors that run if this was
  the last reference, and none if it was not.
  Calls nest when a script flushes a profiler, replaces a callback or is interrupted; a run in which they nest deeper
  than \<open>n\<close> does not end.
\<close>

primrec script_engine ::
  "('tl, 'z) php_lib \<Rightarrow> ('tl, 'z) php_scheme engine \<Rightarrow> (interrupt_hook \<Rightarrow> (('tl, 'z) php_scheme, unit) prog) \<Rightarrow>
   thread \<Rightarrow> (nat \<Rightarrow> php_arg \<Rightarrow> ('tl, 'z) php_scheme \<Rightarrow> php_call list) \<Rightarrow> nat \<Rightarrow> ('tl, 'z) php_scheme engine" where
  "script_engine lib base hook me scripts 0 = base\<lparr>call_user := \<lambda>v arg. pfail Diverges, release_value := \<lambda>v. pfail Diverges\<rparr>"
| "script_engine lib base hook me scripts (Suc n) = base\<lparr>call_user := \<lambda>v arg s.
     run_calls lib (script_engine lib base hook me scripts n) hook me (scripts v arg s) s,
     release_value := \<lambda>v s. run_calls lib (script_engine lib base hook me scripts n) hook me (scripts v Arg_None s) s\<rparr>"

text \<open>
  The interrupt functions of other extensions, which know nothing of the objects and timers of this one:
  they may call the system and emit warnings.
\<close>

definition foreign_hook :: "(interrupt_hook \<Rightarrow> (('tl, 'z) php_scheme, unit) prog) \<Rightarrow> bool" where
  "foreign_hook hook \<longleftrightarrow> (\<forall>h. fault_free (hook h) \<and> (\<forall>s x s'. hook h s = Inr (x, s') \<longrightarrow> os_frame s s'))"

lemma foreign_hook_triple:
  assumes "foreign_hook hook"
  shows "triple (php_inv F live me) (hook h) (\<lambda>_. php_inv F live me)"
proof -
  have "safe_op F live me (\<lambda>_. True) (hook h)" by (rule safe_frame) (use assms in \<open>auto simp: foreign_hook_def\<close>)
  from safe_op_triple [OF this] show ?thesis by (rule triple_conseq) auto
qed

context profiler_backend
begin

lemma run_calls_triple:
  assumes eng: "safe_engine live me eng" and hook: "foreign_hook hook"
  shows "triple (php_inv F live me) (run_calls lib eng hook me cs) (\<lambda>_. php_inv F live me)"
proof (induction cs)
  case (Cons c cs)
  note step = exec_triple [OF eng foreign_hook_triple [OF hook]]
  have one: "triple (php_inv F live me) (pbind (gets (\<lambda>s. call_ok eng s c)) (\<lambda>ok.
      if ok then exec_call lib eng hook me c else pret ())) (\<lambda>_. php_inv F live me)"
    using step [of F c] by (auto simp: triple_def pbind_def gets_def)
  have eq: "run_calls lib eng hook me (c # cs) = pbind (pbind (gets (\<lambda>s. call_ok eng s c)) (\<lambda>ok.
      if ok then exec_call lib eng hook me c else pret ())) (\<lambda>_. run_calls lib eng hook me cs)"
    by (simp add: fun_eq_iff pbind_def gets_def)
  show ?case unfolding eq by (rule triple_bind [OF one Cons.IH])
qed (simp add: triple_def)

lemma script_engine_safe:
  assumes hook: "foreign_hook hook"
  shows "safe_engine live me (script_engine lib base hook me scripts n)"
proof (induction n)
  case (Suc n)
  then show ?case using run_calls_triple [OF Suc hook] by (simp add: safe_engine_def triple_def)
qed (simp add: safe_engine_def triple_def pfail_def)

lemma script_step:
  assumes "foreign_hook hook"
  shows "triple (\<lambda>s. php_inv F live me s \<and> call_ok (script_engine lib base hook me scripts n) s c)
    (exec_call lib (script_engine lib base hook me scripts n) hook me c) (\<lambda>_. php_inv F live me)"
  by (rule exec_triple [OF script_engine_safe [OF assms] foreign_hook_triple [OF assms]])

lemma script_inv:
  assumes "foreign_hook hook" "php_reachable lib (script_engine lib base hook me scripts n) hook me s"
  shows "php_inv (\<lambda>_. 0) live me s"
  by (rule reachable_php_inv [OF script_engine_safe [OF assms(1)] foreign_hook_triple [OF assms(1)] assms(2)])

end

section \<open>A concrete request\<close>

text \<open>The start of a request with the demonstration engine: no objects, no timers in use.\<close>

definition demo_start :: "posix_timer php" where
  "demo_start = demo_php\<lparr>objects := \<lambda>_. None, next_object := 0, tls_of := (tls_of demo_php)(0 := \<lparr>pending_head = None, timers_active = 0\<rparr>)\<rparr>"

abbreviation demo_hook :: "interrupt_hook \<Rightarrow> (posix_timer php, unit) prog" where
  "demo_hook \<equiv> \<lambda>h. pret ()"

text \<open>
  Its callbacks call \<^verbatim>\<open>flush\<close> on the profiler at address 0 and keep the log they are given; their destructors ask for
  the log of that profiler and drop the profiler.
\<close>

definition demo_scripts :: "nat \<Rightarrow> php_arg \<Rightarrow> posix_timer php \<Rightarrow> php_call list" where
  "demo_scripts v arg s = (case arg of Arg_Log l lg \<Rightarrow> [Keep_log l, Profiler_flush 0] | Arg_Long n \<Rightarrow> [Profiler_flush 0]
   | Arg_None \<Rightarrow> [Profiler_getLog 0, Profiler_free 0])"

abbreviation demo_script_engine :: "posix_timer php engine" where
  "demo_script_engine \<equiv> script_engine (posix_timerlib True) demo_engine demo_hook 0 demo_scripts 3"

lemma demo_foreign: "foreign_hook demo_hook"
  by (simp add: foreign_hook_def fault_free_def)

lemma demo_start_reachable: "php_reachable (posix_timerlib True) demo_script_engine demo_hook 0 demo_start"
  by (rule request_start [of 0 "demo_php\<lparr>objects := \<lambda>_. None, next_object := 0\<rparr>"])
    (simp_all add: request_idle_def entries_gone_def no_entries_def excimer_timer_thread_init_def modify_def demo_start_def demo_php_def
      demo_thread_def idle_timer_def)

lemma demo_profiler_reachable:
  obtains s where "php_reachable (posix_timerlib True) demo_script_engine demo_hook 0 s" "is_profiler 0 s" "holds s 0 1"
    "is_log 1 s"
proof -
  have n: "next_object demo_start = 0" by (simp add: demo_start_def)
  obtain s' pr lo where s': "ExcimerProfiler_new (posix_timerlib True) demo_script_engine 5 0 demo_start = Inr (0, s')"
    "pr_z_log pr = 1" "objects s' = (objects demo_start)(0 \<mapsto> Obj_Profiler pr, 1 \<mapsto> Obj_Log lo)"
    using posix_profiler.new_run [of True demo_script_engine 5 0 demo_start] n by (metis One_nat_def)
  have "php_reachable (posix_timerlib True) demo_script_engine demo_hook 0 s'"
    by (rule php_reachable.step [OF demo_start_reachable, of "New_profiler 5 0"]) (simp_all add: void_def pbind_def s'(1))
  then show thesis using that s'(2,3) by (simp add: is_profiler_def holds_def is_log_def)
qed

lemma demo_callback_reachable:
  obtains s pr where "php_reachable (posix_timerlib True) demo_script_engine demo_hook 0 s" "objects s 0 = Some (Obj_Profiler pr)"
    "pr_z_callback pr = Z_VALUE 7"
proof -
  obtain s where s: "php_reachable (posix_timerlib True) demo_script_engine demo_hook 0 s" "is_profiler 0 s"
    by (rule demo_profiler_reachable)
  obtain pr where pr: "objects s 0 = Some (Obj_Profiler pr)" using s(2) by (auto simp: is_profiler_def)
  let ?c = "Profiler_setFlushCallback 0 (Z_VALUE 7) 1"
  obtain s' where s': "exec_call (posix_timerlib True) demo_script_engine demo_hook 0 ?c s = Inr ((), s')"
    "objects s' 0 = Some (Obj_Profiler (pr\<lparr>pr_z_callback := Z_VALUE 7, pr_max_samples := 1\<rparr>))"
    using pr by (simp add: on_this_def addref_def delref_def zim_ExcimerProfiler_setFlushCallback_def set_profiler_def check_object_def
        put_object_def callable_def demo_engine_def numeral_3_eq_3 state_defs pbind_def)
  have "php_reachable (posix_timerlib True) demo_script_engine demo_hook 0 s'"
    by (rule php_reachable.step [OF s(1) _ s'(1)]) (use s(2) in simp)
  then show thesis using that s'(2) by simp
qed

lemma demo_timer_run:
  "\<exists>s1 s2 s3. exec_call (posix_timerlib True) demo_script_engine demo_hook 0 New_timer demo_start = Inr ((), s1) \<and> is_timer 0 s1 \<and>
    zim_ExcimerTimer_start (posix_timerlib True) 0 0 s1 = Inr ((), s3) \<and> exec_call (posix_timerlib True) demo_script_engine demo_hook 0 (Timer_start 0) s1 = Inr ((), s2) \<and> is_valid (timers s2 0) \<and>
    next_object s2 = 1"
  by (simp add: void_def on_this_def addref_def delref_def ExcimerTimer_new_def alloc_run with_object_def set_timer_obj_def put_object_def check_object_def
      is_timer_def zeroed_def zim_ExcimerTimer_start_def ExcimerTimer_start_def excimer_timer_init_def excimer_timer_start_def
      state_defs zero_timer_obj_def EXCIMER_REAL_def TIMERLIB_REAL_def timerlib_timespec_is_zero_def
      demo_start_def demo_php_def demo_thread_def idle_timer_def demo_posix_timer_def numeral_3_eq_3 posix_eval)

lemma demo_timer_reachable:
  obtains s where "php_reachable (posix_timerlib True) demo_script_engine demo_hook 0 s" "is_valid (timers s 0)" "next_object s = 1"
proof -
  obtain s1 s2 where r: "exec_call (posix_timerlib True) demo_script_engine demo_hook 0 New_timer demo_start = Inr ((), s1)"
    "is_timer 0 s1" "exec_call (posix_timerlib True) demo_script_engine demo_hook 0 (Timer_start 0) s1 = Inr ((), s2)"
    "is_valid (timers s2 0)" "next_object s2 = 1" using demo_timer_run by blast
  have "php_reachable (posix_timerlib True) demo_script_engine demo_hook 0 s1"
    by (rule php_reachable.step [OF demo_start_reachable _ r(1)]) simp
  then have "php_reachable (posix_timerlib True) demo_script_engine demo_hook 0 s2"
    by (rule php_reachable.step [OF _ _ r(3)]) (simp add: r(2))
  then show thesis using that r(4,5) by blast
qed

lemma run_calls_reachable:
  assumes "php_reachable lib eng hook me s" "run_calls lib eng hook me cs s = Inr ((), s')"
  shows "php_reachable lib eng hook me s'"
  using assms
proof (induction cs arbitrary: s)
  case (Cons c cs)
  show ?case
  proof (cases "call_ok eng s c")
    case True
    with Cons.prems(2) obtain s1 where s1: "exec_call lib eng hook me c s = Inr ((), s1)" "run_calls lib eng hook me cs s1 = Inr ((), s')"
      by (auto simp: pbind_def gets_def elim!: rbind_Inr_D)
    show ?thesis by (rule Cons.IH [OF php_reachable.step [OF Cons.prems(1) True s1(1)] s1(2)])
  next
    case False
    then show ?thesis using Cons.prems Cons.IH [of s] by (simp add: pbind_def gets_def)
  qed
qed simp

text \<open>
  A request that records a sample, asks for the log and its current entry, and then drops the entry, has the
  profiler rotate its log and drops the log.
\<close>

lemma demo_periods:
  "timerlib_timespec_from_double (\<lambda>x. x) (1 / 10) = \<lparr>tv_sec = 0, tv_nsec = 100000000\<rparr>"
  "timerlib_timespec_from_double (\<lambda>x. x) 0 = \<lparr>tv_sec = 0, tv_nsec = 0\<rparr>" "(100000000 :: 64 word) \<noteq> 0"
  by (simp_all add: timerlib_timespec_from_double_def TIMERLIB_BILLION_def word_sle_eq)

lemma demo_one_entry: "safe_erealloc xs 1 sizeof_entry = Inr xs"
  by (simp add: safe_erealloc_def sizeof_entry_def)

lemmas demo_profiler_eval = void_def on_this_def ExcimerProfiler_new_def alloc_run with_object_def php_defs demo_periods staggered_def
  zim_ExcimerProfiler_start_def ExcimerProfiler_start_def excimer_timer_init_def excimer_timer_start_def kind_defs
  zim_ExcimerProfiler_getLog_def zero_profiler_def EXCIMER_REAL_def TIMERLIB_REAL_def timerlib_timespec_is_zero_def
  timerlib_clock_get_time_posix_def zeroed_def ExcimerLog_new_def excimer_log_init_def zero_log_def demo_start_def demo_php_def
  demo_thread_def idle_timer_def demo_posix_timer_def numeral_3_eq_3 posix_eval

lemmas demo_event_eval = excimer_timer_handle_def set_head_def set_next_def set_prev_def excimer_timer_list_enqueue_def
  ExcimerProfiler_event_def excimer_timer_interrupt_def excimer_timer_pending_dequeue_def excimer_timer_list_dequeue_def
  event_callback_def excimer_log_add_def demo_one_entry

lemmas demo_entry_eval = log_var_def entry_log_refs_def zim_ExcimerLog_current_def with_result_def hand_result_def
  ExcimerLog_init_entry_obj_def upd_ents_def get_entry_def set_entry_def no_entries_def ExcimerLogEntry_new_def
  entry_addref_def entry_hand_over_def hand_over_def set_current_def excimer_log_get_entry_def

definition demo_calls :: "php_call list" where
  "demo_calls = [New_profiler 5 0, Profiler_start 0, Post_event 0 0, Vm_interrupt, Profiler_getLog 0, On_entries (Log_current 1)]"

lemma demo_entry_run:
  assumes "fp_round eng = (\<lambda>x. x)"
  shows "\<exists>s. run_calls (posix_timerlib True) eng demo_hook 0 demo_calls demo_start = Inr ((), s) \<and>
    entry_objs (ents s) = [0 \<mapsto> \<lparr>en_z_log = Some 1, en_index = 0\<rparr>] \<and> log_current (ents s) = [1 \<mapsto> 0] \<and>
    log_iterators (ents s) = (\<lambda>_. None) \<and> entry_vars (ents s) = (\<lambda>_. 0)(0 := 1) \<and> entry_count (ents s) 0 = 2 \<and>
    php_refs s = (\<lambda>_. 0)(1 := 2) \<and> holds s 0 1"
  using assms
  by (simp add: demo_calls_def demo_profiler_eval demo_event_eval demo_entry_eval holds_def del: word_eq_numeral_iff_iszero)

lemma demo_fp_round: "fp_round demo_script_engine = (\<lambda>x. x)"
  by (simp add: demo_engine_def numeral_3_eq_3)

lemma demo_entry_reachable:
  obtains s where "php_reachable (posix_timerlib True) demo_script_engine demo_hook 0 s"
    "entry_objs (ents s) = [0 \<mapsto> \<lparr>en_z_log = Some 1, en_index = 0\<rparr>]" "log_current (ents s) = [1 \<mapsto> 0]"
    "log_iterators (ents s) = (\<lambda>_. None)" "entry_vars (ents s) = (\<lambda>_. 0)(0 := 1)" "php_refs s = (\<lambda>_. 0)(1 := 2)" "holds s 0 1"
proof -
  from demo_entry_run [OF demo_fp_round] show thesis using run_calls_reachable [OF demo_start_reachable] that by blast
qed

definition demo_drops :: "php_call list" where
  "demo_drops = demo_calls @ [On_entries (Entry_drop 0), Profiler_flush 0, Drop_log 1, Drop_log 1]"

lemmas demo_drop_eval = entry_take_back_def release_entry_def entry_delref_def zim_ExcimerProfiler_flush_def
  ExcimerProfiler_flush_def rotate_log_def excimer_log_copy_options_def take_back_def log_vars_def

lemma demo_cycle_run:
  assumes "fp_round eng = (\<lambda>x. x)"
  shows "\<exists>s. run_calls (posix_timerlib True) eng demo_hook 0 demo_drops demo_start = Inr ((), s) \<and>
    log_current (ents s) 1 = Some 0 \<and> log_vars s 1 = 0 \<and> entry_vars (ents s) 0 = 0 \<and> \<not> holds s 0 1"
  using assms by (simp add: demo_drops_def demo_calls_def demo_profiler_eval demo_event_eval demo_entry_eval demo_drop_eval holds_def
      del: word_eq_numeral_iff_iszero)

lemma demo_cycle_reachable:
  obtains s where "php_reachable (posix_timerlib True) demo_script_engine demo_hook 0 s" "log_current (ents s) 1 = Some 0"
    "log_vars s 1 = 0" "entry_vars (ents s) 0 = 0" "\<not> holds s 0 1"
proof -
  from demo_cycle_run [OF demo_fp_round] show thesis using run_calls_reachable [OF demo_start_reachable] that by blast
qed

section \<open>The theorems on the extension\<close>

lemma held_card:
  assumes inv: "php_inv F live me s"
  shows "card {p. holds s p l} = held s l"
proof (cases "\<exists>p. holds s p l")
  case True
  then obtain p where "holds s p l" by blast
  then have "{p. holds s p l} = {p}" using php_invD(7) [OF inv] by blast
  with True show ?thesis by (simp add: held_def)
qed (simp add: held_def)

text \<open>C2 (safety): the objects of the extension are used safely. Whatever the callbacks do, whatever PHP code runs when a
  callback is destroyed, by a setter or by a free handler, however deep this nests, and whatever the system calls answer, no
  method call, no object freed by the engine, no posted event and no interrupt touches an object, log, entry, iterator or timer that
  has been freed or is of another class, dereferences a null pointer or leaves the bounds of an array; a run that does not
  return ends the request on purpose or does not end. The calls are those the engine can make (\<open>call_ok\<close>): methods on objects
  that are alive, objects freed when no method runs on them, and \<^verbatim>\<open>excimer_set_timeout\<close> only with a value that is callable, as
  otherwise it does use freed memory (\<open>set_timeout_frees_then_writes\<close>). The reference counts of the callback values are not
  part of this claim: \<open>callback_references_exact\<close> and \<open>callback_destructor_reentry\<close> are about them, the latter a case
  where one value is released twice. PHP code run by a user error handler at a warning is not modelled.\<close>

theorem extension_memory_safe:
  fixes s :: "(posix_timer, 'z) php_scheme"
  assumes "foreign_hook hook"
    and "php_reachable (posix_timerlib np) (script_engine (posix_timerlib np) base hook me scripts n) hook me s"
    and "call_ok (script_engine (posix_timerlib np) base hook me scripts n) s c"
  shows "case exec_call (posix_timerlib np) (script_engine (posix_timerlib np) base hook me scripts n) hook me c s of
    Inl e \<Rightarrow> \<not> memory_fault e | Inr _ \<Rightarrow> True"
  using posix_profiler.script_step [OF assms(1)] posix_profiler.script_inv [OF assms(1,2)] assms(3)
  by (force simp: triple_def split: sum.splits)

text \<open>In the witness a profiler's callback is cleared whose destructor takes the log and drops the profiler.\<close>

theorem extension_memory_safe_witness:
  "\<exists>s pr. objects s 0 = Some (Obj_Profiler pr) \<and> pr_z_callback pr = Z_VALUE 7 \<and> demo_scripts 7 Arg_None s = [Profiler_getLog 0, Profiler_free 0] \<and>
    (case exec_call (posix_timerlib True) demo_script_engine demo_hook 0 (Profiler_clearFlushCallback 0) s of
      Inl e \<Rightarrow> \<not> memory_fault e | Inr _ \<Rightarrow> True)"
proof -
  obtain s pr where s: "php_reachable (posix_timerlib True) demo_script_engine demo_hook 0 s" "objects s 0 = Some (Obj_Profiler pr)"
    "pr_z_callback pr = Z_VALUE 7" by (rule demo_callback_reachable)
  have "is_profiler 0 s" using s(2) by (simp add: is_profiler_def)
  with extension_memory_safe [OF demo_foreign s(1), of "Profiler_clearFlushCallback 0"] s(2,3) show ?thesis
    by (intro exI [of _ s] exI [of _ pr]) (simp add: demo_scripts_def)
qed

text \<open>The same with the kqueue backend.\<close>

lemma kqueue_memory_safe:
  assumes "foreign_hook hook"
    and "php_reachable (kqueue_timerlib uninit) (script_engine (kqueue_timerlib uninit) base hook me scripts n) hook me s"
    and "call_ok (script_engine (kqueue_timerlib uninit) base hook me scripts n) s c"
  shows "case exec_call (kqueue_timerlib uninit) (script_engine (kqueue_timerlib uninit) base hook me scripts n) hook me c s of
    Inl e \<Rightarrow> \<not> memory_fault e | Inr _ \<Rightarrow> True"
  using kqueue_profiler.script_step [OF assms(1)] kqueue_profiler.script_inv [OF assms(1,2)] assms(3)
  by (force simp: triple_def split: sum.splits)

text \<open>C4 (invariant): reference counting of logs is exact: no reference is lost and nothing is freed early.
  Between calls, the count of a live log is the number of variables of PHP code that hold it, plus the number of
  live entry objects made from it, plus the number of iterators over it, plus the number of profilers whose
  current log it is, of which there is at most one, and it is positive; a log that is not alive is not
  referred to by a variable, an entry, an iterator or a profiler.\<close>

theorem log_references_exact:
  fixes s :: "(posix_timer, 'z) php_scheme"
  assumes "foreign_hook hook"
    and "php_reachable (posix_timerlib np) (script_engine (posix_timerlib np) base hook me scripts n) hook me s"
  shows "if is_log l s
    then refcount s l = log_vars s l + card {e. \<exists>eo. entry_objs (ents s) e = Some eo \<and> en_z_log eo = Some l} +
        card {i. \<exists>it. log_iterators (ents s) i = Some it \<and> io_log it = l} + card {p. holds s p l} \<and>
      card {p. holds s p l} \<le> 1 \<and> 0 < refcount s l
    else log_vars s l = 0 \<and> (\<forall>e eo. entry_objs (ents s) e = Some eo \<longrightarrow> en_z_log eo \<noteq> Some l) \<and>
      (\<forall>i it. log_iterators (ents s) i = Some it \<longrightarrow> io_log it \<noteq> l) \<and> {p. holds s p l} = {}"
proof -
  have inv: "php_inv (\<lambda>_. 0) posix_live me s" by (rule posix_profiler.script_inv [OF assms(1,2)])
  note p = php_inv_parts [OF inv]
  show ?thesis
  proof (cases "is_log l s")
    case True
    have "held s l \<le> 1" by (simp add: held_def)
    with True show ?thesis using php_invD(3) [OF inv, of l] ent_invD(2) [OF p(2), of l]
      by (simp add: held_card [OF inv] counted_def Let_def log_vars_def entry_log_refs_def live_count_def)
  next
    case False
    have "en_z_log eo \<noteq> Some l" if "entry_objs (ents s) e = Some eo" for e eo
      using referenced_log(3) [OF p, of e eo l] that False by blast
    moreover have "io_log it \<noteq> l" if "log_iterators (ents s) i = Some it" for i it
      using referenced_log(3) [OF p, of _ _ l i it] that False by blast
    ultimately show ?thesis using False counted_none(2,3) [OF inv False] by (simp add: log_vars_def)
  qed
qed

theorem log_references_exact_witness:
  "\<exists>s. php_reachable (posix_timerlib True) demo_script_engine demo_hook 0 s \<and> log_vars s 1 = 1 \<and>
    entry_objs (ents s) 0 = Some \<lparr>en_z_log = Some 1, en_index = 0\<rparr> \<and> holds s 0 1 \<and> refcount s 1 = 3"
proof -
  obtain s where s: "php_reachable (posix_timerlib True) demo_script_engine demo_hook 0 s"
    "entry_objs (ents s) = [0 \<mapsto> \<lparr>en_z_log = Some 1, en_index = 0\<rparr>]" "log_iterators (ents s) = (\<lambda>_. None)"
    "php_refs s = (\<lambda>_. 0)(1 := 2)" "holds s 0 1" by (rule demo_entry_reachable)
  have v: "log_vars s 1 = 1" using s(2,3,4) by (simp add: log_vars_def entry_log_refs_def)
  have e: "{e. \<exists>eo. entry_objs (ents s) e = Some eo \<and> en_z_log eo = Some 1} = {0}" using s(2) by auto
  have h: "card {p. holds s p 1} = 1"
    using held_card [OF posix_profiler.script_inv [OF demo_foreign s(1)], of 1] s(5) by (auto simp: held_def)
  have "is_log 1 s" using log_references_exact [OF demo_foreign s(1), of 1] v by (auto split: if_splits)
  then have "refcount s 1 = 3" using log_references_exact [OF demo_foreign s(1), of 1] v h s(3) unfolding e by simp
  with s v show ?thesis by (intro exI [of _ s]) simp
qed

text \<open>C5 (invariant): entry objects are safe to use for as long as they live. Between calls, the log of a live entry
  is alive and still has the element the entry stands for, so that its accessors read within bounds; the
  reference count of the entry is the number of variables of PHP code that hold it, plus one when a log or an
  iterator caches it, and is positive; an entry that is cached or held by a variable is alive, and no two
  fields cache the same entry.\<close>

theorem entry_references_exact:
  fixes s :: "(posix_timer, 'z) php_scheme"
  assumes "foreign_hook hook"
    and "php_reachable (posix_timerlib np) (script_engine (posix_timerlib np) base hook me scripts n) hook me s"
  shows "(case entry_objs (ents s) e of
      Some eo \<Rightarrow> entry_count (ents s) e = entry_vars (ents s) e + card {k. cached (ents s) k = Some e} \<and> 0 < entry_count (ents s) e \<and>
        (\<exists>l lo. en_z_log eo = Some l \<and> objects s l = Some (Obj_Log lo) \<and> unat (en_index eo) < length (entries (obj_log lo)))
    | None \<Rightarrow> entry_vars (ents s) e = 0 \<and> {k. cached (ents s) k = Some e} = {}) \<and> card {k. cached (ents s) k = Some e} \<le> 1"
proof -
  have inv: "php_inv (\<lambda>_. 0) posix_live me s" by (rule posix_profiler.script_inv [OF assms(1,2)])
  note p = php_inv_parts [OF inv]
  note ok = ent_invD(1) [OF p(2)]
  have card: "card {k. cached (ents s) k = Some e} = cache_ref (ents s) e"
  proof (cases "\<exists>k. cached (ents s) k = Some e")
    case True
    then obtain k where "cached (ents s) k = Some e" by blast
    then have "{k. cached (ents s) k = Some e} = {k}" using ents_okD(3) [OF ok, of k e] by blast
    with True show ?thesis by (simp add: cache_ref_def)
  qed (simp add: cache_ref_def)
  show ?thesis
  proof (cases "entry_objs (ents s) e")
    case None
    then show ?thesis using entry_none [OF ok None] by (simp add: card cache_ref_def)
  next
    case (Some eo)
    obtain l where l: "en_z_log eo = Some l"
      "\<And>lo. objects s l = Some (Obj_Log lo) \<Longrightarrow> unat (en_index eo) < length (entries (obj_log lo))"
      using ent_invD(3) [OF p(2) Some] by (auto simp: entry_at_def)
    obtain lo where lo: "objects s l = Some (Obj_Log lo)"
      using referenced_log(3) [OF p, of e eo l] Some l(1) by (auto simp: is_log_def)
    show ?thesis using Some l(1) l(2) [OF lo] lo ents_okD(4) [OF ok, of e] cache_ref_iff(2) [of "ents s" e]
      by (simp add: card entry_counted_def)
  qed
qed

theorem entry_references_exact_witness:
  "\<exists>s. php_reachable (posix_timerlib True) demo_script_engine demo_hook 0 s \<and> entry_vars (ents s) 0 = 1 \<and>
    cached (ents s) (Inl 1) = Some 0 \<and> entry_count (ents s) 0 = 2 \<and> (\<exists>lo. objects s 1 = Some (Obj_Log lo) \<and> entries (obj_log lo) \<noteq> [])"
proof -
  obtain s where s: "php_reachable (posix_timerlib True) demo_script_engine demo_hook 0 s"
    "entry_objs (ents s) = [0 \<mapsto> \<lparr>en_z_log = Some 1, en_index = 0\<rparr>]" "log_current (ents s) = [1 \<mapsto> 0]"
    "log_iterators (ents s) = (\<lambda>_. None)" "entry_vars (ents s) = (\<lambda>_. 0)(0 := 1)" by (rule demo_entry_reachable)
  have k: "{k. cached (ents s) k = Some 0} = {Inl 1}" 
    using s(3,4) by (auto simp: cached_def split: sum.split_asm if_splits)
  from entry_references_exact [OF demo_foreign s(1), of 0] s(2,5) have
    "entry_count (ents s) 0 = 2 \<and> (\<exists>lo. objects s 1 = Some (Obj_Log lo) \<and> 0 < length (entries (obj_log lo)))" unfolding k by simp
  with s(1,3,5) show ?thesis by (intro exI [of _ s]) (auto simp: cached_def)
qed

text \<open>C33 (safety): the entry a log caches for \<^verbatim>\<open>current\<close> and the log keep each other alive: as long as the entry is
  cached, both are alive and the log has a reference beyond those of variables and profilers. A log that is
  freed therefore caches no entry, but dropping every variable does not free a log that does.\<close>

theorem cached_entry_keeps_log:
  fixes s :: "(posix_timer, 'z) php_scheme"
  assumes "foreign_hook hook"
    and "php_reachable (posix_timerlib np) (script_engine (posix_timerlib np) base hook me scripts n) hook me s"
    and "log_current (ents s) l = Some e"
  shows "is_log l s \<and> (\<exists>eo. entry_objs (ents s) e = Some eo \<and> en_z_log eo = Some l) \<and>
    log_vars s l + card {p. holds s p l} < refcount s l \<and> entry_vars (ents s) e < entry_count (ents s) e"
proof -
  have inv: "php_inv (\<lambda>_. 0) posix_live me s" by (rule posix_profiler.script_inv [OF assms(1,2)])
  note p = php_inv_parts [OF inv]
  note ok = ent_invD(1) [OF p(2)]
  have c: "cached (ents s) (Inl l) = Some e" using assms(3) by (simp add: cached_def)
  obtain eo where eo: "entry_objs (ents s) e = Some eo" using entry_alive [OF ok, of e "Inl l"] c by auto
  have l: "en_z_log eo = Some l" by (rule ents_okD(5) [OF ok assms(3) eo])
  have r: "0 < entry_log_refs (ents s) l" "is_log l s" using referenced_log(1,3) [OF p, of e eo l] eo l by auto
  note held_card [OF inv, of l]
  moreover have "refcount s l = php_refs s l + held s l" using php_invD(3) [OF inv, of l] r(2) by (simp add: counted_def Let_def)
  moreover have "entry_vars (ents s) e < entry_count (ents s) e"
    using ents_okD(4) [OF ok, of e] eo c cache_ref_iff(1) [of "ents s" e] by (auto simp: entry_counted_def)
  ultimately show ?thesis using r eo l ent_invD(2) [OF p(2), of l] by (auto simp: log_vars_def)
qed

text \<open>In the witness the variables are gone and the profiler has another log.\<close>

theorem cached_entry_keeps_log_witness:
  "\<exists>s. php_reachable (posix_timerlib True) demo_script_engine demo_hook 0 s \<and> log_vars s 1 = 0 \<and> entry_vars (ents s) 0 = 0 \<and>
    \<not> holds s 0 1 \<and> is_log 1 s \<and> entry_objs (ents s) 0 \<noteq> None"
proof -
  obtain s where s: "php_reachable (posix_timerlib True) demo_script_engine demo_hook 0 s" "log_current (ents s) 1 = Some 0"
    "log_vars s 1 = 0" "entry_vars (ents s) 0 = 0" "\<not> holds s 0 1" by (rule demo_cycle_reachable)
  from cached_entry_keeps_log [OF demo_foreign s(1,2)] s show ?thesis by (intro exI [of _ s]) auto
qed

text \<open>C31 (refinement): the methods of \<^verbatim>\<open>ExcimerLog\<close> that make and drop entry objects implement the iteration over
  indices: on a log that a variable holds, \<^verbatim>\<open>current\<close>, \<^verbatim>\<open>next\<close>, \<^verbatim>\<open>rewind\<close> and \<^verbatim>\<open>offsetGet\<close> return, give an entry with
  the index (or null) that the functions on values give, move the cursor the same way and leave the recorded
  samples alone.\<close>

theorem log_methods_refine_iteration:
  fixes s :: "(posix_timer, 'z) php_scheme"
  assumes "foreign_hook hook"
    and "php_reachable (posix_timerlib np) (script_engine (posix_timerlib np) base hook me scripts n) hook me s"
    and "log_var l s"
  shows "implements (log_view l) (\<lambda>s. entry_index (ents s)) (zim_ExcimerLog_current l) ExcimerLog_current s \<and>
    implements (log_view l) (\<lambda>_ _. ()) (zim_ExcimerLog_next l) (\<lambda>ob. ((), ExcimerLog_next ob)) s \<and>
    implements (log_view l) (\<lambda>_ _. ()) (zim_ExcimerLog_rewind l) (\<lambda>ob. ((), ExcimerLog_rewind ob)) s \<and>
    implements (log_view l) (\<lambda>s. entry_index (ents s)) (zim_ExcimerLog_offsetGet l i) (\<lambda>ob. (ExcimerLog_offsetGet ob i, ob)) s"
proof -
  have inv: "php_inv (\<lambda>_. 0) posix_live me s" by (rule posix_profiler.script_inv [OF assms(1,2)])
  obtain lo where lo: "objects s l = Some (Obj_Log lo)" by (rule log_var_log [OF php_inv_parts(1) [OF inv] assms(3)])
  show ?thesis by (intro conjI current_implements [OF inv lo] next_implements [OF inv assms(3) lo] rewind_implements [OF inv assms(3) lo]
    offsetGet_implements [OF inv lo])
qed

theorem log_methods_refine_iteration_witness:
  "\<exists>s. php_reachable (posix_timerlib True) demo_script_engine demo_hook 0 s \<and> entry_index (ents s) (log_current (ents s) 1) = Some 0 \<and>
    implements (log_view 1) (\<lambda>_ _. ()) (zim_ExcimerLog_next 1) (\<lambda>ob. ((), ExcimerLog_next ob)) s"
proof -
  obtain s where s: "php_reachable (posix_timerlib True) demo_script_engine demo_hook 0 s"
    "entry_objs (ents s) = [0 \<mapsto> \<lparr>en_z_log = Some 1, en_index = 0\<rparr>]" "log_current (ents s) = [1 \<mapsto> 0]"
    "log_iterators (ents s) = (\<lambda>_. None)" "php_refs s = (\<lambda>_. 0)(1 := 2)" by (rule demo_entry_reachable)
  have "log_var 1 s" using s by (simp add: log_var_def entry_log_refs_def)
  from log_methods_refine_iteration [OF demo_foreign s(1) this] s(1-3) show ?thesis
    by (intro exI [of _ s]) (simp add: entry_index_def)
qed

text \<open>C32 (refinement): the iterator of \<^verbatim>\<open>foreach\<close> implements the iteration over indices in the same way: for every
  iterator the engine has not freed, whatever happened to the variables that held the log, its functions return,
  give the entry with the index under the cursor and move the cursor as the functions on values do.\<close>

theorem iterator_refines_iteration:
  fixes s :: "(posix_timer, 'z) php_scheme"
  assumes "foreign_hook hook"
    and "php_reachable (posix_timerlib np) (script_engine (posix_timerlib np) base hook me scripts n) hook me s"
    and "log_iterators (ents s) i \<noteq> None"
  shows "implements (iterator_view i) (\<lambda>s. entry_index (ents s)) (iterator_get_current_data i)
      (\<lambda>(lg, it). let (r, it') = ExcimerLog_iterator_get_current_data lg it in (r, lg, it')) s \<and>
    implements (iterator_view i) (\<lambda>_ _. ()) (iterator_move_forward i) (\<lambda>(lg, it). ((), lg, ExcimerLog_iterator_move_forward lg it)) s \<and>
    implements (iterator_view i) (\<lambda>_ _. ()) (iterator_rewind i) (\<lambda>(lg, it). ((), lg, ExcimerLog_iterator_rewind it)) s \<and>
    implements (iterator_view i) (\<lambda>_ _. ()) (iterator_invalidate_current i)
      (\<lambda>(lg, it). ((), lg, ExcimerLog_iterator_invalidate_current it)) s"
proof -
  have inv: "php_inv (\<lambda>_. 0) posix_live me s" by (rule posix_profiler.script_inv [OF assms(1,2)])
  obtain it where it: "log_iterators (ents s) i = Some it" using assms(3) by blast
  show ?thesis by (intro conjI get_current_data_implements [OF inv it] iterator_moves_implement [OF inv it])
qed

theorem iterator_refines_iteration_witness:
  "\<exists>s i. php_reachable (posix_timerlib True) demo_script_engine demo_hook 0 s \<and>
    implements (iterator_view i) (\<lambda>s. entry_index (ents s)) (iterator_get_current_data i)
      (\<lambda>(lg, it). let (r, it') = ExcimerLog_iterator_get_current_data lg it in (r, lg, it')) s"
proof -
  obtain s where s: "php_reachable (posix_timerlib True) demo_script_engine demo_hook 0 s"
    "entry_objs (ents s) = [0 \<mapsto> \<lparr>en_z_log = Some 1, en_index = 0\<rparr>]" "log_iterators (ents s) = (\<lambda>_. None)"
    "php_refs s = (\<lambda>_. 0)(1 := 2)" by (rule demo_entry_reachable)
  have v: "log_var 1 s" using s by (simp add: log_var_def entry_log_refs_def)
  let ?i = "next_iterator (ents s)"
  obtain s' where s': "exec_call (posix_timerlib True) demo_script_engine demo_hook 0 (On_entries (Iter_new 1 False)) s = Inr ((), s')"
    "log_iterators (ents s') ?i \<noteq> None"
    by (simp add: void_def ExcimerLog_get_iterator_obj_def pbind_def gets_def addref_def hand_over_def upd_ents_def modify_def)
  have r: "php_reachable (posix_timerlib True) demo_script_engine demo_hook 0 s'"
    by (rule php_reachable.step [OF s(1) _ s'(1)]) (use v in simp)
  from iterator_refines_iteration [OF demo_foreign r s'(2)] r show ?thesis by blast
qed

text \<open>A timer that is valid, so that events can be delivered to it, is the one embedded in a live
  object: its user data is that object, its callback is the event function of the object's class, its
  owner is the thread of the request and its library timer can be started and stopped.\<close>

lemma valid_timer_has_owner:
  fixes s :: "(posix_timer, 'z) php_scheme"
  assumes "foreign_hook hook"
    and "php_reachable (posix_timerlib np) (script_engine (posix_timerlib np) base hook me scripts n) hook me s"
    and "is_valid (timers s a)"
  shows "user_data (timers s a) = a \<and> timer_tls (timers s a) = Some me \<and> posix_live (tl_timer (timers s a)) \<and>
    (case callback (timers s a) of
       Profiler_callback \<Rightarrow> \<exists>pr. objects s a = Some (Obj_Profiler pr) | Timer_callback \<Rightarrow> \<exists>to. objects s a = Some (Obj_Timer to))"
proof -
  have inv: "php_inv (\<lambda>_. 0) posix_live me s" by (rule posix_profiler.script_inv [OF assms(1,2)])
  have "a \<in> {..<next_object s}" by (rule posix_profiler.valid_below [OF inv assms(3)])
  then have "timer_ok posix_live me (timers s a)" using php_invD(5) [OF inv] by (simp add: timer_inv_def)
  moreover have "timer_owner_ok s a" by (rule php_invD(4) [OF inv])
  ultimately show ?thesis using assms(3) by (simp add: timer_ok_def timer_owner_ok_def kind_defs split: timer_callback.splits)
qed

text \<open>C37 (error): \<^verbatim>\<open>excimer_set_timeout\<close> with a value that cannot be called releases the only reference to the new
  timer object, which frees it, and then writes the interval into the freed object: a use after free, in
  every state and with either backend.\<close>

theorem set_timeout_frees_then_writes:
  assumes "\<And>s. \<not> callable eng s z"
  shows "excimer_set_timeout lib eng me z x s = Inl Use_After_Free"
proof -
  let ?to = "zero_timer_obj\<lparr>to_z_callback := Z_UNDEF, to_event_type := EXCIMER_REAL, to_need_reinit := True\<rparr>"
  have "ExcimerTimer_new s = Inr (next_object s, with_object (Obj_Timer ?to) s)"
    by (simp add: ExcimerTimer_new_def alloc_run pbind_def set_timer_obj_def check_object_def put_object_def modify_def with_object_def)
  then show ?thesis using assms
    by (simp add: excimer_set_timeout_def pbind_def ExcimerTimer_set_callback_def gets_def warn_def release_timer_obj_def
        ExcimerTimer_free_object_def destroy_callback_def release_callback_def set_timer_obj_def check_object_def put_object_def delref_def free_storage_def modify_def
        zeroed_def with_object_def)
qed

theorem set_timeout_frees_then_writes_witness:
  "excimer_set_timeout (posix_timerlib True) demo_engine 0 Z_NULL 1 demo_start = Inl Use_After_Free"
  by (rule set_timeout_frees_then_writes) (simp add: callable_def)

end
