(* ===== verification/Php_Start.thy ===== *)
theory Php_Start
  imports Php_Script
begin

text \<open>
  Starting a profiler or a timer object is never silent: afterwards the timer is running, or the user has
  been warned.
\<close>

text \<open>A warning since \<open>s\<close>.\<close>

definition warned :: "('tl, 'z) php_scheme \<Rightarrow> ('tl, 'z) php_scheme \<Rightarrow> bool" where
  "warned s s' \<longleftrightarrow> length (warnings s) < length (warnings s')"

lemma op_frame_warned:
  assumes "op_frame A s s'"
  shows "warned s' s'' \<Longrightarrow> warned s s''" "warned s0 s \<Longrightarrow> warned s0 s'"
  using assms by (simp_all add: op_frame_def warned_def)

lemma prog_spec_warned:
  assumes "prog_spec m P" "m s = Inr (x, s')" "\<And>cs. \<not> P x cs []"
  shows "warned s s'"
proof -
  have "new_warnings s s' \<noteq> []" using prog_specD(2) [OF assms(1,2)] assms(3) by metis
  then show ?thesis using prog_specD(1) [OF assms(1,2)] by (auto simp: os_frame_def warned_def)
qed

lemma gets_run: "gets f s = Inr (f s, s)"
  by (simp add: gets_def)

context profiler_backend
begin

lemma init_warned:
  fixes s :: "('tl, 'z) php_scheme"
  assumes "excimer_timer_init lib me t clk cb d s = Inr (False, s')"
  shows "warned s s'"
proof -
  let ?s1 = "upd_timer t (\<lambda>old. \<lparr>is_valid = False, is_running = False, vm_interrupt_ptr = me,
       tl_timer = tl_timer old, callback = cb, user_data = d, pending_next = None, pending_prev = None,
       timer_event_count = 0, timer_tls = Some me\<rparr>) s"
  obtain tl s2 tl' s3 where r: "tl_init lib clk t ?s1 = Inr ((False, tl), s2)"
    "tl_destroy lib tl (upd_timer t (tl_timer_update (\<lambda>_. tl)) s2) = Inr (tl', s3)"
    "s' = upd_timer t (tl_timer_update (\<lambda>_. tl')) s3"
    using assms by (auto simp: excimer_timer_init_def state_defs pbind_def rbind_Inr_iff split: if_splits)
  have "warned ?s1 s2" by (rule prog_spec_warned [OF init_spec r(1)]) simp
  moreover have "length (warnings s2) \<le> length (warnings s3)"
    using prog_specD(1) [OF destroy_spec r(2)] by (auto simp: os_frame_def)
  ultimately show ?thesis by (simp add: warned_def r(3))
qed

lemma arm_loud:
  fixes s :: "('tl, 'z) php_scheme"
  assumes inv: "php_inv F live me s" and run: "excimer_timer_start lib t p i s = Inr ((), s')"
  shows "is_running (timers s' t) \<or> warned s s'"
proof (cases "is_valid (timers s t)")
  case False
  then show ?thesis using run by (auto simp: excimer_timer_start_def state_defs pbind_def warn_def warned_def)
next
  case True
  have "timer_ok live me (timers s t)" using php_invD(5) [OF inv] valid_below [OF inv True] by (simp add: timer_inv_def)
  then have l: "live (tl_timer (timers s t))" using True by (simp add: timer_ok_def)
  let ?i = "if timerlib_timespec_is_zero i then p else i"
  show ?thesis
  proof (cases "timerlib_timespec_is_zero ?i")
    case zero: True
    then show ?thesis using run True
      by (auto simp: excimer_timer_start_def state_defs pbind_def warn_def warned_def Let_def split: if_splits)
  next
    case False
    then obtain ok tl s1 where r: "tl_start lib (tl_timer (timers s t)) p ?i s = Inr ((ok, tl), s1)"
      and s': "s' = (if ok then upd_timer t (is_running_update (\<lambda>_. True)) (upd_timer t (tl_timer_update (\<lambda>_. tl)) s1)
        else upd_timer t (tl_timer_update (\<lambda>_. tl)) s1)"
      using run True by (auto simp: excimer_timer_start_def state_defs pbind_def Let_def rbind_Inr_iff split: if_splits)
    show ?thesis
    proof (cases ok)
      case False
      have "warned s s1" by (rule prog_spec_warned [OF start_spec [OF l] r]) (simp add: False)
      then show ?thesis using False by (simp add: s' warned_def)
    qed (simp add: s')
  qed
qed

text \<open>The steps both start functions share: initialise the timer when needed, then start it.\<close>

lemma start_block_loud:
  fixes s :: "('tl, 'z) php_scheme"
  assumes inv: "php_inv F live me s"
    and k: "case cb of Profiler_callback \<Rightarrow> is_profiler t s | Timer_callback \<Rightarrow> is_timer t s"
    and upd: "\<And>s x s'. upd s = Inr (x, s') \<Longrightarrow> timers s' = timers s \<and> warnings s' = warnings s"
    and safe: "safe_op F live me (\<lambda>s. case cb of Profiler_callback \<Rightarrow> is_profiler t s | Timer_callback \<Rightarrow> is_timer t s) upd"
    and run: "pbind (gets (\<lambda>s. is_valid (timers s t))) (\<lambda>v.
      pbind (if b \<or> \<not> v then pbind (if v then excimer_timer_destroy lib me t else pret ()) (\<lambda>_.
        pbind (excimer_timer_init lib me t (ucast (et :: zend_long)) cb t) (\<lambda>ok.
        if ok then pbind upd (\<lambda>_. pret True) else pret False)) else pret True) (\<lambda>ok.
      if ok then excimer_timer_start lib t p i else pret ())) s = Inr ((), s')"
  shows "is_running (timers s' t) \<or> warned s s'"
proof (cases "b \<or> \<not> is_valid (timers s t)")
  case False
  then have "excimer_timer_start lib t p i s = Inr ((), s')" using run by (simp add: pbind_def gets_def)
  then show ?thesis by (rule arm_loud [OF inv])
next
  case True
  let ?d = "if is_valid (timers s t) then excimer_timer_destroy lib me t else pret ()"
  have "pbind (pbind ?d (\<lambda>_. pbind (excimer_timer_init lib me t (ucast et) cb t) (\<lambda>ok.
      if ok then pbind upd (\<lambda>_. pret True) else pret False))) (\<lambda>ok. if ok then excimer_timer_start lib t p i else pret ()) s = Inr ((), s')"
    using run unfolding pbind_Inr [of "gets f" for f, OF gets_run] using True by (simp only: simp_thms if_True)
  then have "pbind ?d (\<lambda>_. pbind (excimer_timer_init lib me t (ucast et) cb t) (\<lambda>ok. pbind (if ok then pbind upd (\<lambda>_. pret True) else pret False)
      (\<lambda>ok. if ok then excimer_timer_start lib t p i else pret ()))) s = Inr ((), s')"
    unfolding pbind_assoc .
  then obtain x s1 ok s2 where d: "?d s = Inr (x, s1)" and i: "excimer_timer_init lib me t (ucast et) cb t s1 = Inr (ok, s2)"
    and rest: "pbind (if ok then pbind upd (\<lambda>_. pret True) else pret False)
      (\<lambda>ok. if ok then excimer_timer_start lib t p i else pret ()) s2 = Inr ((), s')"
    by (elim pbind_InrE) (simp add: pbind_Inr)
  have f1: "op_frame {} s s1" using d keepsD [OF keeps_ops(3)] by (auto split: if_splits)
  have f2: "op_frame {t} s1 s2" by (rule keepsD [OF keeps_ops(4) i])
  have reinit: "reinit me t et cb s = Inr (ok, s2)" using d i by (simp add: reinit_def pbind_def gets_def)
  show ?thesis
  proof (cases ok)
    case False
    then have "warned s1 s2" "s' = s2" using init_warned [of me t "ucast et" cb t s1 s2] i rest by (auto simp: pbind_def)
    then show ?thesis using op_frame_warned(1) [OF f1] by simp
  next
    case True
    then obtain y s3 where u: "upd s2 = Inr (y, s3)" and st: "excimer_timer_start lib t p i s3 = Inr ((), s')"
      using rest by (auto simp: pbind_def rbind_Inr_iff)
    let ?K = "\<lambda>s. case cb of Profiler_callback \<Rightarrow> is_profiler t s | Timer_callback \<Rightarrow> is_timer t s"
    have "safe_op F live me ?K (reinit me t et cb)" by (rule safe_reinit)
    from safe_opD(2) [OF this inv k reinit] have s2: "php_inv F live me s2" "?K s2"
      using k by (auto simp: same_kinds_def split: timer_callback.splits)
    have "php_inv F live me s3" using safe_opD(2) [OF safe s2 u] by simp
    from arm_loud [OF this st] have "is_running (timers s' t) \<or> warned s2 s'"
      using upd [OF u] by (simp add: warned_def)
    then show ?thesis using op_frame_warned(1) [OF f1] op_frame_warned(1) [OF f2] by blast
  qed
qed

lemma profiler_start_loud:
  fixes s :: "('tl, 'z) php_scheme"
  assumes inv: "php_inv F live me s" and k: "is_profiler t s" and run: "zim_ExcimerProfiler_start lib me t s = Inr ((), s')"
  shows "is_running (timers s' t) \<or> warned s s'"
proof -
  let ?stop = "if is_running (timers s t) then ExcimerProfiler_stop lib t else pret ()"
  obtain x s1 where s1: "?stop s = Inr (x, s1)" "ExcimerProfiler_start lib me t s1 = Inr ((), s')"
    using run k by (auto simp: zim_ExcimerProfiler_start_def is_profiler_def check_object_def pbind_def gets_def rbind_Inr_iff)
  have f: "op_frame {} s s1"
    using s1(1) k keepsD [OF keeps_ops(2)]
    by (auto simp: ExcimerProfiler_stop_def is_profiler_def check_object_def pbind_def gets_def split: if_splits)
  have i1: "php_inv F live me s1" "is_profiler t s1"
    using s1(1) safe_opD(2) [of F live me "is_profiler t", OF safe_profiler_stop inv k] inv k by (auto simp: same_kinds_def split: if_splits)
  then obtain ob where ob: "objects s1 t = Some (Obj_Profiler ob)" by (auto simp: is_profiler_def)
  have safe: "safe_op F live me (is_profiler t) (set_profiler t (pr_need_reinit_update (\<lambda>_. False)))"
    by (auto intro: safe_intros)
  have "is_running (timers s' t) \<or> warned s1 s'"
  proof (rule start_block_loud [OF i1(1), where cb = Profiler_callback])
    show "pbind (gets (\<lambda>s. is_valid (timers s t))) (\<lambda>v.
      pbind (if pr_need_reinit ob \<or> \<not> v then pbind (if v then excimer_timer_destroy lib me t else pret ()) (\<lambda>_.
        pbind (excimer_timer_init lib me t (ucast (pr_event_type ob)) Profiler_callback t) (\<lambda>ok.
        if ok then pbind (set_profiler t (pr_need_reinit_update (\<lambda>_. False))) (\<lambda>_. pret True) else pret False)) else pret True) (\<lambda>ok.
      if ok then excimer_timer_start lib t (pr_period ob) (pr_initial ob) else pret ())) s1 = Inr ((), s')"
      using s1(2) ob unfolding ExcimerProfiler_start_def by (simp add: pbind_def [of "check_object f a" for f a] check_object_def)
  qed (use i1(2) safe in \<open>auto simp: set_profiler_def check_object_def pbind_def put_object_def modify_def split: option.splits php_object.splits\<close>)
  then show ?thesis using op_frame_warned(1) [OF f] by blast
qed

lemma timer_start_loud:
  fixes s :: "('tl, 'z) php_scheme"
  assumes inv: "php_inv F live me s" and k: "is_timer t s" and run: "zim_ExcimerTimer_start lib me t s = Inr ((), s')"
  shows "is_running (timers s' t) \<or> warned s s'"
proof -
  let ?stop = "if is_running (timers s t) then ExcimerTimer_stop lib t else pret ()"
  obtain x s1 where s1: "?stop s = Inr (x, s1)" "ExcimerTimer_start lib me t s1 = Inr ((), s')"
    using run k by (auto simp: zim_ExcimerTimer_start_def is_timer_def check_object_def pbind_def gets_def rbind_Inr_iff)
  have f: "op_frame {} s s1"
    using s1(1) k keepsD [OF keeps_ops(2)]
    by (auto simp: ExcimerTimer_stop_def is_timer_def check_object_def pbind_def gets_def split: if_splits)
  have i1: "php_inv F live me s1" "is_timer t s1"
    using s1(1) safe_opD(2) [of F live me "is_timer t", OF safe_timer_stop inv k] inv k by (auto simp: same_kinds_def split: if_splits)
  then obtain ob where ob: "objects s1 t = Some (Obj_Timer ob)" by (auto simp: is_timer_def)
  have safe: "safe_op F live me (is_timer t) (set_timer_obj t (to_need_reinit_update (\<lambda>_. False)))"
    by (auto intro: safe_intros)
  have "is_running (timers s' t) \<or> warned s1 s'"
  proof (rule start_block_loud [OF i1(1), where cb = Timer_callback])
    show "pbind (gets (\<lambda>s. is_valid (timers s t))) (\<lambda>v.
      pbind (if to_need_reinit ob \<or> \<not> v then pbind (if v then excimer_timer_destroy lib me t else pret ()) (\<lambda>_.
        pbind (excimer_timer_init lib me t (ucast (to_event_type ob)) Timer_callback t) (\<lambda>ok.
        if ok then pbind (set_timer_obj t (to_need_reinit_update (\<lambda>_. False))) (\<lambda>_. pret True) else pret False)) else pret True) (\<lambda>ok.
      if ok then excimer_timer_start lib t (to_period ob) (to_initial ob) else pret ())) s1 = Inr ((), s')"
      using s1(2) ob unfolding ExcimerTimer_start_def by (simp add: pbind_def [of "check_object f a" for f a] check_object_def)
  qed (use i1(2) safe in \<open>auto simp: set_timer_obj_def check_object_def pbind_def put_object_def modify_def split: option.splits php_object.splits\<close>)
  then show ?thesis using op_frame_warned(1) [OF f] by blast
qed

end

text \<open>C24 (error): starting a profiler or a timer object never fails silently: when the call returns, the timer is
  running or a new warning has been given, whatever the library calls answer and whatever period,
  interval and event type the object has.\<close>

theorem start_never_silent:
  fixes s :: "(posix_timer, 'z) php_scheme"
  assumes "foreign_hook hook"
    and "php_reachable (posix_timerlib np) (script_engine (posix_timerlib np) base hook me scripts n) hook me s"
    and "is_profiler a s \<and> zim_ExcimerProfiler_start (posix_timerlib np) me a s = Inr ((), s') \<or>
      is_timer a s \<and> zim_ExcimerTimer_start (posix_timerlib np) me a s = Inr ((), s')"
  shows "is_running (timers s' a) \<or> length (warnings s) < length (warnings s')"
proof -
  have inv: "php_inv (\<lambda>_. 0) posix_live me s" by (rule posix_profiler.script_inv [OF assms(1,2)])
  show ?thesis
    using assms(3) posix_profiler.profiler_start_loud [OF inv] posix_profiler.timer_start_loud [OF inv]
    unfolding warned_def by blast
qed

theorem start_never_silent_witness:
  "\<exists>(s :: posix_timer php) s'. is_timer 0 s \<and> zim_ExcimerTimer_start (posix_timerlib True) 0 0 s = Inr ((), s') \<and>
    (is_running (timers s' 0) \<or> length (warnings s) < length (warnings s'))"
proof -
  obtain s1 s2 where r: "exec_call (posix_timerlib True) demo_script_engine demo_hook 0 New_timer demo_start = Inr ((), s1)"
    "is_timer 0 s1" "zim_ExcimerTimer_start (posix_timerlib True) 0 0 s1 = Inr ((), s2)"
    using demo_timer_run by blast
  have reach: "php_reachable (posix_timerlib True) demo_script_engine demo_hook 0 s1"
    by (rule php_reachable.step [OF demo_start_reachable _ r(1)]) simp
  from start_never_silent [OF demo_foreign reach, of 0 s2] r(2,3) show ?thesis by (intro exI [of _ s1] exI [of _ s2]) simp
qed

end
