(* ===== verification/Php_Module.thy ===== *)
theory Php_Module
  imports Php_Start Log_Format
begin

text \<open>
  The rest of \<^verbatim>\<open>excimer.c\<close>: the methods of \<^verbatim>\<open>ExcimerLog\<close> that export a whole log, the constructors PHP code
  cannot call, and what the module does at the start and the end of the process and of a request.
\<close>

section \<open>Methods of ExcimerLog\<close>

text \<open>\<^verbatim>\<open>E_ERROR\<close> ends the request.\<close>

definition ExcimerLog_construct :: "('s, unit) prog" where
  "ExcimerLog_construct = pfail (Fatal_Error ''ExcimerLog cannot be constructed directly'')"

definition ExcimerLogEntry_construct :: "('s, unit) prog" where
  "ExcimerLogEntry_construct = pfail (Fatal_Error ''ExcimerLogEntry cannot be constructed directly'')"

definition ExcimerLog_formatCollapsed :: "log_obj \<Rightarrow> string res" where
  "ExcimerLog_formatCollapsed ob = excimer_log_format_collapsed (obj_log ob)"

definition ExcimerLog_getSpeedscopeData :: "log_obj \<Rightarrow> (zkey, zval) ztable res" where
  "ExcimerLog_getSpeedscopeData ob = excimer_log_get_speedscope_data (obj_log ob)"

text \<open>The sort of the engine is a parameter, as in \<open>excimer_log_aggr_by_func\<close>.\<close>

definition ExcimerLog_aggregateByFunction ::
  "((string \<times> (zkey, zval) ztable \<Rightarrow> string \<times> (zkey, zval) ztable \<Rightarrow> int res) \<Rightarrow> aggr_table \<Rightarrow> aggr_table) \<Rightarrow>
   log_obj \<Rightarrow> aggr_table res" where
  "ExcimerLog_aggregateByFunction zsort ob = excimer_log_aggr_by_func zsort (obj_log ob)"

section \<open>Module and request\<close>

text \<open>
  The functions of the module entry, with the names the macros of the engine give them. At the start of
  the process the classes and constants are registered (\<open>zm_startup_tables\<close> in \<open>Php_Classes\<close>) and the
  interrupt hook is installed.
\<close>

definition excimer_timer_module_shutdown :: "(('tl, 'z) tmodule_scheme, unit) prog" where
  "excimer_timer_module_shutdown = pret ()"

definition zm_startup_excimer :: "(('tl, 'z) tmodule_scheme, unit) prog" where
  "zm_startup_excimer = excimer_timer_module_init"

definition zm_shutdown_excimer :: "(('tl, 'z) tmodule_scheme, unit) prog" where
  "zm_shutdown_excimer = excimer_timer_module_shutdown"

definition zm_activate_excimer :: "thread \<Rightarrow> (('tl, 'z) tstate_scheme, unit) prog" where
  "zm_activate_excimer me = excimer_timer_thread_init me"

definition zm_post_zend_deactivate_excimer :: "thread \<Rightarrow> (('tl, 'z) tstate_scheme, unit) prog" where
  "zm_post_zend_deactivate_excimer me = excimer_timer_thread_shutdown me"

text \<open>The end of a request. The thread's mutex is destroyed if no timer is in use any more, and
  otherwise there is a warning and the mutex is kept; the check, which reads a counter, is exact. When
  the engine has released every profiler and timer object there is no warning.\<close>

lemma request_shutdown_exact:
  fixes s :: "(posix_timer, 'z) php_scheme"
  assumes "foreign_hook hook"
    and "php_reachable (posix_timerlib np) (script_engine (posix_timerlib np) base hook me scripts n) hook me s"
    and "next_object s < 2 ^ 64"
  shows "zm_post_zend_deactivate_excimer me s =
      (if \<exists>a. is_valid (timers s a) then warn (Warning ''Timer still active at thread termination'') s
       else excimer_mutex_destroy (Tls_Mutex me) s) \<and>
    ((\<forall>a. \<not> is_profiler a s \<and> \<not> is_timer a s) \<longrightarrow>
      zm_post_zend_deactivate_excimer me s = excimer_mutex_destroy (Tls_Mutex me) s)"
proof -
  have inv: "php_inv (\<lambda>_. 0) posix_live me s" by (rule posix_profiler.script_inv [OF assms(1,2)])
  have "(\<exists>a. is_valid (timers s a)) \<longleftrightarrow> (\<exists>a < next_object s. is_valid (timers s a))"
    using posix_profiler.valid_below [OF inv] by auto
  moreover have "is_profiler a s \<or> is_timer a s" if "is_valid (timers s a)" for a
    using php_invD(4) [OF inv, of a] that by (cases "callback (timers s a)") (simp_all add: timer_owner_ok_def)
  ultimately show ?thesis
    using thread_shutdown_exact [OF php_invD(5) [OF inv]] assms(3) by (auto simp: zm_post_zend_deactivate_excimer_def)
qed

end
