(* ===== verification/Php_Classes.thy ===== *)
theory Php_Classes
  imports Php_Module
begin

text \<open>
  How PHP code reaches the extension: argument information, method tables, the registration of the classes at
  the start of the module, the lookup of a method by its name and the parsing of its arguments
  (\<^verbatim>\<open>excimer.c\<close>).
\<close>

section \<open>Results and arguments\<close>

datatype call_error = Undefined_method | Private_method | Wrong_count | Wrong_argument nat

datatype php_result =
    Throws call_error
  | Ret_null
  | Ret_bool bool
  | Ret_long zend_long
  | Ret_double real
  | Ret_string string
  | Ret_zval zval
  | Ret_array "(zkey, zval) ztable"
  | Ret_rows aggr_table
  | Ret_log addr
  | Ret_entry "addr option"
  | Ret_timer "addr option"

text \<open>
  Values of PHP are of type \<open>'v\<close>; which of them the engine accepts as an integer or a number, and converts, are its
  rules. A parameter of type \<^verbatim>\<open>zval\<close> takes every value.
\<close>

record 'v zpp_rules =
  zpp_long :: "'v \<Rightarrow> zend_long option"
  zpp_double :: "'v \<Rightarrow> real option"
  zpp_zval :: "'v \<Rightarrow> callback_zval"

text \<open>\<^verbatim>\<open>ZEND_PARSE_PARAMETERS_START(n, n)\<close> with \<open>n\<close> parameters; a failure returns from the method.\<close>

definition parse0 :: "'v list \<Rightarrow> ('s, php_result) prog \<Rightarrow> ('s, php_result) prog" where
  "parse0 args body = (if args = [] then body else pret (Throws Wrong_count))"

definition parse1 :: "('v \<Rightarrow> 'a option) \<Rightarrow> 'v list \<Rightarrow> ('a \<Rightarrow> ('s, php_result) prog) \<Rightarrow> ('s, php_result) prog" where
  "parse1 p args body = (case args of
     [v] \<Rightarrow> (case p v of Some x \<Rightarrow> body x | None \<Rightarrow> pret (Throws (Wrong_argument 1)))
   | _ \<Rightarrow> pret (Throws Wrong_count))"

definition parse2 ::
  "('v \<Rightarrow> 'a option) \<Rightarrow> ('v \<Rightarrow> 'b option) \<Rightarrow> 'v list \<Rightarrow> ('a \<Rightarrow> 'b \<Rightarrow> ('s, php_result) prog) \<Rightarrow> ('s, php_result) prog" where
  "parse2 p q args body = (case args of
     [v, w] \<Rightarrow> (case p v of
         None \<Rightarrow> pret (Throws (Wrong_argument 1))
       | Some x \<Rightarrow> (case q w of None \<Rightarrow> pret (Throws (Wrong_argument 2)) | Some y \<Rightarrow> body x y))
   | _ \<Rightarrow> pret (Throws Wrong_count))"

lemmas parse_defs = parse0_def parse1_def parse2_def

definition returns :: "php_result \<Rightarrow> ('s, unit) prog \<Rightarrow> ('s, php_result) prog" where
  "returns r m = pbind m (\<lambda>_. pret r)"

definition reads :: "('a \<Rightarrow> php_result) \<Rightarrow> 'a res \<Rightarrow> ('s, php_result) prog" where
  "reads f r s = rbind r (\<lambda>x. Inr (f x, s))"

section \<open>The methods with their parameters\<close>

datatype profiler_method = P_setPeriod | P_setEventType | P_setMaxDepth | P_setFlushCallback | P_clearFlushCallback | P_start | P_stop
  | P_getLog | P_flush

datatype log_method = L_construct | L_formatCollapsed | L_getSpeedscopeData | L_aggregateByFunction | L_getEventCount | L_current
  | L_key | L_next | L_rewind | L_valid | L_count | L_offsetExists | L_offsetGet | L_offsetSet | L_offsetUnset

datatype log_entry_method = E_construct | E_getTimestamp | E_getEventCount | E_getTrace

datatype timer_method = T_setEventType | T_setInterval | T_setPeriod | T_setCallback | T_start | T_stop | T_getTime

text \<open>
  A log that a method returns goes to a variable, as does an entry. Methods without
  \<^verbatim>\<open>ZEND_PARSE_PARAMETERS\<close> ignore their arguments. While a method of a profiler or a timer runs, the engine holds the object
  (\<open>on_this\<close>); a log or an entry is held by the variable the method is called on.
\<close>

definition give_log :: "addr \<Rightarrow> (('tl, 'z) php_scheme, php_result) prog" where
  "give_log l = returns (Ret_log l) (hand_over l)"

definition give_entry :: "addr option \<Rightarrow> (('tl, 'z) php_scheme, php_result) prog" where
  "give_entry r = returns (Ret_entry r) (hand_result r)"

fun call_profiler ::
  "('tl, 'z) php_lib \<Rightarrow> ('tl, 'z) php_scheme engine \<Rightarrow> thread \<Rightarrow> 'v zpp_rules \<Rightarrow> uint32_t \<Rightarrow> addr \<Rightarrow> profiler_method \<Rightarrow> 'v list \<Rightarrow>
   (('tl, 'z) php_scheme, php_result) prog" where
  "call_profiler lib eng me zp rnd p P_setPeriod args =
     parse1 (zpp_double zp) args (\<lambda>x. returns Ret_null (on_this p (zim_ExcimerProfiler_setPeriod eng rnd p x)))"
| "call_profiler lib eng me zp rnd p P_setEventType args =
     parse1 (zpp_long zp) args (\<lambda>n. returns Ret_null (on_this p (zim_ExcimerProfiler_setEventType p n)))"
| "call_profiler lib eng me zp rnd p P_setMaxDepth args =
     parse1 (zpp_long zp) args (\<lambda>n. returns Ret_null (on_this p (zim_ExcimerProfiler_setMaxDepth p n)))"
| "call_profiler lib eng me zp rnd p P_setFlushCallback args =
     parse2 (Some \<circ> zpp_zval zp) (zpp_long zp) args (\<lambda>z n. returns Ret_null (on_this p (zim_ExcimerProfiler_setFlushCallback eng p z n)))"
| "call_profiler lib eng me zp rnd p P_clearFlushCallback args = returns Ret_null (on_this p (zim_ExcimerProfiler_clearFlushCallback eng p))"
| "call_profiler lib eng me zp rnd p P_start args = parse0 args (returns Ret_null (on_this p (zim_ExcimerProfiler_start lib me p)))"
| "call_profiler lib eng me zp rnd p P_stop args = parse0 args (returns Ret_null (on_this p (zim_ExcimerProfiler_stop lib p)))"
| "call_profiler lib eng me zp rnd p P_getLog args = parse0 args (pbind (on_this p (zim_ExcimerProfiler_getLog p)) give_log)"
| "call_profiler lib eng me zp rnd p P_flush args = parse0 args (pbind (on_this p (zim_ExcimerProfiler_flush lib eng p)) give_log)"

fun call_log ::
  "((string \<times> (zkey, zval) ztable \<Rightarrow> string \<times> (zkey, zval) ztable \<Rightarrow> int res) \<Rightarrow> aggr_table \<Rightarrow> aggr_table) \<Rightarrow>
   'v zpp_rules \<Rightarrow> addr \<Rightarrow> log_method \<Rightarrow> 'v list \<Rightarrow> (('tl, 'z) php_scheme, php_result) prog" where
  "call_log zsort zp l L_construct args = returns Ret_null ExcimerLog_construct"
| "call_log zsort zp l L_formatCollapsed args = pbind (get_log l) (\<lambda>lo. reads Ret_string (ExcimerLog_formatCollapsed lo))"
| "call_log zsort zp l L_getSpeedscopeData args = pbind (get_log l) (\<lambda>lo. reads Ret_array (ExcimerLog_getSpeedscopeData lo))"
| "call_log zsort zp l L_aggregateByFunction args = pbind (get_log l) (\<lambda>lo. reads Ret_rows (ExcimerLog_aggregateByFunction zsort lo))"
| "call_log zsort zp l L_getEventCount args = pbind (get_log l) (\<lambda>lo. pret (Ret_long (ExcimerLog_getEventCount lo)))"
| "call_log zsort zp l L_current args = parse0 args (pbind (zim_ExcimerLog_current l) give_entry)"
| "call_log zsort zp l L_key args = parse0 args (pbind (get_log l) (\<lambda>lo. pret (Ret_zval (ExcimerLog_key lo))))"
| "call_log zsort zp l L_next args = parse0 args (returns Ret_null (zim_ExcimerLog_next l))"
| "call_log zsort zp l L_rewind args = parse0 args (returns Ret_null (zim_ExcimerLog_rewind l))"
| "call_log zsort zp l L_valid args = parse0 args (pbind (get_log l) (\<lambda>lo. pret (Ret_bool (ExcimerLog_valid lo))))"
| "call_log zsort zp l L_count args = parse0 args (pbind (get_log l) (\<lambda>lo. pret (Ret_long (ExcimerLog_count lo))))"
| "call_log zsort zp l L_offsetExists args =
     parse1 (zpp_long zp) args (\<lambda>i. pbind (get_log l) (\<lambda>lo. pret (Ret_bool (ExcimerLog_offsetExists lo i))))"
| "call_log zsort zp l L_offsetGet args = parse1 (zpp_long zp) args (\<lambda>i. pbind (zim_ExcimerLog_offsetGet l i) give_entry)"
| "call_log zsort zp l L_offsetSet args = returns Ret_null ExcimerLog_offsetSet"
| "call_log zsort zp l L_offsetUnset args = returns Ret_null ExcimerLog_offsetUnset"

text \<open>The accessors of an entry find the log and the element before they parse.\<close>

definition find_entry :: "addr \<Rightarrow> (('tl, 'z) php_scheme, excimer_log_entry option) prog" where
  "find_entry e = with_entry e (\<lambda>lg i. Inr (excimer_log_get_entry lg i))"

fun call_log_entry ::
  "(real \<Rightarrow> real) \<Rightarrow> addr \<Rightarrow> log_entry_method \<Rightarrow> 'v list \<Rightarrow> (('tl, 'z) php_scheme, php_result) prog" where
  "call_log_entry fl e E_construct args = returns Ret_null ExcimerLogEntry_construct"
| "call_log_entry fl e E_getTimestamp args =
     pbind (find_entry e) (\<lambda>_. parse0 args (pbind (zim_ExcimerLogEntry_getTimestamp fl e) (\<lambda>x. pret (Ret_double x))))"
| "call_log_entry fl e E_getEventCount args =
     pbind (find_entry e) (\<lambda>_. parse0 args (pbind (zim_ExcimerLogEntry_getEventCount e) (\<lambda>n. pret (Ret_long n))))"
| "call_log_entry fl e E_getTrace args =
     pbind (find_entry e) (\<lambda>_. parse0 args (pbind (zim_ExcimerLogEntry_getTrace e) (\<lambda>t. pret (Ret_array t))))"

fun call_timer ::
  "('tl, 'z) php_lib \<Rightarrow> ('tl, 'z) php_scheme engine \<Rightarrow> thread \<Rightarrow> 'v zpp_rules \<Rightarrow> addr \<Rightarrow> timer_method \<Rightarrow> 'v list \<Rightarrow>
   (('tl, 'z) php_scheme, php_result) prog" where
  "call_timer lib eng me zp a T_setEventType args =
     parse1 (zpp_long zp) args (\<lambda>n. returns Ret_null (on_this a (zim_ExcimerTimer_setEventType a n)))"
| "call_timer lib eng me zp a T_setInterval args =
     parse1 (zpp_double zp) args (\<lambda>x. returns Ret_null (on_this a (zim_ExcimerTimer_setInterval eng a x)))"
| "call_timer lib eng me zp a T_setPeriod args =
     parse1 (zpp_double zp) args (\<lambda>x. returns Ret_null (on_this a (zim_ExcimerTimer_setPeriod eng a x)))"
| "call_timer lib eng me zp a T_setCallback args =
     parse1 (Some \<circ> zpp_zval zp) args (\<lambda>z. returns Ret_null (on_this a (zim_ExcimerTimer_setCallback eng a z)))"
| "call_timer lib eng me zp a T_start args = parse0 args (returns Ret_null (on_this a (zim_ExcimerTimer_start lib me a)))"
| "call_timer lib eng me zp a T_stop args = parse0 args (returns Ret_null (on_this a (zim_ExcimerTimer_stop lib a)))"
| "call_timer lib eng me zp a T_getTime args = parse0 args (pbind (on_this a (zim_ExcimerTimer_getTime lib eng a)) (\<lambda>x. pret (Ret_double x)))"

definition zif_excimer_set_timeout ::
  "('tl, 'z) php_lib \<Rightarrow> ('tl, 'z) php_scheme engine \<Rightarrow> thread \<Rightarrow> 'v zpp_rules \<Rightarrow> 'v list \<Rightarrow> (('tl, 'z) php_scheme, php_result) prog" where
  "zif_excimer_set_timeout lib eng me zp args =
     parse2 (Some \<circ> zpp_zval zp) (zpp_double zp) args (\<lambda>z x. pbind (excimer_set_timeout lib eng me z x) (\<lambda>r. pret (Ret_timer r)))"

section \<open>Argument information and method tables\<close>

text \<open>\<^verbatim>\<open>ZEND_BEGIN_ARG_INFO\<close> gives \<^verbatim>\<open>-1\<close> for the number of required arguments, which stands for all of them.\<close>

record arg_info =
  required_num_args :: int
  arg_names :: "string list"

definition ZEND_ARG_INFO :: "string list \<Rightarrow> arg_info" where
  "ZEND_ARG_INFO names = \<lparr>required_num_args = -1, arg_names = names\<rparr>"

definition ZEND_ARG_INFO_EX :: "int \<Rightarrow> string list \<Rightarrow> arg_info" where
  "ZEND_ARG_INFO_EX n names = \<lparr>required_num_args = n, arg_names = names\<rparr>"

definition num_required :: "arg_info \<Rightarrow> nat" where
  "num_required ai = (if required_num_args ai = -1 then length (arg_names ai) else nat (required_num_args ai))"

fun arginfo_ExcimerProfiler :: "profiler_method \<Rightarrow> arg_info" where
  "arginfo_ExcimerProfiler P_setPeriod = ZEND_ARG_INFO [''period'']"
| "arginfo_ExcimerProfiler P_setEventType = ZEND_ARG_INFO [''event_type'']"
| "arginfo_ExcimerProfiler P_setMaxDepth = ZEND_ARG_INFO [''max_depth'']"
| "arginfo_ExcimerProfiler P_setFlushCallback = ZEND_ARG_INFO [''callback'', ''max_samples'']"
| "arginfo_ExcimerProfiler P_clearFlushCallback = ZEND_ARG_INFO []"
| "arginfo_ExcimerProfiler P_start = ZEND_ARG_INFO []"
| "arginfo_ExcimerProfiler P_stop = ZEND_ARG_INFO []"
| "arginfo_ExcimerProfiler P_getLog = ZEND_ARG_INFO_EX 0 []"
| "arginfo_ExcimerProfiler P_flush = ZEND_ARG_INFO []"

fun arginfo_ExcimerLog :: "log_method \<Rightarrow> arg_info" where
  "arginfo_ExcimerLog L_construct = ZEND_ARG_INFO []"
| "arginfo_ExcimerLog L_formatCollapsed = ZEND_ARG_INFO []"
| "arginfo_ExcimerLog L_getSpeedscopeData = ZEND_ARG_INFO []"
| "arginfo_ExcimerLog L_aggregateByFunction = ZEND_ARG_INFO []"
| "arginfo_ExcimerLog L_getEventCount = ZEND_ARG_INFO []"
| "arginfo_ExcimerLog L_current = ZEND_ARG_INFO_EX 0 []"
| "arginfo_ExcimerLog L_key = ZEND_ARG_INFO_EX 0 []"
| "arginfo_ExcimerLog L_next = ZEND_ARG_INFO_EX 0 []"
| "arginfo_ExcimerLog L_rewind = ZEND_ARG_INFO_EX 0 []"
| "arginfo_ExcimerLog L_valid = ZEND_ARG_INFO_EX 0 []"
| "arginfo_ExcimerLog L_count = ZEND_ARG_INFO_EX 0 []"
| "arginfo_ExcimerLog L_offsetExists = ZEND_ARG_INFO_EX 1 [''offset'']"
| "arginfo_ExcimerLog L_offsetGet = ZEND_ARG_INFO_EX 1 [''offset'']"
| "arginfo_ExcimerLog L_offsetSet = ZEND_ARG_INFO_EX 2 [''offset'', ''value'']"
| "arginfo_ExcimerLog L_offsetUnset = ZEND_ARG_INFO_EX 1 [''offset'']"

fun arginfo_ExcimerLogEntry :: "log_entry_method \<Rightarrow> arg_info" where
  "arginfo_ExcimerLogEntry E_construct = ZEND_ARG_INFO []"
| "arginfo_ExcimerLogEntry E_getTimestamp = ZEND_ARG_INFO []"
| "arginfo_ExcimerLogEntry E_getEventCount = ZEND_ARG_INFO []"
| "arginfo_ExcimerLogEntry E_getTrace = ZEND_ARG_INFO []"

fun arginfo_ExcimerTimer :: "timer_method \<Rightarrow> arg_info" where
  "arginfo_ExcimerTimer T_setEventType = ZEND_ARG_INFO [''event_type'']"
| "arginfo_ExcimerTimer T_setInterval = ZEND_ARG_INFO [''interval'']"
| "arginfo_ExcimerTimer T_setPeriod = ZEND_ARG_INFO [''period'']"
| "arginfo_ExcimerTimer T_setCallback = ZEND_ARG_INFO [''callback'']"
| "arginfo_ExcimerTimer T_start = ZEND_ARG_INFO []"
| "arginfo_ExcimerTimer T_stop = ZEND_ARG_INFO []"
| "arginfo_ExcimerTimer T_getTime = ZEND_ARG_INFO []"

definition arginfo_excimer_set_timeout :: arg_info where
  "arginfo_excimer_set_timeout = ZEND_ARG_INFO [''callback'', ''interval'']"

datatype php_handler =
    Zim_ExcimerProfiler profiler_method
  | Zim_ExcimerLog log_method
  | Zim_ExcimerLogEntry log_entry_method
  | Zim_ExcimerTimer timer_method
  | Zif_excimer_set_timeout

datatype acc_flag = ZEND_ACC_PRIVATE | ZEND_ACC_FINAL

record function_entry =
  fname :: string
  handler :: php_handler
  arg_info :: arg_info
  fe_flags :: "acc_flag set"

definition PHP_ME :: "string \<Rightarrow> php_handler \<Rightarrow> arg_info \<Rightarrow> acc_flag set \<Rightarrow> function_entry" where
  "PHP_ME name h ai flags = \<lparr>fname = name, handler = h, arg_info = ai, fe_flags = flags\<rparr>"

abbreviation profiler_me :: "string \<Rightarrow> profiler_method \<Rightarrow> function_entry" where
  "profiler_me name m \<equiv> PHP_ME name (Zim_ExcimerProfiler m) (arginfo_ExcimerProfiler m) {}"

abbreviation log_me :: "string \<Rightarrow> log_method \<Rightarrow> acc_flag set \<Rightarrow> function_entry" where
  "log_me name m flags \<equiv> PHP_ME name (Zim_ExcimerLog m) (arginfo_ExcimerLog m) flags"

abbreviation log_entry_me :: "string \<Rightarrow> log_entry_method \<Rightarrow> acc_flag set \<Rightarrow> function_entry" where
  "log_entry_me name m flags \<equiv> PHP_ME name (Zim_ExcimerLogEntry m) (arginfo_ExcimerLogEntry m) flags"

abbreviation timer_me :: "string \<Rightarrow> timer_method \<Rightarrow> function_entry" where
  "timer_me name m \<equiv> PHP_ME name (Zim_ExcimerTimer m) (arginfo_ExcimerTimer m) {}"

definition ExcimerProfiler_methods :: "function_entry list" where
  "ExcimerProfiler_methods =
    [profiler_me ''setPeriod'' P_setPeriod, profiler_me ''setEventType'' P_setEventType, profiler_me ''setMaxDepth'' P_setMaxDepth,
     profiler_me ''setFlushCallback'' P_setFlushCallback, profiler_me ''clearFlushCallback'' P_clearFlushCallback,
     profiler_me ''start'' P_start, profiler_me ''stop'' P_stop, profiler_me ''getLog'' P_getLog, profiler_me ''flush'' P_flush]"

definition ExcimerLog_methods :: "function_entry list" where
  "ExcimerLog_methods =
    [log_me ''__construct'' L_construct {ZEND_ACC_PRIVATE, ZEND_ACC_FINAL}, log_me ''formatCollapsed'' L_formatCollapsed {},
     log_me ''getSpeedscopeData'' L_getSpeedscopeData {}, log_me ''aggregateByFunction'' L_aggregateByFunction {},
     log_me ''getEventCount'' L_getEventCount {}, log_me ''current'' L_current {}, log_me ''key'' L_key {}, log_me ''next'' L_next {},
     log_me ''rewind'' L_rewind {}, log_me ''valid'' L_valid {}, log_me ''count'' L_count {}, log_me ''offsetExists'' L_offsetExists {},
     log_me ''offsetGet'' L_offsetGet {}, log_me ''offsetSet'' L_offsetSet {}, log_me ''offsetUnset'' L_offsetUnset {}]"

definition ExcimerLogEntry_methods :: "function_entry list" where
  "ExcimerLogEntry_methods =
    [log_entry_me ''__construct'' E_construct {ZEND_ACC_PRIVATE, ZEND_ACC_FINAL}, log_entry_me ''getTimestamp'' E_getTimestamp {},
     log_entry_me ''getEventCount'' E_getEventCount {}, log_entry_me ''getTrace'' E_getTrace {}]"

definition ExcimerTimer_methods :: "function_entry list" where
  "ExcimerTimer_methods =
    [timer_me ''setEventType'' T_setEventType, timer_me ''setInterval'' T_setInterval, timer_me ''setPeriod'' T_setPeriod,
     timer_me ''setCallback'' T_setCallback, timer_me ''start'' T_start, timer_me ''stop'' T_stop, timer_me ''getTime'' T_getTime]"

definition excimer_functions :: "function_entry list" where
  "excimer_functions = [PHP_ME ''excimer_set_timeout'' Zif_excimer_set_timeout arginfo_excimer_set_timeout {}]"

section \<open>Registration\<close>

datatype excimer_class = Class_ExcimerProfiler | Class_ExcimerLog | Class_ExcimerLogEntry | Class_ExcimerTimer

text \<open>A handler is the engine's standard one or that of a class of the extension.\<close>

datatype object_handler = Std_handler | Class_handler excimer_class

datatype php_interface = Zend_ce_iterator | Zend_ce_countable | Zend_ce_arrayaccess

record object_handlers =
  h_offset :: "excimer_class option"
  h_free_obj :: object_handler
  h_dtor_obj :: object_handler
  h_clone_obj :: object_handler
  h_count_elements :: object_handler

record class_entry =
  ce_name :: string
  ce_class :: excimer_class
  ce_methods :: "function_entry list"
  ce_create_object :: object_handler
  ce_get_iterator :: object_handler
  ce_interfaces :: "php_interface list"
  ce_handlers :: object_handlers

record module_tables =
  ini_entries :: "(string \<times> string) list"
  long_constants :: "(string \<times> zend_long) list"
  class_table :: "(string \<times> class_entry) list"

definition zend_get_std_object_handlers :: object_handlers where
  "zend_get_std_object_handlers = \<lparr>h_offset = None, h_free_obj = Std_handler, h_dtor_obj = Std_handler, h_clone_obj = Std_handler,
     h_count_elements = Std_handler\<rparr>"

definition REGISTER_EXCIMER_CLASS :: "string \<Rightarrow> excimer_class \<Rightarrow> function_entry list \<Rightarrow> class_entry" where
  "REGISTER_EXCIMER_CLASS name c methods = \<lparr>ce_name = name, ce_class = c, ce_methods = methods, ce_create_object = Class_handler c,
     ce_get_iterator = Std_handler, ce_interfaces = [],
     ce_handlers = zend_get_std_object_handlers\<lparr>h_offset := Some c, h_free_obj := Class_handler c\<rparr>\<rparr>"

definition register_ExcimerProfiler :: class_entry where
  "register_ExcimerProfiler =
     (let ce = REGISTER_EXCIMER_CLASS ''ExcimerProfiler'' Class_ExcimerProfiler ExcimerProfiler_methods
      in ce\<lparr>ce_handlers := (ce_handlers ce)\<lparr>h_dtor_obj := Class_handler Class_ExcimerProfiler\<rparr>\<rparr>)"

definition register_ExcimerLog :: class_entry where
  "register_ExcimerLog =
     (let ce = REGISTER_EXCIMER_CLASS ''ExcimerLog'' Class_ExcimerLog ExcimerLog_methods
      in ce\<lparr>ce_get_iterator := Class_handler Class_ExcimerLog,
            ce_handlers := (ce_handlers ce)\<lparr>h_count_elements := Class_handler Class_ExcimerLog\<rparr>,
            ce_interfaces := [Zend_ce_iterator, Zend_ce_countable, Zend_ce_arrayaccess]\<rparr>)"

text \<open>
  \<^verbatim>\<open>PHP_MINIT_FUNCTION(excimer)\<close> up to the installation of the interrupt hook. \<^verbatim>\<open>EXCIMER_CPU\<close> is only defined where
  there is a CPU clock. The engine finds classes and methods whatever the case of their names.
\<close>

definition zend_tolower :: "string \<Rightarrow> string" where
  "zend_tolower = map (\<lambda>c. if 65 \<le> (of_char c :: nat) \<and> (of_char c :: nat) \<le> 90 then char_of (of_char c + 32 :: nat) else c)"

definition register_class :: "class_entry \<Rightarrow> module_tables \<Rightarrow> module_tables" where
  "register_class ce mt = mt\<lparr>class_table := class_table mt @ [(zend_tolower (ce_name ce), ce)]\<rparr>"

definition zm_startup_tables :: "bool \<Rightarrow> module_tables \<Rightarrow> module_tables" where
  "zm_startup_tables have_cpu_clock mt =
     (let mt = mt\<lparr>ini_entries := ini_entries mt @ [(''excimer.default_max_depth'', ''1000'')]\<rparr>;
          mt = mt\<lparr>long_constants := long_constants mt @ [(''EXCIMER_REAL'', EXCIMER_REAL)]\<rparr>;
          mt = (if have_cpu_clock then mt\<lparr>long_constants := long_constants mt @ [(''EXCIMER_CPU'', EXCIMER_CPU)]\<rparr> else mt);
          mt = register_class register_ExcimerProfiler mt;
          mt = register_class register_ExcimerLog mt;
          mt = register_class (REGISTER_EXCIMER_CLASS ''ExcimerLogEntry'' Class_ExcimerLogEntry ExcimerLogEntry_methods) mt
      in register_class (REGISTER_EXCIMER_CLASS ''ExcimerTimer'' Class_ExcimerTimer ExcimerTimer_methods) mt)"

definition no_tables :: module_tables where
  "no_tables = \<lparr>ini_entries = [], long_constants = [], class_table = []\<rparr>"

definition find_class :: "module_tables \<Rightarrow> string \<Rightarrow> class_entry option" where
  "find_class mt name = map_of (class_table mt) (zend_tolower name)"

definition find_method :: "class_entry \<Rightarrow> string \<Rightarrow> function_entry option" where
  "find_method ce name = find (\<lambda>fe. zend_tolower (fname fe) = zend_tolower name) (ce_methods ce)"

section \<open>Calling a method by its name\<close>

fun call_handler ::
  "((string \<times> (zkey, zval) ztable \<Rightarrow> string \<times> (zkey, zval) ztable \<Rightarrow> int res) \<Rightarrow> aggr_table \<Rightarrow> aggr_table) \<Rightarrow>
   ('tl, 'z) php_lib \<Rightarrow> ('tl, 'z) php_scheme engine \<Rightarrow> thread \<Rightarrow> 'v zpp_rules \<Rightarrow> uint32_t \<Rightarrow> php_handler \<Rightarrow> addr \<Rightarrow> 'v list \<Rightarrow>
   (('tl, 'z) php_scheme, php_result) prog" where
  "call_handler zsort lib eng me zp rnd (Zim_ExcimerProfiler m) a args = call_profiler lib eng me zp rnd a m args"
| "call_handler zsort lib eng me zp rnd (Zim_ExcimerLog m) a args = call_log zsort zp a m args"
| "call_handler zsort lib eng me zp rnd (Zim_ExcimerLogEntry m) a args = call_log_entry (fp_round eng) a m args"
| "call_handler zsort lib eng me zp rnd (Zim_ExcimerTimer m) a args = call_timer lib eng me zp a m args"
| "call_handler zsort lib eng me zp rnd Zif_excimer_set_timeout a args = zif_excimer_set_timeout lib eng me zp args"

text \<open>A private method can not be called from outside of the class, and the class has no PHP code of its own.\<close>

definition zend_call_method ::
  "((string \<times> (zkey, zval) ztable \<Rightarrow> string \<times> (zkey, zval) ztable \<Rightarrow> int res) \<Rightarrow> aggr_table \<Rightarrow> aggr_table) \<Rightarrow>
   ('tl, 'z) php_lib \<Rightarrow> ('tl, 'z) php_scheme engine \<Rightarrow> thread \<Rightarrow> 'v zpp_rules \<Rightarrow> uint32_t \<Rightarrow> class_entry \<Rightarrow> string \<Rightarrow> addr \<Rightarrow> 'v list \<Rightarrow>
   (('tl, 'z) php_scheme, php_result) prog" where
  "zend_call_method zsort lib eng me zp rnd ce name a args = (case find_method ce name of
     None \<Rightarrow> pret (Throws Undefined_method)
   | Some fe \<Rightarrow> if ZEND_ACC_PRIVATE \<in> fe_flags fe then pret (Throws Private_method)
       else call_handler zsort lib eng me zp rnd (handler fe) a args)"

text \<open>The object a method is called on: live, of the class, and held by a variable.\<close>

fun receiver_ok :: "excimer_class \<Rightarrow> addr \<Rightarrow> ('tl, 'z) php_scheme \<Rightarrow> bool" where
  "receiver_ok Class_ExcimerProfiler a s \<longleftrightarrow> is_profiler a s"
| "receiver_ok Class_ExcimerLog a s \<longleftrightarrow> log_var a s"
| "receiver_ok Class_ExcimerLogEntry a s \<longleftrightarrow> 0 < entry_vars (ents s) a"
| "receiver_ok Class_ExcimerTimer a s \<longleftrightarrow> is_timer a s"

section \<open>Tables and handlers\<close>

definition registered :: "bool \<Rightarrow> class_entry \<Rightarrow> bool" where
  "registered cpu ce \<longleftrightarrow> ce \<in> snd ` set (class_table (zm_startup_tables cpu no_tables))"

lemmas class_defs = register_ExcimerProfiler_def register_ExcimerLog_def REGISTER_EXCIMER_CLASS_def Let_def

lemmas method_defs = ExcimerProfiler_methods_def ExcimerLog_methods_def ExcimerLogEntry_methods_def ExcimerTimer_methods_def PHP_ME_def

lemma registered_iff: "registered cpu ce \<longleftrightarrow> ce = register_ExcimerProfiler \<or> ce = register_ExcimerLog \<or>
    ce = REGISTER_EXCIMER_CLASS ''ExcimerLogEntry'' Class_ExcimerLogEntry ExcimerLogEntry_methods \<or>
    ce = REGISTER_EXCIMER_CLASS ''ExcimerTimer'' Class_ExcimerTimer ExcimerTimer_methods"
  by (auto simp: registered_def zm_startup_tables_def register_class_def no_tables_def Let_def)

lemma find_class_registered: "find_class (zm_startup_tables cpu no_tables) name = Some ce \<Longrightarrow> registered cpu ce"
  by (auto simp: find_class_def registered_def dest!: map_of_SomeD intro: rev_image_eqI)

fun handler_of :: "excimer_class \<Rightarrow> php_handler \<Rightarrow> bool" where
  "handler_of Class_ExcimerProfiler h \<longleftrightarrow> (\<exists>m. h = Zim_ExcimerProfiler m)"
| "handler_of Class_ExcimerLog h \<longleftrightarrow> (\<exists>m. h = Zim_ExcimerLog m)"
| "handler_of Class_ExcimerLogEntry h \<longleftrightarrow> (\<exists>m. h = Zim_ExcimerLogEntry m)"
| "handler_of Class_ExcimerTimer h \<longleftrightarrow> (\<exists>m. h = Zim_ExcimerTimer m)"

lemma entry_handlers:
  assumes "registered cpu ce" "fe \<in> set (ce_methods ce)"
  shows "handler_of (ce_class ce) (handler fe)"
    "ZEND_ACC_PRIVATE \<notin> fe_flags fe \<Longrightarrow> handler fe \<noteq> Zim_ExcimerLog L_construct \<and> handler fe \<noteq> Zim_ExcimerLogEntry E_construct"
    "arg_info fe = (case handler fe of Zim_ExcimerProfiler m \<Rightarrow> arginfo_ExcimerProfiler m | Zim_ExcimerLog m \<Rightarrow> arginfo_ExcimerLog m
      | Zim_ExcimerLogEntry m \<Rightarrow> arginfo_ExcimerLogEntry m | Zim_ExcimerTimer m \<Rightarrow> arginfo_ExcimerTimer m
      | Zif_excimer_set_timeout \<Rightarrow> arginfo_excimer_set_timeout)"
  using assms unfolding registered_iff by (auto simp: class_defs method_defs)

lemma find_method_in: "find_method ce name = Some fe \<Longrightarrow> fe \<in> set (ce_methods ce)"
  by (auto simp: find_method_def find_Some_iff)

section \<open>The registered classes\<close>

lemma lower_names:
  "map (\<lambda>fe. zend_tolower (fname fe)) ExcimerProfiler_methods = [''setperiod'', ''seteventtype'', ''setmaxdepth'', ''setflushcallback'',
     ''clearflushcallback'', ''start'', ''stop'', ''getlog'', ''flush'']"
  "map (\<lambda>fe. zend_tolower (fname fe)) ExcimerLog_methods = [''__construct'', ''formatcollapsed'', ''getspeedscopedata'',
     ''aggregatebyfunction'', ''geteventcount'', ''current'', ''key'', ''next'', ''rewind'', ''valid'', ''count'', ''offsetexists'',
     ''offsetget'', ''offsetset'', ''offsetunset'']"
  "map (\<lambda>fe. zend_tolower (fname fe)) ExcimerLogEntry_methods = [''__construct'', ''gettimestamp'', ''geteventcount'', ''gettrace'']"
  "map (\<lambda>fe. zend_tolower (fname fe)) ExcimerTimer_methods = [''seteventtype'', ''setinterval'', ''setperiod'', ''setcallback'',
     ''start'', ''stop'', ''gettime'']"
  by (simp_all add: method_defs zend_tolower_def char_of_def bit_0)

lemma distinct_names: "registered cpu ce \<Longrightarrow> distinct (map (\<lambda>fe. zend_tolower (fname fe)) (ce_methods ce))"
  unfolding registered_iff by (elim disjE) (simp_all add: class_defs lower_names)

lemma find_distinct: "distinct (map f xs) \<Longrightarrow> x \<in> set xs \<Longrightarrow> find (\<lambda>y. f y = f x) xs = Some x"
  by (induction xs) auto

lemma find_method_name:
  assumes "registered cpu ce" "fe \<in> set (ce_methods ce)"
  shows "find_method ce (fname fe) = Some fe"
  unfolding find_method_def by (rule find_distinct [OF distinct_names [OF assms(1)] assms(2)])

lemma lower_classes:
  "zend_tolower ''ExcimerProfiler'' = ''excimerprofiler''" "zend_tolower ''ExcimerLog'' = ''excimerlog''"
  "zend_tolower ''ExcimerLogEntry'' = ''excimerlogentry''" "zend_tolower ''ExcimerTimer'' = ''excimertimer''"
  by (simp_all add: zend_tolower_def char_of_def bit_0)

text \<open>What a class has to define to implement an interface: the methods and the numbers of their arguments.\<close>

fun interface_methods :: "php_interface \<Rightarrow> (string \<times> nat) list" where
  "interface_methods Zend_ce_iterator = [(''current'', 0), (''key'', 0), (''next'', 0), (''rewind'', 0), (''valid'', 0)]"
| "interface_methods Zend_ce_countable = [(''count'', 0)]"
| "interface_methods Zend_ce_arrayaccess = [(''offsetExists'', 1), (''offsetGet'', 1), (''offsetSet'', 2), (''offsetUnset'', 1)]"

lemma log_interface_methods:
  "\<forall>(name, k) \<in> set (interface_methods i). \<exists>fe \<in> set ExcimerLog_methods.
     fname fe = name \<and> ZEND_ACC_PRIVATE \<notin> fe_flags fe \<and> num_required (arg_info fe) = k"
  by (cases i) (simp_all add: ExcimerLog_methods_def PHP_ME_def num_required_def ZEND_ARG_INFO_EX_def)

lemma log_interfaces:
  assumes "registered cpu ce" "i \<in> set (ce_interfaces ce)" "(name, k) \<in> set (interface_methods i)"
  shows "\<exists>fe \<in> set (ce_methods ce). fname fe = name \<and> ZEND_ACC_PRIVATE \<notin> fe_flags fe \<and> num_required (arg_info fe) = k"
proof -
  have "ce_methods ce = ExcimerLog_methods" using assms(1,2) unfolding registered_iff by (elim disjE) (simp_all add: class_defs)
  then show ?thesis using log_interface_methods [of i] assms(3) by auto
qed

text \<open>The classes the module registers: each is found under its name, in any case; its objects are made and freed by handlers of
  the class, which agree on the layout; each method is found under its name; a class that implements an interface of the engine
  has public methods for it with the right numbers of arguments. The handler that clones objects is the engine's, which knows
  nothing of the layout.\<close>

lemma class_registration_sound:
  assumes "(key, ce) \<in> set (class_table (zm_startup_tables cpu no_tables))"
  shows "find_class (zm_startup_tables cpu no_tables) (ce_name ce) = Some ce \<and>
    ce_create_object ce = Class_handler (ce_class ce) \<and> h_offset (ce_handlers ce) = Some (ce_class ce) \<and>
    h_free_obj (ce_handlers ce) = Class_handler (ce_class ce) \<and> h_clone_obj (ce_handlers ce) = Std_handler \<and>
    (\<forall>fe \<in> set (ce_methods ce). find_method ce (fname fe) = Some fe \<and> handler_of (ce_class ce) (handler fe)) \<and>
    (\<forall>i \<in> set (ce_interfaces ce). \<forall>(name, k) \<in> set (interface_methods i).
      \<exists>fe. find_method ce name = Some fe \<and> ZEND_ACC_PRIVATE \<notin> fe_flags fe \<and> num_required (arg_info fe) = k)"
proof -
  have r: "registered cpu ce" using assms by (auto simp: registered_def intro: rev_image_eqI)
  have "find_class (zm_startup_tables cpu no_tables) (ce_name ce) = Some ce"
    using r unfolding registered_iff
    by (elim disjE) (simp_all add: find_class_def zm_startup_tables_def register_class_def no_tables_def class_defs lower_classes)
  moreover have "ce_create_object ce = Class_handler (ce_class ce)" "h_offset (ce_handlers ce) = Some (ce_class ce)"
    "h_free_obj (ce_handlers ce) = Class_handler (ce_class ce)" "h_clone_obj (ce_handlers ce) = Std_handler"
    using r unfolding registered_iff by (auto simp: class_defs zend_get_std_object_handlers_def)
  moreover have "\<exists>fe. find_method ce name = Some fe \<and> ZEND_ACC_PRIVATE \<notin> fe_flags fe \<and> num_required (arg_info fe) = k"
    if "i \<in> set (ce_interfaces ce)" "(name, k) \<in> set (interface_methods i)" for i name k
    using log_interfaces [OF r that] find_method_name [OF r] by blast
  ultimately show ?thesis using find_method_name [OF r] entry_handlers(1) [OF r] by blast
qed

end
