(* ===== verification/Php_Dispatch.thy ===== *)
theory Php_Dispatch
  imports Php_Classes
begin

text \<open>
  Method calls by name: whatever name and arguments a call has, it is one of the steps of \<open>php_reachable\<close>, or it
  leaves the state alone. Argument information and parsers agree, and the methods of the interfaces of a log do what
  the operations of the same names do on values.
\<close>

section \<open>Every call is a step\<close>

text \<open>
  The program returns and leaves the state alone, or it is a step of the extension (and then it does not end in
  an exception of the engine).
\<close>

definition is_step ::
  "('tl, 'z) php_lib \<Rightarrow> ('tl, 'z) php_scheme engine \<Rightarrow> (interrupt_hook \<Rightarrow> (('tl, 'z) php_scheme, unit) prog) \<Rightarrow> thread \<Rightarrow>
   ('tl, 'z) php_scheme \<Rightarrow> (('tl, 'z) php_scheme, php_result) prog \<Rightarrow> bool" where
  "is_step lib eng hook me s m \<longleftrightarrow> (\<exists>r. m s = Inr (r, s)) \<or>
     (\<exists>c. call_ok eng s c \<and> void m s = exec_call lib eng hook me c s \<and> (\<forall>e s'. m s \<noteq> Inr (Throws e, s')))"

lemma void_unit: "pbind (pbind m (\<lambda>_. pret r)) (\<lambda>_. pret ()) = m"
  by (auto simp: fun_eq_iff pbind_def rbind_def split: sum.split)

lemma void_then: "void (pbind m (\<lambda>x. returns (f x) (g x))) = pbind m g"
  by (auto simp: fun_eq_iff void_def returns_def pbind_def rbind_def split: sum.split)

lemma no_throw: "(\<And>x. \<nexists>e. f x = Throws e) \<Longrightarrow> pbind m (\<lambda>x. returns (f x) (g x)) s \<noteq> Inr (Throws e, s')"
  by (auto simp: pbind_def returns_def rbind_Inr_iff)

lemma step_returns:
  assumes "m = exec_call lib eng hook me c" "call_ok eng s c"
  shows "is_step lib eng hook me s (returns Ret_null m)"
proof -
  have "void (returns Ret_null m) = m" by (simp add: void_def returns_def void_unit)
  moreover have "returns Ret_null m s \<noteq> Inr (Throws e, s')" for e s' by (auto simp: returns_def pbind_def rbind_Inr_iff)
  ultimately show ?thesis using assms unfolding is_step_def by metis
qed

lemma step_gives:
  assumes "pbind m hand_over = exec_call lib eng hook me c" "call_ok eng s c"
  shows "is_step lib eng hook me s (pbind m give_log)"
proof -
  have "void (pbind m give_log) = exec_call lib eng hook me c" using assms(1) by (simp add: give_log_def [abs_def] void_then)
  moreover have "pbind m give_log s \<noteq> Inr (Throws e, s')" for e s' unfolding give_log_def [abs_def] by (rule no_throw) simp
  ultimately show ?thesis using assms(2) unfolding is_step_def by metis
qed

lemma step_gives_entry:
  assumes "pbind m hand_result = exec_call lib eng hook me c" "call_ok eng s c"
  shows "is_step lib eng hook me s (pbind m give_entry)"
proof -
  have "void (pbind m give_entry) = exec_call lib eng hook me c" using assms(1) by (simp add: give_entry_def [abs_def] void_then)
  moreover have "pbind m give_entry s \<noteq> Inr (Throws e, s')" for e s' unfolding give_entry_def [abs_def] by (rule no_throw) simp
  ultimately show ?thesis using assms(2) unfolding is_step_def by metis
qed

lemma step_double:
  assumes "void m = exec_call lib eng hook me c" "call_ok eng s c"
  shows "is_step lib eng hook me s (pbind m (\<lambda>x. pret (Ret_double x)))"
proof -
  have "void (pbind m (\<lambda>x. pret (Ret_double x))) = exec_call lib eng hook me c"
    using assms(1) by (simp add: void_def pbind_assoc) (auto simp: fun_eq_iff pbind_def)
  moreover have "pbind m (\<lambda>x. pret (Ret_double x)) s \<noteq> Inr (Throws e, s')" for e s' by (auto simp: pbind_def rbind_Inr_iff)
  ultimately show ?thesis using assms(2) unfolding is_step_def by metis
qed

lemma step_same: "m s = Inr (r, s) \<Longrightarrow> is_step lib eng hook me s m"
  by (auto simp: is_step_def)

lemma parse_steps:
  "is_step lib eng hook me s body \<Longrightarrow> is_step lib eng hook me s (parse0 args body)"
  "(\<And>x. is_step lib eng hook me s (f x)) \<Longrightarrow> is_step lib eng hook me s (parse1 p args f)"
  "(\<And>x y. is_step lib eng hook me s (g x y)) \<Longrightarrow> is_step lib eng hook me s (parse2 p' q args g)"
  by (auto simp: parse_defs intro: step_same split: list.split option.split)

lemmas exec_sym = exec_call.simps [symmetric]

lemma profiler_method_step:
  "is_profiler p s \<Longrightarrow> is_step lib eng hook me s (call_profiler lib eng me zp rnd p m args)"
  by (cases m) (auto intro!: parse_steps intro: step_returns [OF exec_sym(2)] step_returns [OF exec_sym(3)] step_returns [OF exec_sym(4)] step_returns [OF exec_sym(5)]
    step_returns [OF exec_sym(6)] step_returns [OF exec_sym(7)] step_returns [OF exec_sym(8)] step_gives [OF exec_sym(9)] step_gives [OF exec_sym(10)])

lemma timer_method_step:
  "is_timer a s \<Longrightarrow> is_step lib eng hook me s (call_timer lib eng me zp a m args)"
  by (cases m) (auto intro!: parse_steps intro: step_returns [OF exec_sym(16)] step_returns [OF exec_sym(17)] step_returns [OF exec_sym(18)] step_returns [OF exec_sym(19)]
    step_returns [OF exec_sym(20)] step_returns [OF exec_sym(21)] step_double [OF exec_sym(22)])

text \<open>Reading a log that satisfies the invariant returns.\<close>

lemma reads_step:
  assumes "objects s l = Some (Obj_Log lo)" "f lo = Inr x"
  shows "is_step lib eng hook me s (pbind (get_log l) (\<lambda>lo. reads g (f lo)))"
  by (rule step_same [where r = "g x"]) (use assms in \<open>simp add: pbind_def check_object_def reads_def\<close>)

lemma get_step:
  assumes "objects s l = Some (Obj_Log lo)"
  shows "is_step lib eng hook me s (pbind (get_log l) (\<lambda>lo. pret (f lo)))"
  by (rule step_same [where r = "f lo"]) (use assms in \<open>simp add: pbind_def check_object_def\<close>)

lemma entry_sym:
  "pbind (zim_ExcimerLog_current l) hand_result = exec_call lib eng hook me (On_entries (Log_current l))"
  "zim_ExcimerLog_next l = exec_call lib eng hook me (On_entries (Log_next l))"
  "zim_ExcimerLog_rewind l = exec_call lib eng hook me (On_entries (Log_rewind l))"
  "pbind (zim_ExcimerLog_offsetGet l i) hand_result = exec_call lib eng hook me (On_entries (Log_offsetGet l i))"
  "ExcimerLog_offsetSet = exec_call lib eng hook me (On_entries (Log_offsetSet l))"
  "ExcimerLog_offsetUnset = exec_call lib eng hook me (On_entries (Log_offsetUnset l))"
  by simp_all

lemma exports_return:
  assumes wf: "log_wf (obj_log lo)" and sort: "zend_sort_ok zsort"
  shows "\<exists>x. ExcimerLog_formatCollapsed lo = Inr x" "\<exists>x. ExcimerLog_getSpeedscopeData lo = Inr x"
    "\<exists>x. ExcimerLog_aggregateByFunction zsort lo = Inr x"
proof -
  show "\<exists>x. ExcimerLog_formatCollapsed lo = Inr x"
    by (simp add: ExcimerLog_formatCollapsed_def excimer_log_format_collapsed_def collapsed_lines_eq [OF wf])
  show "\<exists>x. ExcimerLog_getSpeedscopeData lo = Inr x" unfolding ExcimerLog_getSpeedscopeData_def by (rule speedscope_run [OF wf]) blast
  show "\<exists>x. ExcimerLog_aggregateByFunction zsort lo = Inr x"
    unfolding ExcimerLog_aggregateByFunction_def by (rule aggr_by_func_rel [OF wf sort]) blast
qed

lemma log_method_step:
  assumes inv: "php_inv F live me s" and v: "log_var l s" and sort: "zend_sort_ok zsort" and m: "m \<noteq> L_construct"
  shows "is_step lib eng hook me s (call_log zsort zp l m args)"
proof -
  obtain lo where lo: "objects s l = Some (Obj_Log lo)" by (rule log_var_log [OF php_inv_parts(1) [OF inv] v])
  obtain x y z where ex: "ExcimerLog_formatCollapsed lo = Inr x" "ExcimerLog_getSpeedscopeData lo = Inr y"
    "ExcimerLog_aggregateByFunction zsort lo = Inr z" using exports_return [OF php_invD(6) [OF inv lo] sort] by blast
  note rd = reads_step [OF lo, of ExcimerLog_formatCollapsed, OF ex(1)] reads_step [OF lo, of ExcimerLog_getSpeedscopeData, OF ex(2)]
    reads_step [OF lo, of "ExcimerLog_aggregateByFunction zsort", OF ex(3)]
  show ?thesis using m v
    by (cases m) (auto intro!: parse_steps rd get_step [OF lo] intro: step_gives_entry [OF entry_sym(1)] step_returns [OF entry_sym(2)]
      step_returns [OF entry_sym(3)] step_gives_entry [OF entry_sym(4)] step_returns [OF entry_sym(5) [where l = l]]
      step_returns [OF entry_sym(6) [where l = l]])
qed

text \<open>The accessors of a live entry return and change nothing.\<close>

lemma with_entry_run:
  assumes inv: "php_inv F live me s" and e: "0 < entry_vars (ents s) e"
    and f: "\<And>lg i. log_wf lg \<Longrightarrow> unat i < length (entries lg) \<Longrightarrow> \<exists>x. f lg i = Inr x"
  shows "\<exists>x. with_entry e f s = Inr (x, s)"
proof -
  note p = php_inv_parts [OF inv]
  obtain eo where eo: "entry_objs (ents s) e = Some eo" using entry_alive [OF ent_invD(1) [OF p(2)], of e] e by blast
  obtain l where l: "en_z_log eo = Some l"
    "\<And>lo. objects s l = Some (Obj_Log lo) \<Longrightarrow> unat (en_index eo) < length (entries (obj_log lo))"
    using ent_invD(3) [OF p(2) eo] by (auto simp: entry_at_def)
  obtain lo where lo: "objects s l = Some (Obj_Log lo)" using referenced_log(3) [OF p, of e eo l] eo l(1) by (auto simp: is_log_def)
  obtain x where "f (obj_log lo) (en_index eo) = Inr x" using f [OF php_invD(6) [OF inv lo] l(2) [OF lo]] by blast
  then show ?thesis using eo l(1) lo by (simp add: with_entry_def pbind_def get_entry_def check_object_def)
qed

lemma entry_method_run:
  assumes inv: "php_inv F live me s" and e: "0 < entry_vars (ents s) e" and m: "m \<noteq> E_construct"
  obtains r where "call_log_entry fl e m args s = Inr (if args = [] then r else Throws Wrong_count, s)" "\<nexists>err. r = Throws err"
proof -
  note run = with_entry_run [OF inv e]
  obtain x0 where x0: "find_entry e s = Inr (x0, s)" using run [of "\<lambda>lg i. Inr (excimer_log_get_entry lg i)"] by (auto simp: find_entry_def)
  obtain x1 where x1: "zim_ExcimerLogEntry_getTimestamp fl e s = Inr (x1, s)"
    using run [of "ExcimerLogEntry_getTimestamp fl"] entry_reads_at(1) [of _ _ fl] by (auto simp: zim_ExcimerLogEntry_getTimestamp_def)
  obtain x2 where x2: "zim_ExcimerLogEntry_getEventCount e s = Inr (x2, s)"
    using run [of ExcimerLogEntry_getEventCount] entry_reads_at(2) by (auto simp: zim_ExcimerLogEntry_getEventCount_def)
  obtain x3 where x3: "zim_ExcimerLogEntry_getTrace e s = Inr (x3, s)"
    using run [of ExcimerLogEntry_getTrace] entry_reads_at(3) by (auto simp: zim_ExcimerLogEntry_getTrace_def)
  show thesis
  proof (cases m)
    case E_getTimestamp
    then show ?thesis using that [of "Ret_double x1"] x0 x1 by (simp add: pbind_def parse0_def)
  next
    case E_getEventCount
    then show ?thesis using that [of "Ret_long x2"] x0 x2 by (simp add: pbind_def parse0_def)
  next
    case E_getTrace
    then show ?thesis using that [of "Ret_array x3"] x0 x3 by (simp add: pbind_def parse0_def)
  qed (use m in simp)
qed

section \<open>Dispatch\<close>

lemma dispatch_step:
  assumes inv: "php_inv F live me s" and sort: "zend_sort_ok zsort" and ce: "registered cpu ce" and a: "receiver_ok (ce_class ce) a s"
  shows "is_step lib eng hook me s (zend_call_method zsort lib eng me zp rnd ce name a args)"
proof (cases "find_method ce name")
  case None
  then show ?thesis by (simp add: zend_call_method_def step_same)
next
  case (Some fe)
  note h = entry_handlers [OF ce find_method_in [OF Some]]
  show ?thesis
  proof (cases "ZEND_ACC_PRIVATE \<in> fe_flags fe")
    case True
    with Some show ?thesis by (simp add: zend_call_method_def step_same)
  next
    case False
    have "is_step lib eng hook me s (call_handler zsort lib eng me zp rnd (handler fe) a args)"
    proof (cases "ce_class ce")
      case Class_ExcimerProfiler
      then show ?thesis using h(1) a profiler_method_step by auto
    next
      case Class_ExcimerLog
      then show ?thesis using h(1,2) False a log_method_step [OF inv _ sort] by auto
    next
      case Class_ExcimerLogEntry
      then obtain m where m: "handler fe = Zim_ExcimerLogEntry m" "m \<noteq> E_construct" "0 < entry_vars (ents s) a"
        using h(1,2) False a by auto
      obtain r where "call_log_entry (fp_round eng) a m args s = Inr (if args = [] then r else Throws Wrong_count, s)"
        by (rule entry_method_run [OF inv m(3,2)])
      then show ?thesis by (simp add: m(1) step_same)
    next
      case Class_ExcimerTimer
      then show ?thesis using h(1) a timer_method_step by auto
    qed
    then show ?thesis using Some False by (simp add: zend_call_method_def)
  qed
qed

section \<open>Counting arguments\<close>

text \<open>The methods that parse their parameters.\<close>

fun parses :: "php_handler \<Rightarrow> bool" where
  "parses (Zim_ExcimerProfiler m) \<longleftrightarrow> m \<noteq> P_clearFlushCallback"
| "parses (Zim_ExcimerLog m) \<longleftrightarrow> m \<notin> {L_construct, L_formatCollapsed, L_getSpeedscopeData, L_aggregateByFunction, L_getEventCount,
     L_offsetSet, L_offsetUnset}"
| "parses (Zim_ExcimerLogEntry m) \<longleftrightarrow> m \<noteq> E_construct"
| "parses (Zim_ExcimerTimer m) \<longleftrightarrow> True"
| "parses Zif_excimer_set_timeout \<longleftrightarrow> True"

definition calm :: "('s, php_result) prog \<Rightarrow> bool" where
  "calm m \<longleftrightarrow> (\<forall>s e s'. m s \<noteq> Inr (Throws e, s'))"

lemma calm_bodies:
  "calm (returns Ret_null m)" "calm (pbind m' give_log)" "calm (pbind m'' give_entry)" "(\<And>x. \<nexists>e. f x = Throws e) \<Longrightarrow> calm (pbind k (\<lambda>x. pret (f x)))"
  by (auto simp: calm_def returns_def give_log_def give_entry_def pbind_def rbind_Inr_iff)

lemma parse_count:
  "calm body \<Longrightarrow> parse0 args body s = Inr (Throws Wrong_count, s) \<longleftrightarrow> length args \<noteq> 0"
  "(\<And>x. calm (f x)) \<Longrightarrow> parse1 p args f s = Inr (Throws Wrong_count, s) \<longleftrightarrow> length args \<noteq> 1"
  "(\<And>x y. calm (g x y)) \<Longrightarrow> parse2 p' q args g s = Inr (Throws Wrong_count, s) \<longleftrightarrow> length args \<noteq> 2"
  by (auto simp: parse_defs calm_def split: list.split option.split)

lemmas arginfo_eval = numeral_2_eq_2 num_required_def ZEND_ARG_INFO_def ZEND_ARG_INFO_EX_def

lemma profiler_count:
  "parses (Zim_ExcimerProfiler m) \<Longrightarrow> call_profiler lib eng me zp rnd a m args s = Inr (Throws Wrong_count, s) \<longleftrightarrow>
     length args \<noteq> num_required (arginfo_ExcimerProfiler m)"
  by (cases m) (simp_all add: arginfo_eval parse_count calm_bodies)

lemma log_count:
  "parses (Zim_ExcimerLog m) \<Longrightarrow> call_log zsort zp a m args s = Inr (Throws Wrong_count, s) \<longleftrightarrow>
     length args \<noteq> num_required (arginfo_ExcimerLog m)"
  by (cases m) (simp_all add: arginfo_eval parse_count calm_bodies)

lemma timer_count:
  "call_timer lib eng me zp a m args s = Inr (Throws Wrong_count, s) \<longleftrightarrow> length args \<noteq> num_required (arginfo_ExcimerTimer m)"
  by (cases m) (simp_all add: arginfo_eval parse_count calm_bodies)

lemma log_entry_count:
  assumes "php_inv F live me s" "0 < entry_vars (ents s) e" "m \<noteq> E_construct"
  shows "call_log_entry fl e m args s = Inr (Throws Wrong_count, s) \<longleftrightarrow> length args \<noteq> num_required (arginfo_ExcimerLogEntry m)"
  by (rule entry_method_run [OF assms, of fl args]) (use assms(3) in \<open>cases m; auto simp: arginfo_eval\<close>)

lemma handler_ignores:
  "\<not> parses h \<Longrightarrow> call_handler zsort lib eng me zp rnd h a args = call_handler zsort lib eng me zp rnd h a args'"
  by (cases h) (auto elim: parses.elims)

section \<open>The theorems on method calls\<close>

text \<open>C17 (safety): PHP code can call any method of any registered class, by any name and with any arguments, on an
  object it holds. Whatever user functions and destructors the call runs, it makes no memory error on the objects, logs, entries,
  iterators and timers of the extension (the reference counts of the callback values are the subject of
  \<open>callback_references_exact\<close> and \<open>callback_destructor_reentry\<close>); when it returns, the state is one that the steps of the
  extension can reach; and when the engine refuses the call with an exception (no such method, private method, wrong number
  or type of arguments) the state has not changed. An exception thrown by a user function is not such a result: the code of
  the extension goes on after the function in the same way, and what it did before stays done.\<close>

theorem method_calls_safe:
  fixes s :: "(posix_timer, 'z) php_scheme"
  assumes "foreign_hook hook" and "zend_sort_ok zsort"
    and "php_reachable (posix_timerlib np) (script_engine (posix_timerlib np) base hook me scripts n) hook me s"
    and "find_class (zm_startup_tables cpu no_tables) cname = Some ce" and "receiver_ok (ce_class ce) a s"
  shows "case zend_call_method zsort (posix_timerlib np) (script_engine (posix_timerlib np) base hook me scripts n) me zp rnd ce name a args s of
      Inl e \<Rightarrow> \<not> memory_fault e
    | Inr (r, s') \<Rightarrow> php_reachable (posix_timerlib np) (script_engine (posix_timerlib np) base hook me scripts n) hook me s' \<and>
        (\<forall>e. r = Throws e \<longrightarrow> s' = s)"
proof -
  let ?lib = "posix_timerlib np :: (posix_timer, 'z) php_lib"
  let ?eng = "script_engine ?lib base hook me scripts n"
  let ?m = "zend_call_method zsort ?lib ?eng me zp rnd ce name a args"
  have inv: "php_inv (\<lambda>_. 0) posix_live me s" by (rule posix_profiler.script_inv [OF assms(1,3)])
  have "is_step ?lib ?eng hook me s ?m"
    by (rule dispatch_step [OF inv assms(2) find_class_registered [OF assms(4)] assms(5)])
  then consider r where "?m s = Inr (r, s)"
    | c where "call_ok ?eng s c" "void ?m s = exec_call ?lib ?eng hook me c s" "\<And>e s'. ?m s \<noteq> Inr (Throws e, s')"
    unfolding is_step_def by blast
  then show ?thesis
  proof cases
    case 1
    then show ?thesis using assms(3) by simp
  next
    case (2 c)
    show ?thesis
    proof (cases "?m s")
      case (Inl e)
      then have "exec_call ?lib ?eng hook me c s = Inl e" using 2(2) by (simp add: void_def pbind_def)
      then show ?thesis using tripleD(1) [OF posix_profiler.script_step [OF assms(1)] conjI [OF inv 2(1)]] Inl by auto
    next
      case (Inr x)
      then obtain r s' where r: "?m s = Inr (r, s')" by (cases x) auto
      then have "exec_call ?lib ?eng hook me c s = Inr ((), s')" using 2(2) by (simp add: void_def pbind_def)
      from php_reachable.step [OF assms(3) 2(1) this] show ?thesis using r 2(3) by auto
    qed
  qed
qed

text \<open>In the demonstrations the values of PHP are integers.\<close>

definition demo_zpp :: "int zpp_rules" where
  "demo_zpp = \<lparr>zpp_long = (\<lambda>v. Some (of_int v)), zpp_double = (\<lambda>v. if v < 0 then None else Some (of_int v)), zpp_zval = (\<lambda>_. Z_NULL)\<rparr>"

lemma demo_class: "find_class (zm_startup_tables False no_tables) ''excimerlog'' = Some register_ExcimerLog"
proof -
  have "zend_tolower ''excimerlog'' = ''excimerlog''" by (simp add: zend_tolower_def)
  then show ?thesis by (simp add: find_class_def zm_startup_tables_def register_class_def no_tables_def class_defs lower_classes)
qed

lemma demo_log_var:
  obtains s where "php_reachable (posix_timerlib True) demo_script_engine demo_hook 0 s" "log_var 1 s"
proof -
  obtain s where s: "php_reachable (posix_timerlib True) demo_script_engine demo_hook 0 s"
    "entry_objs (ents s) = [0 \<mapsto> \<lparr>en_z_log = Some 1, en_index = 0\<rparr>]" "log_iterators (ents s) = (\<lambda>_. None)"
    "php_refs s = (\<lambda>_. 0)(1 := 2)" by (rule demo_entry_reachable)
  have "log_var 1 s" using s by (simp add: log_var_def entry_log_refs_def)
  with s(1) show thesis by (rule that)
qed

theorem method_calls_safe_witness:
  "\<exists>s. php_reachable (posix_timerlib True) demo_script_engine demo_hook 0 s \<and>
    (case zend_call_method sort_cmp (posix_timerlib True) demo_script_engine 0 demo_zpp 0 register_ExcimerLog ''NEXT'' 1 [] s of
      Inl e \<Rightarrow> \<not> memory_fault e
    | Inr (r, s') \<Rightarrow> php_reachable (posix_timerlib True) demo_script_engine demo_hook 0 s' \<and> (\<forall>e. r = Throws e \<longrightarrow> s' = s))"
proof -
  obtain s where s: "php_reachable (posix_timerlib True) demo_script_engine demo_hook 0 s" "log_var 1 s" by (rule demo_log_var)
  have "receiver_ok (ce_class register_ExcimerLog) 1 s" using s(2) by (simp add: class_defs)
  from method_calls_safe [OF demo_foreign sort_cmp_ok s(1) demo_class this] s(1) show ?thesis by blast
qed

text \<open>The number of arguments is checked against the argument information. A public method that parses its
  parameters refuses a call exactly when the number of arguments is not the number its argument information
  declares as required, before it does anything; the other methods ignore their arguments.\<close>

lemma argument_count_checked:
  fixes s :: "(posix_timer, 'z) php_scheme"
  assumes "foreign_hook hook"
    and "php_reachable (posix_timerlib np) (script_engine (posix_timerlib np) base hook me scripts n) hook me s"
    and "find_class (zm_startup_tables cpu no_tables) cname = Some ce" and "receiver_ok (ce_class ce) a s"
    and "find_method ce name = Some fe" and "ZEND_ACC_PRIVATE \<notin> fe_flags fe"
  shows "if parses (handler fe)
    then zend_call_method zsort lib eng me zp rnd ce name a args s = Inr (Throws Wrong_count, s) \<longleftrightarrow>
      length args \<noteq> num_required (arg_info fe)
    else zend_call_method zsort lib eng me zp rnd ce name a args = zend_call_method zsort lib eng me zp rnd ce name a args'"
proof -
  have inv: "php_inv (\<lambda>_. 0) posix_live me s" by (rule posix_profiler.script_inv [OF assms(1,2)])
  note h = entry_handlers [OF find_class_registered [OF assms(3)] find_method_in [OF assms(5)]]
  have call: "zend_call_method zsort lib eng me zp rnd ce name a xs = call_handler zsort lib eng me zp rnd (handler fe) a xs" for xs
    using assms(5,6) by (simp add: zend_call_method_def)
  have "call_handler zsort lib eng me zp rnd (handler fe) a args s = Inr (Throws Wrong_count, s) \<longleftrightarrow> length args \<noteq> num_required (arg_info fe)"
    if p: "parses (handler fe)"
  proof (cases "ce_class ce")
    case Class_ExcimerProfiler
    then show ?thesis using h(1,3) p by (auto simp: profiler_count)
  next
    case Class_ExcimerLog
    then show ?thesis using h(1,3) p by (auto simp: log_count)
  next
    case Class_ExcimerLogEntry
    then show ?thesis using h(1,3) p assms(4) by (auto simp: log_entry_count [OF inv])
  next
    case Class_ExcimerTimer
    then show ?thesis using h(1,3) by (auto simp: timer_count)
  qed
  then show ?thesis unfolding call using handler_ignores [of "handler fe" zsort lib eng me zp rnd a args args'] by simp
qed

section \<open>The interfaces of logs\<close>

text \<open>What a result shows to PHP code: of an entry, the index it stands for.\<close>

definition index_zval :: "zend_long option \<Rightarrow> zval" where
  "index_zval r = (case r of Some i \<Rightarrow> ZLong i | None \<Rightarrow> ZNull)"

definition shown :: "('tl, 'z) php_scheme \<Rightarrow> php_result \<Rightarrow> php_result" where
  "shown s r = (case r of Ret_entry e \<Rightarrow> Ret_zval (index_zval (entry_index (ents s) e)) | _ \<Rightarrow> r)"

lemma entry_implements:
  assumes "implements (log_view l) (\<lambda>s. entry_index (ents s)) m f s"
  shows "implements (log_view l) shown (pbind m give_entry) (\<lambda>ob. map_prod (Ret_zval \<circ> index_zval) id (f ob)) s"
proof -
  obtain v x s' v' where run: "log_view l s = Some v" "m s = Inr (x, s')" "log_view l s' = Some v'" "f v = (entry_index (ents s') x, v')"
    using assms unfolding implements_def by blast
  obtain s'' where s'': "give_entry x s' = Inr (Ret_entry x, s'')" "objects s'' = objects s'" "entry_objs (ents s'') = entry_objs (ents s')"
    "log_current (ents s'') = log_current (ents s')"
    by (cases x) (simp_all add: give_entry_def returns_def hand_result_def entry_hand_over_def upd_ents_def modify_def pbind_def)
  have e: "entry_index (ents s'') z = entry_index (ents s') z" for z using s''(3) by (simp add: entry_index_def split: option.split)
  have "log_view l s'' = log_view l s'" using s''(2,4) e by (simp add: log_view_def split: option.split php_object.split)
  then show ?thesis using run s''(1) e unfolding implements_def
    by (intro exI [of _ v] exI [of _ "Ret_entry x"] exI [of _ s''] exI [of _ v']) (simp add: pbind_def shown_def)
qed

lemma move_implements:
  assumes "implements (log_view l) (\<lambda>_ _. ()) m (\<lambda>ob. ((), f ob)) s"
  shows "implements (log_view l) shown (returns Ret_null m) (\<lambda>ob. (Ret_null, f ob)) s"
  using assms by (fastforce simp: implements_def returns_def pbind_def shown_def)

lemma read_implements:
  assumes "objects s l = Some (Obj_Log lo)" "\<And>z. f (lo\<lparr>z_current := z\<rparr>) = f lo" "shown s (f lo) = f lo"
  shows "implements (log_view l) shown (pbind (get_log l) (\<lambda>lo. pret (f lo))) (\<lambda>ob. (f ob, ob)) s"
  using assms by (simp add: implements_def log_view_at pbind_def check_object_def)

lemma find_method_lower:
  assumes "registered cpu ce" "fe \<in> set (ce_methods ce)" "zend_tolower name = zend_tolower (fname fe)"
  shows "find_method ce name = Some fe"
  using find_method_name [OF assms(1,2)] assms(3) by (simp add: find_method_def)

lemma log_class: "registered False register_ExcimerLog" "ce_methods register_ExcimerLog = ExcimerLog_methods"
  by (simp_all add: registered_iff class_defs)

lemma log_call:
  assumes "PHP_ME fn (Zim_ExcimerLog m) (arginfo_ExcimerLog m) {} \<in> set ExcimerLog_methods" "zend_tolower name = zend_tolower fn"
  shows "zend_call_method zsort lib eng me zp rnd register_ExcimerLog name l args = call_log zsort zp l m args"
  using find_method_lower [OF log_class(1), of "PHP_ME fn (Zim_ExcimerLog m) (arginfo_ExcimerLog m) {}" name] assms
  by (simp add: log_class(2) zend_call_method_def PHP_ME_def)

text \<open>
  What the methods of the interfaces \<^verbatim>\<open>Iterator\<close>, \<^verbatim>\<open>Countable\<close> and \<^verbatim>\<open>ArrayAccess\<close> are to do with a log, by the names the
  interfaces give them: the arguments, the result and the new state of the log; \<open>x\<close> is a value that stands for the integer \<open>i\<close>.
\<close>

definition log_interface :: "'v \<Rightarrow> zend_long \<Rightarrow> (string \<times> 'v list \<times> (log_obj \<Rightarrow> php_result \<times> log_obj)) list" where
  "log_interface x i =
    [(''rewind'', [], \<lambda>ob. (Ret_null, ExcimerLog_rewind ob)),
     (''valid'', [], \<lambda>ob. (Ret_bool (ExcimerLog_valid ob), ob)),
     (''current'', [], \<lambda>ob. map_prod (Ret_zval \<circ> index_zval) id (ExcimerLog_current ob)),
     (''key'', [], \<lambda>ob. (Ret_zval (ExcimerLog_key ob), ob)),
     (''next'', [], \<lambda>ob. (Ret_null, ExcimerLog_next ob)),
     (''count'', [], \<lambda>ob. (Ret_long (ExcimerLog_count ob), ob)),
     (''offsetExists'', [x], \<lambda>ob. (Ret_bool (ExcimerLog_offsetExists ob i), ob)),
     (''offsetGet'', [x], \<lambda>ob. (Ret_zval (index_zval (ExcimerLog_offsetGet ob i)), ob))]"

lemma log_interface_methods_implement:
  assumes inv: "php_inv F live me s" and v: "log_var l s" and x: "zpp_long zp x = Some i"
  shows "implements (log_view l) shown (call_log zsort zp l L_rewind []) (\<lambda>ob. (Ret_null, ExcimerLog_rewind ob)) s"
    "implements (log_view l) shown (call_log zsort zp l L_valid []) (\<lambda>ob. (Ret_bool (ExcimerLog_valid ob), ob)) s"
    "implements (log_view l) shown (call_log zsort zp l L_current []) (\<lambda>ob. map_prod (Ret_zval \<circ> index_zval) id (ExcimerLog_current ob)) s"
    "implements (log_view l) shown (call_log zsort zp l L_key []) (\<lambda>ob. (Ret_zval (ExcimerLog_key ob), ob)) s"
    "implements (log_view l) shown (call_log zsort zp l L_next []) (\<lambda>ob. (Ret_null, ExcimerLog_next ob)) s"
    "implements (log_view l) shown (call_log zsort zp l L_count []) (\<lambda>ob. (Ret_long (ExcimerLog_count ob), ob)) s"
    "implements (log_view l) shown (call_log zsort zp l L_offsetExists [x]) (\<lambda>ob. (Ret_bool (ExcimerLog_offsetExists ob i), ob)) s"
    "implements (log_view l) shown (call_log zsort zp l L_offsetGet [x]) (\<lambda>ob. (Ret_zval (index_zval (ExcimerLog_offsetGet ob i)), ob)) s"
proof -
  obtain lo where lo: "objects s l = Some (Obj_Log lo)" by (rule log_var_log [OF php_inv_parts(1) [OF inv] v])
  note rd = read_implements [OF lo] and mv = move_implements [OF rewind_implements [OF inv v lo]] move_implements [OF next_implements [OF inv v lo]]
  show "implements (log_view l) shown (call_log zsort zp l L_rewind []) (\<lambda>ob. (Ret_null, ExcimerLog_rewind ob)) s"
    "implements (log_view l) shown (call_log zsort zp l L_next []) (\<lambda>ob. (Ret_null, ExcimerLog_next ob)) s"
    using mv by (simp_all add: parse0_def)
  show "implements (log_view l) shown (call_log zsort zp l L_current []) (\<lambda>ob. map_prod (Ret_zval \<circ> index_zval) id (ExcimerLog_current ob)) s"
    using entry_implements [OF current_implements [OF inv lo]] by (simp add: parse0_def)
  show "implements (log_view l) shown (call_log zsort zp l L_offsetGet [x]) (\<lambda>ob. (Ret_zval (index_zval (ExcimerLog_offsetGet ob i)), ob)) s"
    using entry_implements [OF offsetGet_implements [OF inv lo, of i]] x by (simp add: parse1_def)
  show "implements (log_view l) shown (call_log zsort zp l L_valid []) (\<lambda>ob. (Ret_bool (ExcimerLog_valid ob), ob)) s"
    using rd [of "\<lambda>ob. Ret_bool (ExcimerLog_valid ob)"] by (simp add: parse0_def ExcimerLog_valid_def shown_def)
  show "implements (log_view l) shown (call_log zsort zp l L_key []) (\<lambda>ob. (Ret_zval (ExcimerLog_key ob), ob)) s"
    using rd [of "\<lambda>ob. Ret_zval (ExcimerLog_key ob)"] by (simp add: parse0_def ExcimerLog_key_def shown_def)
  show "implements (log_view l) shown (call_log zsort zp l L_count []) (\<lambda>ob. (Ret_long (ExcimerLog_count ob), ob)) s"
    using rd [of "\<lambda>ob. Ret_long (ExcimerLog_count ob)"] by (simp add: parse0_def ExcimerLog_count_def shown_def)
  show "implements (log_view l) shown (call_log zsort zp l L_offsetExists [x]) (\<lambda>ob. (Ret_bool (ExcimerLog_offsetExists ob i), ob)) s"
    using rd [of "\<lambda>ob. Ret_bool (ExcimerLog_offsetExists ob i)"] x by (simp add: parse1_def ExcimerLog_offsetExists_def shown_def)
qed

text \<open>The methods of the table, by name.\<close>

lemma log_call_interface:
  "zend_tolower name = zend_tolower ''rewind'' \<Longrightarrow> zend_call_method zsort lib eng me zp rnd register_ExcimerLog name l args = call_log zsort zp l L_rewind args"
  "zend_tolower name = zend_tolower ''valid'' \<Longrightarrow> zend_call_method zsort lib eng me zp rnd register_ExcimerLog name l args = call_log zsort zp l L_valid args"
  "zend_tolower name = zend_tolower ''current'' \<Longrightarrow> zend_call_method zsort lib eng me zp rnd register_ExcimerLog name l args = call_log zsort zp l L_current args"
  "zend_tolower name = zend_tolower ''key'' \<Longrightarrow> zend_call_method zsort lib eng me zp rnd register_ExcimerLog name l args = call_log zsort zp l L_key args"
  "zend_tolower name = zend_tolower ''next'' \<Longrightarrow> zend_call_method zsort lib eng me zp rnd register_ExcimerLog name l args = call_log zsort zp l L_next args"
  "zend_tolower name = zend_tolower ''count'' \<Longrightarrow> zend_call_method zsort lib eng me zp rnd register_ExcimerLog name l args = call_log zsort zp l L_count args"
  "zend_tolower name = zend_tolower ''offsetExists'' \<Longrightarrow> zend_call_method zsort lib eng me zp rnd register_ExcimerLog name l args = call_log zsort zp l L_offsetExists args"
  "zend_tolower name = zend_tolower ''offsetGet'' \<Longrightarrow> zend_call_method zsort lib eng me zp rnd register_ExcimerLog name l args = call_log zsort zp l L_offsetGet args"
  by (erule log_call [rotated]; simp add: ExcimerLog_methods_def)+

lemma log_class_found:
  assumes "find_class (zm_startup_tables cpu no_tables) ''ExcimerLog'' = Some ce"
  shows "ce = register_ExcimerLog"
  using assms by (cases cpu) (simp_all add: find_class_def zm_startup_tables_def register_class_def no_tables_def class_defs lower_classes)

text \<open>C40 (refinement): the methods by which \<^verbatim>\<open>ExcimerLog\<close> implements the interfaces \<^verbatim>\<open>Iterator\<close>, \<^verbatim>\<open>Countable\<close> and \<^verbatim>\<open>ArrayAccess\<close> do what their
  names say when PHP code calls them by name, in any capitalisation, through the registered class and its method table. On a log
  that a variable holds, each call returns, and its result and its effect on the log are those of the method of that name on
  values: \<^verbatim>\<open>rewind\<close> and \<^verbatim>\<open>next\<close> move the cursor of the log, \<^verbatim>\<open>valid\<close> and \<^verbatim>\<open>key\<close> read it, \<^verbatim>\<open>current\<close> gives the entry under
  it, \<^verbatim>\<open>count\<close> the number of samples, and \<^verbatim>\<open>offsetExists\<close> and \<^verbatim>\<open>offsetGet\<close>, with an argument that the engine takes as an
  integer, look up the entry of an index; the samples are left alone.\<close>

theorem log_interfaces_by_name:
  fixes s :: "(posix_timer, 'z) php_scheme"
  assumes "foreign_hook hook"
    and "php_reachable (posix_timerlib np) (script_engine (posix_timerlib np) base hook me scripts n) hook me s"
    and "log_var l s" and "find_class (zm_startup_tables cpu no_tables) ''ExcimerLog'' = Some ce" and "zpp_long zp x = Some i"
    and "(method, args, f) \<in> set (log_interface x i)" and "zend_tolower name = zend_tolower method"
  shows "implements (log_view l) shown (zend_call_method zsort lib eng me zp rnd ce name l args) f s"
proof -
  have inv: "php_inv (\<lambda>_. 0) posix_live me s" by (rule posix_profiler.script_inv [OF assms(1,2)])
  note impl = log_interface_methods_implement [OF inv assms(3,5), of zsort]
  from assms(6,7) show ?thesis unfolding log_class_found [OF assms(4)] log_interface_def
    by (auto simp: log_call_interface impl simp del: call_log.simps)
qed

theorem log_interfaces_by_name_witness:
  "\<exists>s. php_reachable (posix_timerlib True) demo_script_engine demo_hook 0 s \<and> log_var 1 s \<and>
    implements (log_view 1) shown
      (zend_call_method sort_cmp (posix_timerlib True) demo_script_engine 0 demo_zpp 0 register_ExcimerLog ''NEXT'' 1 [])
      (\<lambda>ob. (Ret_null, ExcimerLog_next ob)) s"
proof -
  obtain s where s: "php_reachable (posix_timerlib True) demo_script_engine demo_hook 0 s" "log_var 1 s" by (rule demo_log_var)
  have c: "find_class (zm_startup_tables False no_tables) ''ExcimerLog'' = Some register_ExcimerLog"
    by (simp add: find_class_def zm_startup_tables_def register_class_def no_tables_def class_defs lower_classes)
  have z: "zpp_long demo_zpp 0 = Some 0" by (simp add: demo_zpp_def)
  have m: "(''next'', [], \<lambda>ob. (Ret_null, ExcimerLog_next ob)) \<in> set (log_interface 0 0)" by (simp add: log_interface_def)
  have n: "zend_tolower ''NEXT'' = zend_tolower ''next''" by (simp add: zend_tolower_def char_of_def bit_0)
  from log_interfaces_by_name [OF demo_foreign s c z m n] s show ?thesis by blast
qed

end
