(* ===== verification/Timer_Threads.thy ===== *)
theory Timer_Threads
  imports Timer_Registry
begin

text \<open>
  The threads of the timer layer, step by step. Every timer has a handler thread, which runs
  \<^verbatim>\<open>excimer_timer_handle\<close>; the PHP thread runs PHP code, the interrupt hook and \<^verbatim>\<open>excimer_timer_destroy\<close>. A step is
  what happens between two points at which another thread can interfere: taking or giving back the
  mutex, a write or a list operation inside the critical section, the store to the interrupt flag. The
  theorems hold for every interleaving: the critical sections exclude each other and never fail, and
  no event is lost between a handler thread that posts it and the hook that looks for it.
\<close>

section \<open>The threads\<close>

datatype actor = Php_thread | Handler_of addr

text \<open>The next statement of a handler thread, in \<^verbatim>\<open>excimer_timer_handle\<close>.\<close>

datatype handler_pc = H_idle | H_lock c_int | H_count c_int | H_enqueue | H_unlock | H_store

text \<open>
  The next statement of the PHP thread: PHP code, the loop of \<^verbatim>\<open>excimer_timer_interrupt\<close> with
  \<^verbatim>\<open>excimer_timer_pending_dequeue\<close> inlined, or the end of \<^verbatim>\<open>excimer_timer_destroy\<close>.
\<close>

datatype php_pc =
    P_run
  | P_lock
  | P_dequeue
  | P_take addr
  | P_unlock "(addr \<times> zend_long) option"
  | P_remove_lock addr
  | P_remove addr
  | P_remove_unlock addr

text \<open>
  \<open>armed\<close>: the timers whose handler thread is there. \<open>hook_depth\<close>: how many calls of the interrupt hook are
  running (a callback is PHP code, which can be interrupted). What an observer records: the events
  counted for a timer since it was initialised, and those its callback was called with.
\<close>

record 'tl threads =
  mem :: "'tl tstate"
  mutex_holder :: "actor option"
  handler :: "addr \<Rightarrow> handler_pc"
  php_pc :: php_pc
  hook_depth :: nat
  armed :: "addr set"
  posted :: "addr \<Rightarrow> zend_long"
  delivered :: "addr \<Rightarrow> zend_long"

abbreviation pc_handler :: "addr \<Rightarrow> handler_pc \<Rightarrow> 'tl threads \<Rightarrow> 'tl threads" where
  "pc_handler t pc c \<equiv> c\<lparr>handler := (handler c)(t := pc)\<rparr>"

text \<open>\<^verbatim>\<open>excimer_timer_handle\<close>, in the handler thread of timer \<open>t\<close>, posting to thread \<open>me\<close>.\<close>

inductive handle_step :: "thread \<Rightarrow> addr \<Rightarrow> 'tl threads \<Rightarrow> 'tl threads \<Rightarrow> bool" for me t where
  expire: "handler c t = H_idle \<Longrightarrow> t \<in> armed c \<Longrightarrow> handle_step me t c (pc_handler t (H_lock ov) c)"
| lock: "handler c t = H_lock ov \<Longrightarrow> mutex_holder c = None \<Longrightarrow>
    handle_step me t c (pc_handler t (H_count ov) (c\<lparr>mutex_holder := Some (Handler_of t)\<rparr>))"
| count: "handler c t = H_count ov \<Longrightarrow>
    handle_step me t c (pc_handler t H_enqueue (c\<lparr>posted := (posted c)(t := posted c t + scast (ov + 1)),
      mem := upd_timer t (timer_event_count_update (\<lambda>n. n + scast (ov + 1))) (mem c)\<rparr>))"
| enqueue: "handler c t = H_enqueue \<Longrightarrow> excimer_timer_list_enqueue me t (mem c) = Inr m \<Longrightarrow>
    handle_step me t c (pc_handler t H_unlock (c\<lparr>mem := m\<rparr>))"
| unlock: "handler c t = H_unlock \<Longrightarrow>
    handle_step me t c (pc_handler t H_store (c\<lparr>mutex_holder := None\<rparr>))"
| store: "handler c t = H_store \<Longrightarrow>
    handle_step me t c (pc_handler t H_idle (c\<lparr>mem := (mem c)
      \<lparr>vm_interrupt := (vm_interrupt (mem c))(vm_interrupt_ptr (timers (mem c) t) := True)\<rparr>\<rparr>))"

text \<open>
  The interrupt hook in thread \<open>me\<close>. The virtual machine clears the flag before it calls the hook; when
  \<open>P_unlock\<close> has a timer its callback is called, which is PHP code again, and its return continues the loop.
\<close>

inductive hook_step :: "thread \<Rightarrow> 'tl threads \<Rightarrow> 'tl threads \<Rightarrow> bool" for me where
  interrupt: "php_pc c = P_run \<Longrightarrow> vm_interrupt (mem c) me \<Longrightarrow>
    hook_step me c (c\<lparr>php_pc := P_lock, hook_depth := Suc (hook_depth c),
      mem := (mem c)\<lparr>vm_interrupt := (vm_interrupt (mem c))(me := False)\<rparr>\<rparr>)"
| lock: "php_pc c = P_lock \<Longrightarrow> mutex_holder c = None \<Longrightarrow>
    hook_step me c (c\<lparr>php_pc := P_dequeue, mutex_holder := Some Php_thread\<rparr>)"
| dequeue_some: "php_pc c = P_dequeue \<Longrightarrow> excimer_timer_list_dequeue me (mem c) = Inr (Some t, m) \<Longrightarrow>
    hook_step me c (c\<lparr>php_pc := P_take t, mem := m\<rparr>)"
| dequeue_none: "php_pc c = P_dequeue \<Longrightarrow> excimer_timer_list_dequeue me (mem c) = Inr (None, m) \<Longrightarrow>
    hook_step me c (c\<lparr>php_pc := P_unlock None, mem := m\<rparr>)"
| take: "php_pc c = P_take t \<Longrightarrow>
    hook_step me c (c\<lparr>php_pc := P_unlock (Some (t, timer_event_count (timers (mem c) t))),
      mem := upd_timer t (timer_event_count_update (\<lambda>_. 0)) (mem c)\<rparr>)"
| call: "php_pc c = P_unlock (Some (t, n)) \<Longrightarrow>
    hook_step me c (c\<lparr>php_pc := P_run, mutex_holder := None, delivered := (delivered c)(t := delivered c t + n)\<rparr>)"
| finish: "php_pc c = P_unlock None \<Longrightarrow>
    hook_step me c (c\<lparr>php_pc := P_run, mutex_holder := None, hook_depth := hook_depth c - 1\<rparr>)"
| callback_returns: "php_pc c = P_run \<Longrightarrow> 0 < hook_depth c \<Longrightarrow> hook_step me c (c\<lparr>php_pc := P_lock\<rparr>)"

abbreviation count_active :: "thread \<Rightarrow> zend_long \<Rightarrow> 'tl tstate \<Rightarrow> 'tl tstate" where
  "count_active me k m \<equiv> m\<lparr>tls_of := (tls_of m)(me := (tls_of m me)\<lparr>timers_active := timers_active (tls_of m me) + k\<rparr>)\<rparr>"

text \<open>
  \<^verbatim>\<open>excimer_timer_init\<close> and \<^verbatim>\<open>excimer_timer_destroy\<close>, called by PHP code. \<^verbatim>\<open>timerlib_timer_destroy\<close> waits for the handler
  thread to end, so that no handler of the timer is running when it is taken off the list. No other thread can see a timer
  before it is armed, so that a successful initialisation is one step; a failing one, the early returns for a timer that is not
  valid or has no thread, and the call of \<^verbatim>\<open>timerlib_timer_stop\<close>, are in the functions of \<open>Excimer_Timer\<close> only.
\<close>

inductive timer_step :: "thread \<Rightarrow> addr set \<Rightarrow> 'tl threads \<Rightarrow> 'tl threads \<Rightarrow> bool" for me D where
  init: "php_pc c = P_run \<Longrightarrow> t \<in> D \<Longrightarrow> t \<notin> armed c \<Longrightarrow>
    timer_step me D c (c\<lparr>armed := insert t (armed c), posted := (posted c)(t := 0), delivered := (delivered c)(t := 0),
      mem := upd_timer t (\<lambda>old. \<lparr>is_valid = True, is_running = False, vm_interrupt_ptr = me,
       tl_timer = tl_timer old, callback = cb, user_data = data, pending_next = None, pending_prev = None,
       timer_event_count = 0, timer_tls = Some me\<rparr>) (count_active me 1 (mem c))\<rparr>)"
| join: "php_pc c = P_run \<Longrightarrow> t \<in> armed c \<Longrightarrow> handler c t = H_idle \<Longrightarrow>
    timer_step me D c (c\<lparr>php_pc := P_remove_lock t, armed := armed c - {t}, mem := count_active me (- 1) (mem c)\<rparr>)"
| lock: "php_pc c = P_remove_lock t \<Longrightarrow> mutex_holder c = None \<Longrightarrow>
    timer_step me D c (c\<lparr>php_pc := P_remove t, mutex_holder := Some Php_thread\<rparr>)"
| remove: "php_pc c = P_remove t \<Longrightarrow> excimer_timer_list_remove me t (mem c) = Inr m \<Longrightarrow>
    timer_step me D c (c\<lparr>php_pc := P_remove_unlock t, mem := m\<rparr>)"
| unlock: "php_pc c = P_remove_unlock t \<Longrightarrow>
    timer_step me D c (c\<lparr>php_pc := P_run, mutex_holder := None,
      mem := upd_timer t (is_valid_update (\<lambda>_. False) \<circ> timer_tls_update (\<lambda>_. None)) (mem c)\<rparr>)"

text \<open>One step of one thread, and the states all interleavings of all threads can reach.\<close>

definition actor_step :: "thread \<Rightarrow> addr set \<Rightarrow> actor \<Rightarrow> 'tl threads \<Rightarrow> 'tl threads \<Rightarrow> bool" where
  "actor_step me D a c c' = (case a of
     Php_thread \<Rightarrow> hook_step me c c' \<or> timer_step me D c c' | Handler_of t \<Rightarrow> handle_step me t c c')"

definition threads_start :: "thread \<Rightarrow> addr set \<Rightarrow> 'tl threads \<Rightarrow> bool" where
  "threads_start me D c \<longleftrightarrow> pending_ring me D (mem c) [] \<and> mutex_holder c = None \<and> (\<forall>t. handler c t = H_idle) \<and>
     php_pc c = P_run \<and> hook_depth c = 0 \<and> armed c = {}"

inductive threads_reachable :: "thread \<Rightarrow> addr set \<Rightarrow> 'tl threads \<Rightarrow> bool" for me D where
  start: "threads_start me D c \<Longrightarrow> threads_reachable me D c"
| step: "threads_reachable me D c \<Longrightarrow> actor_step me D a c c' \<Longrightarrow> threads_reachable me D c'"

section \<open>The invariant\<close>

definition handler_holds :: "handler_pc \<Rightarrow> bool" where
  "handler_holds pc \<longleftrightarrow> (case pc of H_count _ \<Rightarrow> True | H_enqueue \<Rightarrow> True | H_unlock \<Rightarrow> True | _ \<Rightarrow> False)"

definition php_holds :: "php_pc \<Rightarrow> bool" where
  "php_holds pc \<longleftrightarrow> (case pc of P_dequeue \<Rightarrow> True | P_take _ \<Rightarrow> True | P_unlock _ \<Rightarrow> True | P_remove _ \<Rightarrow> True
     | P_remove_unlock _ \<Rightarrow> True | _ \<Rightarrow> False)"

definition in_hook :: "php_pc \<Rightarrow> bool" where
  "in_hook pc \<longleftrightarrow> (case pc of P_lock \<Rightarrow> True | P_dequeue \<Rightarrow> True | P_take _ \<Rightarrow> True | P_unlock _ \<Rightarrow> True | _ \<Rightarrow> False)"

text \<open>The timer being taken off the list for good, the one being delivered, and the events in the loop's variable.\<close>

fun removing :: "php_pc \<Rightarrow> addr set" where
  "removing (P_remove_lock t) = {t}"
| "removing (P_remove t) = {t}"
| "removing _ = {}"

fun taking :: "php_pc \<Rightarrow> addr set" where
  "taking (P_take t) = {t}"
| "taking _ = {}"

fun calling :: "php_pc \<Rightarrow> addr set" where
  "calling (P_take t) = {t}"
| "calling (P_unlock (Some (t, n))) = {t}"
| "calling _ = {}"

fun in_flight :: "php_pc \<Rightarrow> addr \<Rightarrow> zend_long" where
  "in_flight (P_unlock (Some (x, n))) t = (if x = t then n else 0)"
| "in_flight _ t = 0"

definition mutex_ok :: "'tl threads \<Rightarrow> bool" where
  "mutex_ok c \<longleftrightarrow> (\<forall>t. mutex_holder c = Some (Handler_of t) \<longleftrightarrow> handler_holds (handler c t)) \<and>
     (mutex_holder c = Some Php_thread \<longleftrightarrow> php_holds (php_pc c))"

definition armed_ok :: "thread \<Rightarrow> addr set \<Rightarrow> 'tl threads \<Rightarrow> bool" where
  "armed_ok me D c \<longleftrightarrow> armed c \<subseteq> D \<and> (\<forall>t. handler c t \<noteq> H_idle \<longrightarrow> t \<in> armed c) \<and>
     (\<forall>t \<in> armed c. vm_interrupt_ptr (timers (mem c) t) = me) \<and> calling (php_pc c) \<subseteq> armed c \<and>
     removing (php_pc c) \<subseteq> D - armed c \<and> (in_hook (php_pc c) \<longrightarrow> 0 < hook_depth c)"

definition list_ok :: "thread \<Rightarrow> addr set \<Rightarrow> 'tl threads \<Rightarrow> addr list \<Rightarrow> bool" where
  "list_ok me D c q \<longleftrightarrow> pending_ring me D (mem c) q \<and> set q \<subseteq> armed c \<union> removing (php_pc c) \<and>
     set q \<inter> taking (php_pc c) = {} \<and> (php_pc c = P_unlock None \<longrightarrow> q = [])"

text \<open>Events are counted, on the list or about to be put there; a non-empty list will be looked at.\<close>

definition events_ok :: "'tl threads \<Rightarrow> addr list \<Rightarrow> bool" where
  "events_ok c q \<longleftrightarrow> (\<forall>t \<in> armed c.
     (t \<notin> set q \<and> handler c t \<noteq> H_enqueue \<and> t \<notin> taking (php_pc c) \<longrightarrow> timer_event_count (timers (mem c) t) = 0) \<and>
     posted c t = delivered c t + timer_event_count (timers (mem c) t) + in_flight (php_pc c) t)"

definition wake_ok :: "thread \<Rightarrow> 'tl threads \<Rightarrow> addr list \<Rightarrow> bool" where
  "wake_ok me c q \<longleftrightarrow> (q \<noteq> [] \<longrightarrow>
     vm_interrupt (mem c) me \<or> (\<exists>t. handler c t = H_unlock \<or> handler c t = H_store) \<or> 0 < hook_depth c)"

definition threads_inv :: "thread \<Rightarrow> addr set \<Rightarrow> 'tl threads \<Rightarrow> bool" where
  "threads_inv me D c \<longleftrightarrow> mutex_ok c \<and> armed_ok me D c \<and> (\<exists>q. list_ok me D c q \<and> events_ok c q \<and> wake_ok me c q)"

lemmas threads_defs = mutex_ok_def armed_ok_def list_ok_def events_ok_def wake_ok_def handler_holds_def php_holds_def in_hook_def

section \<open>Every step keeps it\<close>

lemma threads_invI:
  "mutex_ok c \<Longrightarrow> armed_ok me D c \<Longrightarrow> list_ok me D c q \<Longrightarrow> events_ok c q \<Longrightarrow> wake_ok me c q \<Longrightarrow> threads_inv me D c"
  unfolding threads_inv_def by blast

lemma threads_invE:
  assumes "threads_inv me D c"
  obtains q where "mutex_ok c" "armed_ok me D c" "list_ok me D c q" "events_ok c q" "wake_ok me c q"
  using assms unfolding threads_inv_def by blast

lemma holder_unique:
  assumes "mutex_ok c" "handler_holds (handler c t)"
  shows "handler_holds (handler c x) \<longleftrightarrow> x = t" "\<not> php_holds (php_pc c)" "mutex_holder c = Some (Handler_of t)"
  using assms by (auto simp: mutex_ok_def) (metis actor.inject option.inject)+

text \<open>Steps of a handler thread that leave the memory alone.\<close>

lemma handler_move:
  assumes inv: "threads_inv me D c"
    and pc: "handler c t = H_idle \<and> t \<in> armed c \<and> pc = H_lock ov \<and> h = mutex_holder c \<or>
      handler c t = H_lock ov \<and> mutex_holder c = None \<and> pc = H_count ov \<and> h = Some (Handler_of t) \<or>
      handler c t = H_unlock \<and> pc = H_store \<and> h = None"
  shows "threads_inv me D (pc_handler t pc (c\<lparr>mutex_holder := h\<rparr>))" (is "threads_inv _ _ ?c")
proof -
  obtain q where m: "mutex_ok c" and a: "armed_ok me D c" and l: "list_ok me D c q" and e: "events_ok c q"
    and w: "wake_ok me c q" using inv by (rule threads_invE)
  have "mutex_ok ?c"
    using pc
  proof (elim disjE conjE)
    assume "handler c t = H_idle" "pc = H_lock ov" "h = mutex_holder c"
    then show ?thesis using m spec [OF conjunct1 [OF m [unfolded mutex_ok_def]], of t]
      by (simp add: mutex_ok_def handler_holds_def)
  next
    assume "handler c t = H_lock ov" "mutex_holder c = None" "pc = H_count ov" "h = Some (Handler_of t)"
    then show ?thesis using m by (auto simp: mutex_ok_def handler_holds_def)
  next
    assume "handler c t = H_unlock" "pc = H_store" "h = None"
    then show ?thesis using m holder_unique [OF m, of t] by (simp add: mutex_ok_def handler_holds_def)
  qed
  moreover have "armed_ok me D ?c" using a pc by (auto simp: armed_ok_def)
  moreover have "list_ok me D ?c q" using l by (simp add: list_ok_def)
  moreover have "events_ok ?c q" using e pc by (auto simp: events_ok_def)
  moreover have "wake_ok me ?c q" using w pc unfolding wake_ok_def by (simp, metis handler_pc.distinct)
  ultimately show ?thesis by (rule threads_invI)
qed

lemma handle_step_inv:
  assumes inv: "threads_inv me D c" and step: "handle_step me t c c'"
  shows "threads_inv me D c'"
proof -
  obtain q where m: "mutex_ok c" and a: "armed_ok me D c" and l: "list_ok me D c q" and e: "events_ok c q"
    and w: "wake_ok me c q" using inv by (rule threads_invE)
  show ?thesis using step
  proof cases
    case (expire ov)
    then show ?thesis using handler_move [OF inv, of t "H_lock ov" ov "mutex_holder c"] by simp
  next
    case (lock ov)
    then show ?thesis using handler_move [OF inv, of t "H_count ov" ov "Some (Handler_of t)"] by simp
  next
    case unlock
    then show ?thesis using handler_move [OF inv, of t H_store _ None] by simp
  next
    case store
    have t: "t \<in> armed c" "vm_interrupt_ptr (timers (mem c) t) = me" using a store(2) by (auto simp: armed_ok_def)
    have "mutex_ok c'" using m store by (auto simp: mutex_ok_def handler_holds_def)
    moreover have "armed_ok me D c'" using a store by (auto simp: armed_ok_def)
    moreover have "list_ok me D c' q"
      using l pending_ring_cong [of "mem c'" "mem c" me D q] store(1) by (simp add: list_ok_def)
    moreover have "events_ok c' q" using e store by (auto simp: events_ok_def)
    moreover have "wake_ok me c' q" using t(2) store(1) by (simp add: wake_ok_def)
    ultimately show ?thesis by (rule threads_invI)
  next
    case (count ov)
    have t: "t \<in> armed c" using a count(2) by (auto simp: armed_ok_def)
    have u: "handler_holds (handler c t)" using count(2) by (simp add: handler_holds_def)
    note one = holder_unique [OF m u]
    have np: "taking (php_pc c) = {}" "in_flight (php_pc c) x = 0" for x
      using one(2) by (cases "php_pc c"; simp add: php_holds_def)+
    have "mutex_ok c'" using m count by (auto simp: mutex_ok_def handler_holds_def)
    moreover have "armed_ok me D c'" using a count by (auto simp: armed_ok_def)
    moreover have "list_ok me D c' q"
      using l pending_ring_cong [of "mem c'" "mem c" me D q] count(1) by (simp add: list_ok_def)
    moreover have "events_ok c' q" using e count np by (auto simp: events_ok_def)
    moreover have "wake_ok me c' q" using w count(2) unfolding wake_ok_def count(1) by (simp, metis handler_pc.distinct)
    ultimately show ?thesis by (rule threads_invI)
  next
    case (enqueue s')
    have t: "t \<in> armed c" "t \<in> D" using a enqueue(2) by (auto simp: armed_ok_def)
    have u: "handler_holds (handler c t)" using enqueue(2) by (simp add: handler_holds_def)
    note one = holder_unique [OF m u]
    have np: "php_pc c \<noteq> P_unlock None" "taking (php_pc c) = {}" using one(2) by (cases "php_pc c"; simp add: php_holds_def)+
    have ring: "pending_ring me D (mem c) q" using l by (simp add: list_ok_def)
    obtain s'' where r: "excimer_timer_list_enqueue me t (mem c) = Inr s''" "pending_ring me D s'' (add_key q t)"
      "list_frame me D (mem c) s''" using enqueue_ring [OF ring t(2)] by blast
    have s': "s'' = s'" using r(1) enqueue(3) by simp
    note f = list_frameD [OF r(3) [unfolded s']]
    have set: "set (add_key q t) = insert t (set q)" by (auto simp: add_key_def)
    have "mutex_ok c'" using m enqueue by (auto simp: mutex_ok_def handler_holds_def)
    moreover have "armed_ok me D c'" using a enqueue f by (auto simp: armed_ok_def)
    moreover have "list_ok me D c' (add_key q t)"
      using l r(2) np t unfolding s' by (auto simp: list_ok_def set enqueue(1))
    moreover have "events_ok c' (add_key q t)" using e enqueue np f by (auto simp: events_ok_def set)
    moreover have "wake_ok me c' (add_key q t)" using enqueue(1) by (auto simp: wake_ok_def)
    ultimately show ?thesis by (rule threads_invI)
  qed
qed

text \<open>Steps of the PHP thread that take or give back the mutex, or only move on.\<close>

lemma php_move:
  assumes inv: "threads_inv me D c"
    and h: "php_holds (php_pc c) \<and> h = None \<or> \<not> php_holds (php_pc c) \<and> mutex_holder c = None \<and> h = Some Php_thread \<or>
      \<not> php_holds (php_pc c) \<and> h = mutex_holder c"
    and pc: "php_holds pc \<longleftrightarrow> h = Some Php_thread" "calling pc = {}" "removing pc \<subseteq> D - armed c" "in_hook pc \<longrightarrow> 0 < n"
      "\<And>q. list_ok me D c q \<Longrightarrow> set q \<subseteq> armed c \<union> removing pc" "pc \<noteq> P_unlock None"
    and ev: "\<And>t. d t = delivered c t + in_flight (php_pc c) t" "taking (php_pc c) = {}"
    and n: "hook_depth c \<le> n \<or> php_pc c = P_unlock None"
  shows "threads_inv me D (c\<lparr>php_pc := pc, mutex_holder := h, hook_depth := n, delivered := d\<rparr>)" (is "threads_inv _ _ ?c")
proof -
  obtain q where m: "mutex_ok c" and a: "armed_ok me D c" and l: "list_ok me D c q" and e: "events_ok c q"
    and w: "wake_ok me c q" using inv by (rule threads_invE)
  have tk: "taking pc = {}" "in_flight pc t = 0" for t
    using pc(2) by (cases pc rule: calling.cases; simp)+
  have "mutex_ok ?c" using m h pc(1) by (auto simp: mutex_ok_def)
  moreover have "armed_ok me D ?c" using a pc by (auto simp: armed_ok_def)
  moreover have "list_ok me D ?c q" using l pc(5) [OF l] pc(6) tk by (simp add: list_ok_def)
  moreover have "events_ok ?c q" using e ev tk by (simp add: events_ok_def)
  moreover have "wake_ok me ?c q" using w l n by (auto simp: wake_ok_def list_ok_def)
  ultimately show ?thesis by (rule threads_invI)
qed

lemma php_holder_unique:
  assumes "mutex_ok c" "php_holds (php_pc c)"
  shows "mutex_holder c = Some Php_thread" "\<not> handler_holds (handler c t)" "handler c t \<noteq> H_enqueue" "handler c t \<noteq> H_unlock"
proof -
  show h: "mutex_holder c = Some Php_thread" using assms by (simp add: mutex_ok_def)
  show n: "\<not> handler_holds (handler c t)" using assms(1) h by (auto simp: mutex_ok_def)
  show "handler c t \<noteq> H_enqueue" "handler c t \<noteq> H_unlock" using n by (auto simp: handler_holds_def)
qed

lemma hook_dequeue_inv:
  assumes inv: "threads_inv me D c" and pc: "php_pc c = P_dequeue"
    and step: "excimer_timer_list_dequeue me (mem c) = Inr (ret, s')"
  shows "threads_inv me D (c\<lparr>php_pc := (case ret of Some t \<Rightarrow> P_take t | None \<Rightarrow> P_unlock None), mem := s'\<rparr>)"
    (is "threads_inv _ _ ?c")
proof -
  obtain q where m: "mutex_ok c" and a: "armed_ok me D c" and l: "list_ok me D c q" and e: "events_ok c q"
    using inv by (rule threads_invE)
  have ring: "pending_ring me D (mem c) q" using l by (simp add: list_ok_def)
  have u: "php_holds (php_pc c)" "in_hook (php_pc c)" "0 < hook_depth c"
    using a pc by (simp_all add: php_holds_def in_hook_def armed_ok_def)
  note one = php_holder_unique [OF m u(1)]
  have m': "mutex_ok ?c" using m pc by (auto simp: mutex_ok_def php_holds_def split: option.splits)
  show ?thesis
  proof (cases q)
    case Nil
    have r: "ret = None" "s' = mem c" using dequeue_ring_empty ring step unfolding Nil by fastforce+
    have "armed_ok me D ?c" using a u r by (simp add: armed_ok_def)
    moreover have "list_ok me D ?c q" using ring Nil r by (simp add: list_ok_def)
    moreover have "events_ok ?c q" using e pc r by (simp add: events_ok_def)
    moreover have "wake_ok me ?c q" using Nil by (simp add: wake_ok_def)
    ultimately show ?thesis by (rule threads_invI [OF m'])
  next
    case (Cons t r)
    obtain s'' where "excimer_timer_list_dequeue me (mem c) = Inr (Some t, s'')" "pending_ring me D s'' r"
      "list_frame me D (mem c) s''" using dequeue_ring [OF ring [unfolded Cons]] by blast
    then have r: "ret = Some t" "pending_ring me D s' r" "list_frame me D (mem c) s'" using step by simp_all
    note f = list_frameD [OF r(3)]
    have d: "t \<notin> set r" "t \<in> armed c" "set r \<subseteq> armed c"
      using l pending_ringD(1) [OF ring] unfolding Cons list_ok_def pc by auto
    have "armed_ok me D ?c" using a d f u r(1) by (simp add: armed_ok_def)
    moreover have "list_ok me D ?c r" using r(1,2) d by (simp add: list_ok_def)
    moreover have "events_ok ?c r" using e f one(3) pc r(1) by (auto simp: events_ok_def Cons)
    moreover have "wake_ok me ?c r" using u by (simp add: wake_ok_def)
    ultimately show ?thesis by (rule threads_invI [OF m'])
  qed
qed

lemma hook_step_inv:
  assumes inv: "threads_inv me D c" and step: "hook_step me c c'"
  shows "threads_inv me D c'"
proof -
  obtain q where m: "mutex_ok c" and a: "armed_ok me D c" and l: "list_ok me D c q" and e: "events_ok c q"
    and w: "wake_ok me c q" using inv by (rule threads_invE)
  have ring: "pending_ring me D (mem c) q" using l by (simp add: list_ok_def)
  show ?thesis using step
  proof cases
    case interrupt
    have "mutex_ok c'" using m interrupt by (simp add: mutex_ok_def php_holds_def)
    moreover have "armed_ok me D c'" using a interrupt by (simp add: armed_ok_def)
    moreover have "list_ok me D c' q"
      using l pending_ring_cong [of "mem c'" "mem c" me D q] interrupt by (simp add: list_ok_def)
    moreover have "events_ok c' q" using e interrupt by (simp add: events_ok_def)
    moreover have "wake_ok me c' q" using interrupt(1) by (simp add: wake_ok_def)
    ultimately show ?thesis by (rule threads_invI)
  next
    case lock
    have "threads_inv me D (c\<lparr>php_pc := P_dequeue, mutex_holder := Some Php_thread, hook_depth := hook_depth c,
        delivered := delivered c\<rparr>)"
      using a lock by (intro php_move [OF inv]) (auto simp: php_holds_def in_hook_def armed_ok_def list_ok_def)
    then show ?thesis using lock(1) by simp
  next
    case (call t n)
    have "threads_inv me D (c\<lparr>php_pc := P_run, mutex_holder := None, hook_depth := hook_depth c,
        delivered := (delivered c)(t := delivered c t + n)\<rparr>)"
      using call by (intro php_move [OF inv]) (auto simp: php_holds_def in_hook_def list_ok_def)
    then show ?thesis using call(1) by simp
  next
    case finish
    have "threads_inv me D (c\<lparr>php_pc := P_run, mutex_holder := None, hook_depth := hook_depth c - 1,
        delivered := delivered c\<rparr>)"
      using finish by (intro php_move [OF inv]) (auto simp: php_holds_def in_hook_def list_ok_def)
    then show ?thesis using finish(1) by simp
  next
    case callback_returns
    have "threads_inv me D (c\<lparr>php_pc := P_lock, mutex_holder := mutex_holder c, hook_depth := hook_depth c,
        delivered := delivered c\<rparr>)"
      using callback_returns m by (intro php_move [OF inv]) (auto simp: php_holds_def in_hook_def list_ok_def mutex_ok_def)
    then show ?thesis using callback_returns(1) by simp
  next
    case (dequeue_some t s')
    then show ?thesis using hook_dequeue_inv [OF inv] by fastforce
  next
    case (dequeue_none s')
    then show ?thesis using hook_dequeue_inv [OF inv] by fastforce
  next
    case (take t)
    have u: "php_holds (php_pc c)" "in_hook (php_pc c)" using take(2) by (simp_all add: php_holds_def in_hook_def)
    have d: "t \<notin> set q" "t \<in> armed c" using l a by (auto simp: list_ok_def armed_ok_def take(2))
    have "mutex_ok c'" using m take by (auto simp: mutex_ok_def php_holds_def)
    moreover have "armed_ok me D c'" using a u d take(1) by (simp add: armed_ok_def)
    moreover have "list_ok me D c' q"
      using l pending_ring_cong [of "mem c'" "mem c" me D q] take by (simp add: list_ok_def)
    moreover have "events_ok c' q" using e take d by (simp add: events_ok_def)
    moreover have "wake_ok me c' q" using a u take(1) by (simp add: wake_ok_def armed_ok_def)
    ultimately show ?thesis by (rule threads_invI)
  qed
qed

lemma timer_remove_inv:
  assumes inv: "threads_inv me D c" and pc: "php_pc c = P_remove t"
    and step: "excimer_timer_list_remove me t (mem c) = Inr s'"
  shows "threads_inv me D (c\<lparr>php_pc := P_remove_unlock t, mem := s'\<rparr>)" (is "threads_inv _ _ ?c")
proof -
  obtain q where m: "mutex_ok c" and a: "armed_ok me D c" and l: "list_ok me D c q" and e: "events_ok c q"
    and w: "wake_ok me c q" using inv by (rule threads_invE)
  have ring: "pending_ring me D (mem c) q" using l by (simp add: list_ok_def)
  have t: "t \<in> D" "t \<notin> armed c" using a pc by (auto simp: armed_ok_def)
  obtain s'' where "excimer_timer_list_remove me t (mem c) = Inr s''" "pending_ring me D s'' (remove1 t q)"
    "list_frame me D (mem c) s''" using remove_ring [OF ring t(1)] by blast
  then have r: "pending_ring me D s' (remove1 t q)" "list_frame me D (mem c) s'" using step by simp_all
  note f = list_frameD [OF r(2)]
  have set: "set (remove1 t q) = set q - {t}" using pending_ringD(1) [OF ring] by simp
  have "mutex_ok ?c" using m pc by (auto simp: mutex_ok_def php_holds_def)
  moreover have "armed_ok me D ?c" using a f by (simp add: armed_ok_def in_hook_def)
  moreover have "list_ok me D ?c (remove1 t q)" using r(1) l pc by (auto simp: list_ok_def set)
  moreover have "events_ok ?c (remove1 t q)" using e f t pc by (auto simp: events_ok_def set)
  moreover have "wake_ok me ?c (remove1 t q)" using w f by (auto simp: wake_ok_def)
  ultimately show ?thesis by (rule threads_invI)
qed

lemma timer_step_inv:
  assumes inv: "threads_inv me D c" and step: "timer_step me D c c'"
  shows "threads_inv me D c'"
proof -
  obtain q where m: "mutex_ok c" and a: "armed_ok me D c" and l: "list_ok me D c q" and e: "events_ok c q"
    and w: "wake_ok me c q" using inv by (rule threads_invE)
  have ring: "pending_ring me D (mem c) q" using l by (simp add: list_ok_def)
  show ?thesis using step
  proof cases
    case (init t cb data)
    have t: "t \<notin> set q" "handler c t = H_idle" using l a init(2,4) by (auto simp: list_ok_def armed_ok_def)
    have "mutex_ok c'" using m init by (simp add: mutex_ok_def)
    moreover have "armed_ok me D c'" using a init by (auto simp: armed_ok_def)
    moreover have "list_ok me D c' q"
      using l t init pending_ring_cong [of "mem c'" "mem c" me D q] pending_ringD(5,6) [OF ring init(3)]
      by (auto simp: list_ok_def)
    moreover have "events_ok c' q" using e init t by (simp add: events_ok_def)
    moreover have "wake_ok me c' q" using w init by (simp add: wake_ok_def)
    ultimately show ?thesis by (rule threads_invI)
  next
    case (join t)
    have "mutex_ok c'" using m join by (simp add: mutex_ok_def php_holds_def)
    moreover have "armed_ok me D c'" using a join by (auto simp: armed_ok_def in_hook_def)
    moreover have "list_ok me D c' q"
      using l join pending_ring_cong [of "mem c'" "mem c" me D q] by (auto simp: list_ok_def)
    moreover have "events_ok c' q" using e join by (simp add: events_ok_def)
    moreover have "wake_ok me c' q" using w join by (simp add: wake_ok_def)
    ultimately show ?thesis by (rule threads_invI)
  next
    case (lock t)
    have "threads_inv me D (c\<lparr>php_pc := P_remove t, mutex_holder := Some Php_thread, hook_depth := hook_depth c,
        delivered := delivered c\<rparr>)"
      using a lock by (intro php_move [OF inv]) (auto simp: php_holds_def in_hook_def armed_ok_def list_ok_def)
    then show ?thesis using lock(1) by simp
  next
    case (remove t s')
    then show ?thesis using timer_remove_inv [OF inv] by simp
  next
    case (unlock t)
    have "mutex_ok c'" using m unlock php_holder_unique [OF m] by (auto simp: mutex_ok_def php_holds_def)
    moreover have "armed_ok me D c'" using a unlock by (auto simp: armed_ok_def in_hook_def)
    moreover have "list_ok me D c' q"
      using l unlock pending_ring_cong [of "mem c'" "mem c" me D q] by (auto simp: list_ok_def)
    moreover have "events_ok c' q" using e unlock by (simp add: events_ok_def)
    moreover have "wake_ok me c' q" using w unlock by (simp add: wake_ok_def)
    ultimately show ?thesis by (rule threads_invI)
  qed
qed

lemma threads_reachable_inv: "threads_reachable me D c \<Longrightarrow> threads_inv me D c"
proof (induction rule: threads_reachable.induct)
  case (start c)
  then have "mutex_ok c" "armed_ok me D c" "list_ok me D c []" "events_ok c []" "wake_ok me c []"
    by (simp_all add: threads_defs threads_start_def)
  then show ?case by (rule threads_invI)
next
  case (step c a c')
  then show ?case by (cases a) (auto simp: actor_step_def intro: handle_step_inv hook_step_inv timer_step_inv)
qed

section \<open>Mutual exclusion and progress of the critical sections\<close>

definition in_critical_section :: "actor \<Rightarrow> 'tl threads \<Rightarrow> bool" where
  "in_critical_section a c \<longleftrightarrow> (case a of Php_thread \<Rightarrow> php_holds (php_pc c) | Handler_of t \<Rightarrow> handler_holds (handler c t))"

lemma critical_iff_holder: "mutex_ok c \<Longrightarrow> in_critical_section a c \<longleftrightarrow> mutex_holder c = Some a"
  by (cases a) (simp_all add: in_critical_section_def mutex_ok_def)

lemma holder_steps:
  assumes inv: "threads_inv me D c" and cs: "in_critical_section a c"
  shows "\<exists>c'. actor_step me D a c c'"
proof -
  obtain q where m: "mutex_ok c" and a: "armed_ok me D c" and l: "list_ok me D c q" using inv by (rule threads_invE)
  have ring: "pending_ring me D (mem c) q" using l by (simp add: list_ok_def)
  show ?thesis
  proof (cases a)
    case (Handler_of t)
    have "handler c t \<noteq> H_idle" using cs by (auto simp: in_critical_section_def Handler_of handler_holds_def)
    then have t: "t \<in> D" using a unfolding armed_ok_def by blast
    obtain s' where s': "excimer_timer_list_enqueue me t (mem c) = Inr s'" using enqueue_ring [OF ring t] .
    show ?thesis using cs Handler_of s' handle_step.intros(3,4,5)
      by (cases "handler c t") (auto simp: in_critical_section_def actor_step_def handler_holds_def, blast+)
  next
    case Php_thread
    show ?thesis
    proof (cases "php_pc c")
      case P_dequeue
      show ?thesis using hook_step.intros(3,4) [OF P_dequeue] dequeue_ring [of me D "mem c"] dequeue_ring_empty [of me D "mem c"]
        ring Php_thread by (cases q) (auto simp: actor_step_def, metis+)
    next
      case (P_remove t)
      then have "t \<in> D" using a by (simp add: armed_ok_def)
      then obtain s' where "excimer_timer_list_remove me t (mem c) = Inr s'" by (rule remove_ring [OF ring])
      then show ?thesis using timer_step.intros(4) [OF P_remove] Php_thread by (auto simp: actor_step_def)
    next
      case (P_unlock r)
      then show ?thesis using hook_step.intros(6,7) Php_thread by (cases r) (auto simp: actor_step_def, blast+)
    qed (use cs Php_thread hook_step.intros(5) timer_step.intros(5) in
      \<open>auto simp: actor_step_def in_critical_section_def php_holds_def, blast+\<close>)
  qed
qed

text \<open>Nobody is inside the functions of the timer layer.\<close>

definition quiescent :: "'tl threads \<Rightarrow> bool" where
  "quiescent c \<longleftrightarrow> (\<forall>t. handler c t = H_idle) \<and> php_pc c = P_run \<and> hook_depth c = 0"

section \<open>A concrete run\<close>

definition demo_threads :: "unit threads" where
  "demo_threads = \<lparr>mem = demo_none_pending, mutex_holder = None, handler = (\<lambda>_. H_idle), php_pc = P_run, hook_depth = 0,
     armed = {}, posted = (\<lambda>_. 0), delivered = (\<lambda>_. 0)\<rparr>"

text \<open>A timer is initialised, expires and runs through its handler; the PHP thread has not looked yet.\<close>

lemma demo_threads_run:
  obtains c c' :: "unit threads" where "threads_reachable 0 {1, 2, 3} c" "in_critical_section (Handler_of 1) c"
    "threads_reachable 0 {1, 2, 3} c'" "quiescent c'" "1 \<in> armed c'" "posted c' 1 = 1" "delivered c' 1 = 0"
proof -
  let ?init = "\<lambda>old. \<lparr>is_valid = True, is_running = False, vm_interrupt_ptr = 0, tl_timer = tl_timer old,
    callback = Timer_callback, user_data = 7, pending_next = None, pending_prev = None,
    timer_event_count = 0, timer_tls = Some 0\<rparr> :: unit excimer_timer"
  define c0 where "c0 = demo_threads"
  define c1 where "c1 = c0\<lparr>armed := insert 1 (armed c0), posted := (posted c0)(1 := 0), delivered := (delivered c0)(1 := 0),
    mem := upd_timer 1 ?init (count_active 0 1 (mem c0))\<rparr>"
  define c2 where "c2 = pc_handler 1 (H_lock 0) c1"
  define c3 where "c3 = pc_handler 1 (H_count 0) (c2\<lparr>mutex_holder := Some (Handler_of 1)\<rparr>)"
  define c4 where "c4 = pc_handler 1 H_enqueue (c3\<lparr>posted := (posted c3)(1 := posted c3 1 + scast (0 + 1 :: c_int)),
    mem := upd_timer 1 (timer_event_count_update (\<lambda>n. n + scast (0 + 1 :: c_int))) (mem c3)\<rparr>)"
  have r0: "threads_reachable 0 {1, 2, 3} c0" using demo_ring_empty
    by (intro threads_reachable.start) (simp add: threads_start_def c0_def demo_threads_def)
  have "timer_step 0 {1, 2, 3} c0 c1" unfolding c1_def by (rule timer_step.init) (simp_all add: c0_def demo_threads_def)
  then have r1: "threads_reachable 0 {1, 2, 3} c1"
    by (intro threads_reachable.step [OF r0, of Php_thread]) (simp add: actor_step_def)
  have pc1: "handler c1 = (\<lambda>_. H_idle)" "mutex_holder c1 = None" "armed c1 = {1}" "php_pc c1 = P_run" "hook_depth c1 = 0"
      "posted c1 1 = 0" "delivered c1 1 = 0"
    by (simp_all add: c1_def c0_def demo_threads_def)
  have s2: "handle_step 0 1 c1 c2" unfolding c2_def using pc1 by (intro handle_step.expire) simp_all
  have s3: "handle_step 0 1 c2 c3" unfolding c3_def using pc1 by (intro handle_step.lock) (simp_all add: c2_def)
  have s4: "handle_step 0 1 c3 c4" unfolding c4_def by (intro handle_step.count) (simp add: c3_def)
  note go = threads_reachable.step [of 0 "{1, 2, 3}" _ "Handler_of 1", unfolded actor_step_def actor.case]
  have r4: "threads_reachable 0 {1, 2, 3} c4" by (rule go [OF go [OF go [OF r1 s2] s3] s4])
  then have inv: "threads_inv 0 {1, 2, 3} c4" by (rule threads_reachable_inv)
  have cs: "in_critical_section (Handler_of 1) c4" by (simp add: in_critical_section_def c4_def handler_holds_def)
  obtain c5 where s5: "handle_step 0 1 c4 c5" using holder_steps [OF inv cs] by (auto simp: actor_step_def)
  from s5 obtain m where c5: "c5 = pc_handler 1 H_unlock (c4\<lparr>mem := m\<rparr>)" by cases (simp_all add: c4_def)
  define c6 where "c6 = pc_handler 1 H_store (c5\<lparr>mutex_holder := None\<rparr>)"
  define c7 where "c7 = pc_handler 1 H_idle (c6\<lparr>mem := (mem c6)
      \<lparr>vm_interrupt := (vm_interrupt (mem c6))(vm_interrupt_ptr (timers (mem c6) 1) := True)\<rparr>\<rparr>)"
  have s6: "handle_step 0 1 c5 c6" unfolding c6_def by (intro handle_step.unlock) (simp add: c5)
  have s7: "handle_step 0 1 c6 c7" unfolding c7_def by (intro handle_step.store) (simp add: c6_def)
  have r7: "threads_reachable 0 {1, 2, 3} c7" by (rule go [OF go [OF go [OF r4 s5] s6] s7])
  have "quiescent c7" "1 \<in> armed c7" "posted c7 1 = 1" "delivered c7 1 = 0"
    using pc1 by (simp_all add: quiescent_def c7_def c6_def c5 c4_def c3_def c2_def)
  then show thesis using that r4 cs r7 by blast
qed

text \<open>C14 (safety): for every interleaving of the statements of the handler threads and the PHP thread, at
  most one thread is in a critical section of the pending list's mutex, and a thread in it can always take its next
  step: the list operation it is about to do does not dereference a null pointer and nothing it waits for is held
  by another thread.\<close>

theorem critical_sections_exclusive:
  assumes "threads_reachable me D c" "in_critical_section a c"
  shows "(\<forall>b. in_critical_section b c \<longrightarrow> b = a) \<and> (\<exists>c'. actor_step me D a c c')"
proof -
  have inv: "threads_inv me D c" using assms(1) by (rule threads_reachable_inv)
  then have "mutex_ok c" by (simp add: threads_inv_def)
  then show ?thesis using assms(2) critical_iff_holder holder_steps [OF inv] by (metis option.inject)
qed

theorem critical_sections_exclusive_witness:
  "\<exists>c :: unit threads. threads_reachable 0 {1, 2, 3} c \<and> in_critical_section (Handler_of 1) c \<and>
    \<not> in_critical_section Php_thread c \<and> (\<exists>c'. actor_step 0 {1, 2, 3} (Handler_of 1) c c')"
proof -
  obtain c c' :: "unit threads" where c: "threads_reachable 0 {1, 2, 3} c" "in_critical_section (Handler_of 1) c"
    by (rule demo_threads_run)
  then show ?thesis using critical_sections_exclusive [OF c] by blast
qed

section \<open>No event is lost on the way to the hook\<close>

text \<open>C7 (safety): no wake-up is lost. For every interleaving of the handler threads with the interrupt hook,
  nested calls of it, and the creation and destruction of timers: when no thread is inside the timer layer, either the
  PHP thread's interrupt flag is set, so that the hook will run, or the pending list is empty and every event posted
  for a timer in use has been delivered to its callback.\<close>

theorem no_lost_wakeup:
  assumes "threads_reachable me D c" "quiescent c"
  shows "vm_interrupt (mem c) me \<or> hd_ptr (mem c) me = None \<and> (\<forall>t \<in> armed c. delivered c t = posted c t)"
proof -
  obtain q where l: "list_ok me D c q" and e: "events_ok c q" and w: "wake_ok me c q"
    using threads_reachable_inv [OF assms(1)] by (rule threads_invE)
  show ?thesis
  proof (cases "q = []")
    case True
    then have "hd_ptr (mem c) me = None" using l by (simp add: list_ok_def pending_ring_def)
    moreover have "\<forall>t \<in> armed c. delivered c t = posted c t"
      using e assms(2) True by (simp add: events_ok_def quiescent_def)
    ultimately show ?thesis by blast
  next
    case False
    then show ?thesis using w assms(2) by (simp add: wake_ok_def quiescent_def)
  qed
qed

theorem no_lost_wakeup_witness:
  "\<exists>c :: unit threads. threads_reachable 0 {1, 2, 3} c \<and> quiescent c \<and> 1 \<in> armed c \<and> delivered c 1 \<noteq> posted c 1 \<and>
    vm_interrupt (mem c) 0"
proof -
  obtain c c' :: "unit threads" where c: "threads_reachable 0 {1, 2, 3} c'" "quiescent c'" "1 \<in> armed c'" "posted c' 1 = 1"
    "delivered c' 1 = 0" by (rule demo_threads_run)
  then show ?thesis using no_lost_wakeup [OF c(1,2)] by (intro exI [of _ c']) auto
qed

text \<open>The interrupt hook, with callbacks that return, on a list of any length.\<close>

lemma hook_drains:
  assumes "pending_ring me D (mem c) q" "php_pc c = P_lock" "mutex_holder c = None" "0 < hook_depth c"
  shows "\<exists>c'. (hook_step me)\<^sup>*\<^sup>* c c' \<and> php_pc c' = P_run \<and> hook_depth c' = hook_depth c - 1 \<and> handler c' = handler c \<and>
    armed c' = armed c \<and> posted c' = posted c \<and> hd_ptr (mem c') me = None"
  using assms
proof (induction q arbitrary: c)
  case Nil
  let ?c1 = "c\<lparr>php_pc := P_dequeue, mutex_holder := Some Php_thread\<rparr>"
  let ?c2 = "?c1\<lparr>php_pc := P_unlock None, mem := mem c\<rparr>"
  let ?c3 = "?c2\<lparr>php_pc := P_run, mutex_holder := None, hook_depth := hook_depth ?c2 - 1\<rparr>"
  have s1: "hook_step me c ?c1" using Nil by (intro hook_step.lock)
  have s2: "hook_step me ?c1 ?c2" using dequeue_ring_empty [OF Nil(1)] by (intro hook_step.dequeue_none) simp_all
  have s3: "hook_step me ?c2 ?c3" by (intro hook_step.finish) simp
  note into = rtranclp.rtrancl_into_rtrancl [of "hook_step me"]
  note steps = r_into_rtranclp [of "hook_step me", OF s1, THEN into, OF s2, THEN into, OF s3]
  have "hd_ptr (mem c) me = None" using Nil(1) by (simp add: pending_ring_def)
  with steps show ?case by (intro exI [of _ ?c3]) simp
next
  case (Cons t r)
  obtain s' where s': "excimer_timer_list_dequeue me (mem c) = Inr (Some t, s')" "pending_ring me D s' r"
    using dequeue_ring [OF Cons.prems(1)] by blast
  let ?c1 = "c\<lparr>php_pc := P_dequeue, mutex_holder := Some Php_thread\<rparr>"
  let ?c2 = "?c1\<lparr>php_pc := P_take t, mem := s'\<rparr>"
  let ?c3 = "?c2\<lparr>php_pc := P_unlock (Some (t, timer_event_count (timers (mem ?c2) t))),
    mem := upd_timer t (timer_event_count_update (\<lambda>_. 0)) (mem ?c2)\<rparr>"
  let ?c4 = "?c3\<lparr>php_pc := P_run, mutex_holder := None,
    delivered := (delivered ?c3)(t := delivered ?c3 t + timer_event_count (timers (mem ?c2) t))\<rparr>"
  let ?c5 = "?c4\<lparr>php_pc := P_lock\<rparr>"
  have s1: "hook_step me c ?c1" using Cons.prems by (intro hook_step.lock)
  have s2: "hook_step me ?c1 ?c2" using s' by (intro hook_step.dequeue_some) simp_all
  have s3: "hook_step me ?c2 ?c3" by (intro hook_step.take) simp
  have s4: "hook_step me ?c3 ?c4" by (intro hook_step.call) simp
  have s5: "hook_step me ?c4 ?c5" using Cons.prems(4) by (intro hook_step.callback_returns) simp_all
  note into = rtranclp.rtrancl_into_rtrancl [of "hook_step me"]
  note steps = r_into_rtranclp [of "hook_step me", OF s1, THEN into, OF s2, THEN into, OF s3, THEN into, OF s4, THEN into, OF s5]
  have "pending_ring me D (mem ?c5) r" using s'(2) pending_ring_cong [of "mem ?c5" s' me D r] by simp
  from Cons.IH [OF this] Cons.prems(4) obtain c' where c': "(hook_step me)\<^sup>*\<^sup>* ?c5 c'" "php_pc c' = P_run"
    "hook_depth c' = hook_depth c - 1" "handler c' = handler c" "armed c' = armed c" "posted c' = posted c" "hd_ptr (mem c') me = None"
    by auto
  from rtranclp_trans [of "hook_step me", OF steps c'(1)] c'(2-) show ?case by blast
qed

lemma hook_steps_reachable: "(hook_step me)\<^sup>*\<^sup>* c c' \<Longrightarrow> threads_reachable me D c \<Longrightarrow> threads_reachable me D c'"
proof (induction rule: rtranclp_induct)
  case (step y z)
  then show ?case using threads_reachable.step [of me D y Php_thread z] by (simp add: actor_step_def)
qed

lemma quiet_list_empty:
  assumes "threads_reachable me D c" "quiescent c" "hd_ptr (mem c) me = None" "t \<in> armed c"
  shows "delivered c t = posted c t"
proof -
  obtain q where l: "list_ok me D c q" and e: "events_ok c q"
    using threads_reachable_inv [OF assms(1)] by (rule threads_invE)
  have "q = []" using l assms(3) by (cases q) (simp_all add: list_ok_def pending_ring_def)
  then show ?thesis using e assms(2,4) by (simp add: events_ok_def quiescent_def)
qed

text \<open>C15 (liveness): every event that a handler thread has posted is delivered. From any quiescent state that the
  threads can reach, the interrupt hook alone, with callbacks that return, comes to a quiescent state in which the
  pending list is empty and each timer in use has been called with exactly the events posted for it.\<close>

theorem posted_events_delivered:
  assumes "threads_reachable me D c" "quiescent c"
  shows "\<exists>c'. (hook_step me)\<^sup>*\<^sup>* c c' \<and> quiescent c' \<and> hd_ptr (mem c') me = None \<and> armed c' = armed c \<and>
    (\<forall>t \<in> armed c. delivered c' t = posted c t)"
proof -
  obtain q where m: "mutex_ok c" and l: "list_ok me D c q" and w: "wake_ok me c q"
    using threads_reachable_inv [OF assms(1)] by (rule threads_invE)
  have free: "mutex_holder c = None" using m assms(2)
    by (cases "mutex_holder c"; cases "the (mutex_holder c)") (auto simp: mutex_ok_def quiescent_def handler_holds_def php_holds_def)
  show ?thesis
  proof (cases "q = []")
    case True
    then have "hd_ptr (mem c) me = None" using l by (simp add: list_ok_def pending_ring_def)
    then show ?thesis using assms(2) quiet_list_empty [OF assms] by blast
  next
    case False
    then have flag: "vm_interrupt (mem c) me" using w assms(2) by (simp add: wake_ok_def quiescent_def)
    let ?c = "c\<lparr>php_pc := P_lock, hook_depth := Suc (hook_depth c),
      mem := (mem c)\<lparr>vm_interrupt := (vm_interrupt (mem c))(me := False)\<rparr>\<rparr>"
    have s: "hook_step me c ?c" using assms(2) flag by (intro hook_step.interrupt) (simp_all add: quiescent_def)
    have "pending_ring me D (mem ?c) q"
      using l pending_ring_cong [of "mem ?c" "mem c" me D q] by (simp add: list_ok_def)
    from hook_drains [OF this] free obtain c' where c': "(hook_step me)\<^sup>*\<^sup>* ?c c'" "php_pc c' = P_run" "hook_depth c' = hook_depth c"
      "handler c' = handler c" "armed c' = armed c" "posted c' = posted c" "hd_ptr (mem c') me = None" by auto
    have r: "(hook_step me)\<^sup>*\<^sup>* c c'" using s c'(1) by (rule converse_rtranclp_into_rtranclp)
    have qu: "quiescent c'" using assms(2) c' by (simp add: quiescent_def)
    have "delivered c' t = posted c t" if "t \<in> armed c" for t
      using quiet_list_empty [OF hook_steps_reachable [OF r assms(1)] qu c'(7), of t] that c'(5,6) by simp
    then show ?thesis using r qu c'(5,7) by blast
  qed
qed

theorem posted_events_delivered_witness:
  "\<exists>c c' :: unit threads. threads_reachable 0 {1, 2, 3} c \<and> quiescent c \<and> delivered c 1 = 0 \<and> (hook_step 0)\<^sup>*\<^sup>* c c' \<and>
    quiescent c' \<and> delivered c' 1 = 1"
proof -
  obtain c c' :: "unit threads" where c: "threads_reachable 0 {1, 2, 3} c'" "quiescent c'" "1 \<in> armed c'" "posted c' 1 = 1"
    "delivered c' 1 = 0" by (rule demo_threads_run)
  then show ?thesis using posted_events_delivered [OF c(1,2)] by fastforce
qed

section \<open>The functions are the uninterrupted runs\<close>

text \<open>The list functions neither read nor write the record of library calls.\<close>

lemma list_calls_irrelevant:
  "excimer_timer_list_enqueue me t (m\<lparr>os_calls := x\<rparr>) = map_sum id (os_calls_update (\<lambda>_. x)) (excimer_timer_list_enqueue me t m)"
  "excimer_timer_list_dequeue me (m\<lparr>os_calls := x\<rparr>) =
     map_sum id (map_prod id (os_calls_update (\<lambda>_. x))) (excimer_timer_list_dequeue me m)"
  by (simp_all add: excimer_timer_list_enqueue_def excimer_timer_list_dequeue_def set_next_def set_prev_def set_head_def
    deref_def Let_def rbind_def split: option.splits sum.splits)

lemma list_calls_kept:
  "excimer_timer_list_enqueue me t m = Inr m' \<Longrightarrow> os_calls m' = os_calls m"
  "excimer_timer_list_dequeue me m = Inr (ret, m') \<Longrightarrow> os_calls m' = os_calls m"
  using list_calls_irrelevant(1) [where m = m and x = "os_calls m" and me = me and t = t]
    list_calls_irrelevant(2) [where m = m and x = "os_calls m" and me = me] by (simp_all, (metis os.select_convs(2) os.surjective os.update_convs(2))+)

lemma handle_uninterrupted:
  assumes run: "excimer_timer_handle me t ov (mem c) = Inr ((), m)" and pc: "handler c t = H_lock ov" "mutex_holder c = None"
  shows "(handle_step me t)\<^sup>*\<^sup>* c (pc_handler t H_idle (c\<lparr>posted := (posted c)(t := posted c t + scast (ov + 1)),
    mem := m\<lparr>os_calls := os_calls (mem c)\<rparr>\<rparr>))"
proof -
  let ?f = "timer_event_count_update (\<lambda>n. n + scast (ov + 1))"
  define m0 where "m0 = upd_timer t ?f (mem c)"
  obtain x y r where "excimer_timer_list_enqueue me t (upd_timer t ?f ((mem c)\<lparr>os_calls := x\<rparr>)) = Inr r"
    and m: "m = (r\<lparr>os_calls := y\<rparr>)\<lparr>vm_interrupt := (vm_interrupt r)(vm_interrupt_ptr (timers r t) := True)\<rparr>"
    using run by (simp add: excimer_timer_handle_def prog_defs state_defs logged_def rbind_Inr_iff split: if_splits) auto
  moreover have "upd_timer t ?f ((mem c)\<lparr>os_calls := x\<rparr>) = m0\<lparr>os_calls := x\<rparr>" for x by (simp add: m0_def)
  ultimately have r: "excimer_timer_list_enqueue me t (m0\<lparr>os_calls := x\<rparr>) = Inr r" by simp
  obtain r0 where r0: "excimer_timer_list_enqueue me t m0 = Inr r0" "r = r0\<lparr>os_calls := x\<rparr>"
    using r unfolding list_calls_irrelevant by (cases "excimer_timer_list_enqueue me t m0") auto
  have k: "os_calls r0 = os_calls (mem c)" using list_calls_kept(1) [OF r0(1)] by (simp add: m0_def)
  let ?p = "(posted c)(t := posted c t + scast (ov + 1))"
  let ?c1 = "pc_handler t (H_count ov) (c\<lparr>mutex_holder := Some (Handler_of t)\<rparr>)"
  let ?c2 = "pc_handler t H_enqueue (?c1\<lparr>posted := ?p, mem := m0\<rparr>)"
  let ?c3 = "pc_handler t H_unlock (?c2\<lparr>mem := r0\<rparr>)"
  let ?c4 = "pc_handler t H_store (?c3\<lparr>mutex_holder := None\<rparr>)"
  let ?c5 = "pc_handler t H_idle (?c4\<lparr>mem := r0\<lparr>vm_interrupt := (vm_interrupt r0)(vm_interrupt_ptr (timers r0 t) := True)\<rparr>\<rparr>)"
  have s1: "handle_step me t c ?c1" using pc by (rule handle_step.lock)
  have s2: "handle_step me t ?c1 ?c2" using handle_step.count [of ?c1 t ov me] by (simp add: m0_def)
  have s3: "handle_step me t ?c2 ?c3" using r0 by (intro handle_step.enqueue) simp_all
  have s4: "handle_step me t ?c3 ?c4" by (intro handle_step.unlock) simp
  have s5: "handle_step me t ?c4 ?c5" using handle_step.store [of ?c4 t me] by simp
  note into = rtranclp.rtrancl_into_rtrancl [of "handle_step me t"]
  have "(handle_step me t)\<^sup>*\<^sup>* c ?c5"
    by (rule r_into_rtranclp [of "handle_step me t", OF s1, THEN into, OF s2, THEN into, OF s3, THEN into, OF s4, THEN into, OF s5])
  moreover have "?c5 = pc_handler t H_idle (c\<lparr>posted := ?p, mem := m\<lparr>os_calls := os_calls (mem c)\<rparr>\<rparr>)"
    using pc(2) k unfolding m r0(2) by (intro threads.equality tstate.equality) simp_all
  ultimately show ?thesis by simp
qed

text \<open>\<open>after_dequeue ret\<close>: where the PHP thread is after \<^verbatim>\<open>excimer_timer_pending_dequeue\<close> gave \<open>ret\<close>: in the callback, or out of the hook.\<close>

definition after_dequeue :: "(addr \<times> zend_long) option \<Rightarrow> 'tl threads \<Rightarrow> 'tl threads" where
  "after_dequeue ret c = (case ret of
     Some (t, n) \<Rightarrow> c\<lparr>delivered := (delivered c)(t := delivered c t + n), php_pc := P_run\<rparr>
   | None \<Rightarrow> c\<lparr>hook_depth := hook_depth c - 1, php_pc := P_run\<rparr>)"

lemma dequeue_uninterrupted:
  assumes run: "excimer_timer_pending_dequeue me (mem c) = Inr (ret, m)" and pc: "php_pc c = P_lock" "mutex_holder c = None"
  shows "(hook_step me)\<^sup>*\<^sup>* c (after_dequeue ret (c\<lparr>mem := m\<lparr>os_calls := os_calls (mem c)\<rparr>\<rparr>))"
proof -
  obtain x y d r r2 where r: "excimer_timer_list_dequeue me ((mem c)\<lparr>os_calls := x\<rparr>) = Inr (d, r)"
    and r2: "(case d of None \<Rightarrow> (None, r) | Some t \<Rightarrow> (Some (t, timer_event_count (timers r t)),
      upd_timer t (timer_event_count_update (\<lambda>_. 0)) r)) = (ret, r2)" and m: "m = r2\<lparr>os_calls := y\<rparr>"
    using run by (auto simp: excimer_timer_pending_dequeue_def prog_defs state_defs logged_def rbind_Inr_iff
      split: if_splits option.splits)
  obtain r0 where r0: "excimer_timer_list_dequeue me (mem c) = Inr (d, r0)" "r = r0\<lparr>os_calls := x\<rparr>"
    using r unfolding list_calls_irrelevant by (cases "excimer_timer_list_dequeue me (mem c)") auto
  note k = list_calls_kept(2) [OF r0(1)]
  let ?c1 = "c\<lparr>php_pc := P_dequeue, mutex_holder := Some Php_thread\<rparr>"
  have s1: "hook_step me c ?c1" using pc by (rule hook_step.lock)
  note into = rtranclp.rtrancl_into_rtrancl [of "hook_step me"]
  show ?thesis
  proof (cases d)
    case None
    let ?c2 = "?c1\<lparr>php_pc := P_unlock None, mem := r0\<rparr>"
    let ?c3 = "?c2\<lparr>php_pc := P_run, mutex_holder := None, hook_depth := hook_depth ?c2 - 1\<rparr>"
    have s2: "hook_step me ?c1 ?c2" using r0(1) None by (intro hook_step.dequeue_none) simp_all
    have s3: "hook_step me ?c2 ?c3" by (intro hook_step.finish) simp
    have "?c3 = after_dequeue ret (c\<lparr>mem := m\<lparr>os_calls := os_calls (mem c)\<rparr>\<rparr>)"
      using pc k r2 None unfolding m by (intro threads.equality tstate.equality) (auto simp: after_dequeue_def r0(2))
    then show ?thesis using r_into_rtranclp [of "hook_step me", OF s1, THEN into, OF s2, THEN into, OF s3] by simp
  next
    case (Some t)
    let ?n = "timer_event_count (timers r0 t)"
    let ?c2 = "?c1\<lparr>php_pc := P_take t, mem := r0\<rparr>"
    let ?c3 = "?c2\<lparr>php_pc := P_unlock (Some (t, ?n)), mem := upd_timer t (timer_event_count_update (\<lambda>_. 0)) r0\<rparr>"
    let ?c4 = "?c3\<lparr>php_pc := P_run, mutex_holder := None, delivered := (delivered c)(t := delivered c t + ?n)\<rparr>"
    have s2: "hook_step me ?c1 ?c2" using r0(1) Some by (intro hook_step.dequeue_some) simp_all
    have s3: "hook_step me ?c2 ?c3" using hook_step.take [of ?c2 t me] by simp
    have s4: "hook_step me ?c3 ?c4" using hook_step.call [of ?c3 t ?n me] by simp
    have "?c4 = after_dequeue ret (c\<lparr>mem := m\<lparr>os_calls := os_calls (mem c)\<rparr>\<rparr>)"
      using pc k r2 Some unfolding m by (intro threads.equality tstate.equality) (auto simp: after_dequeue_def r0(2))
    then show ?thesis
      using r_into_rtranclp [of "hook_step me", OF s1, THEN into, OF s2, THEN into, OF s3, THEN into, OF s4] by simp
  qed
qed

text \<open>What the functions ask of the library: to lock the mutex of the thread and, at the end, to unlock it.\<close>

definition locks_once :: "thread \<Rightarrow> 'tl tstate \<Rightarrow> 'tl tstate \<Rightarrow> bool" where
  "locks_once me m m' \<longleftrightarrow> (\<exists>a b. os_calls m' = os_calls m @ [(Mutex_lock (Tls_Mutex me), a), (Mutex_unlock (Tls_Mutex me), b)])"

lemma handle_locks:
  assumes "excimer_timer_handle me t ov m = Inr ((), m')"
  shows "locks_once me m m'"
proof -
  obtain r where r: "excimer_timer_list_enqueue me t (upd_timer t (timer_event_count_update (\<lambda>n. n + scast (ov + 1)))
      (logged (Mutex_lock (Tls_Mutex me)) m)) = Inr r"
    and m': "os_calls m' = os_calls (logged (Mutex_unlock (Tls_Mutex me)) r)"
    using assms by (simp add: excimer_timer_handle_def prog_defs state_defs rbind_Inr_iff split: if_splits) auto
  have "os_calls r = os_calls (logged (Mutex_lock (Tls_Mutex me)) m)" using list_calls_kept(1) [OF r] by simp
  then show ?thesis using m' by (simp add: locks_once_def logged_def)
qed

lemma dequeue_locks:
  assumes "excimer_timer_pending_dequeue me m = Inr (ret, m')"
  shows "locks_once me m m'"
proof -
  obtain d r where r: "excimer_timer_list_dequeue me (logged (Mutex_lock (Tls_Mutex me)) m) = Inr (d, r)"
    and m': "os_calls m' = os_calls (logged (Mutex_unlock (Tls_Mutex me)) r)"
    using assms by (auto simp: excimer_timer_pending_dequeue_def prog_defs state_defs logged_def next_answer_def rbind_Inr_iff
      split: if_splits option.splits)
  have "os_calls r = os_calls (logged (Mutex_lock (Tls_Mutex me)) m)" using list_calls_kept(2) [OF r] by simp
  then show ?thesis using m' by (simp add: locks_once_def logged_def)
qed

text \<open>C39 (refinement): the step relation and the functions of the timer layer are the same program, mutex included. When the mutex
  is free, a run of \<^verbatim>\<open>excimer_timer_handle\<close> that returns asks the library for exactly one lock of the mutex of the thread
  and then one unlock, and its effect on the memory is that of a handler thread that goes through its steps without
  being interrupted; in the same way \<^verbatim>\<open>excimer_timer_pending_dequeue\<close> locks and unlocks once and has the effect of the steps of the
  interrupt hook, with the events it returned on their way to the callback. The steps themselves keep no record of
  library calls.\<close>

theorem functions_are_uninterrupted_runs:
  assumes "mutex_holder c = None"
  shows "(excimer_timer_handle me t ov (mem c) = Inr ((), m) \<and> handler c t = H_lock ov \<longrightarrow> locks_once me (mem c) m \<and>
      (handle_step me t)\<^sup>*\<^sup>* c (pc_handler t H_idle (c\<lparr>posted := (posted c)(t := posted c t + scast (ov + 1)),
        mem := m\<lparr>os_calls := os_calls (mem c)\<rparr>\<rparr>))) \<and>
    (excimer_timer_pending_dequeue me (mem c) = Inr (ret, m) \<and> php_pc c = P_lock \<longrightarrow> locks_once me (mem c) m \<and>
      (hook_step me)\<^sup>*\<^sup>* c (after_dequeue ret (c\<lparr>mem := m\<lparr>os_calls := os_calls (mem c)\<rparr>\<rparr>)))"
  using handle_uninterrupted [OF _ _ assms] dequeue_uninterrupted [OF _ _ assms] handle_locks dequeue_locks by blast

theorem functions_are_uninterrupted_runs_witness:
  "\<exists>c' m. (handle_step 0 1)\<^sup>*\<^sup>* (demo_threads\<lparr>handler := (\<lambda>_. H_idle)(1 := H_lock 2)\<rparr>) c' \<and> handler c' 1 = H_idle \<and>
    posted c' 1 = 3 \<and> hd_ptr (mem c') 0 = Some 1 \<and> excimer_timer_handle 0 1 2 (mem demo_threads) = Inr ((), m) \<and>
    locks_once 0 (mem demo_threads) m"
proof -
  let ?c = "demo_threads\<lparr>handler := (\<lambda>_. H_idle)(1 := H_lock 2)\<rparr>"
  have c: "mutex_holder ?c = None" by (simp add: demo_threads_def)
  obtain m where m: "excimer_timer_handle 0 1 2 (mem ?c) = Inr ((), m)" "hd_ptr m 0 = Some 1"
    by (simp add: excimer_timer_handle_def demo_threads_def demo_none_pending_def demo_pending_def idle_timer_def prog_defs
      state_defs next_answer_def excimer_timer_list_enqueue_def set_next_def set_prev_def set_head_def)
  have "locks_once 0 (mem ?c) m \<and> (handle_step 0 1)\<^sup>*\<^sup>* ?c (pc_handler 1 H_idle (?c\<lparr>posted := (posted ?c)(1 := posted ?c 1 + scast (2 + 1 :: c_int)),
      mem := m\<lparr>os_calls := os_calls (mem ?c)\<rparr>\<rparr>))"
    using conjunct1 [OF functions_are_uninterrupted_runs [where t = 1 and ov = 2 and me = 0 and m = m, OF c]] m(1) by simp
  with m show ?thesis by (intro exI conjI) (auto simp: demo_threads_def)
qed

end
