(* ===== verification/Log_Memory.thy ===== *)
theory Log_Memory
  imports Excimer_Log Os_World
begin

text \<open>
  The strings a log refers to (\<^verbatim>\<open>excimer_log.c\<close>). The frames of \<open>Excimer_Log\<close> have the contents of their strings;
  here the log has the pointers too, the strings live in a heap with reference counts, and
  \<^verbatim>\<open>excimer_log_find_or_add_frame\<close> and \<^verbatim>\<open>excimer_log_destroy\<close> take and drop references.
\<close>

section \<open>Strings of the engine\<close>

type_synonym str_ptr = nat

text \<open>Interned strings are not counted.\<close>

record zend_string =
  zs_val :: string
  zs_refs :: nat
  zs_interned :: bool

record string_heap =
  strings :: "str_ptr \<Rightarrow> zend_string option"
  next_string :: str_ptr

definition get_string :: "str_ptr \<Rightarrow> (string_heap, zend_string) prog" where
  "get_string x h = (case strings h x of None \<Rightarrow> Inl Use_After_Free | Some z \<Rightarrow> Inr (z, h))"

definition put_string :: "str_ptr \<Rightarrow> zend_string option \<Rightarrow> (string_heap, unit) prog" where
  "put_string x z h = Inr ((), h\<lparr>strings := (strings h)(x := z)\<rparr>)"

definition zend_string_init :: "string \<Rightarrow> (string_heap, str_ptr) prog" where
  "zend_string_init v h = Inr (next_string h,
     h\<lparr>strings := (strings h)(next_string h \<mapsto> \<lparr>zs_val = v, zs_refs = 1, zs_interned = False\<rparr>), next_string := Suc (next_string h)\<rparr>)"

definition zend_string_addref :: "str_ptr \<Rightarrow> (string_heap, unit) prog" where
  "zend_string_addref x = pbind (get_string x) (\<lambda>z.
     if zs_interned z then pret () else put_string x (Some (z\<lparr>zs_refs := Suc (zs_refs z)\<rparr>)))"

text \<open>Counts one reference less and frees nothing. A count of zero would wrap.\<close>

definition zend_string_delref :: "str_ptr \<Rightarrow> (string_heap, unit) prog" where
  "zend_string_delref x = pbind (get_string x) (\<lambda>z.
     if zs_interned z then pret ()
     else if zs_refs z = 0 then pfail Use_After_Free
     else put_string x (Some (z\<lparr>zs_refs := zs_refs z - 1\<rparr>)))"

definition zend_string_free :: "str_ptr \<Rightarrow> (string_heap, unit) prog" where
  "zend_string_free x = pbind (get_string x) (\<lambda>z. if zs_interned z then pret () else put_string x None)"

text \<open>What \<^verbatim>\<open>zend_hash_destroy\<close> does to a key: it counts one reference less and frees the string at zero.\<close>

definition zend_string_release :: "str_ptr \<Rightarrow> (string_heap, unit) prog" where
  "zend_string_release x = pbind (get_string x) (\<lambda>z.
     if zs_interned z then pret ()
     else if zs_refs z = 0 then pfail Use_After_Free
     else put_string x (if zs_refs z = 1 then None else Some (z\<lparr>zs_refs := zs_refs z - 1\<rparr>)))"

definition if_set :: "(str_ptr \<Rightarrow> (string_heap, unit) prog) \<Rightarrow> str_ptr option \<Rightarrow> (string_heap, unit) prog" where
  "if_set f z = (case z of None \<Rightarrow> pret () | Some x \<Rightarrow> f x)"

section \<open>The log with its pointers\<close>

text \<open>The names a user function points to.\<close>

record function_strings =
  fs_filename :: str_ptr
  fs_scope_name :: "str_ptr option"
  fs_function_name :: "str_ptr option"

type_synonym string_stack = "(zend_execute_data \<times> function_strings) list"

record frame_ptrs =
  p_filename :: "str_ptr option"
  p_class_name :: "str_ptr option"
  p_function_name :: "str_ptr option"

text \<open>\<open>m_ptrs\<close> are the pointers of the frames, \<open>m_keys\<close> the key strings the reverse hashtable owns.\<close>

record mem_log =
  m_log :: excimer_log
  m_ptrs :: "frame_ptrs list"
  m_keys :: "str_ptr list"

definition null_ptrs :: frame_ptrs where
  "null_ptrs = \<lparr>p_filename = None, p_class_name = None, p_function_name = None\<rparr>"

definition mem_log_init :: "excimer_log \<Rightarrow> mem_log" where
  "mem_log_init mem = \<lparr>m_log = excimer_log_init mem, m_ptrs = [null_ptrs], m_keys = []\<rparr>"

definition lift_res :: "'a res \<Rightarrow> ('s, 'a) prog" where
  "lift_res r s = rbind r (\<lambda>x. Inr (x, s))"

text \<open>The hashtable makes a key of its own from the name of the marker; the two strings of the frame are new.\<close>

definition mem_get_truncation_marker :: "mem_log \<Rightarrow> (string_heap, uint32_t \<times> mem_log) prog" where
  "mem_get_truncation_marker ml =
     (if zh_find (reverse_frames (m_log ml)) excimer_log_truncated_name \<noteq> None then
        pbind (lift_res (excimer_log_get_truncation_marker (m_log ml))) (\<lambda>(i, lg). pret (i, ml\<lparr>m_log := lg\<rparr>))
      else
        pbind (zend_string_init excimer_log_truncated_name) (\<lambda>k.
        pbind (zend_string_init excimer_log_fake_filename) (\<lambda>f.
        pbind (zend_string_init excimer_log_truncated_name) (\<lambda>n.
        pbind (lift_res (excimer_log_get_truncation_marker (m_log ml))) (\<lambda>(i, lg).
        pret (i, \<lparr>m_log = lg, m_ptrs = m_ptrs ml @ [\<lparr>p_filename = Some f, p_class_name = None, p_function_name = Some n\<rparr>],
          m_keys = m_keys ml @ [k]\<rparr>))))))"

text \<open>
  The frame takes its references first. When the frame exists they are dropped again and the key is freed;
  otherwise the hashtable takes a reference to the key and the function drops its own.
\<close>

definition mem_user_frame ::
  "mem_log \<Rightarrow> zend_function \<Rightarrow> function_strings \<Rightarrow> uint32_t \<Rightarrow> uint32_t \<Rightarrow> (string_heap, uint32_t \<times> mem_log) prog" where
  "mem_user_frame ml fn fs line prev =
     pbind (zend_string_addref (fs_filename fs)) (\<lambda>_.
     pbind (if_set zend_string_addref (fs_scope_name fs)) (\<lambda>_.
     pbind (if_set zend_string_addref (fs_function_name fs)) (\<lambda>_.
     pbind (zend_string_init (frame_key (op_filename fn) line prev)) (\<lambda>str_key.
     if zh_find (reverse_frames (m_log ml)) (frame_key (op_filename fn) line prev) \<noteq> None then
       pbind (zend_string_free str_key) (\<lambda>_.
       pbind (zend_string_delref (fs_filename fs)) (\<lambda>_.
       pbind (if_set zend_string_delref (fs_scope_name fs)) (\<lambda>_.
       pbind (if_set zend_string_delref (fs_function_name fs)) (\<lambda>_.
       pbind (lift_res (find_or_add_user_frame (m_log ml) fn line prev)) (\<lambda>(i, lg).
       pret (i, ml\<lparr>m_log := lg\<rparr>))))))
     else
       pbind (zend_string_addref str_key) (\<lambda>_.
       pbind (lift_res (find_or_add_user_frame (m_log ml) fn line prev)) (\<lambda>(i, lg).
       pbind (zend_string_delref str_key) (\<lambda>_.
       pret (i, \<lparr>m_log = lg, m_ptrs = m_ptrs ml @ [\<lparr>p_filename = Some (fs_filename fs), p_class_name = fs_scope_name fs,
         p_function_name = fs_function_name fs\<rparr>], m_keys = m_keys ml @ [str_key]\<rparr>))))))))"

fun mem_find_or_add_frame :: "mem_log \<Rightarrow> string_stack \<Rightarrow> zend_long \<Rightarrow> (string_heap, uint32_t \<times> mem_log) prog" where
  "mem_find_or_add_frame ml [] depth = pret (0, ml)"
| "mem_find_or_add_frame ml ((execute_data, fs) # prev) depth =
     pbind
       (if prev = [] then pret (0, ml)
        else if max_depth (m_log ml) \<noteq> 0 \<and> max_depth (m_log ml) \<le>s depth then mem_get_truncation_marker ml
        else mem_find_or_add_frame ml prev (depth + 1))
       (\<lambda>(prev_idx, ml').
          case func execute_data of
            None \<Rightarrow> pret (prev_idx, ml')
          | Some fn \<Rightarrow>
              if \<not> ZEND_USER_CODE (func_type fn) then pret (prev_idx, ml')
              else mem_user_frame ml' fn fs (opline_lineno execute_data) prev_idx)"

definition mem_log_add :: "mem_log \<Rightarrow> string_stack \<Rightarrow> zend_long \<Rightarrow> uint64_t \<Rightarrow> (string_heap, mem_log) prog" where
  "mem_log_add ml execute_data event_count ts =
     pbind (mem_find_or_add_frame ml execute_data 0) (\<lambda>(frame_idx, ml1).
       let log1 = m_log ml1 in
       pbind (lift_res (safe_erealloc (entries log1) (entries_size log1 + 1) sizeof_entry)) (\<lambda>es.
       pret (ml1\<lparr>m_log := log1\<lparr>
         entries := es @ [\<lparr>frame_index = frame_idx, entry_event_count = event_count, timestamp = ts\<rparr>],
         entries_size := entries_size log1 + 1,
         log_event_count := log_event_count log1 + event_count\<rparr>\<rparr>)))"

fun destroy_frames :: "frame_ptrs list \<Rightarrow> (string_heap, unit) prog" where
  "destroy_frames [] = pret ()"
| "destroy_frames (p # ps) =
     pbind (if_set zend_string_delref (p_filename p)) (\<lambda>_.
     pbind (if_set zend_string_delref (p_class_name p)) (\<lambda>_.
     pbind (if_set zend_string_delref (p_function_name p)) (\<lambda>_.
     destroy_frames ps)))"

fun destroy_keys :: "str_ptr list \<Rightarrow> (string_heap, unit) prog" where
  "destroy_keys [] = pret ()"
| "destroy_keys (k # ks) = pbind (zend_string_release k) (\<lambda>_. destroy_keys ks)"

definition excimer_log_destroy :: "mem_log \<Rightarrow> (string_heap, unit) prog" where
  "excimer_log_destroy ml = pbind (destroy_frames (m_ptrs ml)) (\<lambda>_. destroy_keys (m_keys ml))"

section \<open>The invariant\<close>

text \<open>The references a log has to the strings of its frames.\<close>

definition ptr_list :: "frame_ptrs \<Rightarrow> str_ptr list" where
  "ptr_list p = List.map_filter id [p_filename p, p_class_name p, p_function_name p]"

definition log_refs :: "mem_log \<Rightarrow> str_ptr list" where
  "log_refs ml = concat (map ptr_list (m_ptrs ml)) @ m_keys ml"

definition content :: "string_heap \<Rightarrow> str_ptr option \<Rightarrow> string option" where
  "content h z = (case z of None \<Rightarrow> None | Some x \<Rightarrow> map_option zs_val (strings h x))"

definition ptrs_match :: "string_heap \<Rightarrow> frame_ptrs \<Rightarrow> excimer_log_frame \<Rightarrow> bool" where
  "ptrs_match h p fr \<longleftrightarrow> filename fr = content h (p_filename p) \<and> class_name fr = content h (p_class_name p) \<and>
     function_name fr = content h (p_function_name p)"

text \<open>
  Reference counting is exact: a string that is not interned has one reference for each pointer of the log and
  \<open>F\<close> from the rest of the program and the functions that are running. A string that is gone is not
  referred to. The keys belong to the hashtable alone.
\<close>

definition string_ok :: "(str_ptr \<Rightarrow> nat) \<Rightarrow> str_ptr list \<Rightarrow> str_ptr \<Rightarrow> zend_string option \<Rightarrow> bool" where
  "string_ok F refs x st \<longleftrightarrow> (case st of
     None \<Rightarrow> F x = 0 \<and> x \<notin> set refs
   | Some z \<Rightarrow> zs_interned z \<or> zs_refs z = F x + count_list refs x)"

definition counts_ok :: "(str_ptr \<Rightarrow> nat) \<Rightarrow> str_ptr list \<Rightarrow> string_heap \<Rightarrow> bool" where
  "counts_ok F refs h \<longleftrightarrow> (\<forall>x \<ge> next_string h. strings h x = None) \<and> (\<forall>x. string_ok F refs x (strings h x))"

definition keys_ok :: "(str_ptr \<Rightarrow> nat) \<Rightarrow> mem_log \<Rightarrow> string_heap \<Rightarrow> bool" where
  "keys_ok F ml h \<longleftrightarrow> (\<forall>k \<in> set (m_keys ml). F k = 0 \<and> count_list (log_refs ml) k = 1 \<and> (\<exists>z. strings h k = Some z \<and> \<not> zs_interned z))"

definition mem_ok :: "(str_ptr \<Rightarrow> nat) \<Rightarrow> mem_log \<Rightarrow> string_heap \<Rightarrow> bool" where
  "mem_ok F ml h \<longleftrightarrow> counts_ok F (log_refs ml) h \<and> keys_ok F ml h \<and> list_all2 (ptrs_match h) (m_ptrs ml) (frames (m_log ml))"

section \<open>Steps on strings\<close>

definition with_ref :: "(str_ptr \<Rightarrow> nat) \<Rightarrow> str_ptr \<Rightarrow> str_ptr \<Rightarrow> nat" where
  "with_ref F x = F(x := Suc (F x))"

definition with_ref_opt :: "(str_ptr \<Rightarrow> nat) \<Rightarrow> str_ptr option \<Rightarrow> str_ptr \<Rightarrow> nat" where
  "with_ref_opt F z = (case z of None \<Rightarrow> F | Some x \<Rightarrow> with_ref F x)"

text \<open>Strings keep their contents, and whether they are interned, as long as they live.\<close>

definition extends :: "string_heap \<Rightarrow> string_heap \<Rightarrow> bool" where
  "extends h h' \<longleftrightarrow> next_string h \<le> next_string h' \<and>
     (\<forall>x z. strings h x = Some z \<longrightarrow> (\<exists>z'. strings h' x = Some z' \<and> zs_val z' = zs_val z \<and> zs_interned z' = zs_interned z))"

lemma extends_refl [simp]: "extends h h"
  by (simp add: extends_def)

lemma extends_trans [trans]: "extends h h' \<Longrightarrow> extends h' h'' \<Longrightarrow> extends h h''"
  unfolding extends_def by (intro conjI allI impI) (auto, metis)

lemma extends_content: "extends h h' \<Longrightarrow> content h z \<noteq> None \<Longrightarrow> content h' z = content h z"
  by (fastforce simp: extends_def content_def split: option.splits)

lemma extends_alive: "extends h h' \<Longrightarrow> strings h x \<noteq> None \<Longrightarrow> strings h' x \<noteq> None"
  by (auto simp: extends_def)

lemma counts_okD:
  assumes "counts_ok F refs h"
  shows "next_string h \<le> x \<Longrightarrow> strings h x = None" "strings h x = None \<Longrightarrow> F x = 0" "strings h x = None \<Longrightarrow> x \<notin> set refs"
    "strings h x = Some z \<Longrightarrow> \<not> zs_interned z \<Longrightarrow> zs_refs z = F x + count_list refs x" "string_ok F refs x (strings h x)"
proof -
  show ok: "string_ok F refs x (strings h x)" using assms by (simp add: counts_ok_def)
  show "next_string h \<le> x \<Longrightarrow> strings h x = None" using assms by (simp add: counts_ok_def)
qed (use assms in \<open>auto simp: counts_ok_def string_ok_def dest: spec [of _ x]\<close>)

lemma string_ok_cong: "F' x = F x \<Longrightarrow> count_list refs' x = count_list refs x \<Longrightarrow> string_ok F' refs' x st = string_ok F refs x st"
  by (simp add: string_ok_def count_list_0_iff [symmetric] split: option.split)

text \<open>Changing one string.\<close>

lemma counts_ok_upd:
  assumes ok: "counts_ok F refs h" and x: "x < next_string h'" "string_ok F' refs' x st" and n: "next_string h \<le> next_string h'"
    and h': "strings h' = (strings h)(x := st)" and same: "\<And>y. y \<noteq> x \<Longrightarrow> F' y = F y \<and> count_list refs' y = count_list refs y"
  shows "counts_ok F' refs' h'"
proof -
  have "string_ok F' refs' y (strings h' y)" for y
    using x(2) counts_okD(5) [OF ok, of y] string_ok_cong [of F' y F refs' refs] same [of y] by (cases "y = x") (auto simp: h')
  moreover have "strings h' y = None" if "next_string h' \<le> y" for y
    using that x(1) n counts_okD(1) [OF ok, of y] by (auto simp: h')
  ultimately show ?thesis by (simp add: counts_ok_def)
qed

lemma alive_below: "counts_ok F refs h \<Longrightarrow> strings h x = Some z \<Longrightarrow> x < next_string h"
  using counts_okD(1) [of F refs h x] by (metis not_le option.distinct(1))

lemma counts_ok_put:
  assumes ok: "counts_ok F refs h" and x: "strings h x = Some z"
    and z': "zs_interned z' \<or> zs_refs z' = F' x + count_list refs x" and F: "\<And>y. y \<noteq> x \<Longrightarrow> F' y = F y"
  shows "counts_ok F' refs (h\<lparr>strings := (strings h)(x \<mapsto> z')\<rparr>)"
  by (rule counts_ok_upd [OF ok, where x = x and st = "Some z'"]) (use alive_below [OF ok x] z' F in \<open>auto simp: string_ok_def\<close>)

lemma addref_step:
  assumes ok: "counts_ok F refs h" and x: "strings h x \<noteq> None"
  obtains h' where "zend_string_addref x h = Inr ((), h')" "counts_ok (with_ref F x) refs h'" "extends h h'"
proof -
  obtain z where z: "strings h x = Some z" using x by blast
  show thesis
  proof (cases "zs_interned z")
    case True
    have "counts_ok (with_ref F x) refs (h\<lparr>strings := (strings h)(x \<mapsto> z)\<rparr>)"
      by (rule counts_ok_put [OF ok z]) (use True in \<open>simp_all add: with_ref_def\<close>)
    then show thesis using that [of h] z True by (simp add: zend_string_addref_def pbind_def get_string_def fun_upd_idem)
  next
    case False
    let ?h = "h\<lparr>strings := (strings h)(x \<mapsto> z\<lparr>zs_refs := Suc (zs_refs z)\<rparr>)\<rparr>"
    have "counts_ok (with_ref F x) refs ?h"
      by (rule counts_ok_put [OF ok z]) (use counts_okD(4) [OF ok z False] in \<open>simp_all add: with_ref_def\<close>)
    then show thesis using that [of ?h] z False
      by (simp add: zend_string_addref_def pbind_def get_string_def put_string_def extends_def)
  qed
qed

lemma delref_step:
  assumes ok: "counts_ok (with_ref F x) refs h"
  obtains h' where "zend_string_delref x h = Inr ((), h')" "counts_ok F refs h'" "extends h h'" "extends h' h"
proof -
  obtain z where z: "strings h x = Some z" using counts_okD(2) [OF ok, of x] by (cases "strings h x") (auto simp: with_ref_def)
  show thesis
  proof (cases "zs_interned z")
    case True
    have "counts_ok F refs (h\<lparr>strings := (strings h)(x \<mapsto> z)\<rparr>)"
      by (rule counts_ok_put [OF ok z]) (use True in \<open>simp_all add: with_ref_def\<close>)
    then show thesis using that [of h] z True by (simp add: zend_string_delref_def pbind_def get_string_def fun_upd_idem)
  next
    case False
    let ?h = "h\<lparr>strings := (strings h)(x \<mapsto> z\<lparr>zs_refs := zs_refs z - 1\<rparr>)\<rparr>"
    have c: "zs_refs z = Suc (F x + count_list refs x)" using counts_okD(4) [OF ok z False] by (simp add: with_ref_def)
    have "counts_ok F refs ?h" by (rule counts_ok_put [OF ok z]) (use c in \<open>simp_all add: with_ref_def\<close>)
    then show thesis using that [of ?h] z False c
      by (simp add: zend_string_delref_def pbind_def get_string_def put_string_def extends_def)
  qed
qed

lemma init_step:
  assumes ok: "counts_ok F refs h"
  obtains h' k where "zend_string_init v h = Inr (k, h')" "counts_ok (with_ref F k) refs h'" "extends h h'" "k = next_string h"
    "strings h k = None" "strings h' k = Some \<lparr>zs_val = v, zs_refs = 1, zs_interned = False\<rparr>" "strings h' = (strings h)(k := strings h' k)"
proof -
  let ?k = "next_string h"
  let ?h = "h\<lparr>strings := (strings h)(?k \<mapsto> \<lparr>zs_val = v, zs_refs = 1, zs_interned = False\<rparr>), next_string := Suc ?k\<rparr>"
  have n: "strings h ?k = None" using counts_okD(1) [OF ok] by simp
  have "counts_ok (with_ref F ?k) refs ?h"
    by (rule counts_ok_upd [OF ok, where x = ?k]) (use counts_okD(2,3) [OF ok n] in \<open>auto simp: string_ok_def with_ref_def\<close>)
  then show thesis using that [of ?k ?h] n by (auto simp: zend_string_init_def extends_def)
qed

lemma free_step:
  assumes ok: "counts_ok (with_ref F k) refs h" and k: "strings h k = Some z" "\<not> zs_interned z" "F k = 0" "k \<notin> set refs"
  obtains h' where "zend_string_free k h = Inr ((), h')" "counts_ok F refs h'" "h' = h\<lparr>strings := (strings h)(k := None)\<rparr>"
proof -
  let ?h = "h\<lparr>strings := (strings h)(k := None)\<rparr>"
  have "counts_ok F refs ?h"
    by (rule counts_ok_upd [OF ok, where x = k and st = None]) (use alive_below [OF ok k(1)] k in \<open>auto simp: string_ok_def with_ref_def\<close>)
  then show thesis using that [of ?h] k by (simp add: zend_string_free_def pbind_def get_string_def put_string_def)
qed

lemma if_set_addref_step:
  assumes ok: "counts_ok F refs h" and x: "\<And>x. z = Some x \<Longrightarrow> strings h x \<noteq> None"
  obtains h' where "if_set zend_string_addref z h = Inr ((), h')" "counts_ok (with_ref_opt F z) refs h'" "extends h h'"
proof (cases z)
  case None
  then show thesis using that [of h] ok by (simp add: if_set_def with_ref_opt_def)
next
  case (Some x)
  then show thesis using addref_step [OF ok x [OF Some]] that by (auto simp: if_set_def with_ref_opt_def)
qed

lemma if_set_delref_step:
  assumes ok: "counts_ok (with_ref_opt F z) refs h"
  obtains h' where "if_set zend_string_delref z h = Inr ((), h')" "counts_ok F refs h'" "extends h h'" "extends h' h"
proof (cases z)
  case None
  then show thesis using that [of h] ok by (simp add: if_set_def with_ref_opt_def)
next
  case (Some x)
  then show thesis using delref_step [of F x refs h] ok that by (auto simp: if_set_def with_ref_opt_def)
qed

section \<open>Recording keeps the invariant\<close>

lemma counts_ok_move:
  assumes "counts_ok F refs h" "\<And>y. F' y + count_list refs' y = F y + count_list refs y"
  shows "counts_ok F' refs' h"
proof -
  have "string_ok F' refs' y (strings h y)" for y
    using counts_okD(5) [OF assms(1), of y] assms(2) [of y] by (auto simp: string_ok_def count_list_0_iff split: option.splits)
  then show ?thesis using counts_okD(1) [OF assms(1)] by (simp add: counts_ok_def)
qed

lemma count_ptr_list:
  "count_list (ptr_list p) y = (if p_filename p = Some y then 1 else 0) + (if p_class_name p = Some y then 1 else 0) +
     (if p_function_name p = Some y then 1 else 0)"
  by (cases "p_filename p"; cases "p_class_name p"; cases "p_function_name p"; simp add: ptr_list_def map_filter_def)

lemma with_ref_apply: "with_ref F x y = F y + (if y = x then 1 else 0)" "with_ref_opt F z y = F y + (if z = Some y then 1 else 0)"
  by (simp_all add: with_ref_def with_ref_opt_def split: option.split)

text \<open>The strings of a function are held by the program, and have the names of the function.\<close>

definition held_string :: "(str_ptr \<Rightarrow> nat) \<Rightarrow> string_heap \<Rightarrow> str_ptr \<Rightarrow> bool" where
  "held_string F h x \<longleftrightarrow> (\<exists>z. strings h x = Some z \<and> (zs_interned z \<or> 0 < F x))"

definition function_ok :: "(str_ptr \<Rightarrow> nat) \<Rightarrow> string_heap \<Rightarrow> zend_function \<Rightarrow> function_strings \<Rightarrow> bool" where
  "function_ok F h fn fs \<longleftrightarrow> held_string F h (fs_filename fs) \<and> content h (Some (fs_filename fs)) = Some (op_filename fn) \<and>
     (\<forall>x. fs_scope_name fs = Some x \<longrightarrow> held_string F h x) \<and> content h (fs_scope_name fs) = scope_name fn \<and>
     (\<forall>x. fs_function_name fs = Some x \<longrightarrow> held_string F h x) \<and> content h (fs_function_name fs) = func_name fn"

definition stack_ok :: "(str_ptr \<Rightarrow> nat) \<Rightarrow> string_heap \<Rightarrow> string_stack \<Rightarrow> bool" where
  "stack_ok F h stk \<longleftrightarrow> (\<forall>(ed, fs) \<in> set stk. \<forall>fn. func ed = Some fn \<longrightarrow> ZEND_USER_CODE (func_type fn) \<longrightarrow> function_ok F h fn fs)"

lemma held_string_extends: "held_string F h x \<Longrightarrow> extends h h' \<Longrightarrow> held_string F h' x"
  by (fastforce simp: held_string_def extends_def)

lemma held_content: "(\<And>x. z = Some x \<Longrightarrow> held_string F h x) \<Longrightarrow> extends h h' \<Longrightarrow> content h' z = content h z"
  by (cases z) (fastforce simp: content_def held_string_def extends_def)+

lemma function_ok_extends: "function_ok F h fn fs \<Longrightarrow> extends h h' \<Longrightarrow> function_ok F h' fn fs"
  unfolding function_ok_def
  using held_string_extends [of F h _ h'] held_content [of "Some (fs_filename fs)" F h h'] held_content [of "fs_scope_name fs" F h h']
    held_content [of "fs_function_name fs" F h h'] by auto

lemma stack_ok_extends: "stack_ok F h stk \<Longrightarrow> extends h h' \<Longrightarrow> stack_ok F h' stk"
  using function_ok_extends by (fastforce simp: stack_ok_def)

text \<open>A heap that keeps the strings of the log keeps the pointers of the log.\<close>

definition same_string :: "string_heap \<Rightarrow> string_heap \<Rightarrow> str_ptr \<Rightarrow> bool" where
  "same_string h h' x \<longleftrightarrow> (\<forall>z. strings h x = Some z \<longrightarrow> (\<exists>z'. strings h' x = Some z' \<and> zs_val z' = zs_val z \<and> zs_interned z' = zs_interned z))"

lemma extends_same: "extends h h' \<Longrightarrow> same_string h h' x"
  by (simp add: extends_def same_string_def)

lemma match_keeps:
  assumes "\<And>x. x \<in> set (ptr_list p) \<Longrightarrow> strings h x \<noteq> None \<and> same_string h h' x" "ptrs_match h p fr"
  shows "ptrs_match h' p fr"
proof -
  have "content h' z = content h z" if "\<And>x. z = Some x \<Longrightarrow> x \<in> set (ptr_list p)" for z
    using assms(1) [OF that] by (cases z) (fastforce simp: content_def same_string_def)+
  then show ?thesis using assms(2) unfolding ptrs_match_def
    by (auto simp: ptr_list_def map_filter_def split: if_splits option.splits)
qed

lemma matches_keep:
  assumes "counts_ok F refs h" "set (concat (map ptr_list ps)) \<subseteq> set refs" "\<And>x. x \<in> set refs \<Longrightarrow> same_string h h' x"
    "list_all2 (ptrs_match h) ps fs"
  shows "list_all2 (ptrs_match h') ps fs"
proof (rule list.rel_mono_strong [OF assms(4)])
  fix p fr assume p: "p \<in> set ps" "ptrs_match h p fr"
  then have "set (ptr_list p) \<subseteq> set refs" using assms(2) by auto
  then have "strings h x \<noteq> None \<and> same_string h h' x" if "x \<in> set (ptr_list p)" for x
    using that assms(3) counts_okD(3) [OF assms(1)] by blast
  then show "ptrs_match h' p fr" by (rule match_keeps [OF _ p(2)])
qed

lemma mem_ok_keeps:
  assumes ok: "mem_ok F ml h" and c: "counts_ok F' (log_refs ml) h'" and e: "\<And>x. x \<in> set (log_refs ml) \<Longrightarrow> same_string h h' x"
    and F': "\<And>k. k \<in> set (m_keys ml) \<Longrightarrow> F' k = 0"
  shows "mem_ok F' ml h'"
proof -
  have "counts_ok F (log_refs ml) h" using ok by (simp add: mem_ok_def)
  then have "list_all2 (ptrs_match h') (m_ptrs ml) (frames (m_log ml))"
    by (rule matches_keep [OF _ _ e]) (use ok in \<open>auto simp: mem_ok_def log_refs_def\<close>)
  moreover have "same_string h h' k" if "k \<in> set (m_keys ml)" for k using e [of k] that by (simp add: log_refs_def)
  then have "keys_ok F' ml h'" using ok F' by (fastforce simp: mem_ok_def keys_ok_def same_string_def)
  ultimately show ?thesis using c by (simp add: mem_ok_def)
qed

lemma mem_ok_extends:
  assumes "mem_ok F ml h" "counts_ok F (log_refs ml) h'" "extends h h'"
  shows "mem_ok F ml h'"
  by (rule mem_ok_keeps [OF assms(1,2) extends_same [OF assms(3)]]) (use assms(1) in \<open>simp add: mem_ok_def keys_ok_def\<close>)

text \<open>What the functions on values do to the frames.\<close>

lemma user_frame_value:
  assumes "find_or_add_user_frame lg fn line prev = Inr (i, lg1)"
  shows "frames lg1 = frames lg @ (if zh_find (reverse_frames lg) (frame_key (op_filename fn) line prev) \<noteq> None then [] else [make_frame fn line prev])"
  using assms by (auto simp: find_or_add_user_frame_def log_push_frame_def safe_erealloc_def Let_def rbind_Inr_iff split: option.splits if_splits)

lemma marker_value:
  assumes "excimer_log_get_truncation_marker lg = Inr (i, lg1)"
  shows "frames lg1 = frames lg @ (if zh_find (reverse_frames lg) excimer_log_truncated_name \<noteq> None then [] else [truncation_frame])"
  using assms by (auto simp: excimer_log_get_truncation_marker_def log_push_frame_def safe_erealloc_def Let_def rbind_Inr_iff
    split: option.splits if_splits)

text \<open>A frame and its key added to the log: the references were held by the running function.\<close>

lemma mem_ok_push:
  assumes ok: "mem_ok F ml h" and c: "counts_ok (with_ref (with_ref_opt (with_ref_opt (with_ref_opt F (p_filename p)) (p_class_name p)) (p_function_name p)) k) (log_refs ml) h'"
    and e: "extends h h'" and k: "strings h k = None" "strings h' k = Some z" "\<not> zs_interned z" "k \<notin> set (ptr_list p)"
    and p: "\<And>x. x \<in> set (ptr_list p) \<Longrightarrow> x \<notin> set (m_keys ml)" and fr: "ptrs_match h' p fr" "frames lg = frames (m_log ml) @ [fr]"
  shows "mem_ok F \<lparr>m_log = lg, m_ptrs = m_ptrs ml @ [p], m_keys = m_keys ml @ [k]\<rparr> h'" (is "mem_ok F ?ml h'")
proof -
  have c0: "counts_ok F (log_refs ml) h" using ok by (simp add: mem_ok_def)
  have count: "count_list (log_refs ?ml) y = count_list (log_refs ml) y + count_list (ptr_list p) y + (if y = k then 1 else 0)" for y
    by (simp add: log_refs_def)
  have "counts_ok F (log_refs ?ml) h'"
    by (rule counts_ok_move [OF c]) (simp add: count count_ptr_list with_ref_apply)
  moreover have "keys_ok F ?ml h'"
    unfolding keys_ok_def
  proof
    fix x assume "x \<in> set (m_keys ?ml)"
    then consider "x = k" | "x \<in> set (m_keys ml)" "x \<noteq> k" by auto
    then show "F x = 0 \<and> count_list (log_refs ?ml) x = 1 \<and> (\<exists>z. strings h' x = Some z \<and> \<not> zs_interned z)"
    proof cases
      case 1
      then show ?thesis using counts_okD(2,3) [OF c0 k(1)] k(2-4) by (auto simp: count count_list_0_iff)
    next
      case 2
      then have "x \<notin> set (ptr_list p)" using p by blast
      then show ?thesis using 2 ok e by (fastforce simp: count mem_ok_def keys_ok_def extends_def count_list_0_iff)
    qed
  qed
  moreover have "list_all2 (ptrs_match h') (m_ptrs ml) (frames (m_log ml))"
    by (rule matches_keep [OF c0 _ extends_same [OF e]]) (use ok in \<open>auto simp: mem_ok_def log_refs_def\<close>)
  then have "list_all2 (ptrs_match h') (m_ptrs ?ml) (frames (m_log ?ml))" using fr by (simp add: list_all2_appendI)
  ultimately show ?thesis by (simp add: mem_ok_def)
qed

lemma with_ref_commute:
  "with_ref_opt (with_ref_opt (with_ref F a) b) c = with_ref (with_ref_opt (with_ref_opt F c) b) a" "with_ref_opt F (Some a) = with_ref F a"
  "with_ref_opt (with_ref_opt F c) b = with_ref_opt (with_ref_opt F b) c"
  by (auto simp: fun_eq_iff with_ref_apply)

text \<open>A name the program holds is not a key of the hashtable.\<close>

lemma held_not_key: "mem_ok F ml h \<Longrightarrow> held_string F h x \<Longrightarrow> x \<notin> set (m_keys ml)"
  by (auto simp: mem_ok_def keys_ok_def held_string_def)

text \<open>Taking the three references of a frame, and dropping them again.\<close>

type_synonym frame_cont = "unit \<Rightarrow> (string_heap, uint32_t \<times> mem_log) prog"

lemma take_refs:
  assumes ok: "counts_ok F refs h" and held: "held_string F h a" "\<And>x. b = Some x \<Longrightarrow> held_string F h x" "\<And>x. c = Some x \<Longrightarrow> held_string F h x"
  obtains h' where "\<forall>f :: frame_cont. pbind (zend_string_addref a) (\<lambda>_. pbind (if_set zend_string_addref b) (\<lambda>_.
      pbind (if_set zend_string_addref c) f)) h = f () h'"
    "counts_ok (with_ref_opt (with_ref_opt (with_ref F a) b) c) refs h'" "extends h h'"
proof -
  have alive: "strings h x \<noteq> None" if "held_string F h x" for x using that by (auto simp: held_string_def)
  obtain h1 where h1: "zend_string_addref a h = Inr ((), h1)" "counts_ok (with_ref F a) refs h1" "extends h h1"
    by (rule addref_step [OF ok alive [OF held(1)]])
  obtain h2 where h2: "if_set zend_string_addref b h1 = Inr ((), h2)" "counts_ok (with_ref_opt (with_ref F a) b) refs h2" "extends h1 h2"
    using extends_alive [OF h1(3) alive [OF held(2)]] by (auto intro: if_set_addref_step [OF h1(2), of b])
  have e2: "extends h h2" by (rule extends_trans [OF h1(3) h2(3)])
  obtain h3 where h3: "if_set zend_string_addref c h2 = Inr ((), h3)"
    "counts_ok (with_ref_opt (with_ref_opt (with_ref F a) b) c) refs h3" "extends h2 h3"
    using extends_alive [OF e2 alive [OF held(3)]] by (auto intro: if_set_addref_step [OF h2(2), of c])
  show thesis by (rule that [of h3]) (use h1(1) h2(1) h3(1,2) extends_trans [OF e2 h3(3)] in \<open>simp_all add: pbind_def\<close>)
qed

lemma drop_refs:
  assumes ok: "counts_ok (with_ref_opt (with_ref_opt (with_ref F a) b) c) refs h"
  obtains h' where "\<forall>f :: frame_cont. pbind (zend_string_delref a) (\<lambda>_. pbind (if_set zend_string_delref b) (\<lambda>_.
      pbind (if_set zend_string_delref c) f)) h = f () h'"
    "counts_ok F refs h'" "extends h h'"
proof -
  obtain h1 where h1: "zend_string_delref a h = Inr ((), h1)" "counts_ok (with_ref_opt (with_ref_opt F c) b) refs h1" "extends h h1"
    using ok unfolding with_ref_commute(1) by (rule delref_step)
  obtain h2 where h2: "if_set zend_string_delref b h1 = Inr ((), h2)" "counts_ok (with_ref_opt F c) refs h2" "extends h1 h2"
    by (rule if_set_delref_step [OF h1(2)])
  obtain h3 where h3: "if_set zend_string_delref c h2 = Inr ((), h3)" "counts_ok F refs h3" "extends h2 h3"
    by (rule if_set_delref_step [OF h2(2)])
  have "extends h h3" using h1(3) h2(3) h3(3) extends_trans by blast
  then show thesis by (intro that [of h3]) (use h1(1) h2(1) h3(1,2) in \<open>simp_all add: pbind_def\<close>)
qed

text \<open>The new frame, when its references are taken and its key is made.\<close>

lemma new_frame_run:
  assumes ok: "mem_ok F ml h" and fn: "function_ok F h fn fs" and e: "extends h h4" and k: "strings h k = None" "k \<noteq> fs_filename fs"
      "fs_scope_name fs \<noteq> Some k" "fs_function_name fs \<noteq> Some k" "strings h4 k = Some z" "\<not> zs_interned z"
    and c: "counts_ok (with_ref (with_ref_opt (with_ref_opt (with_ref F (fs_filename fs)) (fs_scope_name fs)) (fs_function_name fs)) k) (log_refs ml) h4"
    and fr: "frames lg = frames (m_log ml) @ [make_frame fn line prev]"
  obtains h' where "pbind (zend_string_addref k) (\<lambda>_. zend_string_delref k) h4 = Inr ((), h')" "extends h h'"
    "mem_ok F \<lparr>m_log = lg, m_ptrs = m_ptrs ml @ [\<lparr>p_filename = Some (fs_filename fs), p_class_name = fs_scope_name fs,
       p_function_name = fs_function_name fs\<rparr>], m_keys = m_keys ml @ [k]\<rparr> h'"
proof -
  let ?p = "\<lparr>p_filename = Some (fs_filename fs), p_class_name = fs_scope_name fs, p_function_name = fs_function_name fs\<rparr>"
  obtain h5 where h5: "zend_string_addref k h4 = Inr ((), h5)" "extends h4 h5"
    "counts_ok (with_ref (with_ref (with_ref_opt (with_ref_opt (with_ref F (fs_filename fs)) (fs_scope_name fs)) (fs_function_name fs)) k) k) (log_refs ml) h5"
    by (rule addref_step [OF c, of k]) (use k(5) in simp_all)
  obtain h6 where h6: "zend_string_delref k h5 = Inr ((), h6)" "extends h5 h6"
    "counts_ok (with_ref (with_ref_opt (with_ref_opt (with_ref F (fs_filename fs)) (fs_scope_name fs)) (fs_function_name fs)) k) (log_refs ml) h6"
    by (rule delref_step [OF h5(3)])
  have e46: "extends h4 h6" by (rule extends_trans [OF h5(2) h6(2)])
  have e6: "extends h h6" by (rule extends_trans [OF e e46])
  obtain z' where z': "strings h6 k = Some z'" "\<not> zs_interned z'" using e46 k(5,6) by (auto simp: extends_def)
  have ph: "held_string F h x" if "x \<in> set (ptr_list ?p)" for x
    using that fn by (auto simp: ptr_list_def map_filter_def function_ok_def split: if_splits)
  have "mem_ok F \<lparr>m_log = lg, m_ptrs = m_ptrs ml @ [?p], m_keys = m_keys ml @ [k]\<rparr> h6"
  proof (rule mem_ok_push [OF ok _ e6 k(1) z'])
    show "counts_ok (with_ref (with_ref_opt (with_ref_opt (with_ref_opt F (p_filename ?p)) (p_class_name ?p)) (p_function_name ?p)) k) (log_refs ml) h6"
      using h6(3) by (simp add: with_ref_commute(2))
    show "k \<notin> set (ptr_list ?p)" using k(2-4) by (auto simp: ptr_list_def map_filter_def split: if_splits)
    show "x \<notin> set (m_keys ml)" if "x \<in> set (ptr_list ?p)" for x using held_not_key [OF ok ph [OF that]] .
    show "ptrs_match h6 ?p (make_frame fn line prev)"
      using function_ok_extends [OF fn e6] by (simp add: ptrs_match_def make_frame_def function_ok_def)
  qed (rule fr)
  then show thesis by (intro that [of h6]) (use h5(1) h6(1) e6 in \<open>simp_all add: pbind_def\<close>)
qed

lemma user_frame_run:
  assumes ok: "mem_ok F ml h" and fn: "function_ok F h fn fs"
    and run: "find_or_add_user_frame (m_log ml) fn line prev = Inr (i, lg)"
  obtains ml' h' where "mem_user_frame ml fn fs line prev h = Inr ((i, ml'), h')" "m_log ml' = lg" "mem_ok F ml' h'" "extends h h'"
proof -
  let ?G = "with_ref_opt (with_ref_opt (with_ref F (fs_filename fs)) (fs_scope_name fs)) (fs_function_name fs)"
  let ?key = "frame_key (op_filename fn) line prev"
  have c0: "counts_ok F (log_refs ml) h" using ok by (simp add: mem_ok_def)
  obtain h3 where h3: "\<forall>f :: frame_cont. pbind (zend_string_addref (fs_filename fs)) (\<lambda>_. pbind (if_set zend_string_addref (fs_scope_name fs)) (\<lambda>_.
      pbind (if_set zend_string_addref (fs_function_name fs)) f)) h = f () h3" "counts_ok ?G (log_refs ml) h3" "extends h h3"
    by (rule take_refs [OF c0, of "fs_filename fs" "fs_scope_name fs" "fs_function_name fs"]) (use fn in \<open>auto simp: function_ok_def\<close>)
  obtain h4 k where h4: "zend_string_init ?key h3 = Inr (k, h4)" "counts_ok (with_ref ?G k) (log_refs ml) h4" "extends h3 h4"
    "k = next_string h3" "strings h3 k = None" "strings h4 k = Some \<lparr>zs_val = ?key, zs_refs = 1, zs_interned = False\<rparr>"
    "strings h4 = (strings h3)(k := strings h4 k)" by (rule init_step [OF h3(2)])
  have kG: "?G k = 0" "k \<notin> set (log_refs ml)" using counts_okD(2,3) [OF h3(2) h4(5)] by auto
  have start: "mem_user_frame ml fn fs line prev h = (if zh_find (reverse_frames (m_log ml)) ?key \<noteq> None then
      pbind (zend_string_free k) (\<lambda>_. pbind (zend_string_delref (fs_filename fs)) (\<lambda>_. pbind (if_set zend_string_delref (fs_scope_name fs)) (\<lambda>_.
        pbind (if_set zend_string_delref (fs_function_name fs)) (\<lambda>_. pret (i, ml\<lparr>m_log := lg\<rparr>))))) h4
    else pbind (pbind (zend_string_addref k) (\<lambda>_. zend_string_delref k)) (\<lambda>_. pret (i, \<lparr>m_log = lg, m_ptrs = m_ptrs ml @
      [\<lparr>p_filename = Some (fs_filename fs), p_class_name = fs_scope_name fs, p_function_name = fs_function_name fs\<rparr>],
      m_keys = m_keys ml @ [k]\<rparr>)) h4)"
    unfolding mem_user_frame_def h3(1) [rule_format] pbind_Inr [of "zend_string_init ?key", OF h4(1)]
    by (auto simp: pbind_def lift_res_def run rbind_def split: sum.split)
  show thesis
  proof (cases "zh_find (reverse_frames (m_log ml)) ?key \<noteq> None")
    case True
    obtain h5 where h5: "zend_string_free k h4 = Inr ((), h5)" "counts_ok ?G (log_refs ml) h5" "h5 = h4\<lparr>strings := (strings h4)(k := None)\<rparr>"
      by (rule free_step [OF h4(2,6) _ kG]) simp_all
    have "extends h3 h5" using h4(3,5) unfolding h5(3) by (fastforce simp: extends_def)
    then have e5: "extends h h5" by (rule extends_trans [OF h3(3)])
    obtain h8 where h8: "\<forall>f :: frame_cont. pbind (zend_string_delref (fs_filename fs)) (\<lambda>_. pbind (if_set zend_string_delref (fs_scope_name fs)) (\<lambda>_.
        pbind (if_set zend_string_delref (fs_function_name fs)) f)) h5 = f () h8" "counts_ok F (log_refs ml) h8" "extends h5 h8"
      by (rule drop_refs [OF h5(2)])
    have e8: "extends h h8" by (rule extends_trans [OF e5 h8(3)])
    have "frames lg = frames (m_log ml)" using user_frame_value [OF run] True by simp
    then have "mem_ok F (ml\<lparr>m_log := lg\<rparr>) h8" using mem_ok_extends [OF ok h8(2) e8] by (simp add: mem_ok_def keys_ok_def log_refs_def)
    then show thesis using that e8 True start unfolding pbind_Inr [of "zend_string_free k", OF h5(1)] h8(1) [rule_format] by simp
  next
    case False
    have k: "strings h k = None" using h4(4) counts_okD(1) [OF c0, of k] h3(3) by (simp add: extends_def)
    have fr: "frames lg = frames (m_log ml) @ [make_frame fn line prev]" using user_frame_value [OF run] False by simp
    obtain h' where h': "pbind (zend_string_addref k) (\<lambda>_. zend_string_delref k) h4 = Inr ((), h')" "extends h h'"
      "mem_ok F \<lparr>m_log = lg, m_ptrs = m_ptrs ml @ [\<lparr>p_filename = Some (fs_filename fs), p_class_name = fs_scope_name fs,
         p_function_name = fs_function_name fs\<rparr>], m_keys = m_keys ml @ [k]\<rparr> h'"
      by (rule new_frame_run [OF ok fn extends_trans [OF h3(3) h4(3)] k _ _ _ h4(6) _ h4(2) fr])
        (use k fn in \<open>auto simp: function_ok_def held_string_def\<close>)
    then show thesis using that False start unfolding pbind_Inr [of "pbind (zend_string_addref k) (\<lambda>_. zend_string_delref k)", OF h'(1)] by simp
  qed
qed

lemma marker_run:
  assumes ok: "mem_ok F ml h" and run: "excimer_log_get_truncation_marker (m_log ml) = Inr (i, lg)"
  obtains ml' h' where "mem_get_truncation_marker ml h = Inr ((i, ml'), h')" "m_log ml' = lg" "mem_ok F ml' h'" "extends h h'"
proof (cases "zh_find (reverse_frames (m_log ml)) excimer_log_truncated_name \<noteq> None")
  case True
  have "frames lg = frames (m_log ml)" using marker_value [OF run] True by simp
  then have "mem_ok F (ml\<lparr>m_log := lg\<rparr>) h" using ok by (simp add: mem_ok_def keys_ok_def log_refs_def)
  then show thesis using that True run by (simp add: mem_get_truncation_marker_def pbind_def lift_res_def)
next
  case False
  have c0: "counts_ok F (log_refs ml) h" using ok by (simp add: mem_ok_def)
  obtain h1 k where h1: "zend_string_init excimer_log_truncated_name h = Inr (k, h1)" "counts_ok (with_ref F k) (log_refs ml) h1" "extends h h1"
    "strings h k = None" "strings h1 k = Some \<lparr>zs_val = excimer_log_truncated_name, zs_refs = 1, zs_interned = False\<rparr>"
    by (rule init_step [OF c0])
  obtain h2 f where h2: "zend_string_init excimer_log_fake_filename h1 = Inr (f, h2)" "counts_ok (with_ref (with_ref F k) f) (log_refs ml) h2"
    "extends h1 h2" "strings h1 f = None" "strings h2 f = Some \<lparr>zs_val = excimer_log_fake_filename, zs_refs = 1, zs_interned = False\<rparr>"
    by (rule init_step [OF h1(2)])
  obtain h3 n where h3: "zend_string_init excimer_log_truncated_name h2 = Inr (n, h3)"
    "counts_ok (with_ref (with_ref (with_ref F k) f) n) (log_refs ml) h3"
    "extends h2 h3" "strings h2 n = None" "strings h3 n = Some \<lparr>zs_val = excimer_log_truncated_name, zs_refs = 1, zs_interned = False\<rparr>"
    by (rule init_step [OF h2(2)])
  let ?p = "\<lparr>p_filename = Some f, p_class_name = None, p_function_name = Some n\<rparr>"
  let ?ml = "\<lparr>m_log = lg, m_ptrs = m_ptrs ml @ [?p], m_keys = m_keys ml @ [k]\<rparr>"
  have e: "extends h1 h3" "extends h h3" using h1(3) h2(3) h3(3) extends_trans by blast+
  have new: "strings h f = None" "strings h n = None" using h1(3) h2(3,4) h3(4) extends_alive by blast+
  obtain z where z: "strings h3 k = Some z" "\<not> zs_interned z" using e(1) h1(5) by (force simp: extends_def)
  have "mem_ok F ?ml h3"
  proof (rule mem_ok_push [OF ok _ e(2) h1(4) z])
    show "counts_ok (with_ref (with_ref_opt (with_ref_opt (with_ref_opt F (p_filename ?p)) (p_class_name ?p)) (p_function_name ?p)) k) (log_refs ml) h3"
      by (rule counts_ok_move [OF h3(2)]) (simp add: with_ref_apply)
    show "k \<notin> set (ptr_list ?p)"
      using h1(5) h2(3,4) h3(4) extends_alive [OF h2(3), of k] by (auto simp: ptr_list_def map_filter_def)
    show "x \<notin> set (m_keys ml)" if "x \<in> set (ptr_list ?p)" for x
      using that new counts_okD(3) [OF c0] by (auto simp: ptr_list_def map_filter_def log_refs_def)
    show "ptrs_match h3 ?p truncation_frame"
    proof -
      have "content h3 (Some f) = Some excimer_log_fake_filename"
        using extends_content [OF h3(3), of "Some f"] h2(5) by (simp add: content_def)
      moreover have "content h3 (Some n) = Some excimer_log_truncated_name" using h3(5) by (simp add: content_def)
      moreover have "content h3 None = None" by (simp add: content_def)
      ultimately show ?thesis by (simp add: ptrs_match_def truncation_frame_def)
    qed
    show "frames lg = frames (m_log ml) @ [truncation_frame]" using marker_value [OF run] False by simp
  qed
  moreover have "mem_get_truncation_marker ml h = Inr ((i, ?ml), h3)"
    using False run h1(1) h2(1) h3(1) by (simp add: mem_get_truncation_marker_def pbind_def lift_res_def)
  ultimately show thesis using that e(2) by simp
qed

text \<open>Recording a stack: the log is the one the functions on values compute.\<close>

lemma find_or_add_run:
  assumes "mem_ok F ml h" "stack_ok F h stk" "excimer_log_find_or_add_frame (m_log ml) (map fst stk) depth = Inr (i, lg)"
  obtains ml' h' where "mem_find_or_add_frame ml stk depth h = Inr ((i, ml'), h')" "m_log ml' = lg" "mem_ok F ml' h'" "extends h h'"
  using assms
proof (induction stk arbitrary: ml h depth i lg thesis)
  case Nil
  then show ?case by simp
next
  case (Cons e stk)
  obtain ed fs where e: "e = (ed, fs)" by (cases e)
  let ?prev = "if stk = [] then pret (0, ml) else if max_depth (m_log ml) \<noteq> 0 \<and> max_depth (m_log ml) \<le>s depth
    then mem_get_truncation_marker ml else mem_find_or_add_frame ml stk (depth + 1)"
  obtain p lg1 where v: "(if stk = [] then Inr (0, m_log ml) else if max_depth (m_log ml) \<noteq> 0 \<and> max_depth (m_log ml) \<le>s depth
      then excimer_log_get_truncation_marker (m_log ml) else excimer_log_find_or_add_frame (m_log ml) (map fst stk) (depth + 1)) = Inr (p, lg1)"
    "(case func ed of None \<Rightarrow> Inr (p, lg1) | Some fn \<Rightarrow> if \<not> ZEND_USER_CODE (func_type fn) then Inr (p, lg1)
      else find_or_add_user_frame lg1 fn (opline_lineno ed) p) = Inr (i, lg)"
    using Cons.prems(4) by (auto simp: e elim!: rbind_Inr_D)
  have st: "stack_ok F h stk" using Cons.prems(3) by (simp add: stack_ok_def)
  obtain ml1 h1 where m1: "?prev h = Inr ((p, ml1), h1)" "m_log ml1 = lg1" "mem_ok F ml1 h1" "extends h h1"
  proof (cases "stk = []")
    case True
    then show thesis using that [of ml h] v(1) Cons.prems(2) by simp
  next
    case False
    then show thesis using v(1) that marker_run [OF Cons.prems(2), of p lg1] Cons.IH [OF _ Cons.prems(2) st, of "depth + 1" p lg1]
      by (auto split: if_splits)
  qed
  have run: "mem_find_or_add_frame ml (e # stk) depth h = (case func ed of None \<Rightarrow> Inr ((p, ml1), h1)
      | Some fn \<Rightarrow> if \<not> ZEND_USER_CODE (func_type fn) then Inr ((p, ml1), h1) else mem_user_frame ml1 fn fs (opline_lineno ed) p h1)"
    unfolding e mem_find_or_add_frame.simps pbind_Inr [of ?prev, OF m1(1)] by (simp split: option.split)
  show ?case
  proof (cases "\<exists>fn. func ed = Some fn \<and> ZEND_USER_CODE (func_type fn)")
    case False
    then have "mem_find_or_add_frame ml (e # stk) depth h = Inr ((p, ml1), h1) \<and> i = p \<and> lg = lg1"
      using run v(2) by (auto split: option.splits if_splits)
    then show ?thesis using Cons.prems(1) m1 by blast
  next
    case True
    then obtain fn where fn: "func ed = Some fn" "ZEND_USER_CODE (func_type fn)" by blast
    have "function_ok F h fn fs" using Cons.prems(3) fn by (auto simp: e stack_ok_def)
    then have "function_ok F h1 fn fs" using m1(4) by (rule function_ok_extends)
    moreover have "find_or_add_user_frame (m_log ml1) fn (opline_lineno ed) p = Inr (i, lg)" using v(2) fn m1(2) by simp
    ultimately obtain ml' h' where "mem_user_frame ml1 fn fs (opline_lineno ed) p h1 = Inr ((i, ml'), h')" "m_log ml' = lg" "mem_ok F ml' h'"
      "extends h1 h'" by (rule user_frame_run [OF m1(3)])
    then show ?thesis using Cons.prems(1) run fn extends_trans [OF m1(4)] by simp
  qed
qed

lemma prev_run:
  assumes ok: "mem_ok F ml h" "stack_ok F h stk"
    and v: "(if stk = [] then Inr (0, m_log ml) else if max_depth (m_log ml) \<noteq> 0 \<and> max_depth (m_log ml) \<le>s depth
      then excimer_log_get_truncation_marker (m_log ml) else excimer_log_find_or_add_frame (m_log ml) (map fst stk) (depth + 1)) = Inr (p, lg1)"
  obtains ml1 h1 where "(if stk = [] then pret (0, ml) else if max_depth (m_log ml) \<noteq> 0 \<and> max_depth (m_log ml) \<le>s depth
      then mem_get_truncation_marker ml else mem_find_or_add_frame ml stk (depth + 1)) h = Inr ((p, ml1), h1)"
    "m_log ml1 = lg1" "mem_ok F ml1 h1" "extends h h1"
proof (cases "stk = []")
  case True
  then show thesis using that [of ml h] v ok(1) by simp
next
  case False
  then show thesis using v that marker_run [OF ok(1), of p lg1] find_or_add_run [OF ok, of "depth + 1" p lg1] by (auto split: if_splits)
qed

lemma mem_ok_same_frames: "mem_ok F ml h \<Longrightarrow> frames lg = frames (m_log ml) \<Longrightarrow> mem_ok F (ml\<lparr>m_log := lg\<rparr>) h"
  by (simp add: mem_ok_def keys_ok_def log_refs_def)

lemma mem_log_add_run:
  assumes ok: "mem_ok F ml h" "stack_ok F h stk" and run: "excimer_log_add (m_log ml) (map fst stk) n t = Inr lg"
  obtains ml' h' where "mem_log_add ml stk n t h = Inr (ml', h')" "m_log ml' = lg" "mem_ok F ml' h'" "extends h h'"
proof -
  obtain i lg1 where v: "excimer_log_find_or_add_frame (m_log ml) (map fst stk) 0 = Inr (i, lg1)"
    "unat (entries_size lg1 + 1) * sizeof_entry < 2 ^ 64"
    "lg = lg1\<lparr>entries := entries lg1 @ [\<lparr>frame_index = i, entry_event_count = n, timestamp = t\<rparr>],
       entries_size := entries_size lg1 + 1, log_event_count := log_event_count lg1 + n\<rparr>"
    by (rule excimer_log_add_Inr [OF run])
  obtain ml1 h1 where m: "mem_find_or_add_frame ml stk 0 h = Inr ((i, ml1), h1)" "m_log ml1 = lg1" "mem_ok F ml1 h1" "extends h h1"
    by (rule find_or_add_run [OF ok v(1)])
  have "mem_log_add ml stk n t h = Inr (ml1\<lparr>m_log := lg\<rparr>, h1)"
    unfolding mem_log_add_def pbind_Inr [of "mem_find_or_add_frame ml stk 0", OF m(1)]
    using v(2) by (simp add: m(2) v(3) lift_res_def safe_erealloc_def Let_def pbind_def)
  moreover have "mem_ok F (ml1\<lparr>m_log := lg\<rparr>) h1" by (rule mem_ok_same_frames [OF m(3)]) (simp add: v(3) m(2))
  ultimately show thesis using that m(4) by simp
qed

text \<open>When a function on values fails, so does the function with pointers, in the same way.\<close>

lemma lift_res_Inl: "X = Inl e \<Longrightarrow> pbind (lift_res X) K h = Inl e"
  by (simp add: pbind_def lift_res_def)

lemma user_frame_fails:
  assumes ok: "mem_ok F ml h" and fn: "function_ok F h fn fs" and run: "find_or_add_user_frame (m_log ml) fn line prev = Inl e"
  shows "mem_user_frame ml fn fs line prev h = Inl e"
proof -
  let ?G = "with_ref_opt (with_ref_opt (with_ref F (fs_filename fs)) (fs_scope_name fs)) (fs_function_name fs)"
  let ?key = "frame_key (op_filename fn) line prev"
  have c0: "counts_ok F (log_refs ml) h" using ok by (simp add: mem_ok_def)
  obtain h3 where h3: "\<forall>f :: frame_cont. pbind (zend_string_addref (fs_filename fs)) (\<lambda>_. pbind (if_set zend_string_addref (fs_scope_name fs)) (\<lambda>_.
      pbind (if_set zend_string_addref (fs_function_name fs)) f)) h = f () h3" "counts_ok ?G (log_refs ml) h3"
    by (rule take_refs [OF c0, of "fs_filename fs" "fs_scope_name fs" "fs_function_name fs"]) (use fn in \<open>auto simp: function_ok_def\<close>)
  obtain h4 k where h4: "zend_string_init ?key h3 = Inr (k, h4)" "counts_ok (with_ref ?G k) (log_refs ml) h4"
    "strings h3 k = None" "strings h4 k = Some \<lparr>zs_val = ?key, zs_refs = 1, zs_interned = False\<rparr>" by (rule init_step [OF h3(2)])
  have kG: "?G k = 0" "k \<notin> set (log_refs ml)" using counts_okD(2,3) [OF h3(2) h4(3)] by auto
  show ?thesis
  proof (cases "zh_find (reverse_frames (m_log ml)) ?key \<noteq> None")
    case True
    obtain h5 where h5: "zend_string_free k h4 = Inr ((), h5)" "counts_ok ?G (log_refs ml) h5"
      by (rule free_step [OF h4(2,4) _ kG]) simp_all
    obtain h8 where h8: "\<forall>f :: frame_cont. pbind (zend_string_delref (fs_filename fs)) (\<lambda>_. pbind (if_set zend_string_delref (fs_scope_name fs)) (\<lambda>_.
        pbind (if_set zend_string_delref (fs_function_name fs)) f)) h5 = f () h8"
      by (rule drop_refs [OF h5(2)])
    show ?thesis
      unfolding mem_user_frame_def h3(1) [rule_format] pbind_Inr [of "zend_string_init ?key", OF h4(1)] if_P [OF True]
        pbind_Inr [of "zend_string_free k", OF h5(1)] h8 [rule_format] by (rule lift_res_Inl [OF run])
  next
    case False
    obtain h5 where h5: "zend_string_addref k h4 = Inr ((), h5)" by (rule addref_step [OF h4(2), of k]) (use h4(4) in simp_all)
    show ?thesis
      unfolding mem_user_frame_def h3(1) [rule_format] pbind_Inr [of "zend_string_init ?key", OF h4(1)] if_not_P [OF False]
        pbind_Inr [of "zend_string_addref k", OF h5] by (rule lift_res_Inl [OF run])
  qed
qed

lemma marker_fails:
  "excimer_log_get_truncation_marker (m_log ml) = Inl e \<Longrightarrow> mem_get_truncation_marker ml h = Inl e"
  by (simp add: mem_get_truncation_marker_def pbind_def lift_res_def zend_string_init_def)

lemma find_or_add_fails:
  assumes "mem_ok F ml h" "stack_ok F h stk" "excimer_log_find_or_add_frame (m_log ml) (map fst stk) depth = Inl e"
  shows "mem_find_or_add_frame ml stk depth h = Inl e"
  using assms
proof (induction stk arbitrary: ml h depth)
  case Nil
  then show ?case by simp
next
  case (Cons s stk)
  obtain ed fs where s: "s = (ed, fs)" by (cases s)
  let ?mprev = "if stk = [] then pret (0, ml) else if max_depth (m_log ml) \<noteq> 0 \<and> max_depth (m_log ml) \<le>s depth
    then mem_get_truncation_marker ml else mem_find_or_add_frame ml stk (depth + 1)"
  let ?vprev = "if stk = [] then Inr (0, m_log ml) else if max_depth (m_log ml) \<noteq> 0 \<and> max_depth (m_log ml) \<le>s depth
    then excimer_log_get_truncation_marker (m_log ml) else excimer_log_find_or_add_frame (m_log ml) (map fst stk) (depth + 1)"
  have st: "stack_ok F h stk" using Cons.prems(2) by (simp add: stack_ok_def)
  show ?case
  proof (cases ?vprev)
    case (Inl e')
    have "e' = e" using Cons.prems(3) Inl by (simp add: s)
    then have "?mprev h = Inl e" using Inl marker_fails [of ml e h] Cons.IH [OF Cons.prems(1) st, of "depth + 1"] by (auto split: if_splits)
    then show ?thesis unfolding s mem_find_or_add_frame.simps by (simp add: pbind_def)
  next
    case (Inr r)
    obtain p lg1 where r: "?vprev = Inr (p, lg1)" using Inr by (cases r) simp
    obtain ml1 h1 where m1: "?mprev h = Inr ((p, ml1), h1)" "m_log ml1 = lg1" "mem_ok F ml1 h1" "extends h h1"
      by (rule prev_run [OF Cons.prems(1) st r])
    obtain fn where fn: "func ed = Some fn" "ZEND_USER_CODE (func_type fn)" "find_or_add_user_frame lg1 fn (opline_lineno ed) p = Inl e"
      using Cons.prems(3) r by (auto simp: s split: option.splits if_splits)
    have "function_ok F h fn fs" using Cons.prems(2) fn by (auto simp: s stack_ok_def)
    then have "function_ok F h1 fn fs" using m1(4) by (rule function_ok_extends)
    then have "mem_user_frame ml1 fn fs (opline_lineno ed) p h1 = Inl e" using user_frame_fails [OF m1(3)] fn(3) m1(2) by simp
    then show ?thesis unfolding s mem_find_or_add_frame.simps pbind_Inr [of ?mprev, OF m1(1)] by (simp add: fn)
  qed
qed

lemma mem_log_add_fails:
  assumes ok: "mem_ok F ml h" "stack_ok F h stk" and run: "excimer_log_add (m_log ml) (map fst stk) n t = Inl e"
  shows "mem_log_add ml stk n t h = Inl e"
proof (cases "excimer_log_find_or_add_frame (m_log ml) (map fst stk) 0")
  case (Inl e')
  then show ?thesis using find_or_add_fails [OF ok Inl] run by (simp add: mem_log_add_def excimer_log_add_def pbind_def)
next
  case (Inr r)
  obtain i lg1 where r: "excimer_log_find_or_add_frame (m_log ml) (map fst stk) 0 = Inr (i, lg1)" using Inr by (cases r) simp
  obtain ml1 h1 where m: "mem_find_or_add_frame ml stk 0 h = Inr ((i, ml1), h1)" "m_log ml1 = lg1" by (rule find_or_add_run [OF ok r])
  have "safe_erealloc (entries lg1) (entries_size lg1 + 1) sizeof_entry = Inl e"
    using run r by (auto simp: excimer_log_add_def safe_erealloc_def split: if_splits)
  then show ?thesis unfolding mem_log_add_def pbind_Inr [of "mem_find_or_add_frame ml stk 0", OF m(1)]
    by (simp add: m(2) Let_def lift_res_Inl)
qed

section \<open>Destroying the log\<close>

lemma destroy_frames_run:
  assumes "counts_ok F (concat (map ptr_list ps) @ refs) h"
  obtains h' where "destroy_frames ps h = Inr ((), h')" "counts_ok F refs h'" "extends h h'" "extends h' h"
  using assms
proof (induction ps arbitrary: h thesis)
  case Nil
  then show ?case by simp
next
  case (Cons p ps)
  let ?rest = "concat (map ptr_list ps) @ refs"
  have "counts_ok (with_ref_opt (with_ref_opt (with_ref_opt F (p_function_name p)) (p_class_name p)) (p_filename p)) ?rest h"
    by (rule counts_ok_move [OF Cons.prems(2)]) (simp add: count_ptr_list with_ref_apply)
  then obtain h1 where h1: "if_set zend_string_delref (p_filename p) h = Inr ((), h1)"
    "counts_ok (with_ref_opt (with_ref_opt F (p_function_name p)) (p_class_name p)) ?rest h1" "extends h h1" "extends h1 h"
    by (rule if_set_delref_step)
  obtain h2 where h2: "if_set zend_string_delref (p_class_name p) h1 = Inr ((), h2)"
    "counts_ok (with_ref_opt F (p_function_name p)) ?rest h2" "extends h1 h2" "extends h2 h1"
    by (rule if_set_delref_step [OF h1(2)])
  obtain h3 where h3: "if_set zend_string_delref (p_function_name p) h2 = Inr ((), h3)" "counts_ok F ?rest h3" "extends h2 h3" "extends h3 h2"
    by (rule if_set_delref_step [OF h2(2)])
  obtain h' where h': "destroy_frames ps h3 = Inr ((), h')" "counts_ok F refs h'" "extends h3 h'" "extends h' h3"
    using Cons.IH [OF _ h3(2)] by blast
  have "extends h h'" "extends h' h"
    using h1(3,4) h2(3,4) h3(3,4) h'(3,4) extends_trans by blast+
  then show ?case by (intro Cons.prems(1) [of h']) (use h1(1) h2(1) h3(1) h'(1,2) in \<open>simp_all add: pbind_def\<close>)
qed

lemma destroy_keys_run:
  assumes "counts_ok F ks h" "distinct ks" "\<And>k. k \<in> set ks \<Longrightarrow> F k = 0 \<and> (\<exists>z. strings h k = Some z \<and> \<not> zs_interned z)"
  obtains h' where "destroy_keys ks h = Inr ((), h')" "counts_ok F [] h'" "strings h' = (\<lambda>x. if x \<in> set ks then None else strings h x)"
  using assms
proof (induction ks arbitrary: h thesis)
  case Nil
  then show ?case by simp
next
  case (Cons k ks)
  let ?h = "h\<lparr>strings := (strings h)(k := None)\<rparr>"
  obtain z where z: "strings h k = Some z" "\<not> zs_interned z" "F k = 0" using Cons.prems(4) [of k] by auto
  have "zs_refs z = 1" using counts_okD(4) [OF Cons.prems(2) z(1,2)] z(3) Cons.prems(3) by (simp add: count_list_0_iff)
  then have run: "zend_string_release k h = Inr ((), ?h)"
    using z by (simp add: zend_string_release_def pbind_def get_string_def put_string_def)
  have c: "counts_ok F ks ?h"
    by (rule counts_ok_upd [OF Cons.prems(2), where x = k and st = None])
      (use alive_below [OF Cons.prems(2) z(1)] z(3) Cons.prems(3) in \<open>auto simp: string_ok_def\<close>)
  have d: "distinct ks" using Cons.prems(3) by simp
  have keys: "F x = 0 \<and> (\<exists>z. strings ?h x = Some z \<and> \<not> zs_interned z)" if "x \<in> set ks" for x
    using Cons.prems(3) Cons.prems(4) [of x] that by auto
  obtain h' where h': "destroy_keys ks ?h = Inr ((), h')" "counts_ok F [] h'"
    "strings h' = (\<lambda>x. if x \<in> set ks then None else strings ?h x)"
    by (rule Cons.IH [OF _ c d keys])
  show ?case by (rule Cons.prems(1) [of h']) (use run h' in \<open>auto simp: pbind_def\<close>)
qed

lemma count_one_distinct: "(\<And>x. x \<in> set xs \<Longrightarrow> count_list xs x = 1) \<Longrightarrow> distinct xs"
proof (induction xs)
  case (Cons a xs)
  have "count_list xs a = 0" using Cons.prems [of a] by simp
  then have a: "a \<notin> set xs" by (simp add: count_list_0_iff)
  have "count_list xs x = 1" if "x \<in> set xs" for x using Cons.prems [of x] that a by (auto split: if_splits)
  then show ?case using Cons.IH a by simp
qed simp

lemma keys_distinct:
  assumes "keys_ok F ml h"
  shows "distinct (m_keys ml)" "k \<in> set (m_keys ml) \<Longrightarrow> k \<notin> set (concat (map ptr_list (m_ptrs ml)))"
proof -
  have one: "count_list (concat (map ptr_list (m_ptrs ml))) k = 0 \<and> count_list (m_keys ml) k = 1" if "k \<in> set (m_keys ml)" for k
  proof -
    have "count_list (concat (map ptr_list (m_ptrs ml))) k + count_list (m_keys ml) k = 1"
      using assms that by (simp add: keys_ok_def log_refs_def)
    moreover have "count_list (m_keys ml) k \<noteq> 0" using that by (simp add: count_list_0_iff)
    ultimately show ?thesis by linarith
  qed
  show "distinct (m_keys ml)" by (rule count_one_distinct) (simp add: one)
  show "k \<in> set (m_keys ml) \<Longrightarrow> k \<notin> set (concat (map ptr_list (m_ptrs ml)))"
    using one [of k] count_list_0_iff by metis
qed

text \<open>Destroying the log drops its references to names, and frees its keys.\<close>

lemma log_destroy_run:
  assumes "mem_ok F ml h"
  obtains h' where "excimer_log_destroy ml h = Inr ((), h')" "counts_ok F [] h'"
    "\<And>k. k \<in> set (m_keys ml) \<Longrightarrow> strings h' k = None"
    "\<And>x z. strings h x = Some z \<Longrightarrow> x \<notin> set (m_keys ml) \<Longrightarrow> \<exists>z'. strings h' x = Some z' \<and> zs_val z' = zs_val z \<and> zs_interned z' = zs_interned z"
proof -
  have c: "counts_ok F (concat (map ptr_list (m_ptrs ml)) @ m_keys ml) h" and k: "keys_ok F ml h"
    using assms by (simp_all add: mem_ok_def log_refs_def)
  obtain h1 where h1: "destroy_frames (m_ptrs ml) h = Inr ((), h1)" "counts_ok F (m_keys ml) h1" "extends h h1" "extends h1 h"
    by (rule destroy_frames_run [OF c])
  have alive: "F x = 0 \<and> (\<exists>z. strings h1 x = Some z \<and> \<not> zs_interned z)" if "x \<in> set (m_keys ml)" for x
    using k that h1(3) by (fastforce simp: keys_ok_def extends_def)
  obtain h2 where h2: "destroy_keys (m_keys ml) h1 = Inr ((), h2)" "counts_ok F [] h2"
    "strings h2 = (\<lambda>x. if x \<in> set (m_keys ml) then None else strings h1 x)"
    by (rule destroy_keys_run [OF h1(2) keys_distinct(1) [OF k] alive])
  show thesis
    by (rule that [of h2]) (use h1(1,3) h2 in \<open>simp_all add: excimer_log_destroy_def pbind_def extends_def\<close>)
qed

section \<open>The program around the log\<close>

lemma release_step:
  assumes ok: "counts_ok F refs h" and x: "0 < F x"
  obtains h' where "zend_string_release x h = Inr ((), h')" "counts_ok (F(x := F x - 1)) refs h'" "\<And>y. y \<in> set refs \<Longrightarrow> same_string h h' y"
proof -
  obtain z where z: "strings h x = Some z" using counts_okD(2) [OF ok, of x] x by (cases "strings h x") auto
  show thesis
  proof (cases "zs_interned z")
    case True
    have "counts_ok (F(x := F x - 1)) refs (h\<lparr>strings := (strings h)(x \<mapsto> z)\<rparr>)" by (rule counts_ok_put [OF ok z]) (use True in simp_all)
    then show thesis using that [of h] z True by (simp add: zend_string_release_def pbind_def get_string_def fun_upd_idem extends_same)
  next
    case False
    let ?st = "if zs_refs z = 1 then None else Some (z\<lparr>zs_refs := zs_refs z - 1\<rparr>)"
    let ?h = "h\<lparr>strings := (strings h)(x := ?st)\<rparr>"
    have c: "zs_refs z = F x + count_list refs x" by (rule counts_okD(4) [OF ok z False])
    have last: "F x = 1 \<and> x \<notin> set refs" if "zs_refs z = 1"
    proof -
      have "F x = 1 \<and> count_list refs x = 0" using c x that by linarith
      then show ?thesis using count_list_0_iff by metis
    qed
    have st: "string_ok (F(x := F x - 1)) refs x ?st"
    proof (cases "zs_refs z = 1")
      case True
      then show ?thesis using last [OF True] by (simp add: string_ok_def)
    next
      case False
      then show ?thesis using c x by (simp add: string_ok_def)
    qed
    have "counts_ok (F(x := F x - 1)) refs ?h"
      by (rule counts_ok_upd [OF ok _ st]) (use alive_below [OF ok z] in simp_all)
    moreover have "same_string h ?h y" if "y \<in> set refs" for y
      using that z last by (auto simp: same_string_def)
    ultimately show thesis using that [of ?h] z False c x
      by (simp add: zend_string_release_def pbind_def get_string_def put_string_def)
  qed
qed

text \<open>
  Runs of a program with one log. It starts from any strings with exact counts. The program records the stacks of
  functions whose names it holds, sets options, makes strings, takes references to strings it holds or
  gets from a frame (a trace array has the names of the frames), and drops its own.
\<close>

inductive mem_reachable :: "(str_ptr \<Rightarrow> nat) \<Rightarrow> mem_log \<Rightarrow> string_heap \<Rightarrow> bool" where
  init: "counts_ok F [] h \<Longrightarrow> mem_reachable F (mem_log_init mem) h"
| add: "mem_reachable F ml h \<Longrightarrow> stack_ok F h stk \<Longrightarrow> mem_log_add ml stk n t h = Inr (ml', h') \<Longrightarrow> mem_reachable F ml' h'"
| set_max_depth: "mem_reachable F ml h \<Longrightarrow> mem_reachable F (ml\<lparr>m_log := excimer_log_set_max_depth (m_log ml) d\<rparr>) h"
| copy_options: "mem_reachable F ml h \<Longrightarrow> mem_reachable F (ml\<lparr>m_log := excimer_log_copy_options (m_log ml) src\<rparr>) h"
| make: "mem_reachable F ml h \<Longrightarrow> zend_string_init v h = Inr (x, h') \<Longrightarrow> mem_reachable (with_ref F x) ml h'"
| take: "mem_reachable F ml h \<Longrightarrow> held_string F h x \<or> x \<in> set (concat (map ptr_list (m_ptrs ml))) \<Longrightarrow>
    zend_string_addref x h = Inr ((), h') \<Longrightarrow> mem_reachable (with_ref F x) ml h'"
| drop: "mem_reachable F ml h \<Longrightarrow> 0 < F x \<Longrightarrow> zend_string_release x h = Inr ((), h') \<Longrightarrow> mem_reachable (F(x := F x - 1)) ml h'"

lemma mem_ok_init: "counts_ok F [] h \<Longrightarrow> mem_ok F (mem_log_init mem) h"
  by (simp add: mem_ok_def keys_ok_def mem_log_init_def log_refs_def ptr_list_def null_ptrs_def map_filter_def ptrs_match_def content_def
      excimer_log_init_def null_frame_def)

lemma take_keeps_ok:
  assumes ok: "mem_ok F ml h" and x: "held_string F h x \<or> x \<in> set (concat (map ptr_list (m_ptrs ml)))"
    and run: "zend_string_addref x h = Inr ((), h')"
  shows "mem_ok (with_ref F x) ml h'"
proof -
  have c: "counts_ok F (log_refs ml) h" and k: "keys_ok F ml h" using ok by (simp_all add: mem_ok_def)
  have "strings h x \<noteq> None" using x counts_okD(3) [OF c, of x] by (auto simp: held_string_def log_refs_def)
  then obtain h1 where h1: "zend_string_addref x h = Inr ((), h1)" "counts_ok (with_ref F x) (log_refs ml) h1" "extends h h1"
    by (rule addref_step [OF c])
  have "x \<notin> set (m_keys ml)" using x keys_distinct(2) [OF k] held_not_key [OF ok] by blast
  then have "with_ref F x y = 0" if "y \<in> set (m_keys ml)" for y using that k by (auto simp: with_ref_apply keys_ok_def)
  then show ?thesis using mem_ok_keeps [OF ok h1(2) extends_same [OF h1(3)]] h1(1) run by simp
qed

lemma mem_reachable_ok: "mem_reachable F ml h \<Longrightarrow> mem_ok F ml h"
proof (induction rule: mem_reachable.induct)
  case (add F ml h stk n t ml' h')
  then show ?case
    by (cases "excimer_log_add (m_log ml) (map fst stk) n t") (auto elim: mem_log_add_run dest: mem_log_add_fails)
next
  case (make F ml h v x h')
  have c: "counts_ok F (log_refs ml) h" using make.IH by (simp add: mem_ok_def)
  obtain h1 y where h1: "zend_string_init v h = Inr (y, h1)" "counts_ok (with_ref F y) (log_refs ml) h1" "extends h h1" "strings h y = None"
    by (rule init_step [OF c])
  have "y \<notin> set (m_keys ml)" using counts_okD(3) [OF c h1(4)] by (simp add: log_refs_def)
  then have "with_ref F y k = 0" if "k \<in> set (m_keys ml)" for k using that make.IH by (auto simp: with_ref_apply mem_ok_def keys_ok_def)
  then have "mem_ok (with_ref F y) ml h1" by (rule mem_ok_keeps [OF make.IH h1(2) extends_same [OF h1(3)]])
  moreover have "x = y" "h' = h1" using h1(1) make.hyps(2) by simp_all
  ultimately show ?case by simp
next
  case (take F ml h x h')
  then show ?case by (intro take_keeps_ok)
next
  case (drop F ml h x h')
  have c: "counts_ok F (log_refs ml) h" using drop.IH by (simp add: mem_ok_def)
  obtain h1 where h1: "zend_string_release x h = Inr ((), h1)" "counts_ok (F(x := F x - 1)) (log_refs ml) h1"
    "\<And>y. y \<in> set (log_refs ml) \<Longrightarrow> same_string h h1 y" by (rule release_step [OF c drop.hyps(2)]) auto
  have "(F(x := F x - 1)) k = 0" if "k \<in> set (m_keys ml)" for k using that drop.IH by (auto simp: mem_ok_def keys_ok_def)
  then have "mem_ok (F(x := F x - 1)) ml h1" using mem_ok_keeps [OF drop.IH h1(2,3)] by blast
  moreover have "h' = h1" using h1(1) drop.hyps(3) by simp
  ultimately show ?case by (simp add: fun_upd_def)
qed (auto simp: mem_ok_init excimer_log_set_max_depth_def excimer_log_copy_options_def intro!: mem_ok_same_frames)

section \<open>A concrete log\<close>

text \<open>
  The script of \<open>demo_stack\<close> with a depth limit of one, so that the log has a truncation marker. String 0 is the file
  name, string 1 the name of \<^verbatim>\<open>foo\<close>; the program holds each once.
\<close>

definition rc_string :: "string \<Rightarrow> nat \<Rightarrow> zend_string" where
  "rc_string v n = \<lparr>zs_val = v, zs_refs = n, zs_interned = False\<rparr>"

definition demo_holds :: "str_ptr \<Rightarrow> nat" where
  "demo_holds = (\<lambda>x. if x < 2 then 1 else 0)"

definition demo_strings :: string_heap where
  "demo_strings = \<lparr>strings = [0 \<mapsto> rc_string ''a.php'' 1, 1 \<mapsto> rc_string ''foo'' 1], next_string = 2\<rparr>"

definition demo_string_stack :: string_stack where
  "demo_string_stack = zip demo_stack [\<lparr>fs_filename = 0, fs_scope_name = None, fs_function_name = None\<rparr>,
     \<lparr>fs_filename = 0, fs_scope_name = None, fs_function_name = Some 1\<rparr>, \<lparr>fs_filename = 0, fs_scope_name = None, fs_function_name = None\<rparr>]"

definition demo_mem_start :: mem_log where
  "demo_mem_start = (mem_log_init (demo_log 0))\<lparr>m_log := excimer_log_set_max_depth (excimer_log_init (demo_log 0)) 1\<rparr>"

definition demo_mem_log :: mem_log where
  "demo_mem_log = \<lparr>m_log = (demo_log 1)\<lparr>frames := [null_frame, truncation_frame, make_frame (demo_fn (Some ''foo'')) 4 1], frames_size := 3,
       reverse_frames := [(excimer_log_truncated_name, 1), (frame_key ''a.php'' 4 1, 2)],
       entries := [\<lparr>frame_index = 2, entry_event_count = 3, timestamp = 77\<rparr>], entries_size := 1, log_event_count := 3\<rparr>,
     m_ptrs = [null_ptrs, \<lparr>p_filename = Some 3, p_class_name = None, p_function_name = Some 4\<rparr>,
       \<lparr>p_filename = Some 0, p_class_name = None, p_function_name = Some 1\<rparr>],
     m_keys = [2, 5]\<rparr>"

definition demo_strings' :: string_heap where
  "demo_strings' = \<lparr>strings = [0 \<mapsto> rc_string ''a.php'' (Suc 1), 1 \<mapsto> rc_string ''foo'' (Suc 1), 2 \<mapsto> rc_string excimer_log_truncated_name 1,
     3 \<mapsto> rc_string excimer_log_fake_filename 1, 4 \<mapsto> rc_string excimer_log_truncated_name 1, 5 \<mapsto> rc_string (frame_key ''a.php'' 4 1) 1], next_string = 6\<rparr>"

lemmas mem_defs = mem_get_truncation_marker_def mem_user_frame_def mem_log_add_def zend_string_init_def zend_string_addref_def
  zend_string_delref_def get_string_def put_string_def if_set_def lift_res_def pbind_def

lemma demo_mem_add: "mem_log_add demo_mem_start demo_string_stack 3 77 demo_strings = Inr (demo_mem_log, demo_strings')"
  by (simp add: mem_defs demo_mem_start_def demo_string_stack_def demo_strings_def demo_mem_log_def demo_strings'_def rc_string_def
    mem_log_init_def excimer_log_set_max_depth_def demo_defs log_eval fun_upd_twist)

lemma demo_counts: "counts_ok demo_holds [] demo_strings"
  by (auto simp: counts_ok_def string_ok_def demo_strings_def demo_holds_def rc_string_def)

lemma demo_stack_ok: "stack_ok demo_holds demo_strings demo_string_stack"
  by (simp add: stack_ok_def demo_string_stack_def demo_defs ZEND_USER_CODE_def function_ok_def held_string_def content_def demo_strings_def
    demo_holds_def rc_string_def)

lemma demo_mem_start_reachable: "mem_reachable demo_holds demo_mem_start demo_strings"
  using mem_reachable.set_max_depth [OF mem_reachable.init [OF demo_counts], of "demo_log 0" 1]
  by (simp add: demo_mem_start_def mem_log_init_def)

lemma demo_mem_reachable: "mem_reachable demo_holds demo_mem_log demo_strings'"
  by (rule mem_reachable.add [OF demo_mem_start_reachable demo_stack_ok demo_mem_add])

section \<open>Properties\<close>

text \<open>C12 (safety): the strings of a log are counted exactly, and destroying the log gives back what it took. In every
  reachable state \<^verbatim>\<open>excimer_log_destroy\<close> returns without touching a string that is gone; it frees the keys of
  the reverse hashtable, and every other string that lived is still there with its contents and, unless it is interned,
  with exactly the references that the rest of the program has to it. No string the program holds is freed,
  and a string that only the log held (the names of the truncation marker, when no trace array has them) stays allocated with a count of
  zero.\<close>

theorem log_strings_exact:
  assumes "mem_reachable F ml h"
  shows "\<exists>h'. excimer_log_destroy ml h = Inr ((), h') \<and> (\<forall>k \<in> set (m_keys ml). strings h' k = None) \<and>
     (\<forall>x z. strings h x = Some z \<longrightarrow> x \<notin> set (m_keys ml) \<longrightarrow>
        (\<exists>z'. strings h' x = Some z' \<and> zs_val z' = zs_val z \<and> (zs_interned z \<or> zs_refs z' = F x)))"
proof -
  obtain h' where h': "excimer_log_destroy ml h = Inr ((), h')" "counts_ok F [] h'" "\<And>k. k \<in> set (m_keys ml) \<Longrightarrow> strings h' k = None"
    "\<And>x z. strings h x = Some z \<Longrightarrow> x \<notin> set (m_keys ml) \<Longrightarrow> \<exists>z'. strings h' x = Some z' \<and> zs_val z' = zs_val z \<and> zs_interned z' = zs_interned z"
    by (rule log_destroy_run [OF mem_reachable_ok [OF assms]]) blast
  have "\<exists>z'. strings h' x = Some z' \<and> zs_val z' = zs_val z \<and> (zs_interned z \<or> zs_refs z' = F x)"
    if "strings h x = Some z" "x \<notin> set (m_keys ml)" for x z
    using h'(4) [OF that] counts_okD(4) [OF h'(2), of x] by auto
  then show ?thesis using h'(1,3) by blast
qed

theorem log_strings_exact_witness:
  "\<exists>h'. excimer_log_destroy demo_mem_log demo_strings' = Inr ((), h') \<and> strings h' 2 = None \<and> strings h' 5 = None \<and>
     (\<exists>z. strings h' 0 = Some z \<and> zs_val z = ''a.php'' \<and> zs_refs z = 1) \<and>
     (\<exists>z. strings h' 3 = Some z \<and> zs_val z = excimer_log_fake_filename \<and> zs_refs z = 0)"
proof -
  obtain h' where h': "excimer_log_destroy demo_mem_log demo_strings' = Inr ((), h')" "\<forall>k \<in> set (m_keys demo_mem_log). strings h' k = None"
    "\<And>x z. strings demo_strings' x = Some z \<Longrightarrow> x \<notin> set (m_keys demo_mem_log) \<Longrightarrow>
        (\<exists>z'. strings h' x = Some z' \<and> zs_val z' = zs_val z \<and> (zs_interned z \<or> zs_refs z' = demo_holds x))"
    using log_strings_exact [OF demo_mem_reachable] by blast
  have "\<exists>z'. strings h' 0 = Some z' \<and> zs_val z' = ''a.php'' \<and> zs_refs z' = 1" "\<exists>z'. strings h' 3 = Some z' \<and> zs_val z' = excimer_log_fake_filename \<and> zs_refs z' = 0"
    using h'(3) [of 0] h'(3) [of 3] by (simp_all add: demo_mem_log_def demo_strings'_def rc_string_def demo_holds_def)
  then show ?thesis using h'(1,2) by (simp add: demo_mem_log_def)
qed

text \<open>C13 (refinement): recording with pointers refines recording with values. When the program holds the names of the functions
  on the stack, \<^verbatim>\<open>excimer_log_add\<close> fails exactly when the function on values does, with the same error and never
  by using a string that is gone; otherwise it leaves the same log, the pointers of its frames lead to
  strings with the contents of the frames, and every string that is not interned has one reference
  for each pointer of the log and for each of the program.\<close>

theorem recording_refines_values:
  assumes "mem_reachable F ml h" "stack_ok F h stk"
  shows "case excimer_log_add (m_log ml) (map fst stk) n t of
     Inl e \<Rightarrow> mem_log_add ml stk n t h = Inl e
   | Inr lg \<Rightarrow> \<exists>ml' h'. mem_log_add ml stk n t h = Inr (ml', h') \<and> m_log ml' = lg \<and>
       list_all2 (ptrs_match h') (m_ptrs ml') (frames lg) \<and>
       (\<forall>x z. strings h' x = Some z \<longrightarrow> \<not> zs_interned z \<longrightarrow> zs_refs z = F x + count_list (log_refs ml') x)"
proof (cases "excimer_log_add (m_log ml) (map fst stk) n t")
  case (Inl e)
  then show ?thesis using mem_log_add_fails [OF mem_reachable_ok [OF assms(1)] assms(2)] by simp
next
  case (Inr lg)
  obtain ml' h' where r: "mem_log_add ml stk n t h = Inr (ml', h')" "m_log ml' = lg" "mem_ok F ml' h'"
    by (rule mem_log_add_run [OF mem_reachable_ok [OF assms(1)] assms(2) Inr])
  then have "counts_ok F (log_refs ml') h'" "list_all2 (ptrs_match h') (m_ptrs ml') (frames lg)" by (auto simp: mem_ok_def)
  then show ?thesis using r(1,2) Inr counts_okD(4) by fastforce
qed

theorem recording_refines_values_witness:
  "excimer_log_add (m_log demo_mem_start) demo_stack 3 77 = Inr (m_log demo_mem_log) \<and>
   list_all2 (ptrs_match demo_strings') (m_ptrs demo_mem_log) (frames (m_log demo_mem_log))"
proof -
  have st: "map fst demo_string_stack = demo_stack" by (simp add: demo_string_stack_def demo_stack_def)
  have v: "excimer_log_add (m_log demo_mem_start) demo_stack 3 77 = Inr (m_log demo_mem_log)"
    by (simp add: demo_mem_start_def demo_mem_log_def excimer_log_set_max_depth_def demo_defs log_eval)
  show ?thesis using recording_refines_values [OF demo_mem_start_reachable demo_stack_ok, of 3 77] demo_mem_add v by (simp add: st)
qed

end
