(* ===== verification/Format_Memory.thy ===== *)
theory Format_Memory
  imports Log_Memory Log_Format
begin

text \<open>
  The strings that \<^verbatim>\<open>excimer_log_format_collapsed\<close> makes (\<^verbatim>\<open>excimer_log.c\<close>), in the heap of \<open>Log_Memory\<close>, and the
  functions on string buffers it is written with, which the file defines for old versions of PHP.
\<close>

section \<open>String buffers\<close>

text \<open>A \<^verbatim>\<open>smart_str\<close> has no string before something is appended, be it of length zero.\<close>

type_synonym smart_str = "string option"

definition ss_text :: "smart_str \<Rightarrow> string" where
  "ss_text ss = (case ss of None \<Rightarrow> [] | Some v \<Rightarrow> v)"

definition smart_str_appendl :: "smart_str \<Rightarrow> string \<Rightarrow> smart_str" where
  "smart_str_appendl dest v = Some (ss_text dest @ v)"

definition excimer_log_smart_str_get_len :: "smart_str \<Rightarrow> nat" where
  "excimer_log_smart_str_get_len str = (case str of Some s \<Rightarrow> length s | None \<Rightarrow> 0)"

text \<open>The buffer's string with its one reference, and the buffer is empty then; or the interned empty string of the engine.\<close>

definition excimer_log_smart_str_extract :: "str_ptr \<Rightarrow> smart_str \<Rightarrow> (string_heap, str_ptr \<times> smart_str) prog" where
  "excimer_log_smart_str_extract es str = (case str of
     Some v \<Rightarrow> pbind (zend_string_init v) (\<lambda>res. pret (res, None))
   | None \<Rightarrow> pret (es, None))"

text \<open>The text that \<^verbatim>\<open>vspprintf\<close> makes is an argument.\<close>

definition excimer_log_smart_str_append_printf :: "smart_str \<Rightarrow> string \<Rightarrow> smart_str" where
  "excimer_log_smart_str_append_printf dest buf = smart_str_appendl dest buf"

text \<open>The key of a frame as \<^verbatim>\<open>excimer_log_find_or_add_frame\<close> puts it together.\<close>

definition build_frame_key :: "string \<Rightarrow> uint32_t \<Rightarrow> uint32_t \<Rightarrow> smart_str" where
  "build_frame_key file line prev =
     (let ss_key = smart_str_appendl None file;
          ss_key = smart_str_appendl ss_key [CHR 0x00];
          ss_key = excimer_log_smart_str_append_printf ss_key (printf_d line);
          ss_key = smart_str_appendl ss_key [CHR 0x00];
          ss_key = excimer_log_smart_str_append_printf ss_key (printf_d prev)
      in ss_key)"

lemma build_frame_key: "build_frame_key file line prev = Some (frame_key file line prev)"
  by (simp add: build_frame_key_def excimer_log_smart_str_append_printf_def smart_str_appendl_def ss_text_def frame_key_def Let_def)

lemma smart_str_len: "excimer_log_smart_str_get_len (excimer_log_smart_str_append_printf ss v) = excimer_log_smart_str_get_len ss + length v"
  by (simp add: excimer_log_smart_str_get_len_def excimer_log_smart_str_append_printf_def smart_str_appendl_def ss_text_def split: option.split)

section \<open>Formatting\<close>

text \<open>
  One trace: its line is extracted from the buffer, which is still empty when the trace has no frame, and looked up in the table
  of lines. A new key takes a reference of its own.
\<close>

fun mem_count_lines ::
  "excimer_log \<Rightarrow> str_ptr \<Rightarrow> (string, zend_long) ztable \<times> str_ptr list \<Rightarrow> (uint32_t \<times> zend_long) list \<Rightarrow>
     (string_heap, (string, zend_long) ztable \<times> str_ptr list) prog" where
  "mem_count_lines lg es (ht_lines, keys) [] = pret (ht_lines, keys)"
| "mem_count_lines lg es (ht_lines, keys) ((fi, n) # cs) =
     pbind (lift_res (collapsed_line lg fi)) (\<lambda>v.
     pbind (excimer_log_smart_str_extract es (if fi = 0 then None else Some v)) (\<lambda>(str_line, _).
     pbind (if zh_find ht_lines v = None then pbind (zend_string_addref str_line) (\<lambda>_. pret (keys @ [str_line])) else pret keys) (\<lambda>keys.
     mem_count_lines lg es (zh_incr ht_lines v n, keys) cs)))"

fun append_lines :: "smart_str \<Rightarrow> (string, zend_long) ztable \<Rightarrow> smart_str" where
  "append_lines ss_out [] = ss_out"
| "append_lines ss_out ((str_line, n) # ls) =
     append_lines (excimer_log_smart_str_append_printf (smart_str_appendl ss_out str_line) ('' '' @ printf_ld n @ [CHR 0x0A])) ls"

definition mem_format_collapsed :: "excimer_log \<Rightarrow> str_ptr \<Rightarrow> (string_heap, str_ptr) prog" where
  "mem_format_collapsed lg es =
     pbind (mem_count_lines lg es ([], []) (collapsed_counts lg)) (\<lambda>(ht_lines, keys).
     let ss_out = append_lines None ht_lines in
     pbind (destroy_keys keys) (\<lambda>_.
     pbind (excimer_log_smart_str_extract es ss_out) (\<lambda>(res, _). pret res)))"

section \<open>The heap while it runs\<close>

text \<open>The strings of \<open>h\<close>, followed by strings with the contents \<open>vs\<close>. Those in \<open>K\<close> are keys of the table too.\<close>

definition with_lines :: "string_heap \<Rightarrow> string list \<Rightarrow> str_ptr set \<Rightarrow> string_heap" where
  "with_lines h vs K =
     \<lparr>strings = (\<lambda>x. if next_string h \<le> x \<and> x < next_string h + length vs
        then Some \<lparr>zs_val = vs ! (x - next_string h), zs_refs = (if x \<in> K then Suc 1 else 1), zs_interned = False\<rparr> else strings h x),
      next_string = next_string h + length vs\<rparr>"

definition new_ptrs :: "string_heap \<Rightarrow> string list \<Rightarrow> str_ptr set" where
  "new_ptrs h vs = {next_string h ..< next_string h + length vs}"

lemma with_lines_init:
  assumes "K \<subseteq> new_ptrs h vs"
  shows "zend_string_init v (with_lines h vs K) = Inr (next_string h + length vs, with_lines h (vs @ [v]) K)"
proof -
  have "next_string h + length vs \<notin> K" using assms by (auto simp: new_ptrs_def)
  then show ?thesis by (auto simp: zend_string_init_def with_lines_def nth_append fun_eq_iff)
qed

lemma with_lines_addref:
  assumes "x \<in> new_ptrs h vs" "x \<notin> K"
  shows "zend_string_addref x (with_lines h vs K) = Inr ((), with_lines h vs (insert x K))"
  using assms by (auto simp: zend_string_addref_def get_string_def put_string_def pbind_def with_lines_def new_ptrs_def fun_eq_iff)

lemma with_lines_release:
  assumes "x \<in> new_ptrs h vs" "x \<in> K"
  shows "zend_string_release x (with_lines h vs K) = Inr ((), with_lines h vs (K - {x}))"
  using assms by (auto simp: zend_string_release_def get_string_def put_string_def pbind_def with_lines_def new_ptrs_def fun_eq_iff)

definition has_empty :: "string_heap \<Rightarrow> str_ptr \<Rightarrow> bool" where
  "has_empty h es \<longleftrightarrow> (\<forall>x \<ge> next_string h. strings h x = None) \<and>
     (\<exists>z. strings h es = Some z \<and> zs_interned z \<and> zs_val z = [])"

lemma empty_below: "has_empty h es \<Longrightarrow> es < next_string h"
  by (auto simp: has_empty_def) (metis not_le option.distinct(1))

lemma with_lines_empty:
  assumes "has_empty h es"
  shows "zend_string_addref es (with_lines h vs K) = Inr ((), with_lines h vs K)"
    "zend_string_release es (with_lines h vs K) = Inr ((), with_lines h vs K)"
proof -
  obtain z where "strings (with_lines h vs K) es = Some z" "zs_interned z"
    using assms empty_below [OF assms] by (auto simp: has_empty_def with_lines_def)
  then show "zend_string_addref es (with_lines h vs K) = Inr ((), with_lines h vs K)"
    "zend_string_release es (with_lines h vs K) = Inr ((), with_lines h vs K)"
    by (simp_all add: zend_string_addref_def zend_string_release_def get_string_def pbind_def)
qed

lemma destroy_lines:
  assumes "has_empty h es" "distinct (filter (\<lambda>k. k \<noteq> es) keys)" "set keys - {es} \<subseteq> new_ptrs h vs"
  shows "destroy_keys keys (with_lines h vs (set keys - {es})) = Inr ((), with_lines h vs {})"
  using assms(2,3)
proof (induction keys)
  case (Cons k ks)
  show ?case
  proof (cases "k = es")
    case True
    then show ?thesis using Cons with_lines_empty(2) [OF assms(1)] by (simp add: pbind_def)
  next
    case False
    have "set (k # ks) - {es} - {k} = set ks - {es}" using Cons.prems(1) False by auto
    then have "zend_string_release k (with_lines h vs (set (k # ks) - {es})) = Inr ((), with_lines h vs (set ks - {es}))"
      using with_lines_release [of k h vs "set (k # ks) - {es}"] Cons.prems(2) False by auto
    then show ?thesis using Cons False by (auto simp: pbind_def)
  qed
qed simp

text \<open>The loop over the traces makes one string for each that has a frame.\<close>

lemma count_lines_run:
  assumes e: "has_empty h es" and line: "\<And>fi c. (fi, c) \<in> set cs \<Longrightarrow> collapsed_line lg fi = Inr (line fi)"
    and keys: "distinct (filter (\<lambda>k. k \<noteq> es) keys)" "set keys - {es} \<subseteq> new_ptrs h vs"
  obtains keys' where
    "mem_count_lines lg es (ht, keys) cs (with_lines h vs (set keys - {es})) =
       Inr ((foldl (\<lambda>t kv. zh_incr t (line (fst kv)) (snd kv)) ht cs, keys'),
         with_lines h (vs @ map line (filter (\<lambda>fi. fi \<noteq> 0) (map fst cs))) (set keys' - {es}))"
    "distinct (filter (\<lambda>k. k \<noteq> es) keys')"
    "set keys' - {es} \<subseteq> new_ptrs h (vs @ map line (filter (\<lambda>fi. fi \<noteq> 0) (map fst cs)))"
  using line keys
proof (induction cs arbitrary: ht keys vs thesis)
  case Nil
  then show ?case by simp
next
  case (Cons c cs)
  obtain fi n where c: "c = (fi, n)" by (cases c)
  have l: "collapsed_line lg fi = Inr (line fi)" using Cons.prems(2) [of fi n] c by simp
  let ?p = "next_string h + length vs"
  let ?str = "if fi = 0 then es else ?p" and ?vs = "if fi = 0 then vs else vs @ [line fi]"
  let ?keys = "if zh_find ht (line fi) = None then keys @ [?str] else keys"
  have ex: "excimer_log_smart_str_extract es (if fi = 0 then None else Some (line fi)) (with_lines h vs (set keys - {es})) =
      Inr ((?str, None), with_lines h ?vs (set keys - {es}))"
    using with_lines_init [OF Cons.prems(4)] by (simp add: excimer_log_smart_str_extract_def pbind_def)
  have new: "?p \<notin> set keys - {es}" "?p \<noteq> es" using Cons.prems(4) empty_below [OF e] by (auto simp: new_ptrs_def)
  have ref: "zend_string_addref ?str (with_lines h ?vs (set keys - {es})) = Inr ((), with_lines h ?vs (set (keys @ [?str]) - {es}))"
    using with_lines_empty(1) [OF e] with_lines_addref [of ?p h ?vs "set keys - {es}"] new
    by (auto simp: new_ptrs_def insert_Diff_if)
  have run: "mem_count_lines lg es (ht, keys) (c # cs) (with_lines h vs (set keys - {es})) =
      mem_count_lines lg es (zh_incr ht (line fi) n, ?keys) cs (with_lines h ?vs (set ?keys - {es}))"
    unfolding c mem_count_lines.simps by (simp add: pbind_def lift_res_def l ex ref)
  have k: "distinct (filter (\<lambda>k. k \<noteq> es) ?keys)" "set ?keys - {es} \<subseteq> new_ptrs h ?vs"
    using Cons.prems(3,4) new by (auto simp: new_ptrs_def)
  have line': "collapsed_line lg fi = Inr (line fi)" if "(fi, m) \<in> set cs" for fi m using Cons.prems(2) [of fi m] that by simp
  obtain keys' where r: "mem_count_lines lg es (zh_incr ht (line fi) n, ?keys) cs (with_lines h ?vs (set ?keys - {es})) =
      Inr ((foldl (\<lambda>t kv. zh_incr t (line (fst kv)) (snd kv)) (zh_incr ht (line fi) n) cs, keys'),
        with_lines h (?vs @ map line (filter (\<lambda>fi. fi \<noteq> 0) (map fst cs))) (set keys' - {es}))"
    "distinct (filter (\<lambda>k. k \<noteq> es) keys')" "set keys' - {es} \<subseteq> new_ptrs h (?vs @ map line (filter (\<lambda>fi. fi \<noteq> 0) (map fst cs)))"
    by (rule Cons.IH [OF _ line' k])
  have vs: "?vs @ map line (filter (\<lambda>fi. fi \<noteq> 0) (map fst cs)) = vs @ map line (filter (\<lambda>fi. fi \<noteq> 0) (map fst (c # cs)))" by (simp add: c)
  have fold: "foldl (\<lambda>t kv. zh_incr t (line (fst kv)) (snd kv)) ht (c # cs) =
      foldl (\<lambda>t kv. zh_incr t (line (fst kv)) (snd kv)) (zh_incr ht (line fi) n) cs" by (simp add: c)
  show ?case by (rule Cons.prems(1) [OF _ r(2) r(3) [unfolded vs]]) (simp only: run r(1) [unfolded vs] fold)
qed

section \<open>The result\<close>

lemma append_lines_text: "append_lines ss ls = (if ls = [] then ss else Some (ss_text ss @ concat (map render_line ls)))"
proof (induction ss ls rule: append_lines.induct)
  case (2 ss l n ls)
  have "render_line (l, n) = l @ '' '' @ printf_ld n @ [CHR 0x0A]" by (simp add: render_line_def)
  then show ?case using 2 by (simp add: excimer_log_smart_str_append_printf_def smart_str_appendl_def ss_text_def)
qed simp

lemma counts_in_range:
  assumes "log_wf lg" "(fi, c) \<in> set (collapsed_counts lg)"
  shows "unat fi < length (frames lg)"
proof -
  have "collapsed_counts lg = group_by frame_index entry_event_count (entries lg)" by (simp add: collapsed_counts_def zh_fold_incr_eq)
  then have "fi \<in> frame_index ` set (entries lg)"
    using assms(2) set_keys_group_by [of frame_index entry_event_count "entries lg"] by force
  then show ?thesis using assms(1) by (auto simp: log_wf_def entries_wf_def)
qed

lemma with_lines_none: "with_lines h [] K = h"
  by (cases h) (auto simp: with_lines_def fun_eq_iff)

lemma format_run:
  assumes wf: "log_wf lg" and e: "has_empty h es"
  obtains h1 where "h1 = with_lines h (map (stack_line lg) (filter (\<lambda>fi. fi \<noteq> 0) (map fst (collapsed_counts lg)))) {}"
    "mem_format_collapsed lg es h = pbind (excimer_log_smart_str_extract es
       (if entries lg = [] then None else Some (concat (map render_line (foldl (\<lambda>t kv. zh_incr t (stack_line lg (fst kv)) (snd kv)) [] (collapsed_counts lg))))))
       (\<lambda>(res, _). pret res) h1"
proof -
  let ?vs = "map (stack_line lg) (filter (\<lambda>fi. fi \<noteq> 0) (map fst (collapsed_counts lg)))"
  let ?ls = "foldl (\<lambda>t kv. zh_incr t (stack_line lg (fst kv)) (snd kv)) [] (collapsed_counts lg)"
  have line: "collapsed_line lg fi = Inr (stack_line lg fi)" if "(fi, c) \<in> set (collapsed_counts lg)" for fi c
    using collapsed_line_eq counts_in_range [OF wf that] wf by (simp add: log_wf_def)
  obtain keys where k: "mem_count_lines lg es ([], []) (collapsed_counts lg) h = Inr ((?ls, keys), with_lines h ?vs (set keys - {es}))"
    "distinct (filter (\<lambda>k. k \<noteq> es) keys)" "set keys - {es} \<subseteq> new_ptrs h ?vs"
    by (rule count_lines_run [OF e line, where cs = "collapsed_counts lg" and keys = "[]" and vs = "[]" and ht = "[]"])
      (simp_all add: with_lines_none)
  have d: "destroy_keys keys (with_lines h ?vs (set keys - {es})) = Inr ((), with_lines h ?vs {})" by (rule destroy_lines [OF e k(2,3)])
  have "?ls = group_by (\<lambda>e. stack_line lg (frame_index e)) entry_event_count (entries lg)"
    by (simp add: collapsed_counts_def zh_fold_incr_eq group_by_group_by)
  then have "?ls = [] \<longleftrightarrow> entries lg = []"
    using set_keys_group_by [of "\<lambda>e. stack_line lg (frame_index e)" entry_event_count "entries lg"] by force
  then have "mem_format_collapsed lg es h = pbind (excimer_log_smart_str_extract es
       (if entries lg = [] then None else Some (concat (map render_line ?ls)))) (\<lambda>(res, _). pret res) (with_lines h ?vs {})"
    unfolding mem_format_collapsed_def pbind_Inr [of "mem_count_lines _ _ _ _", OF k(1)]
    by (simp add: Let_def pbind_Inr [of "destroy_keys _", OF d] append_lines_text ss_text_def)
  then show thesis by (rule that [OF refl])
qed

text \<open>A heap with nothing but the empty string.\<close>

definition demo_empty_heap :: string_heap where
  "demo_empty_heap = \<lparr>strings = [0 \<mapsto> \<lparr>zs_val = [], zs_refs = 1, zs_interned = True\<rparr>], next_string = 1\<rparr>"

text \<open>C28 (functional): formatting a log with strings in memory returns a string with the text that the function on values returns, and leaves
  every string that existed as it was. It leaves behind one string for every different innermost frame of an entry that has
  one: the line of that trace, with one reference that nothing holds, because the reference
  \<^verbatim>\<open>excimer_log_smart_str_extract\<close> gives is not dropped.\<close>

theorem format_collapsed_leaves_lines:
  assumes wf: "log_wf lg" and e: "has_empty h es"
  shows "\<exists>res h' text. mem_format_collapsed lg es h = Inr (res, h') \<and> excimer_log_format_collapsed lg = Inr text \<and>
     content h' (Some res) = Some text \<and> (\<forall>x < next_string h. strings h' x = strings h x) \<and>
     (let traces = filter (\<lambda>fi. fi \<noteq> 0) (map fst (collapsed_counts lg)) in
      \<forall>i < length traces. next_string h + i \<noteq> res \<and>
        strings h' (next_string h + i) = Some \<lparr>zs_val = stack_line lg (traces ! i), zs_refs = 1, zs_interned = False\<rparr>)"
proof -
  let ?vs = "map (stack_line lg) (filter (\<lambda>fi. fi \<noteq> 0) (map fst (collapsed_counts lg)))"
  let ?ls = "foldl (\<lambda>t kv. zh_incr t (stack_line lg (fst kv)) (snd kv)) [] (collapsed_counts lg)"
  let ?text = "concat (map render_line ?ls)"
  have ls: "?ls = group_by (\<lambda>e. stack_line lg (frame_index e)) entry_event_count (entries lg)"
    by (simp add: collapsed_counts_def zh_fold_incr_eq group_by_group_by)
  have t: "excimer_log_format_collapsed lg = Inr ?text" by (simp add: excimer_log_format_collapsed_def collapsed_lines_eq [OF wf] ls)
  obtain h1 where h1: "h1 = with_lines h ?vs {}" and run: "mem_format_collapsed lg es h = pbind (excimer_log_smart_str_extract es
       (if entries lg = [] then None else Some ?text)) (\<lambda>(res, _). pret res) h1" by (rule format_run [OF wf e])
  show ?thesis
  proof (cases "entries lg = []")
    case True
    then have "collapsed_counts lg = []" by (simp add: collapsed_counts_def)
    moreover have "strings h es \<noteq> None" "content h (Some es) = Some []" using e by (auto simp: has_empty_def content_def)
    ultimately show ?thesis using t True
      by (intro exI [of _ es] exI [of _ h] exI [of _ "[]"])
        (simp add: run h1 pbind_def excimer_log_smart_str_extract_def with_lines_none Let_def)
  next
    case False
    have "mem_format_collapsed lg es h = Inr (next_string h + length ?vs, with_lines h (?vs @ [?text]) {})"
      using False with_lines_init [of "{}" h ?vs ?text] by (simp add: run h1 pbind_def excimer_log_smart_str_extract_def)
    then show ?thesis using t
      by (intro exI [of _ "next_string h + length ?vs"] exI [of _ "with_lines h (?vs @ [?text]) {}"] exI [of _ ?text])
        (simp add: with_lines_def content_def Let_def nth_append)
  qed
qed

theorem format_collapsed_leaves_lines_witness:
  "\<exists>res h' text. mem_format_collapsed demo_result 0 demo_empty_heap = Inr (res, h') \<and> excimer_log_format_collapsed demo_result = Inr text \<and>
     content h' (Some res) = Some text \<and>
     strings h' 1 = Some \<lparr>zs_val = stack_line demo_result 2, zs_refs = 1, zs_interned = False\<rparr>"
proof -
  have c: "collapsed_counts demo_result = [(2, 3)]" by (simp add: collapsed_counts_def demo_result_def zh_incr_def zh_add_def zh_find_def zh_set_def)
  have e: "has_empty demo_empty_heap 0" by (simp add: has_empty_def demo_empty_heap_def)
  have n: "next_string demo_empty_heap = 1" by (simp add: demo_empty_heap_def)
  show ?thesis using format_collapsed_leaves_lines [OF demo_result_wf e] unfolding c Let_def n by auto
qed

end
