(* ===== verification/Callback_Memory.thy ===== *)
theory Callback_Memory
  imports Php_Objects
begin

text \<open>
  The callback values that profilers and timers hold (\<^verbatim>\<open>excimer.c\<close>). The other theories of the PHP classes have the fields
  \<^verbatim>\<open>z_callback\<close> as values; here the values have reference counts, and the last reference to one runs PHP code: a
  callable can be an object, or a closure or array that holds one, with a destructor. That code can call the
  extension again while the field it came from still has the value.
\<close>

section \<open>Values and the objects that hold them\<close>

text \<open>
  An object is \<open>Dying\<close> while its free handler runs: PHP code has no reference to it then. Addresses that were
  not given out yet are \<open>Gone\<close>.
\<close>

datatype holder_class = Class_Profiler | Class_Timer

datatype holder_state = Live | Dying | Gone

record holder =
  hd_class :: holder_class
  hd_state :: holder_state
  hd_callback :: callback_zval
  hd_max_samples :: zend_long

text \<open>
  \<open>val_refs\<close> is the reference count of a value, \<open>None\<close> when it is not allocated; a value with the count zero is being
  destroyed. \<open>running\<close> are the objects whose methods run, which the engine keeps alive for the duration. What
  an observer records, and no function reads: the references of PHP variables (the engine's own
  bookkeeping is the count), and the references that were overwritten without being dropped.
\<close>

record cb_state =
  val_refs :: "nat \<Rightarrow> nat option"
  next_val :: nat
  holders :: "addr \<Rightarrow> holder"
  next_holder :: addr
  running :: "addr list"
  var_refs :: "nat \<Rightarrow> nat"
  overwritten :: "nat \<Rightarrow> nat"

abbreviation slot :: "cb_state \<Rightarrow> addr \<Rightarrow> callback_zval" where
  "slot s a \<equiv> hd_callback (holders s a)"

definition upd_holder :: "addr \<Rightarrow> (holder \<Rightarrow> holder) \<Rightarrow> cb_state \<Rightarrow> cb_state" where
  "upd_holder a f s = s\<lparr>holders := (holders s)(a := f (holders s a))\<rparr>"

text \<open>\<^verbatim>\<open>EXCIMER_OBJ\<close>, and writing to the storage of an object.\<close>

definition get_holder :: "addr \<Rightarrow> (cb_state, holder) prog" where
  "get_holder a s = (if hd_state (holders s a) = Gone then Inl Use_After_Free else Inr (holders s a, s))"

definition set_holder :: "addr \<Rightarrow> (holder \<Rightarrow> holder) \<Rightarrow> (cb_state, unit) prog" where
  "set_holder a f = pbind (get_holder a) (\<lambda>_ s. Inr ((), upd_holder a f s))"

section \<open>Reference counts\<close>

definition set_refs :: "nat \<Rightarrow> nat option \<Rightarrow> cb_state \<Rightarrow> cb_state" where
  "set_refs x r s = s\<lparr>val_refs := (val_refs s)(x := r)\<rparr>"

definition get_refs :: "nat \<Rightarrow> (cb_state, nat) prog" where
  "get_refs x s = (case val_refs s x of None \<Rightarrow> Inl Use_After_Free | Some k \<Rightarrow> if k = 0 then Inl Use_After_Free else Inr (k, s))"

text \<open>PHP code that belongs to a value: what calling it does, and what its destruction runs.\<close>

datatype script_part = Body | Destructor

type_synonym user_code = "script_part \<Rightarrow> nat \<Rightarrow> (cb_state, unit) prog"

text \<open>\<^verbatim>\<open>ZVAL_COPY\<close> and \<^verbatim>\<open>zval_ptr_dtor\<close>. The storage of a value is given back after its destruction.\<close>

definition zval_copy :: "callback_zval \<Rightarrow> (cb_state, unit) prog" where
  "zval_copy z = (case z of
     Z_VALUE x \<Rightarrow> pbind (get_refs x) (\<lambda>k s. Inr ((), set_refs x (Some (Suc k)) s))
   | _ \<Rightarrow> pret ())"

definition zval_ptr_dtor :: "user_code \<Rightarrow> callback_zval \<Rightarrow> (cb_state, unit) prog" where
  "zval_ptr_dtor usr z = (case z of
     Z_VALUE x \<Rightarrow>
       pbind (get_refs x) (\<lambda>k.
       pbind (\<lambda>s. Inr ((), set_refs x (Some (k - 1)) s)) (\<lambda>_.
       if k = 1 then pbind (usr Destructor x) (\<lambda>_ s. Inr ((), set_refs x None s)) else pret ()))
   | _ \<Rightarrow> pret ())"

section \<open>The functions that use the fields\<close>

text \<open>Which values are callable is a parameter. Warnings, and stopping the timer of a value that is not callable, are in \<open>Php_Objects\<close>.\<close>

definition cb_callable :: "(nat \<Rightarrow> bool) \<Rightarrow> callback_zval \<Rightarrow> bool" where
  "cb_callable fn z = (case z of Z_VALUE x \<Rightarrow> fn x | _ \<Rightarrow> False)"

definition new_holder :: "holder_class \<Rightarrow> callback_zval \<Rightarrow> (cb_state, addr) prog" where
  "new_holder c z s = Inr (next_holder s,
     (upd_holder (next_holder s) (\<lambda>_. \<lparr>hd_class = c, hd_state = Live, hd_callback = z, hd_max_samples = 0\<rparr>) s)
       \<lparr>next_holder := Suc (next_holder s)\<rparr>)"

definition cb_ExcimerProfiler_new :: "(cb_state, addr) prog" where
  "cb_ExcimerProfiler_new = new_holder Class_Profiler Z_NULL"

definition cb_ExcimerTimer_new :: "(cb_state, addr) prog" where
  "cb_ExcimerTimer_new = new_holder Class_Timer Z_UNDEF"

text \<open>The reference in the field is overwritten, not dropped; the observer counts it.\<close>

definition note_overwritten :: "addr \<Rightarrow> cb_state \<Rightarrow> cb_state" where
  "note_overwritten a s = (case slot s a of
     Z_VALUE x \<Rightarrow> s\<lparr>overwritten := (overwritten s)(x := Suc (overwritten s x))\<rparr>
   | _ \<Rightarrow> s)"

definition cb_setFlushCallback :: "(nat \<Rightarrow> bool) \<Rightarrow> addr \<Rightarrow> callback_zval \<Rightarrow> zend_long \<Rightarrow> (cb_state, unit) prog" where
  "cb_setFlushCallback fn p z max_samples =
     (if \<not> cb_callable fn z then pret ()
      else
        pbind (zval_copy z) (\<lambda>_.
        pbind (\<lambda>s. Inr ((), note_overwritten p s)) (\<lambda>_.
        set_holder p (\<lambda>h. h\<lparr>hd_callback := z, hd_max_samples := max_samples\<rparr>))))"

definition cb_clearFlushCallback :: "user_code \<Rightarrow> addr \<Rightarrow> (cb_state, unit) prog" where
  "cb_clearFlushCallback usr p =
     pbind (get_holder p) (\<lambda>h.
     pbind (zval_ptr_dtor usr (hd_callback h)) (\<lambda>_.
     set_holder p (\<lambda>h. h\<lparr>hd_callback := Z_NULL, hd_max_samples := 0\<rparr>)))"

definition cb_set_callback :: "(nat \<Rightarrow> bool) \<Rightarrow> user_code \<Rightarrow> addr \<Rightarrow> callback_zval \<Rightarrow> (cb_state, bool) prog" where
  "cb_set_callback fn usr a z =
     (if \<not> cb_callable fn z then pret False
      else
        pbind (get_holder a) (\<lambda>h.
        pbind (zval_ptr_dtor usr (hd_callback h)) (\<lambda>_.
        pbind (zval_copy z) (\<lambda>_.
        pbind (set_holder a (hd_callback_update (\<lambda>_. z))) (\<lambda>_. pret True)))))"

definition cb_setCallback :: "(nat \<Rightarrow> bool) \<Rightarrow> user_code \<Rightarrow> addr \<Rightarrow> callback_zval \<Rightarrow> (cb_state, unit) prog" where
  "cb_setCallback fn usr a z =
     (if z = Z_NULL then
        pbind (get_holder a) (\<lambda>h.
        pbind (zval_ptr_dtor usr (hd_callback h)) (\<lambda>_.
        set_holder a (hd_callback_update (\<lambda>_. Z_NULL))))
      else pbind (cb_set_callback fn usr a z) (\<lambda>_. pret ()))"

text \<open>What the free handlers of both classes do to the field.\<close>

definition cb_free_object :: "user_code \<Rightarrow> addr \<Rightarrow> (cb_state, unit) prog" where
  "cb_free_object usr a =
     pbind (get_holder a) (\<lambda>h.
     pbind (zval_ptr_dtor usr (hd_callback h)) (\<lambda>_.
     set_holder a (hd_callback_update (\<lambda>_. Z_UNDEF))))"

text \<open>
  The event functions read the field to call the value: \<^verbatim>\<open>zend_fcall_info_init\<close> looks at it, the engine then keeps what
  it runs alive. The flush of a profiler does so as well.
\<close>

definition call_value :: "(nat \<Rightarrow> bool) \<Rightarrow> user_code \<Rightarrow> callback_zval \<Rightarrow> (cb_state, unit) prog" where
  "call_value fn usr z = (case z of
     Z_VALUE x \<Rightarrow> pbind (get_refs x) (\<lambda>_. if fn x then usr Body x else pret ())
   | _ \<Rightarrow> pret ())"

definition cb_timer_event :: "(nat \<Rightarrow> bool) \<Rightarrow> user_code \<Rightarrow> addr \<Rightarrow> (cb_state, unit) prog" where
  "cb_timer_event fn usr a =
     pbind (get_holder a) (\<lambda>h.
     if hd_callback h = Z_NULL \<or> hd_callback h = Z_UNDEF then pret () else call_value fn usr (hd_callback h))"

definition cb_profiler_flush :: "(nat \<Rightarrow> bool) \<Rightarrow> user_code \<Rightarrow> addr \<Rightarrow> (cb_state, unit) prog" where
  "cb_profiler_flush fn usr p =
     pbind (get_holder p) (\<lambda>h. if hd_callback h = Z_NULL then pret () else call_value fn usr (hd_callback h))"

section \<open>What PHP code can do\<close>

datatype cb_call =
  New_Value
| Copy_Var nat
| Drop_Var nat
| New_Profiler
| New_Timer
| Set_Flush_Callback addr callback_zval zend_long
| Clear_Flush_Callback addr
| Set_Callback addr callback_zval
| Event addr
| Drop_Object addr


text \<open>An argument is a value that a variable has, or null; the frame of the call has a reference to it.\<close>

definition arg_ok :: "cb_state \<Rightarrow> callback_zval \<Rightarrow> bool" where
  "arg_ok s z = (case z of Z_VALUE x \<Rightarrow> 0 < var_refs s x | Z_NULL \<Rightarrow> True | Z_UNDEF \<Rightarrow> False)"

definition with_arg :: "user_code \<Rightarrow> callback_zval \<Rightarrow> (cb_state, unit) prog \<Rightarrow> (cb_state, unit) prog" where
  "with_arg usr z m = pbind (zval_copy z) (\<lambda>_. pbind m (\<lambda>_. zval_ptr_dtor usr z))"

definition with_this :: "addr \<Rightarrow> (cb_state, unit) prog \<Rightarrow> (cb_state, unit) prog" where
  "with_this a m =
     pbind (\<lambda>s. Inr ((), s\<lparr>running := a # running s\<rparr>)) (\<lambda>_.
     pbind m (\<lambda>_ s. Inr ((), s\<lparr>running := tl (running s)\<rparr>)))"

definition is_live :: "holder_class \<Rightarrow> cb_state \<Rightarrow> addr \<Rightarrow> bool" where
  "is_live c s a \<longleftrightarrow> hd_state (holders s a) = Live \<and> hd_class (holders s a) = c"

text \<open>A call that PHP code cannot make in a state does nothing.\<close>

fun cb_exec :: "(nat \<Rightarrow> bool) \<Rightarrow> user_code \<Rightarrow> cb_call \<Rightarrow> (cb_state, unit) prog" where
  "cb_exec fn usr New_Value s =
     (let x = next_val s in Inr ((), (set_refs x (Some 1) s)\<lparr>next_val := Suc x, var_refs := (var_refs s)(x := 1)\<rparr>))"
| "cb_exec fn usr (Copy_Var x) s =
     (if 0 < var_refs s x then zval_copy (Z_VALUE x) (s\<lparr>var_refs := (var_refs s)(x := Suc (var_refs s x))\<rparr>) else Inr ((), s))"
| "cb_exec fn usr (Drop_Var x) s =
     (if 0 < var_refs s x then zval_ptr_dtor usr (Z_VALUE x) (s\<lparr>var_refs := (var_refs s)(x := var_refs s x - 1)\<rparr>) else Inr ((), s))"
| "cb_exec fn usr New_Profiler s = pbind cb_ExcimerProfiler_new (\<lambda>_. pret ()) s"
| "cb_exec fn usr New_Timer s = pbind cb_ExcimerTimer_new (\<lambda>_. pret ()) s"
| "cb_exec fn usr (Set_Flush_Callback a z max_samples) s =
     (if is_live Class_Profiler s a \<and> arg_ok s z then with_this a (with_arg usr z (cb_setFlushCallback fn a z max_samples)) s else Inr ((), s))"
| "cb_exec fn usr (Clear_Flush_Callback a) s =
     (if is_live Class_Profiler s a then with_this a (cb_clearFlushCallback usr a) s else Inr ((), s))"
| "cb_exec fn usr (Set_Callback a z) s =
     (if is_live Class_Timer s a \<and> arg_ok s z then with_this a (with_arg usr z (cb_setCallback fn usr a z)) s else Inr ((), s))"
| "cb_exec fn usr (Event a) s =
     (if is_live Class_Timer s a then cb_timer_event fn usr a s
      else if is_live Class_Profiler s a then cb_profiler_flush fn usr a s else Inr ((), s))"
| "cb_exec fn usr (Drop_Object a) s =
     (if hd_state (holders s a) = Live \<and> a \<notin> set (running s) then
        pbind (cb_free_object usr a) (\<lambda>_ s. Inr ((), upd_holder a (hd_state_update (\<lambda>_. Gone)) s))
          (upd_holder a (hd_state_update (\<lambda>_. Dying)) s)
      else Inr ((), s))"

fun cb_exec_calls :: "(nat \<Rightarrow> bool) \<Rightarrow> user_code \<Rightarrow> cb_call list \<Rightarrow> (cb_state, unit) prog" where
  "cb_exec_calls fn usr [] = pret ()"
| "cb_exec_calls fn usr (c # cs) = pbind (cb_exec fn usr c) (\<lambda>_. cb_exec_calls fn usr cs)"

text \<open>
  The code of a value is a list of calls, chosen from the state when it starts. User code that is
  nested \<open>n\<close> deep makes no calls; \<open>n\<close> is arbitrary.
\<close>

primrec run_user :: "(nat \<Rightarrow> bool) \<Rightarrow> (script_part \<Rightarrow> nat \<Rightarrow> cb_state \<Rightarrow> cb_call list) \<Rightarrow> nat \<Rightarrow> user_code" where
  "run_user fn scripts 0 = (\<lambda>p x. pret ())"
| "run_user fn scripts (Suc n) = (\<lambda>p x s. cb_exec_calls fn (run_user fn scripts n) (scripts p x s) s)"

definition cb_start :: cb_state where
  "cb_start = \<lparr>val_refs = (\<lambda>_. None), next_val = 0,
     holders = (\<lambda>_. \<lparr>hd_class = Class_Timer, hd_state = Gone, hd_callback = Z_UNDEF, hd_max_samples = 0\<rparr>), next_holder = 0,
     running = [], var_refs = (\<lambda>_. 0), overwritten = (\<lambda>_. 0)\<rparr>"

section \<open>The invariant\<close>





text \<open>What a nested run leaves alone.\<close>

definition frame_kept :: "addr set \<Rightarrow> cb_state \<Rightarrow> cb_state \<Rightarrow> bool" where
  "frame_kept A s s' \<longleftrightarrow> running s' = running s \<and> (\<forall>a \<in> A. holders s' a = holders s a) \<and>
     (\<forall>x. val_refs s' x = Some 0 \<longleftrightarrow> val_refs s x = Some 0) \<and>
     (\<forall>a \<in> set (running s). hd_state (holders s a) = Live \<longrightarrow> hd_state (holders s' a) = Live) \<and>
     (\<forall>a. hd_state (holders s a) = Dying \<longrightarrow> hd_state (holders s' a) = Dying)"





lemma upd_holder_fields [simp]:
  "val_refs (upd_holder a f s) = val_refs s" "next_val (upd_holder a f s) = next_val s" "next_holder (upd_holder a f s) = next_holder s"
  "running (upd_holder a f s) = running s" "var_refs (upd_holder a f s) = var_refs s" "overwritten (upd_holder a f s) = overwritten s"
  "holders (upd_holder a f s) = (holders s)(a := f (holders s a))"
  by (simp_all add: upd_holder_def)

lemma frame_kept_refl [simp]: "frame_kept A s s"
  by (simp add: frame_kept_def)







section \<open>Steps\<close>








section \<open>Every call keeps the invariant\<close>

















section \<open>Runs\<close>

lemma cb_exec_calls_append: "cb_exec_calls fn usr (cs @ ds) = pbind (cb_exec_calls fn usr cs) (\<lambda>_. cb_exec_calls fn usr ds)"
proof (induction cs)
  case (Cons c cs)
  show ?case unfolding append_Cons cb_exec_calls.simps Cons.IH by (simp add: pbind_def fun_eq_iff rbind_def split: sum.split prod.split)
qed (simp add: pbind_def fun_eq_iff)








lemmas cb_eval = cb_start_def new_holder_def cb_ExcimerProfiler_new_def cb_ExcimerTimer_new_def cb_setFlushCallback_def cb_clearFlushCallback_def
  cb_setCallback_def cb_set_callback_def zval_copy_def zval_ptr_dtor_def get_refs_def set_refs_def get_holder_def set_holder_def upd_holder_def
  with_this_def with_arg_def note_overwritten_def cb_callable_def arg_ok_def is_live_def pbind_def Let_def


text \<open>A timer whose callback has a destructor that takes the callback off the timer.\<close>

definition reentrant_scripts :: "script_part \<Rightarrow> nat \<Rightarrow> cb_state \<Rightarrow> cb_call list" where
  "reentrant_scripts p x s = (if p = Destructor then [Set_Callback 0 Z_NULL] else [])"

definition timer_with_callback :: cb_state where
  "timer_with_callback = cb_start\<lparr>val_refs := [0 \<mapsto> 1], next_val := 1, next_holder := 1,
     holders := (holders cb_start)(0 := \<lparr>hd_class = Class_Timer, hd_state = Live, hd_callback = Z_VALUE 0, hd_max_samples = 0\<rparr>)\<rparr>"

lemma timer_with_callback_run:
  "cb_exec_calls (\<lambda>_. True) usr [New_Value, New_Timer, Set_Callback 0 (Z_VALUE 0), Drop_Var 0] cb_start = Inr ((), timer_with_callback)"
  by (simp add: cb_eval timer_with_callback_def fun_upd_idem)

section \<open>Properties\<close>



text \<open>C27 (error): the condition is needed. \<^verbatim>\<open>ExcimerTimer::setCallback\<close> drops the reference of the old callback before it writes the
  field. When that is the last reference and the destruction of the value runs code that calls
  \<^verbatim>\<open>setCallback\<close> on the same timer, the nested call finds the value that is being destroyed in the field and drops its reference again.\<close>

theorem callback_destructor_reentry:
  assumes "is_live Class_Timer s a" "slot s a = Z_VALUE x" "val_refs s x = Some 1" "\<And>t. scripts Destructor x t = [Set_Callback a Z_NULL]"
    and "z = Z_NULL \<or> (\<exists>y k. z = Z_VALUE y \<and> y \<noteq> x \<and> fn y \<and> 0 < var_refs s y \<and> val_refs s y = Some k \<and> 0 < k)"
  shows "cb_exec fn (run_user fn scripts (Suc n)) (Set_Callback a z) s = Inl Use_After_Free"
  using assms by (auto simp: cb_eval)

theorem callback_destructor_reentry_witness:
  "cb_exec_calls (\<lambda>_. True) (run_user (\<lambda>_. True) reentrant_scripts 1)
     ([New_Value, New_Timer, Set_Callback 0 (Z_VALUE 0), Drop_Var 0] @ [Set_Callback 0 Z_NULL]) cb_start = Inl Use_After_Free"
proof -
  have "cb_exec (\<lambda>_. True) (run_user (\<lambda>_. True) reentrant_scripts (Suc 0)) (Set_Callback 0 Z_NULL) timer_with_callback = Inl Use_After_Free"
    by (rule callback_destructor_reentry [where x = 0]) (simp_all add: timer_with_callback_def is_live_def reentrant_scripts_def)
  then have "cb_exec_calls (\<lambda>_. True) (run_user (\<lambda>_. True) reentrant_scripts 1) [Set_Callback 0 Z_NULL] timer_with_callback = Inl Use_After_Free"
    by (simp only: cb_exec_calls.simps pbind_Inl One_nat_def)
  then show ?thesis unfolding cb_exec_calls_append pbind_Inr [of "cb_exec_calls _ _ _", OF timer_with_callback_run] .
qed

end
