(* ===== verification/Module_Entry.thy ===== *)
theory Module_Entry
  imports Php_Module Php_Classes
begin

text \<open>
  The module entry of \<^verbatim>\<open>excimer.c\<close>, through which the engine finds everything else: the functions, what is done at the start and
  the end of the process and of a request, what \<^verbatim>\<open>phpinfo()\<close> prints, and the table of the iterator's functions. The
  requests of a process follow each other.
\<close>

section \<open>The functions of the entry\<close>

definition PHP_EXCIMER_VERSION :: string where
  "PHP_EXCIMER_VERSION = ''1.2.5''"

definition excimer_ini_entries :: "(string \<times> string) list" where
  "excimer_ini_entries = [(''excimer.default_max_depth'', ''1000'')]"

text \<open>At the end of the process the settings of the module are unregistered.\<close>

definition unregister_ini_entries :: "module_tables \<Rightarrow> module_tables" where
  "unregister_ini_entries mt = mt\<lparr>ini_entries := filter (\<lambda>e. fst e \<notin> fst ` set excimer_ini_entries) (ini_entries mt)\<rparr>"

type_synonym 's module_func = "module_tables \<times> 's \<Rightarrow> (module_tables \<times> 's) res"

definition minit_excimer :: "bool \<Rightarrow> ('tl, 'z) php_scheme module_func" where
  "minit_excimer have_cpu_clock = (\<lambda>(mt, s). rbind (zm_startup_excimer s) (\<lambda>(_, s'). Inr (zm_startup_tables have_cpu_clock mt, s')))"

definition mshutdown_excimer :: "('tl, 'z) php_scheme module_func" where
  "mshutdown_excimer = (\<lambda>(mt, s). let mt = unregister_ini_entries mt in rbind (zm_shutdown_excimer s) (\<lambda>(_, s'). Inr (mt, s')))"

text \<open>What \<^verbatim>\<open>phpinfo()\<close> prints.\<close>

datatype info_item = Table_start | Table_header "string list" | Table_row "string list" | Table_end

definition display_ini_entries :: "module_tables \<Rightarrow> info_item list" where
  "display_ini_entries mt = (case filter (\<lambda>e. fst e \<in> fst ` set excimer_ini_entries) (ini_entries mt) of
     [] \<Rightarrow> []
   | es \<Rightarrow> [Table_start, Table_header [''Directive'', ''Value'']] @ map (\<lambda>e. Table_row [fst e, snd e]) es @ [Table_end])"

definition zm_info_excimer :: "module_tables \<Rightarrow> info_item list" where
  "zm_info_excimer mt =
     [Table_start, Table_header [''excimer support'', ''enabled''], Table_row [''excimer version'', PHP_EXCIMER_VERSION], Table_end] @
     display_ini_entries mt"

section \<open>The entry\<close>

record 's zend_module_entry =
  me_deps :: "string list"
  me_name :: string
  me_functions :: "function_entry list"
  me_module_startup :: "'s module_func"
  me_module_shutdown :: "'s module_func"
  me_request_startup :: "('s, unit) prog"
  me_request_shutdown :: "('s, unit) prog option"
  me_info :: "module_tables \<Rightarrow> info_item list"
  me_version :: string
  me_post_deactivate :: "('s, unit) prog option"

definition excimer_deps :: "string list" where
  "excimer_deps = []"

definition excimer_module_entry :: "bool \<Rightarrow> thread \<Rightarrow> ('tl, 'z) php_scheme zend_module_entry" where
  "excimer_module_entry have_cpu_clock me = \<lparr>
     me_deps = excimer_deps,
     me_name = ''excimer'',
     me_functions = excimer_functions,
     me_module_startup = minit_excimer have_cpu_clock,
     me_module_shutdown = mshutdown_excimer,
     me_request_startup = zm_activate_excimer me,
     me_request_shutdown = None,
     me_info = zm_info_excimer,
     me_version = PHP_EXCIMER_VERSION,
     me_post_deactivate = Some (zm_post_zend_deactivate_excimer me)\<rparr>"

text \<open>
  The end of a request in the engine: the shutdown functions of the modules, then it destroys what is left of
  the objects (\<open>destroy_all\<close>), then the functions for after that.
\<close>

definition run_optional :: "('s, unit) prog option \<Rightarrow> ('s, unit) prog" where
  "run_optional f = (case f of None \<Rightarrow> pret () | Some m \<Rightarrow> m)"

definition engine_request_end :: "'s zend_module_entry \<Rightarrow> ('s, unit) prog \<Rightarrow> ('s, unit) prog" where
  "engine_request_end entry destroy_all =
     pbind (run_optional (me_request_shutdown entry)) (\<lambda>_.
     pbind destroy_all (\<lambda>_.
     run_optional (me_post_deactivate entry)))"

section \<open>The iterator's functions\<close>

text \<open>The functions that take the iterator at an address, and those of \<open>Php_Log\<close> for the two that change nothing.\<close>

record 's zend_object_iterator_funcs =
  if_dtor :: "addr \<Rightarrow> ('s, unit) prog"
  if_valid :: "excimer_log \<Rightarrow> log_iterator \<Rightarrow> bool"
  if_get_current_data :: "addr \<Rightarrow> ('s, addr option) prog"
  if_get_current_key :: "excimer_log \<Rightarrow> log_iterator \<Rightarrow> zval"
  if_move_forward :: "addr \<Rightarrow> ('s, unit) prog"
  if_rewind :: "addr \<Rightarrow> ('s, unit) prog"
  if_invalidate_current :: "addr \<Rightarrow> ('s, unit) prog"

definition ExcimerLog_iterator_funcs :: "('tl, 'z) php_scheme zend_object_iterator_funcs" where
  "ExcimerLog_iterator_funcs = \<lparr>if_dtor = ExcimerLog_iterator_dtor, if_valid = ExcimerLog_iterator_valid,
     if_get_current_data = iterator_get_current_data, if_get_current_key = ExcimerLog_iterator_get_current_key,
     if_move_forward = iterator_move_forward, if_rewind = iterator_rewind, if_invalidate_current = iterator_invalidate_current\<rparr>"

section \<open>One request after the other\<close>

lemma gone_idle:
  fixes s :: "('tl, 'z) php_scheme"
  assumes inv: "php_inv (\<lambda>_. 0) live me s" and o: "\<And>a. objects s a = None" and e: "\<And>a. entry_objs (ents s) a = None"
    and i: "\<And>a. log_iterators (ents s) a = None"
  shows "request_idle s"
proof -
  have heap: "\<And>l. counted (\<lambda>_. 0) s l" and owner: "\<And>a. timer_owner_ok s a" and t: "timer_inv live me {..<next_object s} s"
    and en: "ents_ok (\<lambda>_. 0) (ents s)"
    using inv by (simp_all add: php_inv_def core_inv_def heap_inv_def ent_inv_def)
  have "php_refs s l = 0" for l using heap [of l] o [of l] by (simp add: counted_def is_log_def)
  moreover have v: "\<not> is_valid (timers s a)" for a
    using owner [of a] o [of a] by (auto simp: timer_owner_ok_def is_profiler_def is_timer_def split: timer_callback.splits)
  moreover have "\<not> is_running (timers s a) \<and> nx s a = None \<and> pv s a = None" if "a < next_object s" for a
  proof -
    obtain q where "pending_ring me {..<next_object s} s q" "set q \<subseteq> valid_timers {..<next_object s} s" using t by (auto simp: timer_inv_def)
    moreover have "valid_timers {..<next_object s} s = {}" using v by (auto simp: valid_timers_def)
    ultimately show ?thesis using t v that by (auto simp: pending_ring_def timer_inv_def timer_ok_def)
  qed
  moreover have "entries_gone (ents s)"
  proof -
    have c: "entry_vars (ents s) a = 0 \<and> cache_ref (ents s) a = 0" for a
      using en e [of a] by (auto simp: ents_ok_def entry_counted_def dest!: spec [of _ a])
    have "log_current (ents s) a = None" for a
    proof (rule ccontr)
      assume "log_current (ents s) a \<noteq> None"
      then obtain b where "cached (ents s) (Inl a) = Some b" by (auto simp: cached_def)
      then show False using c [of b] by (auto simp: cache_ref_def split: if_splits)
    qed
    then show ?thesis using e i c by (simp add: entries_gone_def)
  qed
  ultimately show ?thesis using o by (simp add: request_idle_def)
qed

lemma mutex_destroy_keeps:
  fixes s :: "('tl, 'z) php_scheme"
  shows "case excimer_mutex_destroy m s of Inl e \<Rightarrow> \<not> memory_fault e
    | Inr (x, s') \<Rightarrow> warnings s' = warnings s \<and> (request_idle s \<longrightarrow> request_idle s')"
  by (auto simp: excimer_mutex_destroy_def prog_defs logged_def request_idle_def split: sum.split)

lemma no_timers_shutdown:
  fixes s :: "('tl, 'z) php_scheme"
  assumes "php_inv (\<lambda>_. 0) live me s" "request_idle s"
  shows "zm_post_zend_deactivate_excimer me s = excimer_mutex_destroy (Tls_Mutex me) s"
proof -
  have "valid_timers {..<next_object s} s = {}" using assms(2) by (auto simp: request_idle_def valid_timers_def)
  then have "timers_active (tls_of s me) = 0" using assms(1) by (simp add: php_inv_def core_inv_def timer_inv_def)
  then show ?thesis by (simp add: zm_post_zend_deactivate_excimer_def excimer_timer_thread_shutdown_def pbind_def gets_run)
qed

section \<open>Properties\<close>

text \<open>C26 (invariant): the requests of a process do not affect each other. When the engine ends a request and has destroyed the
  objects, entries and iterators that were left, the functions it calls through the module entry find no timer in use: there is no
  warning, the mutex of the thread is destroyed, and nothing but a failure of that call, which ends the process, keeps the
  request from ending. The next request, started through the entry, begins in a state from which all theorems about a
  request hold, whatever its scripts are.\<close>

theorem requests_compose:
  fixes s :: "(posix_timer, 'z) php_scheme"
  assumes hook: "foreign_hook hook" and destroy: "destroy_all s0 = Inr ((), s)"
    and reach: "php_reachable (posix_timerlib np) (script_engine (posix_timerlib np) base hook me scripts n) hook me s"
    and gone: "\<And>a. objects s a = None" "\<And>a. entry_objs (ents s) a = None" "\<And>a. log_iterators (ents s) a = None"
  shows "case engine_request_end (excimer_module_entry cpu me) destroy_all s0 of
     Inl e \<Rightarrow> \<not> memory_fault e
   | Inr (_, s1) \<Rightarrow> warnings s1 = warnings s \<and>
      (\<exists>s2. me_request_startup (excimer_module_entry cpu me) s1 = Inr ((), s2) \<and>
        (\<forall>base' scripts' n'. php_reachable (posix_timerlib np) (script_engine (posix_timerlib np) base' hook me scripts' n') hook me s2))"
proof -
  have inv: "php_inv (\<lambda>_. 0) posix_live me s" by (rule posix_profiler.script_inv [OF hook reach])
  have idle: "request_idle s" by (rule gone_idle [OF inv gone])
  have run: "engine_request_end (excimer_module_entry cpu me) destroy_all s0 = excimer_mutex_destroy (Tls_Mutex me) s"
    using destroy no_timers_shutdown [OF inv idle]
    by (simp add: engine_request_end_def excimer_module_entry_def run_optional_def pbind_def)
  show ?thesis
  proof (cases "excimer_mutex_destroy (Tls_Mutex me) s")
    case (Inl e)
    then show ?thesis using mutex_destroy_keeps [of s "Tls_Mutex me"] by (simp add: run)
  next
    case (Inr r)
    obtain s1 where s1: "excimer_mutex_destroy (Tls_Mutex me) s = Inr ((), s1)" using Inr by (cases r) simp
    have w: "warnings s1 = warnings s" "request_idle s1" using mutex_destroy_keeps [of s "Tls_Mutex me"] s1 idle by simp_all
    obtain s2 where s2: "excimer_timer_thread_init me s1 = Inr ((), s2)" by (simp add: excimer_timer_thread_init_def modify_def)
    have "php_reachable (posix_timerlib np) (script_engine (posix_timerlib np) base' hook me scripts' n') hook me s2" for base' scripts' n'
      by (rule request_start [OF s2 w(2)])
    moreover have "me_request_startup (excimer_module_entry cpu me) s1 = Inr ((), s2)" using s2 by (simp add: excimer_module_entry_def zm_activate_excimer_def)
    ultimately show ?thesis using w(1) s1 by (simp add: run)
  qed
qed

theorem requests_compose_witness:
  "case engine_request_end (excimer_module_entry True 0) (pret ()) demo_start of
     Inl e \<Rightarrow> \<not> memory_fault e
   | Inr (_, s1) \<Rightarrow> warnings s1 = warnings demo_start \<and>
      (\<exists>s2. me_request_startup (excimer_module_entry True 0) s1 = Inr ((), s2) \<and> php_reachable (posix_timerlib True) demo_script_engine demo_hook 0 s2)"
  using requests_compose [OF demo_foreign _ demo_start_reachable, of "pret ()" demo_start True]
  by (auto simp: demo_start_def demo_php_def no_entries_def split: sum.splits)

end
