(* ===== verification/Spec2Isabelle.thy ===== *)
theory Spec2Isabelle
  imports Php_Dispatch Timer_Threads Format_Memory Callback_Memory Module_Entry
begin

text \<open>
  A model of Excimer, the PHP extension that interrupts a running PHP program at regular intervals and
  records where it is, and of the two classes it gives to PHP code: a sampling profiler and a timer.

  \<^bold>\<open>The program and how its parts interact.\<close> \<^verbatim>\<open>timerlib/\<close> is a small portable timer library. Each timer has a
  handler thread that waits for expirations, a POSIX timer that signals it (\<^verbatim>\<open>timerlib_posix.c\<close>) or a kqueue it
  polls (\<^verbatim>\<open>timerlib_kqueue.c\<close>), and calls a notify function. \<^verbatim>\<open>excimer_timer.c\<close> builds timers of PHP threads on
  it: the notify function puts the timer on the pending list of a thread and sets that thread's VM interrupt
  flag; the engine then calls the interrupt hook in the PHP thread, which takes timers off the list and calls
  their event functions. \<^verbatim>\<open>excimer.c\<close> has the PHP classes. The event function of \<^verbatim>\<open>ExcimerProfiler\<close> walks the call
  stack and records it in a log (\<^verbatim>\<open>excimer_log.c\<close>): frames are shared in a table that is indexed by a reverse
  hashtable, an entry points to its innermost frame. When the log is full it is handed to a user function and a
  new one takes its place. \<^verbatim>\<open>ExcimerLog\<close> can be iterated and exported as collapsed stacks, as a speedscope
  document or aggregated by function. The event function of \<^verbatim>\<open>ExcimerTimer\<close> calls a user function.

  \<^bold>\<open>Conventions.\<close> A C function that can go wrong yields a value of the sum \<open>c_fault + 'a\<close>: the faults are memory
  errors (\<open>memory_fault\<close>), fatal errors of PHP, \<^verbatim>\<open>abort()\<close>, and \<open>Diverges\<close> for a loop whose bound is used up.
  Integers are words of the C type's width. Stateful code is a state-passing function \<open>('s, 'a) prog\<close>
  composed with \<open>pbind\<close>. The system and the C library answer each call from an arbitrary sequence
  \<open>answers\<close>; every call is recorded in \<open>os_calls\<close>, every warning in \<open>warnings\<close>. Records extend each other in the
  order of the layers, so that a function of a lower layer runs unchanged on the state of a higher one.

  \<^bold>\<open>Theories.\<close>
  \<^item> \<open>Prelude\<close>, \<open>Zend_Hash\<close>: C integers, faults, the result monad, decimal printing; PHP's ordered hashtable with the
    locales \<open>hash_table\<close> and \<open>counter_table\<close>.
  \<^item> \<open>Excimer_Log\<close> (\<^verbatim>\<open>excimer_log.c\<close>, \<^verbatim>\<open>excimer_log.h\<close>): frames, entries, recording a stack. The invariant \<open>log_wf\<close>;
    adding an event appends exactly one sample (locale \<open>sample_log\<close>); frames are shared; depth limit; overflow.
  \<^item> \<open>Log_Memory\<close> (\<^verbatim>\<open>excimer_log.c\<close>): the same recorder with the pointers of its frames and the strings in a heap with reference
    counts; it computes the log of \<open>Excimer_Log\<close>, never uses a freed string, and destroying the log gives back every reference.
    \<open>Format_Memory\<close>: the strings that formatting a log makes, and the string buffers it is written with.
  \<^item> \<open>Log_Format\<close>, \<open>Log_Aggregate\<close>, \<open>Log_Speedscope\<close> (\<^verbatim>\<open>excimer_log.c\<close>): the three exports, against independent
    specifications (grouping by rendered stack, counting, decoding).
  \<^item> \<open>Timespec\<close> (\<^verbatim>\<open>timerlib_common.c\<close>, \<^verbatim>\<open>timerlib.h\<close>), \<open>Os_World\<close> (\<^verbatim>\<open>excimer_mutex.c\<close>, \<^verbatim>\<open>timerlib_pthread_mutex.h\<close>, error
    reporting): time arithmetic at word width; the environment, specifications \<open>prog_spec\<close>, \<open>triple\<close>.
  \<^item> \<open>Timer_Backend\<close>: the interface of timerlib as the locales \<open>timer_backend\<close> and \<open>owning_backend\<close>;
    \<open>Timerlib_Posix\<close>, \<open>Timerlib_Kqueue\<close>: the two backends as instances, with their handler threads.
  \<^item> \<open>Pending_List\<close>, \<open>Excimer_Timer\<close>, \<open>Timer_Registry\<close>, \<open>Timer_Safety\<close> (\<^verbatim>\<open>excimer_timer.c\<close>, \<^verbatim>\<open>excimer_timer.h\<close>): the circular list
    pointer by pointer and its refinement of a queue; timers, posting, the interrupt hook, conservation of
    events; the invariant of all timers of a thread; frames and absence of memory errors.
  \<^item> \<open>Timer_Threads\<close>: the same functions statement by statement, handler threads and PHP thread interleaved in any
    order: the critical sections exclude each other and never block, no wake-up is lost, what is posted is
    delivered, and the functions above lock and unlock once and have the effect of the uninterrupted steps.
  \<^item> \<open>Php_Log\<close>, \<open>Php_Objects\<close> (\<^verbatim>\<open>excimer.c\<close>): the PHP classes. Objects live in a heap with reference counts; an
    access to a freed object is a fault. Where the code gives up a callback the PHP code its destructor runs is part of
    the method, before the field is written.
  \<^item> \<open>Php_Entries\<close> (\<^verbatim>\<open>excimer.c\<close>): entry objects and the iterators of \<^verbatim>\<open>foreach\<close> in the heap, with the references they
    hold to their log and the fields that cache entries; \<open>Entry_Safety\<close>: their operations keep the invariant;
    \<open>Entry_Refinement\<close>: they implement the iteration over indices of \<open>Php_Log\<close>.
  \<^item> \<open>Callback_Memory\<close> (\<^verbatim>\<open>excimer.c\<close>): the callback values of profilers and timers with reference counts and with destructors that
    call the extension again; the counts are exact unless a destructor uses the object it is dropped from.
  \<^item> \<open>Php_Profiler\<close>: what sequences of events add up to, rotation at the threshold, delivery to timer objects by the
    interrupt hook.
  \<^item> \<open>Php_Invariant\<close>, \<open>Php_Safety\<close>, \<open>Php_Api\<close>, \<open>Php_Script\<close>: the invariant of the extension (exact reference counts of logs and entries, a
    valid timer is embedded in a live object of the right class, an object whose method or free handler runs keeps its storage,
    the timer layer's invariant), every operation keeps it, the step relation \<open>php_reachable\<close> of everything that can happen in a request, with user
    functions and destructors that make arbitrary calls of the extension themselves, and the theorems on it.
  \<^item> \<open>Php_Start\<close>, \<open>Php_Module\<close>: starting is never silent; module and request functions.
  \<^item> \<open>Php_Classes\<close>, \<open>Php_Dispatch\<close> (\<^verbatim>\<open>excimer.c\<close>): argument information, method tables, registration of the classes, lookup of
    a method by name and parsing of its parameters; every such call is a step of \<open>php_reachable\<close> or changes nothing, and the
    methods by which logs implement the interfaces of the engine do under their names what the operations on values do.
  \<^item> \<open>Module_Entry\<close> (\<^verbatim>\<open>excimer.c\<close>): the module entry and the order in which the engine uses it; one request after the other.

  \<^bold>\<open>Interfaces.\<close> The timer layer and everything above it use a backend only through \<open>timer_backend\<close>
  (\<open>excimer_backend\<close>, \<open>profiler_backend\<close> extend it), interpreted for both backends; the profiler uses the log
  through \<open>sample_log\<close>; iteration is proved once in \<open>log_cursor\<close> and interpreted for the engine's iterator and for
  the \<^verbatim>\<open>Iterator\<close> methods; the pending list is an instance of \<open>fifo_set\<close>.

  \<^bold>\<open>Parameters.\<close> What the extension takes from elsewhere is an argument: rounding of floating-point operations,
  the conversion of doubles out of range, which values are callable, what calling them does and what
  giving up a reference to them does (record \<open>engine\<close>), which values it converts to integers and numbers (\<open>zpp_rules\<close>), the engine's sort (\<open>zend_sort_ok\<close>), the interrupt hooks of other extensions (\<open>foreign_hook\<close>), the
  answers of the system. In \<open>Php_Script\<close> what a user function or the destructor of a callback does is
  any sequence of calls of the extension, chosen from the state, nested to any depth.

  \<^bold>\<open>Bounds.\<close> The loops over frames are given as many rounds as there are frames, which is enough because
  frame links decrease; that they return is part of the theorems. Loops that wait for another
  thread, and the delivery loop of the interrupt hook, take \<open>loop_fuel\<close> rounds; \<open>posix_init_succeeds\<close> and
  \<open>interrupt_delivers_all\<close> show for which bounds they end. Safety theorems hold for every bound.

  \<^bold>\<open>What modelling showed.\<close> \<^verbatim>\<open>excimer_set_timeout\<close> uses the timer object after freeing it when the value is not
  callable (\<open>set_timeout_frees_then_writes\<close>). In a thread-safe build the notify function uses the pending list
  of the handler thread (\<open>event_on_wrong_list\<close>); the other theorems on the timer layer are about a build in which
  the threads share one list. \<^verbatim>\<open>timerlib_timespec_add\<close> leaves a sum of exactly one second unnormalised
  (\<open>timespec_add_value\<close>). Two functions whose calls start on one line share a frame (\<open>same_line_shares_frame\<close>).
  Destroying a log drops references without freeing, so that
  the names of the truncation marker are leaked (\<open>log_strings_exact\<close>). Formatting a log leaks the line
  of every trace (\<open>format_collapsed_leaves_lines\<close>), \<^verbatim>\<open>setFlushCallback\<close> the callback it replaces (\<open>callback_references_exact\<close>), and a callback whose
  destructor sets the callback of the same object is released twice (\<open>callback_destructor_reentry\<close>). The comparison of the aggregation overflows (\<open>aggr_by_func_sorted\<close>). A log whose current entry is cached is not
  freed when the last variable is gone (\<open>cached_entry_keeps_log\<close>). Objects are cloned by the engine's handler, which
  does not know their layout (\<open>class_registration_sound\<close>).

  \<^bold>\<open>Not modelled.\<close> The allocation of arrays, which belongs to the engine. In the theories of the PHP classes a log has the contents
  of its strings and destroying it is its removal; giving up a callback runs the PHP code of its destructor, whether or not the
  reference was the last one, but the values have no counts. The references to strings and callback values are the
  subject of \<open>Log_Memory\<close>, \<open>Format_Memory\<close> and \<open>Callback_Memory\<close>, so that \<open>extension_memory_safe\<close> is about
  objects, logs, entries, iterators and timers, and the double release of a callback value is in \<open>Callback_Memory\<close> only.
  A posted event and an operation of the PHP thread each happen at once there; \<open>Timer_Threads\<close> shows for the timer layer that
  the mutex makes it so. What the engine does when it clones an object, and user code that runs in error handlers (at a warning of the
  extension) and autoloaders. Macros
  that select functions of old versions of PHP, prototypes, the thread-local cache of the build.
\<close>

section \<open>Reading the logs of a request\<close>

text \<open>C29 (termination): every reading method of every log that PHP code can get hold of returns, whatever was
  recorded: the three exports run to the end, every index that exists gives an entry whose accessors
  return, and the log's counter is the sum of the event counts of its entries.\<close>

theorem reachable_logs_readable:
  fixes s :: "(posix_timer, 'z) php_scheme"
  assumes "foreign_hook hook"
    and "php_reachable (posix_timerlib np) (script_engine (posix_timerlib np) base hook me scripts n) hook me s"
    and "objects s l = Some (Obj_Log ob)" and "zend_sort_ok zsort"
  shows "(\<exists>out data rows. ExcimerLog_formatCollapsed ob = Inr out \<and> ExcimerLog_getSpeedscopeData ob = Inr data \<and>
      ExcimerLog_aggregateByFunction zsort ob = Inr rows) \<and>
    (\<forall>i. ExcimerLog_offsetExists ob i \<longrightarrow> (\<exists>t k tr. ExcimerLogEntry_getTimestamp fl (obj_log ob) i = Inr t \<and>
      ExcimerLogEntry_getEventCount (obj_log ob) i = Inr k \<and> ExcimerLogEntry_getTrace (obj_log ob) i = Inr tr)) \<and>
    ExcimerLog_getEventCount ob = (\<Sum>e \<leftarrow> entries (obj_log ob). entry_event_count e)"
proof -
  have inv: "php_inv (\<lambda>_. 0) posix_live me s" by (rule posix_profiler.script_inv [OF assms(1,2)])
  then have wf: "log_wf (obj_log ob)" using assms(3) by (rule php_invD(6))
  have "ExcimerLog_formatCollapsed ob = Inr (concat (map render_line
      (group_by (\<lambda>e. stack_line (obj_log ob) (frame_index e)) entry_event_count (entries (obj_log ob)))))"
    by (simp add: ExcimerLog_formatCollapsed_def excimer_log_format_collapsed_def collapsed_lines_eq [OF wf])
  moreover obtain data where "ExcimerLog_getSpeedscopeData ob = Inr data"
    unfolding ExcimerLog_getSpeedscopeData_def by (rule speedscope_run [OF wf])
  moreover obtain rows where "ExcimerLog_aggregateByFunction zsort ob = Inr rows"
    unfolding ExcimerLog_aggregateByFunction_def by (rule aggr_by_func_rel [OF wf assms(4)])
  moreover have "ExcimerLog_getEventCount ob = (\<Sum>e \<leftarrow> entries (obj_log ob). entry_event_count e)"
    using wf by (simp add: ExcimerLog_getEventCount_def log_wf_def entries_wf_def)
  ultimately show ?thesis using entry_reads(2,3) [OF wf] entry_reads_at(1) [OF wf entry_reads(1) [OF wf], of _ fl] by blast
qed

theorem reachable_logs_readable_witness:
  "\<exists>s ob out. php_reachable (posix_timerlib True) demo_script_engine demo_hook 0 s \<and> objects s 1 = Some (Obj_Log ob) \<and>
    ExcimerLog_formatCollapsed ob = Inr out"
proof -
  obtain s where s: "php_reachable (posix_timerlib True) demo_script_engine demo_hook 0 s" "is_log 1 s"
    by (rule demo_profiler_reachable)
  then obtain ob where ob: "objects s 1 = Some (Obj_Log ob)" by (auto simp: is_log_def)
  from reachable_logs_readable [OF demo_foreign s(1) ob sort_cmp_ok] s(1) ob show ?thesis by blast
qed

end
